(* ===== verification/Bluedb_Prelude.thy ===== *)
theory Bluedb_Prelude
  imports Main "HOL-Library.Word" "HOL-Library.List_Lexorder" "HOL-Library.Product_Lexorder"
    "HOL-Library.Sublist"
begin

text \<open>
  Shared vocabulary of the development: the machine integers of the Rust sources and their checked
  and saturating arithmetic, big-endian byte encodings and the lexicographic order of byte strings
  (the order in which the storage engine iterates its keys), and the generic lemmas on maps, sums
  and folds that the component theories use.
\<close>

section \<open>Machine integers\<close>

type_synonym u8 = "8 word"
type_synonym u16 = "16 word"
type_synonym u32 = "32 word"
type_synonym u64 = "64 word"
type_synonym u128 = "128 word"
type_synonym bytes = "u8 list"

named_theorems word_arith \<open>facts that move checked and saturating word arithmetic to nat\<close>
named_theorems byte_simps \<open>facts about byte strings, prefixes and their order\<close>

text \<open>The wrap-around of signed 64-bit arithmetic on integers.\<close>

definition i64_wrap :: "int \<Rightarrow> int" where
  "i64_wrap x = (x + 2 ^ 63) mod 2 ^ 64 - 2 ^ 63"

lemma i64_wrap_id [simp]: "- (2 ^ 63) \<le> x \<Longrightarrow> x < 2 ^ 63 \<Longrightarrow> i64_wrap x = x"
  by (simp add: i64_wrap_def)

lemma i64_wrap_range: "- (2 ^ 63) \<le> i64_wrap x \<and> i64_wrap x < 2 ^ 63"
  by (simp add: i64_wrap_def)

definition checked_add :: "'a::len word \<Rightarrow> 'a word \<Rightarrow> 'a word option" where
  "checked_add a b = (if unat a + unat b < 2 ^ LENGTH('a) then Some (a + b) else None)"

definition checked_sub :: "'a::len word \<Rightarrow> 'a word \<Rightarrow> 'a word option" where
  "checked_sub a b = (if b \<le> a then Some (a - b) else None)"

definition checked_mul :: "'a::len word \<Rightarrow> 'a word \<Rightarrow> 'a word option" where
  "checked_mul a b = (if unat a * unat b < 2 ^ LENGTH('a) then Some (a * b) else None)"

definition saturating_add :: "'a::len word \<Rightarrow> 'a word \<Rightarrow> 'a word" where
  "saturating_add a b = (if unat a + unat b < 2 ^ LENGTH('a) then a + b else - 1)"

definition saturating_sub :: "'a::len word \<Rightarrow> 'a word \<Rightarrow> 'a word" where
  "saturating_sub a b = (if b \<le> a then a - b else 0)"

definition saturating_mul :: "'a::len word \<Rightarrow> 'a word \<Rightarrow> 'a word" where
  "saturating_mul a b = (if unat a * unat b < 2 ^ LENGTH('a) then a * b else - 1)"

lemma unat_minus_one_eq_max: "unat (- 1 :: 'a::len word) = 2 ^ LENGTH('a) - 1"
  by (simp add: unsigned_minus_1_eq_mask mask_eq_exp_minus_1)

lemma unat_add_no_overflow:
  fixes a b :: "'a::len word"
  assumes "unat a + unat b < 2 ^ LENGTH('a)"
  shows "unat (a + b) = unat a + unat b"
  using assms by (simp add: unat_word_ariths)

lemma unat_sub_le:
  fixes a b :: "'a::len word"
  assumes "b \<le> a"
  shows "unat (a - b) = unat a - unat b"
  using assms by (simp add: unat_sub word_le_nat_alt)

lemma word_less_succ: "e \<noteq> - 1 \<Longrightarrow> e < e + (1 :: u64)"
proof -
  assume "e \<noteq> - 1"
  then have "unat e \<noteq> 2 ^ 64 - 1"
    using word_unat_eq_iff [of e "- 1"] by (simp add: unsigned_minus_1_eq_mask mask_eq_exp_minus_1)
  then have "unat e + 1 < 2 ^ 64" using unsigned_less [where w = e and 'a = nat] by simp
  then show ?thesis by (simp add: word_less_nat_alt unat_word_ariths)
qed

text \<open>Code equations over \<open>int\<close>, so that evaluation works on binary numbers.\<close>

lemma unat_bound_int:
  fixes a b :: "'a::len word"
  shows "unat a + unat b < 2 ^ LENGTH('a) \<longleftrightarrow> uint a + uint b < 2 ^ LENGTH('a)"
    and "unat a * unat b < 2 ^ LENGTH('a) \<longleftrightarrow> uint a * uint b < 2 ^ LENGTH('a)"
proof -
  have "int (unat a + unat b) < int (2 ^ LENGTH('a)) \<longleftrightarrow> uint a + uint b < 2 ^ LENGTH('a)"
    "int (unat a * unat b) < int (2 ^ LENGTH('a)) \<longleftrightarrow> uint a * uint b < 2 ^ LENGTH('a)"
    by simp_all
  then show "unat a + unat b < 2 ^ LENGTH('a) \<longleftrightarrow> uint a + uint b < 2 ^ LENGTH('a)"
    and "unat a * unat b < 2 ^ LENGTH('a) \<longleftrightarrow> uint a * uint b < 2 ^ LENGTH('a)"
    by (simp_all only: of_nat_less_iff)
qed

lemma checked_arith_code [code]:
  "checked_add a b = (if uint a + uint b < 2 ^ LENGTH('a) then Some (a + b) else None)"
  "checked_mul a b = (if uint a * uint b < 2 ^ LENGTH('a) then Some (a * b) else None)"
  "saturating_add a b = (if uint a + uint b < 2 ^ LENGTH('a) then a + b else - 1)"
  "saturating_mul a b = (if uint a * uint b < 2 ^ LENGTH('a) then a * b else - 1)"
  for a b :: "'a::len word"
  by (simp_all only: checked_add_def checked_mul_def saturating_add_def saturating_mul_def
      unat_bound_int)

lemma checked_add_SomeD [word_arith]:
  assumes "checked_add a b = Some c"
  shows "unat c = unat a + unat b"
  using assms by (auto simp: checked_add_def unat_add_no_overflow split: if_splits)

lemma checked_add_None_iff [word_arith]:
  fixes a b :: "'a::len word"
  shows "checked_add a b = None \<longleftrightarrow> 2 ^ LENGTH('a) \<le> unat a + unat b"
  by (auto simp: checked_add_def)

lemma checked_sub_SomeD [word_arith]:
  assumes "checked_sub a b = Some c"
  shows "unat c = unat a - unat b \<and> unat b \<le> unat a"
  using assms by (auto simp: checked_sub_def unat_sub_le word_le_nat_alt split: if_splits)

lemma checked_sub_None_iff [word_arith]: "checked_sub a b = None \<longleftrightarrow> unat a < unat b"
  by (auto simp: checked_sub_def word_le_nat_alt)

lemma unat_saturating_add [word_arith]:
  fixes a b :: "'a::len word"
  shows "unat (saturating_add a b) = min (unat a + unat b) (2 ^ LENGTH('a) - 1)"
  by (auto simp: saturating_add_def unat_add_no_overflow unat_minus_one_eq_max)

lemma unat_saturating_sub [word_arith]: "unat (saturating_sub a b) = unat a - unat b"
  by (auto simp: saturating_sub_def unat_sub_le word_le_nat_alt)

lemma unat_saturating_mul [word_arith]:
  fixes a b :: "'a::len word"
  shows "unat (saturating_mul a b) = min (unat a * unat b) (2 ^ LENGTH('a) - 1)"
  by (auto simp: saturating_mul_def unat_word_ariths unat_minus_one_eq_max)

lemma checked_mul_SomeD [word_arith]:
  assumes "checked_mul a b = Some c"
  shows "unat c = unat a * unat b"
  using assms by (auto simp: checked_mul_def unat_word_ariths split: if_splits)

section \<open>Big-endian bytes\<close>

text \<open>\<open>be_bytes n v\<close> are the \<open>n\<close> bytes of \<open>v\<close>, most significant first: Rust's
  \<open>to_be_bytes\<close> with \<open>n = 4, 8, 16\<close> for \<open>u32, u64, u128\<close>.\<close>

primrec be_bytes :: "nat \<Rightarrow> nat \<Rightarrow> bytes" where
  "be_bytes 0 v = []"
| "be_bytes (Suc n) v = word_of_nat (v div 256 ^ n) # be_bytes n (v mod 256 ^ n)"

definition from_be_bytes :: "bytes \<Rightarrow> nat" where
  "from_be_bytes bs = foldl (\<lambda>acc b. acc * 256 + unat b) 0 bs"

definition u32_be :: "u32 \<Rightarrow> bytes" where
  "u32_be x = be_bytes 4 (unat x)"

definition u64_be :: "u64 \<Rightarrow> bytes" where
  "u64_be x = be_bytes 8 (unat x)"

definition u128_be :: "u128 \<Rightarrow> bytes" where
  "u128_be x = be_bytes 16 (unat x)"

lemma length_be_bytes [simp, byte_simps]: "length (be_bytes n v) = n"
  by (induction n arbitrary: v) auto

lemma unat_byte_of_nat: "v < 256 \<Longrightarrow> unat (word_of_nat v :: u8) = v"
  by (simp add: unsigned_of_nat take_bit_eq_mod)

lemma foldl_be: "foldl (\<lambda>acc b. acc * 256 + unat b) a bs = a * 256 ^ length bs + from_be_bytes bs"
  for bs :: bytes
proof (induction bs arbitrary: a)
  case Nil
  then show ?case by (simp add: from_be_bytes_def)
next
  case (Cons b bs)
  have "from_be_bytes (b # bs) = unat b * 256 ^ length bs + from_be_bytes bs"
    using Cons [of "unat b"] by (simp add: from_be_bytes_def)
  with Cons [of "a * 256 + unat b"] show ?case by (simp add: algebra_simps)
qed

lemma from_be_bytes_simps [simp]:
  "from_be_bytes [] = 0"
  "from_be_bytes (b # bs) = unat b * 256 ^ length bs + from_be_bytes bs"
  using foldl_be [of "unat b" bs] by (simp_all add: from_be_bytes_def)

lemma from_be_bytes_be_bytes:
  assumes "v < 256 ^ n"
  shows "from_be_bytes (be_bytes n v) = v"
  using assms
proof (induction n arbitrary: v)
  case 0
  then show ?case by simp
next
  case (Suc n)
  have "v div 256 ^ n < 256"
    using Suc.prems by (simp add: less_mult_imp_div_less)
  then have "from_be_bytes (be_bytes (Suc n) v) = v div 256 ^ n * 256 ^ n + v mod 256 ^ n"
    using Suc.IH [of "v mod 256 ^ n"] by (simp add: unat_byte_of_nat)
  then show ?case by (simp only: div_mult_mod_eq)
qed

lemma be_bytes_inj:
  assumes "be_bytes n v = be_bytes n w" and "v < 256 ^ n" and "w < 256 ^ n"
  shows "v = w"
  using assms from_be_bytes_be_bytes by metis

lemma Cons_less_Cons_iff: "(x # xs < y # ys) \<longleftrightarrow> x < y \<or> x = y \<and> xs < (ys :: 'a::order list)"
  by (auto simp: list_less_def)

lemma append_less_append_iff [simp, byte_simps]:
  "(ps @ xs < ps @ ys) \<longleftrightarrow> xs < (ys :: 'a::order list)"
  by (induction ps) (auto simp: Cons_less_Cons_iff)

lemma Nil_less_iff: "[] < xs \<longleftrightarrow> xs \<noteq> ([] :: 'a::order list)"
  by (cases xs) (auto simp: list_less_def)

lemma not_less_Nil [simp]: "\<not> xs < ([] :: 'a::order list)"
  by (simp add: list_less_def)

lemma less_div_mod_iff:
  fixes v w b :: nat
  shows "v < w \<longleftrightarrow> v div b < w div b \<or> v div b = w div b \<and> v mod b < w mod b"
proof -
  consider "v div b < w div b" | "v div b = w div b" | "w div b < v div b"
    by linarith
  then show ?thesis
  proof cases
    case 1
    then show ?thesis using div_le_mono [of w v b] by (metis leD leI)
  next
    case 2
    then show ?thesis
      by (metis div_mult_mod_eq nat_add_left_cancel_less less_irrefl)
  next
    case 3
    then show ?thesis using div_le_mono [of v w b] by (metis leD nless_le)
  qed
qed

lemma be_bytes_less_iff:
  assumes "v < 256 ^ n" and "w < 256 ^ n"
  shows "be_bytes n v < be_bytes n w \<longleftrightarrow> v < w"
  using assms
proof (induction n arbitrary: v w)
  case 0
  then show ?case by simp
next
  case (Suc n)
  let ?b = "(256::nat) ^ n"
  have dv: "v div ?b < 256" and dw: "w div ?b < 256"
    using Suc.prems by (simp_all add: less_mult_imp_div_less)
  have hd: "(word_of_nat (v div ?b) :: u8) < word_of_nat (w div ?b) \<longleftrightarrow> v div ?b < w div ?b"
    by (simp add: word_less_nat_alt unat_byte_of_nat dv dw)
  have eq: "(word_of_nat (v div ?b) :: u8) = word_of_nat (w div ?b) \<longleftrightarrow> v div ?b = w div ?b"
    by (metis dv dw unat_byte_of_nat)
  have tl: "be_bytes n (v mod ?b) < be_bytes n (w mod ?b) \<longleftrightarrow> v mod ?b < w mod ?b"
    by (rule Suc.IH) simp_all
  have "v < w \<longleftrightarrow> v div ?b < w div ?b \<or> v div ?b = w div ?b \<and> v mod ?b < w mod ?b"
    by (rule less_div_mod_iff)
  then show ?case
    by (simp add: Cons_less_Cons_iff hd eq tl)
qed

lemma unat_less_256:
  "unat (x :: u32) < 256 ^ 4" "unat (y :: u64) < 256 ^ 8" "unat (z :: u128) < 256 ^ 16"
  using unsigned_less [of x, where 'a = nat] unsigned_less [of y, where 'a = nat]
    unsigned_less [of z, where 'a = nat] by simp_all

lemma u32_be_inj [simp]: "u32_be x = u32_be y \<longleftrightarrow> x = y"
  using be_bytes_inj [of 4 "unat x" "unat y"] unat_less_256 unsigned_word_eqI [of x y, where 'a = nat]
  by (auto simp: u32_be_def)

lemma u64_be_inj [simp]: "u64_be x = u64_be y \<longleftrightarrow> x = y"
  using be_bytes_inj [of 8 "unat x" "unat y"] unat_less_256 unsigned_word_eqI [of x y, where 'a = nat]
  by (auto simp: u64_be_def)

lemma u128_be_inj [simp]: "u128_be x = u128_be y \<longleftrightarrow> x = y"
  using be_bytes_inj [of 16 "unat x" "unat y"] unat_less_256 unsigned_word_eqI [of x y, where 'a = nat]
  by (auto simp: u128_be_def)

lemma length_word_be [simp, byte_simps]:
  "length (u32_be x) = 4" "length (u64_be y) = 8" "length (u128_be z) = 16"
  by (simp_all add: u32_be_def u64_be_def u128_be_def)

lemma u64_be_less_iff [byte_simps]: "u64_be x < u64_be y \<longleftrightarrow> x < y"
  using be_bytes_less_iff [of "unat x" 8 "unat y"] unat_less_256
  by (simp add: u64_be_def word_less_nat_alt)

lemma u128_be_less_iff [byte_simps]: "u128_be x < u128_be y \<longleftrightarrow> x < y"
  using be_bytes_less_iff [of "unat x" 16 "unat y"] unat_less_256
  by (simp add: u128_be_def word_less_nat_alt)

lemma from_be_u64_be [simp]: "from_be_bytes (u64_be x) = unat x"
  unfolding u64_be_def by (rule from_be_bytes_be_bytes) (rule unat_less_256)

lemma from_be_u128_be [simp]: "from_be_bytes (u128_be x) = unat x"
  unfolding u128_be_def by (rule from_be_bytes_be_bytes) (rule unat_less_256)

text \<open>Two byte strings of the same length decide the order of anything appended to them.\<close>

lemma append_less_append_same_length:
  assumes "length xs = length ys"
  shows "xs @ us < ys @ vs \<longleftrightarrow> xs < ys \<or> xs = ys \<and> us < (vs :: 'a::linorder list)"
  using assms by (induction xs ys rule: list_induct2) (auto simp: Cons_less_Cons_iff)

lemma append_less_append_self: "xs < xs @ ys \<longleftrightarrow> ys \<noteq> ([] :: 'a::order list)"
  using append_less_append_iff [of xs "[]" ys] by (simp add: Nil_less_iff)

section \<open>Maps and sums\<close>

lemma sum_changed_at:
  fixes f g :: "'k \<Rightarrow> nat"
  assumes "finite A" and "k \<in> A" and "\<And>x. x \<in> A \<Longrightarrow> x \<noteq> k \<Longrightarrow> g x = f x"
  shows "sum g A + f k = sum f A + g k"
proof -
  have "sum g (A - {k}) = sum f (A - {k})"
    using assms(3) by (intro sum.cong) auto
  then show ?thesis
    using assms(1,2) by (simp add: sum.remove)
qed

lemma map_add_upd_eq: "m ++ n(k \<mapsto> v) = (m ++ n)(k \<mapsto> v)"
  by (simp add: map_add_def fun_eq_iff)

section \<open>Results\<close>

primrec and_then :: "'e + 'a \<Rightarrow> ('a \<Rightarrow> 'e + 'b) \<Rightarrow> 'e + 'b" where
  "and_then (Inl e) f = Inl e"
| "and_then (Inr x) f = f x"

lemma and_then_Inr_iff: "and_then r f = Inr y \<longleftrightarrow> (\<exists>x. r = Inr x \<and> f x = Inr y)"
  by (cases r) auto

definition ok_or :: "'e \<Rightarrow> 'a option \<Rightarrow> 'e + 'a" where
  "ok_or e x = (case x of None \<Rightarrow> Inl e | Some v \<Rightarrow> Inr v)"

lemma ok_or_simps [simp]: "ok_or e None = Inl e" "ok_or e (Some v) = Inr v"
  by (simp_all add: ok_or_def)

end
