(* ===== verification/Ledger_Model.thy ===== *)
theory Ledger_Model
  imports Bluedb_Prelude
begin

text \<open>
  The ledger's data model, \<open>bluedb-ledger/src/model.rs\<close>: account and transfer records, their
  flag sets, the per-item result codes, the input validators in the order the code runs them, the
  classification of a transfer, the codes that burn an id, and the grouping of a batch into linked
  chains. Prefixes \<open>a_\<close> and \<open>t_\<close> distinguish the fields of the two structs, \<open>AF_\<close> and
  \<open>TF_\<close> their flags, \<open>CA_\<close> and \<open>CT_\<close> the two result enums.
\<close>

unbundle bit_operations_syntax

section \<open>Flags\<close>

type_synonym account_flags = u16
type_synonym transfer_flags = u16

definition AMOUNT_MAX :: u128 where "AMOUNT_MAX = - 1"
definition TIMESTAMP_MAX :: u64 where "TIMESTAMP_MAX = 2 ^ 63 - 1"

definition AF_NONE :: account_flags where "AF_NONE = 0"
definition AF_LINKED :: account_flags where "AF_LINKED = push_bit 0 1"
definition AF_DEBITS_MUST_NOT_EXCEED_CREDITS :: account_flags where "AF_DEBITS_MUST_NOT_EXCEED_CREDITS = push_bit 1 1"
definition AF_CREDITS_MUST_NOT_EXCEED_DEBITS :: account_flags where "AF_CREDITS_MUST_NOT_EXCEED_DEBITS = push_bit 2 1"
definition AF_HISTORY :: account_flags where "AF_HISTORY = push_bit 3 1"
definition AF_IMPORTED :: account_flags where "AF_IMPORTED = push_bit 4 1"
definition AF_CLOSED :: account_flags where "AF_CLOSED = push_bit 5 1"
definition AF_DEFINED :: u16 where "AF_DEFINED = 0b111111"

definition TF_NONE :: transfer_flags where "TF_NONE = 0"
definition TF_LINKED :: transfer_flags where "TF_LINKED = push_bit 0 1"
definition TF_PENDING :: transfer_flags where "TF_PENDING = push_bit 1 1"
definition TF_POST_PENDING_TRANSFER :: transfer_flags where "TF_POST_PENDING_TRANSFER = push_bit 2 1"
definition TF_VOID_PENDING_TRANSFER :: transfer_flags where "TF_VOID_PENDING_TRANSFER = push_bit 3 1"
definition TF_BALANCING_DEBIT :: transfer_flags where "TF_BALANCING_DEBIT = push_bit 4 1"
definition TF_BALANCING_CREDIT :: transfer_flags where "TF_BALANCING_CREDIT = push_bit 5 1"
definition TF_CLOSING_DEBIT :: transfer_flags where "TF_CLOSING_DEBIT = push_bit 6 1"
definition TF_CLOSING_CREDIT :: transfer_flags where "TF_CLOSING_CREDIT = push_bit 7 1"
definition TF_IMPORTED :: transfer_flags where "TF_IMPORTED = push_bit 8 1"
definition TF_DEFINED :: u16 where "TF_DEFINED = 0b111111111"

lemmas account_flag_defs = AF_NONE_def AF_LINKED_def AF_DEBITS_MUST_NOT_EXCEED_CREDITS_def
  AF_CREDITS_MUST_NOT_EXCEED_DEBITS_def
  AF_HISTORY_def AF_IMPORTED_def AF_CLOSED_def AF_DEFINED_def
lemmas transfer_flag_defs = TF_NONE_def TF_LINKED_def TF_PENDING_def TF_POST_PENDING_TRANSFER_def
  TF_VOID_PENDING_TRANSFER_def TF_BALANCING_DEBIT_def TF_BALANCING_CREDIT_def TF_CLOSING_DEBIT_def
  TF_CLOSING_CREDIT_def TF_IMPORTED_def TF_DEFINED_def

text \<open>\<open>contains\<close>: every bit of the second set is set in the first.\<close>

definition flags_contain :: "u16 \<Rightarrow> u16 \<Rightarrow> bool" where
  "flags_contain f g = (f AND g = g)"

definition account_has_reserved_bits :: "account_flags \<Rightarrow> bool" where
  "account_has_reserved_bits f = (f AND NOT AF_DEFINED \<noteq> 0)"

definition account_flags_exclusive_violation :: "account_flags \<Rightarrow> bool" where
  "account_flags_exclusive_violation f =
     (flags_contain f AF_DEBITS_MUST_NOT_EXCEED_CREDITS \<and>
      flags_contain f AF_CREDITS_MUST_NOT_EXCEED_DEBITS)"

definition flags_without :: "u16 \<Rightarrow> u16 \<Rightarrow> u16" where
  "flags_without f g = f AND NOT g"

definition transfer_has_reserved_bits :: "transfer_flags \<Rightarrow> bool" where
  "transfer_has_reserved_bits f = (f AND NOT TF_DEFINED \<noteq> 0)"

definition is_closing :: "transfer_flags \<Rightarrow> bool" where
  "is_closing f = (flags_contain f TF_CLOSING_DEBIT \<or> flags_contain f TF_CLOSING_CREDIT)"

definition transfer_flags_exclusive_violation :: "transfer_flags \<Rightarrow> bool" where
  "transfer_flags_exclusive_violation f =
     (let pending = flags_contain f TF_PENDING;
          post = flags_contain f TF_POST_PENDING_TRANSFER;
          void = flags_contain f TF_VOID_PENDING_TRANSFER;
          phase_count = length (filter (\<lambda>b. b) [pending, post, void]) in
      if phase_count > 1 then True
      else
        let balancing = flags_contain f TF_BALANCING_DEBIT \<or> flags_contain f TF_BALANCING_CREDIT;
            closing = is_closing f in
        if (post \<or> void) \<and> (balancing \<or> closing) then True else False)"

section \<open>Records\<close>

record account =
  a_id :: u128
  a_debits_pending :: u128
  a_debits_posted :: u128
  a_credits_pending :: u128
  a_credits_posted :: u128
  a_user_data_128 :: u128
  a_user_data_64 :: u64
  a_user_data_32 :: u32
  a_reserved :: u32
  a_ledger :: u32
  a_code :: u16
  a_flags :: account_flags
  a_timestamp :: u64

definition account_input :: "u128 \<Rightarrow> u32 \<Rightarrow> account" where
  "account_input aid ledger = \<lparr> a_id = aid, a_debits_pending = 0, a_debits_posted = 0,
     a_credits_pending = 0, a_credits_posted = 0, a_user_data_128 = 0, a_user_data_64 = 0,
     a_user_data_32 = 0, a_reserved = 0, a_ledger = ledger, a_code = 0, a_flags = AF_NONE,
     a_timestamp = 0 \<rparr>"

record transfer =
  t_id :: u128
  t_debit_account_id :: u128
  t_credit_account_id :: u128
  t_amount :: u128
  t_pending_id :: u128
  t_user_data_128 :: u128
  t_user_data_64 :: u64
  t_user_data_32 :: u32
  t_ledger :: u32
  t_code :: u16
  t_flags :: transfer_flags
  t_timeout :: u32
  t_timestamp :: u64

definition transfer_new :: "u128 \<Rightarrow> u128 \<Rightarrow> u128 \<Rightarrow> u128 \<Rightarrow> u32 \<Rightarrow> transfer" where
  "transfer_new tid debit credit amount ledger = \<lparr> t_id = tid, t_debit_account_id = debit,
     t_credit_account_id = credit, t_amount = amount, t_pending_id = 0, t_user_data_128 = 0,
     t_user_data_64 = 0, t_user_data_32 = 0, t_ledger = ledger, t_code = 0, t_flags = TF_NONE,
     t_timeout = 0, t_timestamp = 0 \<rparr>"

section \<open>Result codes\<close>

datatype (plugins only: code) create_account_result = CA_Created | CA_LinkedEventFailed | CA_LinkedEventChainOpen
    | CA_ImportedEventExpected | CA_ImportedEventNotExpected | CA_TimestampMustBeZero
    | CA_ImportedEventTimestampOutOfRange | CA_ImportedEventTimestampMustNotAdvance
    | CA_ReservedField | CA_ReservedFlag | CA_IdMustNotBeZero | CA_IdMustNotBeIntMax
    | CA_ExistsWithDifferentFlags | CA_ExistsWithDifferentUserData128
    | CA_ExistsWithDifferentUserData64 | CA_ExistsWithDifferentUserData32
    | CA_ExistsWithDifferentLedger | CA_ExistsWithDifferentCode | CA_Exists
    | CA_FlagsAreMutuallyExclusive | CA_DebitsPendingMustBeZero | CA_DebitsPostedMustBeZero
    | CA_CreditsPendingMustBeZero | CA_CreditsPostedMustBeZero | CA_LedgerMustNotBeZero
    | CA_CodeMustNotBeZero | CA_ImportedEventTimestampMustNotRegress

datatype (plugins only: code) create_transfer_result = CT_Created | CT_LinkedEventFailed | CT_LinkedEventChainOpen
    | CT_ImportedEventExpected | CT_ImportedEventNotExpected | CT_TimestampMustBeZero
    | CT_ImportedEventTimestampOutOfRange | CT_ImportedEventTimestampMustNotAdvance
    | CT_ReservedFlag | CT_IdMustNotBeZero | CT_IdMustNotBeIntMax | CT_ExistsWithDifferentFlags
    | CT_ExistsWithDifferentPendingId | CT_ExistsWithDifferentTimeout
    | CT_ExistsWithDifferentDebitAccountId | CT_ExistsWithDifferentCreditAccountId
    | CT_ExistsWithDifferentAmount | CT_ExistsWithDifferentUserData128
    | CT_ExistsWithDifferentUserData64 | CT_ExistsWithDifferentUserData32
    | CT_ExistsWithDifferentLedger | CT_ExistsWithDifferentCode | CT_Exists | CT_IdAlreadyFailed
    | CT_FlagsAreMutuallyExclusive | CT_DebitAccountIdMustNotBeZero
    | CT_DebitAccountIdMustNotBeIntMax | CT_CreditAccountIdMustNotBeZero
    | CT_CreditAccountIdMustNotBeIntMax | CT_AccountsMustBeDifferent | CT_PendingIdMustBeZero
    | CT_PendingIdMustNotBeZero | CT_PendingIdMustNotBeIntMax | CT_PendingIdMustBeDifferent
    | CT_TimeoutReservedForPendingTransfer | CT_ClosingTransferMustBePending
    | CT_LedgerMustNotBeZero | CT_CodeMustNotBeZero | CT_DebitAccountNotFound
    | CT_CreditAccountNotFound | CT_AccountsMustHaveTheSameLedger
    | CT_TransferMustHaveTheSameLedgerAsAccounts | CT_PendingTransferNotFound
    | CT_PendingTransferNotPending | CT_PendingTransferHasDifferentDebitAccountId
    | CT_PendingTransferHasDifferentCreditAccountId | CT_PendingTransferHasDifferentLedger
    | CT_PendingTransferHasDifferentCode | CT_ExceedsPendingTransferAmount
    | CT_PendingTransferHasDifferentAmount | CT_PendingTransferAlreadyPosted
    | CT_PendingTransferAlreadyVoided | CT_PendingTransferExpired
    | CT_ImportedEventTimestampMustNotRegress | CT_ImportedEventTimestampMustPostdateDebitAccount
    | CT_ImportedEventTimestampMustPostdateCreditAccount | CT_ImportedEventTimeoutMustBeZero
    | CT_DebitAccountAlreadyClosed | CT_CreditAccountAlreadyClosed | CT_OverflowsDebitsPending
    | CT_OverflowsCreditsPending | CT_OverflowsDebitsPosted | CT_OverflowsCreditsPosted
    | CT_OverflowsDebits | CT_OverflowsCredits | CT_OverflowsTimeout | CT_ExceedsCredits
    | CT_ExceedsDebits

datatype pending_status = Posted | Voided | Expired

datatype transfer_op = Regular | PendingReserve | Post | Void

definition classify :: "transfer \<Rightarrow> transfer_op" where
  "classify t =
     (if flags_contain (t_flags t) TF_POST_PENDING_TRANSFER then Post
      else if flags_contain (t_flags t) TF_VOID_PENDING_TRANSFER then Void
      else if flags_contain (t_flags t) TF_PENDING then PendingReserve
      else Regular)"

definition transfer_burns_id :: "create_transfer_result \<Rightarrow> bool" where
  "transfer_burns_id r =
     (r \<in> set [CT_DebitAccountNotFound, CT_CreditAccountNotFound, CT_PendingTransferNotFound,
        CT_ExceedsCredits, CT_ExceedsDebits, CT_DebitAccountAlreadyClosed,
        CT_CreditAccountAlreadyClosed])"

section \<open>Chains\<close>

record chain =
  c_start :: nat
  c_end :: nat
  c_open :: bool

text \<open>The inner loop: the first position from \<open>j\<close> on that is not linked, or the length.\<close>

function chain_scan :: "bool list \<Rightarrow> nat \<Rightarrow> nat" where
  "chain_scan linked j =
     (if j < length linked \<and> linked ! j then chain_scan linked (Suc j) else j)"
  by pat_completeness auto
termination
  by (relation "measure (\<lambda>(linked, j). length linked - j)") auto

declare chain_scan.simps [simp del]

lemma chain_scan_ge: "j \<le> chain_scan linked j"
proof (induction linked j rule: chain_scan.induct)
  case (1 linked j)
  then show ?case by (cases "j < length linked \<and> linked ! j")
      (auto simp: chain_scan.simps [of linked j])
qed

text \<open>The outer loop, from position \<open>i\<close> on.\<close>

function chains_from :: "bool list \<Rightarrow> nat \<Rightarrow> chain list" where
  "chains_from linked i =
     (if i < length linked then
        let j = chain_scan linked i in
        if j < length linked
        then \<lparr> c_start = i, c_end = j, c_open = False \<rparr> # chains_from linked (j + 1)
        else \<lparr> c_start = i, c_end = j - 1, c_open = True \<rparr> # chains_from linked j
      else [])"
  by pat_completeness auto
termination
proof (relation "measure (\<lambda>(linked, i). length linked - i)", goal_cases)
  case (2 linked i j)
  then show ?case using chain_scan_ge [of i linked] by auto
next
  case (3 linked i j)
  then show ?case using chain_scan_ge [of i linked] by auto
qed auto

declare chains_from.simps [simp del]

definition chains :: "bool list \<Rightarrow> chain list" where
  "chains linked = chains_from linked 0"

section \<open>Account validators\<close>

definition validate_account_pre_existence ::
  "account \<Rightarrow> bool \<Rightarrow> u64 \<Rightarrow> create_account_result option" where
  "validate_account_pre_existence a batch_imported now =
     (let imported = flags_contain (a_flags a) AF_IMPORTED in
      if batch_imported \<and> \<not> imported then Some CA_ImportedEventExpected
      else if \<not> batch_imported \<and> imported then Some CA_ImportedEventNotExpected
      else if imported \<and> (a_timestamp a = 0 \<or> a_timestamp a > TIMESTAMP_MAX)
        then Some CA_ImportedEventTimestampOutOfRange
      else if imported \<and> a_timestamp a > now then Some CA_ImportedEventTimestampMustNotAdvance
      else if \<not> imported \<and> a_timestamp a \<noteq> 0 then Some CA_TimestampMustBeZero
      else if a_reserved a \<noteq> 0 then Some CA_ReservedField
      else if account_has_reserved_bits (a_flags a) then Some CA_ReservedFlag
      else if a_id a = 0 then Some CA_IdMustNotBeZero
      else if a_id a = - 1 then Some CA_IdMustNotBeIntMax
      else None)"

definition validate_account_post_existence :: "account \<Rightarrow> create_account_result option" where
  "validate_account_post_existence a =
     (if account_flags_exclusive_violation (a_flags a) then Some CA_FlagsAreMutuallyExclusive
      else if a_debits_pending a \<noteq> 0 then Some CA_DebitsPendingMustBeZero
      else if a_debits_posted a \<noteq> 0 then Some CA_DebitsPostedMustBeZero
      else if a_credits_pending a \<noteq> 0 then Some CA_CreditsPendingMustBeZero
      else if a_credits_posted a \<noteq> 0 then Some CA_CreditsPostedMustBeZero
      else if a_ledger a = 0 then Some CA_LedgerMustNotBeZero
      else if a_code a = 0 then Some CA_CodeMustNotBeZero
      else None)"

definition account_exists_result :: "account \<Rightarrow> account \<Rightarrow> create_account_result" where
  "account_exists_result incoming existing =
     (if a_flags incoming \<noteq> a_flags existing then CA_ExistsWithDifferentFlags
      else if a_user_data_128 incoming \<noteq> a_user_data_128 existing
        then CA_ExistsWithDifferentUserData128
      else if a_user_data_64 incoming \<noteq> a_user_data_64 existing
        then CA_ExistsWithDifferentUserData64
      else if a_user_data_32 incoming \<noteq> a_user_data_32 existing
        then CA_ExistsWithDifferentUserData32
      else if a_ledger incoming \<noteq> a_ledger existing then CA_ExistsWithDifferentLedger
      else if a_code incoming \<noteq> a_code existing then CA_ExistsWithDifferentCode
      else CA_Exists)"

section \<open>Transfer validators\<close>

definition validate_transfer_pre_existence ::
  "transfer \<Rightarrow> bool \<Rightarrow> u64 \<Rightarrow> create_transfer_result option" where
  "validate_transfer_pre_existence t batch_imported now =
     (let imported = flags_contain (t_flags t) TF_IMPORTED in
      if batch_imported \<and> \<not> imported then Some CT_ImportedEventExpected
      else if \<not> batch_imported \<and> imported then Some CT_ImportedEventNotExpected
      else if imported \<and> (t_timestamp t = 0 \<or> t_timestamp t > TIMESTAMP_MAX)
        then Some CT_ImportedEventTimestampOutOfRange
      else if imported \<and> t_timestamp t > now then Some CT_ImportedEventTimestampMustNotAdvance
      else if \<not> imported \<and> t_timestamp t \<noteq> 0 then Some CT_TimestampMustBeZero
      else if transfer_has_reserved_bits (t_flags t) then Some CT_ReservedFlag
      else if t_id t = 0 then Some CT_IdMustNotBeZero
      else if t_id t = - 1 then Some CT_IdMustNotBeIntMax
      else None)"

definition is_resolution :: "transfer \<Rightarrow> bool" where
  "is_resolution t = (flags_contain (t_flags t) TF_POST_PENDING_TRANSFER \<or>
     flags_contain (t_flags t) TF_VOID_PENDING_TRANSFER)"

definition validate_transfer_post_existence :: "transfer \<Rightarrow> create_transfer_result option" where
  "validate_transfer_post_existence t =
     (let res = is_resolution t in
      if transfer_flags_exclusive_violation (t_flags t) then Some CT_FlagsAreMutuallyExclusive
      else if \<not> res \<and> t_debit_account_id t = 0 then Some CT_DebitAccountIdMustNotBeZero
      else if \<not> res \<and> t_debit_account_id t = - 1 then Some CT_DebitAccountIdMustNotBeIntMax
      else if \<not> res \<and> t_credit_account_id t = 0 then Some CT_CreditAccountIdMustNotBeZero
      else if \<not> res \<and> t_credit_account_id t = - 1 then Some CT_CreditAccountIdMustNotBeIntMax
      else if \<not> res \<and> t_debit_account_id t = t_credit_account_id t
        then Some CT_AccountsMustBeDifferent
      else if res \<and> t_pending_id t = 0 then Some CT_PendingIdMustNotBeZero
      else if res \<and> t_pending_id t = - 1 then Some CT_PendingIdMustNotBeIntMax
      else if res \<and> t_pending_id t = t_id t then Some CT_PendingIdMustBeDifferent
      else if \<not> res \<and> t_pending_id t \<noteq> 0 then Some CT_PendingIdMustBeZero
      else if \<not> flags_contain (t_flags t) TF_PENDING \<and> t_timeout t \<noteq> 0
        then Some CT_TimeoutReservedForPendingTransfer
      else if is_closing (t_flags t) \<and> \<not> flags_contain (t_flags t) TF_PENDING
        then Some CT_ClosingTransferMustBePending
      else if \<not> res \<and> t_ledger t = 0 then Some CT_LedgerMustNotBeZero
      else if \<not> res \<and> t_code t = 0 then Some CT_CodeMustNotBeZero
      else None)"

text \<open>For a resolution a zero incoming field is a wildcard.\<close>

definition field_differs :: "bool \<Rightarrow> 'a::zero \<Rightarrow> 'a \<Rightarrow> bool" where
  "field_differs resolution inc ex = (if resolution then inc \<noteq> 0 \<and> inc \<noteq> ex else inc \<noteq> ex)"

definition transfer_exists_result :: "transfer \<Rightarrow> transfer \<Rightarrow> create_transfer_result" where
  "transfer_exists_result incoming existing =
     (let resolution = is_resolution incoming;
          amount_wildcard =
            (if flags_contain (t_flags incoming) TF_POST_PENDING_TRANSFER then AMOUNT_MAX else 0);
          amount_differs =
            (if resolution
             then t_amount incoming \<noteq> amount_wildcard \<and> t_amount incoming \<noteq> t_amount existing
             else t_amount incoming \<noteq> t_amount existing) in
      if t_flags incoming \<noteq> t_flags existing then CT_ExistsWithDifferentFlags
      else if t_pending_id incoming \<noteq> t_pending_id existing then CT_ExistsWithDifferentPendingId
      else if t_timeout incoming \<noteq> t_timeout existing then CT_ExistsWithDifferentTimeout
      else if field_differs resolution (t_debit_account_id incoming) (t_debit_account_id existing)
        then CT_ExistsWithDifferentDebitAccountId
      else if field_differs resolution (t_credit_account_id incoming) (t_credit_account_id existing)
        then CT_ExistsWithDifferentCreditAccountId
      else if amount_differs then CT_ExistsWithDifferentAmount
      else if field_differs resolution (t_user_data_128 incoming) (t_user_data_128 existing)
        then CT_ExistsWithDifferentUserData128
      else if field_differs resolution (t_user_data_64 incoming) (t_user_data_64 existing)
        then CT_ExistsWithDifferentUserData64
      else if field_differs resolution (t_user_data_32 incoming) (t_user_data_32 existing)
        then CT_ExistsWithDifferentUserData32
      else if field_differs resolution (t_ledger incoming) (t_ledger existing)
        then CT_ExistsWithDifferentLedger
      else if field_differs resolution (t_code incoming) (t_code existing)
        then CT_ExistsWithDifferentCode
      else CT_Exists)"

end
