(* ===== verification/Ledger_Chain.thy ===== *)
theory Ledger_Chain
  imports Ledger_Model
begin

text \<open>
  The chain driver that \<open>create_accounts\<close> and \<open>create_transfers\<close> of
  \<open>bluedb-ledger/src/ledger.rs\<close> share: the same loop stands twice in the source, once per
  operation. It walks the linked chains of a batch, applies the members of a chain one after the
  other and rolls the chain back on the first failing member. The driver is a function of the
  per-item step, so that both operations are instances of it and its properties are proved once,
  in the locale \<open>chain_driver\<close>.
\<close>

section \<open>The driver\<close>

text \<open>Members of a chain until the first result that is not a success: the results so far, the
  position of the offender, the state.\<close>

fun run_members ::
  "('s \<Rightarrow> 'i \<Rightarrow> 'e + 'r \<times> 's) \<Rightarrow> ('r \<Rightarrow> bool) \<Rightarrow> nat \<Rightarrow> 'i list \<Rightarrow> 's
   \<Rightarrow> 'e + 'r list \<times> nat option \<times> 's" where
  "run_members step ok pos [] s = Inr ([], None, s)"
| "run_members step ok pos (x # xs) s =
     (case step s x of
        Inl e \<Rightarrow> Inl e
      | Inr (r, s') \<Rightarrow>
          if ok r then
            (case run_members step ok (Suc pos) xs s' of
               Inl e \<Rightarrow> Inl e
             | Inr (rs, off, s'') \<Rightarrow> Inr (r # rs, off, s''))
          else Inr ([r], Some pos, s'))"

definition chain_items :: "'i list \<Rightarrow> chain \<Rightarrow> 'i list" where
  "chain_items items ch = take (Suc (c_end ch) - c_start ch) (drop (c_start ch) items)"

definition failed_results ::
  "'r \<Rightarrow> 'r \<Rightarrow> chain \<Rightarrow> nat option \<Rightarrow> 'r list \<Rightarrow> 'r list" where
  "failed_results open_code failed_code ch off rs =
     map (\<lambda>k. let pos = k - c_start ch in
            if c_open ch then (if k = c_end ch then open_code else failed_code)
            else if Some pos = off then rs ! pos
            else failed_code)
       [c_start ch ..< Suc (c_end ch)]"

definition apply_chain ::
  "('s \<Rightarrow> 'i \<Rightarrow> 'e + 'r \<times> 's) \<Rightarrow> ('r \<Rightarrow> bool) \<Rightarrow> ('s \<Rightarrow> 's \<Rightarrow> 's) \<Rightarrow> 'r \<Rightarrow> 'r
   \<Rightarrow> 'i list \<Rightarrow> chain \<Rightarrow> 's \<Rightarrow> 'e + 'r list \<times> 's" where
  "apply_chain step ok rollback open_code failed_code items ch s =
     (if c_start ch = c_end ch \<and> \<not> c_open ch then
        (case step s (items ! c_start ch) of
           Inl e \<Rightarrow> Inl e
         | Inr (r, s') \<Rightarrow> Inr ([r], s'))
      else
        (case (if c_open ch then Inr ([], None, s)
               else run_members step ok 0 (chain_items items ch) s) of
           Inl e \<Rightarrow> Inl e
         | Inr (rs, off, s') \<Rightarrow>
             if c_open ch \<or> off \<noteq> None
             then Inr (failed_results open_code failed_code ch off rs, rollback s s')
             else Inr (rs, s')))"

text \<open>All chains of a batch in order; \<open>after\<close> is what the operation does with the results of
  a chain (burning ids, for transfers).\<close>

fun apply_chains ::
  "('s \<Rightarrow> 'i \<Rightarrow> 'e + 'r \<times> 's) \<Rightarrow> ('r \<Rightarrow> bool) \<Rightarrow> ('s \<Rightarrow> 's \<Rightarrow> 's) \<Rightarrow> 'r \<Rightarrow> 'r
   \<Rightarrow> (chain \<Rightarrow> 'r list \<Rightarrow> 's \<Rightarrow> 's) \<Rightarrow> 'i list \<Rightarrow> chain list \<Rightarrow> 's \<Rightarrow> 'e + 'r list \<times> 's" where
  "apply_chains step ok rollback open_code failed_code after items [] s = Inr ([], s)"
| "apply_chains step ok rollback open_code failed_code after items (ch # chs) s =
     (case apply_chain step ok rollback open_code failed_code items ch s of
        Inl e \<Rightarrow> Inl e
      | Inr (rs, s1) \<Rightarrow>
          (case apply_chains step ok rollback open_code failed_code after items chs
                  (after ch rs s1) of
             Inl e \<Rightarrow> Inl e
           | Inr (rs', s2) \<Rightarrow> Inr (rs @ rs', s2)))"

section \<open>Chains partition the batch\<close>

lemma chain_scan_le: "j \<le> length linked \<Longrightarrow> chain_scan linked j \<le> length linked"
proof (induction linked j rule: chain_scan.induct)
  case (1 linked j)
  then show ?case
    by (cases "j < length linked \<and> linked ! j") (auto simp: chain_scan.simps [of linked j])
qed

lemma chain_scan_linked: "j \<le> k \<Longrightarrow> k < chain_scan linked j \<Longrightarrow> linked ! k"
proof (induction linked j rule: chain_scan.induct)
  case (1 linked j)
  then show ?case
    by (cases "j < length linked \<and> linked ! j"; cases "k = j")
      (auto simp: chain_scan.simps [of linked j])
qed

lemma chain_scan_stop: "chain_scan linked j < length linked \<Longrightarrow> \<not> linked ! chain_scan linked j"
proof (induction linked j rule: chain_scan.induct)
  case (1 linked j)
  then show ?case
    by (cases "j < length linked \<and> linked ! j") (auto simp: chain_scan.simps [of linked j])
qed

definition chain_range :: "chain \<Rightarrow> nat list" where
  "chain_range ch = [c_start ch ..< Suc (c_end ch)]"

text \<open>A chain is a maximal linked run: every event before the last is linked, and the last is
  linked exactly when the chain is open, which happens only at the end of the batch.\<close>

definition chain_ok :: "bool list \<Rightarrow> chain \<Rightarrow> bool" where
  "chain_ok linked ch = (c_start ch \<le> c_end ch \<and> c_end ch < length linked \<and>
     (\<forall>k. c_start ch \<le> k \<and> k < c_end ch \<longrightarrow> linked ! k) \<and>
     (linked ! c_end ch \<longleftrightarrow> c_open ch) \<and>
     (c_open ch \<longrightarrow> Suc (c_end ch) = length linked))"

lemma chains_from_partition:
  "i \<le> length linked \<Longrightarrow> concat (map chain_range (chains_from linked i)) = [i ..< length linked]"
proof (induction linked i rule: chains_from.induct)
  case (1 linked i)
  let ?j = "chain_scan linked i"
  have ij: "i \<le> ?j" by (rule chain_scan_ge)
  show ?case
  proof (cases "i < length linked")
    case False
    then show ?thesis by (simp add: chains_from.simps [of linked i])
  next
    case True
    show ?thesis
    proof (cases "?j < length linked")
      case j: True
      then have "concat (map chain_range (chains_from linked (?j + 1))) = [?j + 1 ..< length linked]"
        using 1 True by simp
      moreover have "[i ..< Suc ?j] @ [Suc ?j ..< length linked] = [i ..< length linked]"
        using j ij by (metis Suc_leI le_SucI le_add_diff_inverse upt_add_eq_append)
      moreover have "chain_range \<lparr> c_start = i, c_end = ?j, c_open = False \<rparr> = [i ..< Suc ?j]"
        by (simp add: chain_range_def)
      ultimately show ?thesis
        using True j by (simp add: chains_from.simps [of linked i] Let_def del: upt_Suc)
    next
      case j: False
      then have eq: "?j = length linked"
        using chain_scan_le [of i linked] True by simp
      then have "chains_from linked ?j = []"
        by (simp add: chains_from.simps [of linked "length linked"])
      moreover have "Suc (length linked - 1) = length linked"
        using True by linarith
      ultimately show ?thesis
        using True eq
        by (simp add: chains_from.simps [of linked i] chain_range_def Let_def del: upt_Suc)
    qed
  qed
qed

lemma chains_from_ok: "ch \<in> set (chains_from linked i) \<Longrightarrow> chain_ok linked ch"
proof (induction linked i rule: chains_from.induct)
  case (1 linked i)
  let ?j = "chain_scan linked i"
  have i: "i < length linked"
    using 1(3) by (auto simp: chains_from.simps [of linked i] split: if_splits)
  have ij: "i \<le> ?j" and jl: "?j \<le> length linked"
    using chain_scan_ge chain_scan_le i by (auto simp: order_less_imp_le)
  show ?case
  proof (cases "?j < length linked")
    case True
    then consider "ch = \<lparr> c_start = i, c_end = ?j, c_open = False \<rparr>"
      | "ch \<in> set (chains_from linked (?j + 1))"
      using 1(3) i by (auto simp: chains_from.simps [of linked i] Let_def)
    then show ?thesis
    proof cases
      case 1
      then show ?thesis
        using True ij chain_scan_linked [of i _ linked] chain_scan_stop [OF True]
        by (simp add: chain_ok_def)
    next
      case 2
      then show ?thesis using 1(1) i True by simp
    qed
  next
    case False
    then have eq: "?j = length linked" using jl by simp
    then have "ch = \<lparr> c_start = i, c_end = ?j - 1, c_open = True \<rparr>"
      using 1(3) i
      by (auto simp: chains_from.simps [of linked i] chains_from.simps [of linked "length linked"]
          Let_def)
    then show ?thesis
      using eq i chain_scan_linked [of i _ linked] by (auto simp: chain_ok_def)
  qed
qed

lemma chains_partition: "concat (map chain_range (chains linked)) = [0 ..< length linked]"
  unfolding chains_def by (rule chains_from_partition) simp

lemma chains_ok: "ch \<in> set (chains linked) \<Longrightarrow> chain_ok linked ch"
  unfolding chains_def by (rule chains_from_ok)

text \<open>The chains of a partition, one after the other.\<close>

lemma chain_partition_Cons:
  assumes "concat (map chain_range (ch # chs)) = [n ..< m]" and "c_start ch \<le> c_end ch"
  shows "c_start ch = n" and "Suc (c_end ch) \<le> m"
    and "concat (map chain_range chs) = [Suc (c_end ch) ..< m]"
proof -
  have eq: "[c_start ch ..< Suc (c_end ch)] @ concat (map chain_range chs) = [n ..< m]"
    using assms(1) by (simp add: chain_range_def del: upt_Suc)
  have "hd [n ..< m] = c_start ch"
    using assms(2) unfolding eq [symmetric] by (simp add: hd_append del: upt_Suc)
  moreover have ne: "n < m"
    using eq assms(2) by (metis append_is_Nil_conv le_imp_less_Suc less_nat_zero_code not_less upt_eq_Nil_conv)
  ultimately show n: "c_start ch = n" by simp
  have "length [c_start ch ..< Suc (c_end ch)] \<le> length [n ..< m]"
    unfolding eq [symmetric] by simp
  then show le: "Suc (c_end ch) \<le> m" using n ne assms(2) by simp
  have "[n ..< m] = [n ..< Suc (c_end ch)] @ [Suc (c_end ch) ..< m]"
    using le assms(2) n by (metis le_SucI le_add_diff_inverse upt_add_eq_append)
  then show "concat (map chain_range chs) = [Suc (c_end ch) ..< m]"
    using eq n by simp
qed

section \<open>Properties of the driver\<close>

text \<open>
  The contract of a per-item step: an invariant it keeps and under which it never fails, a relation
  \<open>ext\<close> between a snapshot and the states later steps reach, that rolling back to the
  snapshot restores it, and a relation \<open>res\<close> between an item, its result and the state, which
  holds for every reported result and which \<open>after\<close> may rely on.
\<close>

locale chain_driver =
  fixes step :: "'s \<Rightarrow> 'i \<Rightarrow> 'e + 'r \<times> 's"
    and ok :: "'r \<Rightarrow> bool"
    and rollback :: "'s \<Rightarrow> 's \<Rightarrow> 's"
    and open_code failed_code :: 'r
    and after :: "'i list \<Rightarrow> chain \<Rightarrow> 'r list \<Rightarrow> 's \<Rightarrow> 's"
    and inv :: "'s \<Rightarrow> bool"
    and ext :: "'s \<Rightarrow> 's \<Rightarrow> bool"
    and res :: "'s \<Rightarrow> 'i \<Rightarrow> 'r \<Rightarrow> bool"
  assumes step_total: "inv s \<Longrightarrow> \<exists>r s'. step s x = Inr (r, s')"
    and step_inv: "inv s \<Longrightarrow> step s x = Inr (r, s') \<Longrightarrow> inv s'"
    and step_ext: "ext s0 s \<Longrightarrow> step s x = Inr (r, s') \<Longrightarrow> ext s0 s'"
    and ext_refl: "ext s s"
    and rollback_ext: "ext s0 s \<Longrightarrow> rollback s0 s = s0"
    and failed_not_ok: "\<not> ok open_code" "\<not> ok failed_code"
    and step_res: "inv s \<Longrightarrow> step s x = Inr (r, s') \<Longrightarrow> res s' x r"
    and res_ext: "ext s0 s \<Longrightarrow> res s x r \<Longrightarrow> res s0 x r"
    and res_ok: "ok r \<Longrightarrow> res s x r"
    and res_failed: "res s x open_code" "res s x failed_code"
    and after_inv: "inv s \<Longrightarrow> (\<And>k. k < length rs \<Longrightarrow> res s (items ! (c_start ch + k)) (rs ! k)) \<Longrightarrow>
      inv (after items ch rs s)"
begin

lemma run_members_total:
  "inv s \<Longrightarrow> \<exists>rs off s'. run_members step ok pos xs s = Inr (rs, off, s') \<and> inv s'"
proof (induction xs arbitrary: pos s)
  case Nil
  then show ?case by simp
next
  case (Cons x xs)
  obtain r s1 where s1: "step s x = Inr (r, s1)" "inv s1"
    using step_total [OF Cons.prems] step_inv [OF Cons.prems] by blast
  then show ?case using Cons.IH [OF s1(2), of "Suc pos"] by auto
qed

lemma run_members_ext:
  "ext s0 s \<Longrightarrow> run_members step ok pos xs s = Inr (rs, off, s') \<Longrightarrow> ext s0 s'"
proof (induction xs arbitrary: pos s rs)
  case Nil
  then show ?case by simp
next
  case (Cons x xs)
  then show ?case by (fastforce split: sum.splits if_splits prod.splits dest: step_ext)
qed

lemma run_members_results:
  "run_members step ok pos xs s = Inr (rs, off, s') \<Longrightarrow>
     (case off of None \<Rightarrow> length rs = length xs \<and> list_all ok rs
      | Some p \<Rightarrow> pos \<le> p \<and> p < pos + length xs \<and> length rs = Suc (p - pos) \<and>
          \<not> ok (rs ! (p - pos)) \<and> list_all ok (take (p - pos) rs))"
proof (induction xs arbitrary: pos s rs)
  case Nil
  then show ?case by simp
next
  case (Cons x xs)
  then obtain r s1 where s1: "step s x = Inr (r, s1)"
    by (auto split: sum.splits)
  show ?case
  proof (cases "ok r")
    case False
    then show ?thesis using Cons.prems s1 by auto
  next
    case True
    then obtain rs1 where rs1: "run_members step ok (Suc pos) xs s1 = Inr (rs1, off, s')"
      and rs: "rs = r # rs1"
      using Cons.prems s1 by (auto split: sum.splits)
    show ?thesis
    proof (cases off)
      case None
      then show ?thesis using Cons.IH [OF rs1] rs True by simp
    next
      case (Some p)
      then have "Suc pos \<le> p" "p < Suc pos + length xs" "length rs1 = Suc (p - Suc pos)"
        "\<not> ok (rs1 ! (p - Suc pos))" "list_all ok (take (p - Suc pos) rs1)"
        using Cons.IH [OF rs1] by simp_all
      moreover have "p - pos = Suc (p - Suc pos)"
        using \<open>Suc pos \<le> p\<close> by simp
      ultimately show ?thesis using Some rs True by simp
    qed
  qed
qed

lemma apply_chain_total:
  assumes "inv s"
  shows "\<exists>rs s'. apply_chain step ok rollback open_code failed_code items ch s = Inr (rs, s') \<and>
    inv s'"
proof (cases "c_start ch = c_end ch \<and> \<not> c_open ch")
  case True
  obtain r s1 where "step s (items ! c_start ch) = Inr (r, s1)" "inv s1"
    using step_total [OF assms] step_inv [OF assms] by blast
  then show ?thesis using True by (simp add: apply_chain_def)
next
  case single: False
  show ?thesis
  proof (cases "c_open ch")
    case True
    then show ?thesis
      using assms rollback_ext [OF ext_refl, of s] by (simp add: apply_chain_def)
  next
    case False
    obtain rs off s1 where r: "run_members step ok 0 (chain_items items ch) s = Inr (rs, off, s1)"
      "inv s1"
      using run_members_total [OF assms] by blast
    moreover have "rollback s s1 = s"
      by (rule rollback_ext [OF run_members_ext [OF ext_refl r(1)]])
    ultimately show ?thesis
      using assms single False by (cases off) (auto simp: apply_chain_def)
  qed
qed

text \<open>All or nothing: either every member of a linked chain succeeded, or the state is the one
  before the chain and no member is reported as a success.\<close>

lemma apply_chain_atomic:
  assumes "apply_chain step ok rollback open_code failed_code items ch s = Inr (rs, s')"
    and "c_start ch \<le> c_end ch" and "c_end ch < length items"
    and "c_start ch < c_end ch \<or> c_open ch"
  shows "length rs = Suc (c_end ch) - c_start ch \<and>
    (list_all ok rs \<or> s' = s \<and> list_all (\<lambda>r. \<not> ok r) rs)"
proof (cases "c_open ch")
  case True
  then show ?thesis
    using assms rollback_ext [OF ext_refl, of s] failed_not_ok
    by (auto simp: apply_chain_def failed_results_def list_all_iff Let_def)
next
  case False
  then obtain cs off s1 where r: "run_members step ok 0 (chain_items items ch) s = Inr (cs, off, s1)"
    using assms(1,4) by (auto simp: apply_chain_def split: sum.splits if_splits)
  have len: "length (chain_items items ch) = Suc (c_end ch) - c_start ch"
    using assms(2,3) by (simp add: chain_items_def)
  note res = run_members_results [OF r]
  show ?thesis
  proof (cases off)
    case None
    then show ?thesis using assms False r res len by (auto simp: apply_chain_def)
  next
    case (Some p)
    have "rollback s s1 = s"
      by (rule rollback_ext [OF run_members_ext [OF ext_refl r]])
    then have "s' = s" and rs: "rs = failed_results open_code failed_code ch (Some p) cs"
      using assms False r Some by (auto simp: apply_chain_def)
    moreover have "list_all (\<lambda>r. \<not> ok r) rs"
      using rs False res Some failed_not_ok by (auto simp: failed_results_def list_all_iff Let_def)
    ultimately show ?thesis using assms(2) by (simp add: failed_results_def)
  qed
qed

lemma apply_chain_length:
  assumes "apply_chain step ok rollback open_code failed_code items ch s = Inr (rs, s')"
    and "c_start ch \<le> c_end ch" and "c_end ch < length items"
  shows "length rs = length (chain_range ch)"
proof (cases "c_start ch = c_end ch \<and> \<not> c_open ch")
  case True
  then show ?thesis
    using assms(1) by (auto simp: apply_chain_def chain_range_def split: sum.splits)
next
  case False
  then show ?thesis
    using apply_chain_atomic [OF assms] assms(2) by (auto simp: chain_range_def)
qed

lemma run_members_offender:
  "inv s \<Longrightarrow> run_members step ok pos xs s = Inr (rs, Some p, s') \<Longrightarrow>
     res s' (xs ! (p - pos)) (rs ! (p - pos))"
proof (induction xs arbitrary: pos s rs)
  case Nil
  then show ?case by simp
next
  case (Cons x xs)
  obtain r s1 where s1: "step s x = Inr (r, s1)"
    using step_total [OF Cons.prems(1)] by blast
  show ?case
  proof (cases "ok r")
    case False
    then show ?thesis using Cons.prems s1 step_res [OF Cons.prems(1) s1] by auto
  next
    case True
    then obtain rs1 where rs1: "run_members step ok (Suc pos) xs s1 = Inr (rs1, Some p, s')"
      and rs: "rs = r # rs1"
      using Cons.prems s1 by (auto split: sum.splits)
    have "Suc pos \<le> p" using run_members_results [OF rs1] by simp
    then have "p - pos = Suc (p - Suc pos)" by simp
    then show ?thesis
      using Cons.IH [OF step_inv [OF Cons.prems(1) s1] rs1] rs by simp
  qed
qed

lemma apply_chain_res:
  assumes inv: "inv s"
    and a: "apply_chain step ok rollback open_code failed_code items ch s = Inr (rs, s')"
    and range: "c_start ch \<le> c_end ch" "c_end ch < length items" and k: "k < length rs"
  shows "res s' (items ! (c_start ch + k)) (rs ! k)"
proof (cases "c_start ch = c_end ch \<and> \<not> c_open ch")
  case True
  then show ?thesis
    using a k step_res [OF inv] by (auto simp: apply_chain_def split: sum.splits)
next
  case single: False
  show ?thesis
  proof (cases "c_open ch")
    case True
    then show ?thesis
      using a k res_failed by (auto simp: apply_chain_def failed_results_def Let_def nth_append)
  next
    case False
    obtain cs off s1 where r: "run_members step ok 0 (chain_items items ch) s = Inr (cs, off, s1)"
      using run_members_total [OF inv] by blast
    show ?thesis
    proof (cases off)
      case None
      then have "list_all ok rs"
        using a single False r run_members_results [OF r] by (auto simp: apply_chain_def)
      then show ?thesis using k res_ok by (simp add: list_all_length)
    next
      case (Some p)
      have ext: "ext s s1" by (rule run_members_ext [OF ext_refl r])
      then have rs: "rs = failed_results open_code failed_code ch (Some p) cs" and "s' = s"
        using a single False r Some rollback_ext [OF ext] by (auto simp: apply_chain_def)
      have "res s (chain_items items ch ! p) (cs ! p)"
        using run_members_offender [OF inv r [unfolded Some]] res_ext [OF ext] by simp
      moreover have "p < length (chain_items items ch)"
        using run_members_results [OF r] Some by simp
      ultimately have "res s (items ! (c_start ch + p)) (cs ! p)"
        using range by (simp add: chain_items_def)
      moreover have "rs ! k = (if k = p then cs ! p else failed_code)"
        using rs k False by (auto simp: failed_results_def Let_def simp del: upt_Suc)
      ultimately show ?thesis
        using \<open>s' = s\<close> res_failed(2) by auto
    qed
  qed
qed

lemma apply_chains_total:
  "inv s \<Longrightarrow> (\<And>ch. ch \<in> set chs \<Longrightarrow> c_start ch \<le> c_end ch \<and> c_end ch < length items) \<Longrightarrow>
     \<exists>rs s'. apply_chains step ok rollback open_code failed_code (after items) items chs s
     = Inr (rs, s') \<and> inv s'"
proof (induction chs arbitrary: s)
  case Nil
  then show ?case by simp
next
  case (Cons ch chs)
  obtain rs s1 where s1: "apply_chain step ok rollback open_code failed_code items ch s
      = Inr (rs, s1)" "inv s1"
    using apply_chain_total [OF Cons.prems(1)] by blast
  have "inv (after items ch rs s1)"
    using s1 Cons.prems by (intro after_inv) (auto intro: apply_chain_res)
  then show ?case using Cons.IH [of "after items ch rs s1"] Cons.prems(2) s1 by auto
qed

lemma apply_chains_length:
  "apply_chains step ok rollback open_code failed_code (after items) items chs s = Inr (rs, s')
   \<Longrightarrow> (\<And>ch. ch \<in> set chs \<Longrightarrow> c_start ch \<le> c_end ch \<and> c_end ch < length items)
   \<Longrightarrow> length rs = length (concat (map chain_range chs))"
proof (induction chs arbitrary: s rs)
  case Nil
  then show ?case by simp
next
  case (Cons ch chs)
  then obtain rs1 s1 rs2 where
    a: "apply_chain step ok rollback open_code failed_code items ch s = Inr (rs1, s1)"
    and b: "apply_chains step ok rollback open_code failed_code (after items) items chs
      (after items ch rs1 s1) = Inr (rs2, s')"
    and rs: "rs = rs1 @ rs2"
    by (auto split: sum.splits)
  have "length rs1 = length (chain_range ch)"
    using apply_chain_length [OF a] Cons.prems(2) by simp
  moreover have "length rs2 = length (concat (map chain_range chs))"
    using Cons.IH [OF b] Cons.prems(2) by simp
  ultimately show ?case using rs by simp
qed

lemma batch_total:
  assumes "inv s" and "length linked = length items"
  shows "\<exists>rs s'. apply_chains step ok rollback open_code failed_code (after items) items
    (chains linked) s = Inr (rs, s') \<and> inv s' \<and> length rs = length items"
proof -
  have range: "ch \<in> set (chains linked) \<Longrightarrow> c_start ch \<le> c_end ch \<and> c_end ch < length items" for ch
    using chains_ok [of ch linked] assms(2) by (auto simp: chain_ok_def)
  obtain rs s' where a: "apply_chains step ok rollback open_code failed_code (after items) items
    (chains linked) s = Inr (rs, s')" "inv s'"
    using apply_chains_total [OF assms(1) range] by blast
  moreover have "length rs = length (concat (map chain_range (chains linked)))"
    by (rule apply_chains_length [OF a(1) range])
  ultimately show ?thesis using assms(2) by (simp add: chains_partition)
qed

text \<open>Over a whole batch: the results of a linked chain are all successes or no success.\<close>

lemma apply_chains_atomic:
  "apply_chains step ok rollback open_code failed_code (after items) items chs s = Inr (rs, s') \<Longrightarrow>
   concat (map chain_range chs) = [n ..< m] \<Longrightarrow>
   (\<And>c. c \<in> set chs \<Longrightarrow> c_start c \<le> c_end c \<and> c_end c < length items) \<Longrightarrow>
   ch \<in> set chs \<Longrightarrow> c_start ch < c_end ch \<or> c_open ch \<Longrightarrow>
   (\<forall>k. c_start ch \<le> k \<and> k \<le> c_end ch \<longrightarrow> ok (rs ! (k - n))) \<or>
   (\<forall>k. c_start ch \<le> k \<and> k \<le> c_end ch \<longrightarrow> \<not> ok (rs ! (k - n)))"
proof (induction chs arbitrary: s rs n)
  case (Cons c chs)
  then obtain rs1 s1 rs2 where
    a: "apply_chain step ok rollback open_code failed_code items c s = Inr (rs1, s1)"
    and b: "apply_chains step ok rollback open_code failed_code (after items) items chs
      (after items c rs1 s1) = Inr (rs2, s')"
    and rs: "rs = rs1 @ rs2"
    by (auto split: sum.splits)
  have r: "c_start c \<le> c_end c" "c_end c < length items" using Cons.prems(3) [of c] by auto
  note part = chain_partition_Cons [OF Cons.prems(2) r(1)]
  have len: "length rs1 = Suc (c_end c) - n"
    using apply_chain_length [OF a r] part(1) by (simp add: chain_range_def del: upt_Suc)
  show ?case
  proof (cases "ch = c")
    case True
    then have "list_all ok rs1 \<or> list_all (\<lambda>r. \<not> ok r) rs1"
      using apply_chain_atomic [OF a r] Cons.prems(5) by blast
    moreover have "rs ! (k - n) = rs1 ! (k - n)" "k - n < length rs1"
      if "c_start ch \<le> k \<and> k \<le> c_end ch" for k
      using that True len part(1) rs by (auto simp: nth_append)
    ultimately show ?thesis by (auto simp: list_all_length)
  next
    case False
    then have ch: "ch \<in> set chs" using Cons.prems(4) by simp
    have "set (chain_range ch) \<subseteq> {Suc (c_end c) ..< m}"
      using part(3) ch by (metis (no_types, lifting) UN_I image_eqI list.set_map set_concat set_upt subsetI)
    then have ge: "Suc (c_end c) \<le> c_start ch"
      using Cons.prems(3) [OF Cons.prems(4)] by (auto simp: chain_range_def)
    have nth: "rs ! (k - n) = rs2 ! (k - Suc (c_end c))" if "c_start ch \<le> k" for k
    proof -
      have "length rs1 \<le> k - n" "k - n - length rs1 = k - Suc (c_end c)"
        using that ge len part(1) r(1) by auto
      then show ?thesis by (simp add: rs nth_append)
    qed
    show ?thesis
      using Cons.IH [OF b part(3) _ ch Cons.prems(5)] Cons.prems(3) nth by auto
  qed
qed simp

lemma batch_atomic:
  assumes "apply_chains step ok rollback open_code failed_code (after items) items (chains linked) s
      = Inr (rs, s')"
    and "length linked = length items" and "ch \<in> set (chains linked)"
    and "c_start ch < c_end ch \<or> c_open ch"
  shows "(\<forall>k. c_start ch \<le> k \<and> k \<le> c_end ch \<longrightarrow> ok (rs ! k)) \<or>
   (\<forall>k. c_start ch \<le> k \<and> k \<le> c_end ch \<longrightarrow> \<not> ok (rs ! k))"
  using apply_chains_atomic [OF assms(1) chains_partition _ assms(3,4)] chains_ok [of _ linked]
    assms(2) by (simp add: chain_ok_def)

end

section \<open>What a batch stores\<close>

text \<open>The keys of the items a list of results reports as \<open>c\<close>.\<close>

definition reported :: "('i \<Rightarrow> 'k) \<Rightarrow> 'r \<Rightarrow> 'i list \<Rightarrow> 'r list \<Rightarrow> 'k set" where
  "reported key c items rs = {key x |x. (x, c) \<in> set (zip items rs)}"

lemma reported_simps [simp]:
  "reported key c items [] = {}" "reported key c [] rs = {}"
  "reported key c (x # xs) (r # rs) = (if r = c then {key x} else {}) \<union> reported key c xs rs"
  by (auto simp: reported_def)

lemma reported_append:
  "reported key c items (rs @ rs') = reported key c items rs \<union> reported key c (drop (length rs) items) rs'"
proof (induction rs arbitrary: items)
  case (Cons r rs)
  then show ?case by (cases items) auto
qed simp

lemma reported_none: "c \<notin> set rs \<Longrightarrow> reported key c items rs = {}"
  by (auto simp: reported_def dest: set_zip_rightD)

lemma reported_take: "length rs \<le> n \<Longrightarrow> reported key c (take n items) rs = reported key c items rs"
proof (induction rs arbitrary: n items)
  case (Cons r rs)
  then show ?case by (cases items; cases n) auto
qed simp

text \<open>
  Steps that store: \<open>stored\<close> is the set of keys a state holds, a step adds the key of its item
  exactly when its result is \<open>created\<close>. Then a batch stores exactly what its results report.
\<close>

locale chain_log = chain_driver +
  fixes stored :: "'a \<Rightarrow> 'k set" and key :: "'b \<Rightarrow> 'k" and created :: 'd
  assumes step_stored: "step s x = Inr (r, s') \<Longrightarrow>
      stored s' = stored s \<union> (if r = created then {key x} else {})"
    and after_stored: "stored (after items ch rs s) = stored s"
    and created_ok: "ok created"
begin

lemma run_members_stored:
  "run_members step ok pos xs s = Inr (rs, off, s') \<Longrightarrow>
     stored s' = stored s \<union> reported key created xs rs"
proof (induction xs arbitrary: pos s rs)
  case (Cons x xs)
  then obtain r s1 where s1: "step s x = Inr (r, s1)"
    by (auto split: sum.splits)
  note st = step_stored [OF s1]
  show ?case
  proof (cases "ok r")
    case False
    then show ?thesis using Cons.prems s1 st created_ok by auto
  next
    case True
    then obtain rs1 where rs1: "run_members step ok (Suc pos) xs s1 = Inr (rs1, off, s')"
      and rs: "rs = r # rs1"
      using Cons.prems s1 by (auto split: sum.splits)
    then show ?thesis using Cons.IH [OF rs1] st by auto
  qed
qed simp

lemma apply_chain_stored:
  assumes a: "apply_chain step ok rollback open_code failed_code items ch s = Inr (rs, s')"
    and r: "c_start ch \<le> c_end ch" "c_end ch < length items"
  shows "stored s' = stored s \<union> reported key created (drop (c_start ch) items) rs"
proof (cases "c_start ch = c_end ch \<and> \<not> c_open ch")
  case True
  then have "drop (c_start ch) items = (items ! c_start ch) # drop (Suc (c_start ch)) items"
    using r by (simp add: Cons_nth_drop_Suc)
  then show ?thesis
    using a True by (auto simp: apply_chain_def step_stored split: sum.splits)
next
  case single: False
  have fail: ?thesis if "s' = s" "list_all (\<lambda>r. \<not> ok r) rs"
    using that created_ok by (subst reported_none) (auto simp: list_all_iff)
  show ?thesis
  proof (cases "c_open ch")
    case True
    then have "s' = s \<and> list_all (\<lambda>r. \<not> ok r) rs"
      using a rollback_ext [OF ext_refl, of s] failed_not_ok
      by (auto simp: apply_chain_def failed_results_def list_all_iff Let_def)
    then show ?thesis using fail by blast
  next
    case closed: False
    then obtain cs off s1 where run: "run_members step ok 0 (chain_items items ch) s = Inr (cs, off, s1)"
      using a single by (auto simp: apply_chain_def split: sum.splits if_splits)
    show ?thesis
    proof (cases off)
      case None
      then have "rs = cs" "s' = s1" "length cs = length (chain_items items ch)"
        using a single closed run run_members_results [OF run] by (auto simp: apply_chain_def)
      then show ?thesis
        using run_members_stored [OF run] reported_take [of rs _ key created "drop (c_start ch) items"]
        by (simp add: chain_items_def)
    next
      case (Some p)
      have "s' = s" and rs: "rs = failed_results open_code failed_code ch (Some p) cs"
        using a single closed run Some rollback_ext [OF run_members_ext [OF ext_refl run]]
        by (auto simp: apply_chain_def)
      moreover have "list_all (\<lambda>r. \<not> ok r) rs"
        using rs closed run_members_results [OF run] Some failed_not_ok
        by (auto simp: failed_results_def list_all_iff Let_def)
      ultimately show ?thesis using fail by blast
    qed
  qed
qed

lemma apply_chains_stored:
  "apply_chains step ok rollback open_code failed_code (after items) items chs s = Inr (rs, s') \<Longrightarrow>
   concat (map chain_range chs) = [n ..< m] \<Longrightarrow>
   (\<And>c. c \<in> set chs \<Longrightarrow> c_start c \<le> c_end c \<and> c_end c < length items) \<Longrightarrow>
   stored s' = stored s \<union> reported key created (drop n items) rs"
proof (induction chs arbitrary: s rs n)
  case (Cons c chs)
  then obtain rs1 s1 rs2 where
    a: "apply_chain step ok rollback open_code failed_code items c s = Inr (rs1, s1)"
    and b: "apply_chains step ok rollback open_code failed_code (after items) items chs
      (after items c rs1 s1) = Inr (rs2, s')"
    and rs: "rs = rs1 @ rs2"
    by (auto split: sum.splits)
  have r: "c_start c \<le> c_end c" "c_end c < length items" using Cons.prems(3) [of c] by auto
  note part = chain_partition_Cons [OF Cons.prems(2) r(1)]
  have "n + length rs1 = Suc (c_end c)"
    using apply_chain_length [OF a r] part(1) r(1) by (simp add: chain_range_def del: upt_Suc)
  then have "drop (length rs1) (drop n items) = drop (Suc (c_end c)) items"
    by (simp add: add.commute)
  then show ?case
    using Cons.IH [OF b part(3)] Cons.prems(3) apply_chain_stored [OF a r] part(1)
    by (auto simp: after_stored rs reported_append)
qed simp

lemma batch_stored:
  assumes "apply_chains step ok rollback open_code failed_code (after items) items (chains linked) s
      = Inr (rs, s')"
    and "length linked = length items"
  shows "stored s' = stored s \<union> reported key created items rs"
  using apply_chains_stored [OF assms(1) chains_partition] chains_ok [of _ linked] assms(2)
  by (simp add: chain_ok_def)

end

end
