(* ===== verification/Sql_Projection.thy ===== *)
theory Sql_Projection
  imports Bluedb_Prelude
begin

text \<open>
  The projection surface of \<open>bluedb-sql/src/projection.rs\<close>: a table that a layer above writes
  row by row into its own atomic batch. A row is keyed by the value in its primary-key column. The
  GlueSQL encodings of keys and rows are not part of the repository; a stored row is represented by
  its key value and its column values.
\<close>

datatype proj_value = U128 u128 | U64 u64 | U32 u32 | U16 u16 | Str string

fun sql_type :: "proj_value \<Rightarrow> string" where
  "sql_type (U128 _) = ''UINT128''"
| "sql_type (U64 _) = ''UINT64''"
| "sql_type (U32 _) = ''UINT32''"
| "sql_type (U16 _) = ''UINT16''"
| "sql_type (Str _) = ''TEXT''"

record proj_column =
  col_name :: string
  col_sample :: proj_value

definition proj_column_new :: "string \<Rightarrow> proj_value \<Rightarrow> proj_column" where
  "proj_column_new name sample = \<lparr> col_name = name, col_sample = sample \<rparr>"

record projected_table =
  pt_table :: string
  pt_columns :: "proj_column list"
  pt_pk :: nat

text \<open>The two assertions of \<open>ProjectedTable::new\<close> panic: \<open>None\<close>.\<close>

definition projected_table_new ::
  "string \<Rightarrow> proj_column list \<Rightarrow> nat \<Rightarrow> projected_table option" where
  "projected_table_new table columns pk =
     (if columns = [] then None
      else if \<not> pk < length columns then None
      else Some \<lparr> pt_table = table, pt_columns = columns, pt_pk = pk \<rparr>)"

fun join_comma :: "string list \<Rightarrow> string" where
  "join_comma [] = ''''"
| "join_comma [x] = x"
| "join_comma (x # xs) = x @ '', '' @ join_comma xs"

definition create_table_ddl :: "projected_table \<Rightarrow> string" where
  "create_table_ddl pt =
     (let cols = join_comma (map (\<lambda>(i, c).
            col_name c @ '' '' @ sql_type (col_sample c) @
            (if i = pt_pk pt then '' PRIMARY KEY'' else ''''))
          (enumerate 0 (pt_columns pt)))
      in ''CREATE TABLE IF NOT EXISTS '' @ pt_table pt @ '' ('' @ cols @ '')'')"

text \<open>\<open>encode_row\<close> panics on an arity mismatch: \<open>None\<close>.\<close>

definition encode_row ::
  "projected_table \<Rightarrow> proj_value list \<Rightarrow> (proj_value \<times> proj_value list) option" where
  "encode_row pt values =
     (if length values \<noteq> length (pt_columns pt) then None
      else Some (values ! pt_pk pt, values))"

text \<open>A row's values have the types of the table's columns.\<close>

definition row_typed :: "projected_table \<Rightarrow> proj_value list \<Rightarrow> bool" where
  "row_typed pt values =
     (map sql_type values = map (\<lambda>c. sql_type (col_sample c)) (pt_columns pt))"

lemma encode_row_typed:
  assumes "row_typed pt values"
  shows "encode_row pt values = Some (values ! pt_pk pt, values)"
  using arg_cong [OF assms [unfolded row_typed_def], of length] by (simp add: encode_row_def)

end
