(* ===== verification/Ledger_Apply.thy ===== *)
theory Ledger_Apply
  imports Ledger_Chain Sql_Projection
begin

text \<open>
  The apply state machine of \<open>bluedb-ledger/src/ledger.rs\<close> with the SQL mirror of
  \<open>bluedb-ledger/src/projection.rs\<close>: account creation, the expiry sweep, regular and pending
  transfers, post and void, the batch driver and the atomic commit.

  The committed state is the record \<open>ledger_db\<close>: one component per key namespace of the
  ledger (the byte keys of the namespaces are in \<open>Ledger_Keyspace\<close>). The expiry index is
  the list of its entries in key order. The clock value \<open>now\<close> is an argument, since the clock
  is outside the program. Errors that abort a whole call are values of \<open>ledger_error\<close>,
  per-item rejections are result codes.
\<close>

section \<open>State\<close>

type_synonym sql_rows = "proj_value \<rightharpoonup> proj_value list"

record ledger_db =
  db_accounts :: "u128 \<rightharpoonup> account"
  db_transfers :: "u128 \<rightharpoonup> transfer"
  db_pending_state :: "u128 \<rightharpoonup> pending_status"
  db_expiry :: "(u64 \<times> u128) list"
  db_failed :: "u128 set"
  db_watermark :: "u64 option"
  db_sql_accounts :: "sql_rows option"
  db_sql_transfers :: "sql_rows option"

datatype ledger_error =
    NotWriter
  | ExpiredDebitAccountMissing
  | ExpiredCreditAccountMissing
  | DebitsPendingUnderflowOnExpiry
  | CreditsPendingUnderflowOnExpiry
  | PendingDebitAccountMissing
  | PendingCreditAccountMissing
  | DebitsPendingUnderflowOnResolve
  | CreditsPendingUnderflowOnResolve
  | ProjectionArityPanic

record apply_state =
  working :: "u128 \<rightharpoonup> account"
  dirty :: "u128 list"
  resolved :: "u128 \<rightharpoonup> pending_status"
  expiry_removals :: "(u64 \<times> u128) list"

definition apply_state_default :: apply_state where
  "apply_state_default =
     \<lparr> working = Map.empty, dirty = [], resolved = Map.empty, expiry_removals = [] \<rparr>"

text \<open>The variables that one \<open>create_transfers\<close> call threads through its loop.\<close>

record transfer_batch =
  b_last :: u64
  b_state :: apply_state
  b_staged :: "u128 \<rightharpoonup> transfer"
  b_accepted :: "transfer list"
  b_failed :: "u128 set"

text \<open>The same for \<open>create_accounts\<close>.\<close>

record account_batch =
  ab_last :: u64
  ab_staged :: "u128 \<rightharpoonup> account"
  ab_accepted :: "account list"

section \<open>Point reads\<close>

definition get_watermark :: "ledger_db \<Rightarrow> u64" where
  "get_watermark db = (case db_watermark db of Some w \<Rightarrow> w | None \<Rightarrow> 0)"

definition is_failed :: "ledger_db \<Rightarrow> u128 \<Rightarrow> bool" where
  "is_failed db tid = (tid \<in> db_failed db)"

definition scan_expired :: "ledger_db \<Rightarrow> u64 \<Rightarrow> (u64 \<times> u128) list" where
  "scan_expired db now = filter (\<lambda>(e, i). e < saturating_add now 1) (db_expiry db)"

section \<open>Timestamps and amounts\<close>

definition NANOS_PER_SECOND :: u64 where "NANOS_PER_SECOND = 1000000000"

definition expiry_of :: "u64 \<Rightarrow> u32 \<Rightarrow> u64" where
  "expiry_of timestamp timeout =
     saturating_add timestamp (saturating_mul (ucast timeout) NANOS_PER_SECOND)"

definition ts_peek :: "u64 \<Rightarrow> u64 \<Rightarrow> u64" where
  "ts_peek last_ts now = max now (saturating_add last_ts 1)"

definition balancing_amount :: "transfer \<Rightarrow> account \<Rightarrow> account \<Rightarrow> u128" where
  "balancing_amount t debit credit =
     (let amount = t_amount t;
          amount =
            (if flags_contain (t_flags t) TF_BALANCING_DEBIT
             then min amount (saturating_sub (a_credits_posted debit)
                    (saturating_add (a_debits_posted debit) (a_debits_pending debit)))
             else amount);
          amount =
            (if flags_contain (t_flags t) TF_BALANCING_CREDIT
             then min amount (saturating_sub (a_debits_posted credit)
                    (saturating_add (a_credits_posted credit) (a_credits_pending credit)))
             else amount)
      in amount)"

definition imported_transfer_checks ::
  "u64 option \<Rightarrow> u64 \<Rightarrow> u64 \<Rightarrow> u64 \<Rightarrow> u32 \<Rightarrow> create_transfer_result option" where
  "imported_transfer_checks imported_ts last_ts debit_ts credit_ts timeout =
     (case imported_ts of
        None \<Rightarrow> None
      | Some its \<Rightarrow>
          if its \<le> last_ts then Some CT_ImportedEventTimestampMustNotRegress
          else if its \<le> debit_ts then Some CT_ImportedEventTimestampMustPostdateDebitAccount
          else if its \<le> credit_ts then Some CT_ImportedEventTimestampMustPostdateCreditAccount
          else if timeout \<noteq> 0 then Some CT_ImportedEventTimeoutMustBeZero
          else None)"

section \<open>Staging one movement\<close>

definition load_account :: "ledger_db \<Rightarrow> u128 \<Rightarrow> apply_state \<Rightarrow> account option \<times> apply_state" where
  "load_account db aid st =
     (case working st aid of
        Some a \<Rightarrow> (Some a, st)
      | None \<Rightarrow>
          (case db_accounts db aid of
             Some a \<Rightarrow> (Some a, st\<lparr>working := (working st)(aid \<mapsto> a)\<rparr>)
           | None \<Rightarrow> (None, st)))"

text \<open>Write back one mutated account: \<open>working.insert\<close> and \<open>dirty.insert\<close>.\<close>

definition write_back :: "account \<Rightarrow> apply_state \<Rightarrow> apply_state" where
  "write_back a st = st\<lparr>working := (working st)(a_id a \<mapsto> a), dirty := List.insert (a_id a) (dirty st)\<rparr>"

definition debit_constraint_violated :: "account \<Rightarrow> bool" where
  "debit_constraint_violated a = (flags_contain (a_flags a) AF_DEBITS_MUST_NOT_EXCEED_CREDITS \<and>
     a_debits_posted a + a_debits_pending a > a_credits_posted a)"

definition credit_constraint_violated :: "account \<Rightarrow> bool" where
  "credit_constraint_violated a = (flags_contain (a_flags a) AF_CREDITS_MUST_NOT_EXCEED_DEBITS \<and>
     a_credits_posted a + a_credits_pending a > a_debits_posted a)"

definition stage_regular ::
  "ledger_db \<Rightarrow> transfer \<Rightarrow> u64 option \<Rightarrow> u64 \<Rightarrow> apply_state
   \<Rightarrow> (create_transfer_result + u128) \<times> apply_state" where
  "stage_regular db t imported_ts last_ts st =
     (case load_account db (t_debit_account_id t) st of
        (None, st) \<Rightarrow> (Inl CT_DebitAccountNotFound, st)
      | (Some debit, st) \<Rightarrow>
     (case load_account db (t_credit_account_id t) st of
        (None, st) \<Rightarrow> (Inl CT_CreditAccountNotFound, st)
      | (Some credit, st) \<Rightarrow>
     if a_ledger debit \<noteq> a_ledger credit then (Inl CT_AccountsMustHaveTheSameLedger, st)
     else if t_ledger t \<noteq> a_ledger debit then (Inl CT_TransferMustHaveTheSameLedgerAsAccounts, st)
     else
     (case imported_transfer_checks imported_ts last_ts (a_timestamp debit) (a_timestamp credit)
             (t_timeout t) of
        Some code \<Rightarrow> (Inl code, st)
      | None \<Rightarrow>
     if flags_contain (a_flags debit) AF_CLOSED then (Inl CT_DebitAccountAlreadyClosed, st)
     else if flags_contain (a_flags credit) AF_CLOSED then (Inl CT_CreditAccountAlreadyClosed, st)
     else
     let amount = balancing_amount t debit credit in
     (case checked_add (a_debits_posted debit) amount of
        None \<Rightarrow> (Inl CT_OverflowsDebitsPosted, st)
      | Some v \<Rightarrow>
     let debit = debit\<lparr>a_debits_posted := v\<rparr> in
     (case checked_add (a_credits_posted credit) amount of
        None \<Rightarrow> (Inl CT_OverflowsCreditsPosted, st)
      | Some v \<Rightarrow>
     let credit = credit\<lparr>a_credits_posted := v\<rparr> in
     if checked_add (a_debits_pending debit) (a_debits_posted debit) = None
     then (Inl CT_OverflowsDebits, st)
     else if checked_add (a_credits_pending credit) (a_credits_posted credit) = None
     then (Inl CT_OverflowsCredits, st)
     else if debit_constraint_violated debit then (Inl CT_ExceedsCredits, st)
     else if credit_constraint_violated credit then (Inl CT_ExceedsDebits, st)
     else (Inr amount, write_back credit (write_back debit st)))))))"

definition stage_pending ::
  "ledger_db \<Rightarrow> transfer \<Rightarrow> u64 \<Rightarrow> u64 option \<Rightarrow> u64 \<Rightarrow> apply_state
   \<Rightarrow> (create_transfer_result + u128) \<times> apply_state" where
  "stage_pending db t prospective_ts imported_ts last_ts st =
     (case load_account db (t_debit_account_id t) st of
        (None, st) \<Rightarrow> (Inl CT_DebitAccountNotFound, st)
      | (Some debit, st) \<Rightarrow>
     (case load_account db (t_credit_account_id t) st of
        (None, st) \<Rightarrow> (Inl CT_CreditAccountNotFound, st)
      | (Some credit, st) \<Rightarrow>
     if a_ledger debit \<noteq> a_ledger credit then (Inl CT_AccountsMustHaveTheSameLedger, st)
     else if t_ledger t \<noteq> a_ledger debit then (Inl CT_TransferMustHaveTheSameLedgerAsAccounts, st)
     else
     (case imported_transfer_checks imported_ts last_ts (a_timestamp debit) (a_timestamp credit)
             (t_timeout t) of
        Some code \<Rightarrow> (Inl code, st)
      | None \<Rightarrow>
     if flags_contain (a_flags debit) AF_CLOSED then (Inl CT_DebitAccountAlreadyClosed, st)
     else if flags_contain (a_flags credit) AF_CLOSED then (Inl CT_CreditAccountAlreadyClosed, st)
     else
     let amount = balancing_amount t debit credit in
     (case checked_add (a_debits_pending debit) amount of
        None \<Rightarrow> (Inl CT_OverflowsDebitsPending, st)
      | Some v \<Rightarrow>
     let debit = debit\<lparr>a_debits_pending := v\<rparr> in
     (case checked_add (a_credits_pending credit) amount of
        None \<Rightarrow> (Inl CT_OverflowsCreditsPending, st)
      | Some v \<Rightarrow>
     let credit = credit\<lparr>a_credits_pending := v\<rparr> in
     if checked_add (a_debits_pending debit) (a_debits_posted debit) = None
     then (Inl CT_OverflowsDebits, st)
     else if checked_add (a_credits_pending credit) (a_credits_posted credit) = None
     then (Inl CT_OverflowsCredits, st)
     else if t_timeout t \<noteq> 0 \<and>
       (case Option.bind (checked_mul (ucast (t_timeout t)) NANOS_PER_SECOND)
               (checked_add prospective_ts) of
          Some e \<Rightarrow> \<not> e \<le> TIMESTAMP_MAX | None \<Rightarrow> True)
     then (Inl CT_OverflowsTimeout, st)
     else if debit_constraint_violated debit then (Inl CT_ExceedsCredits, st)
     else if credit_constraint_violated credit then (Inl CT_ExceedsDebits, st)
     else
     let debit = (if flags_contain (t_flags t) TF_CLOSING_DEBIT
                  then debit\<lparr>a_flags := a_flags debit OR AF_CLOSED\<rparr> else debit);
         credit = (if flags_contain (t_flags t) TF_CLOSING_CREDIT
                  then credit\<lparr>a_flags := a_flags credit OR AF_CLOSED\<rparr> else credit)
     in (Inr amount, write_back credit (write_back debit st)))))))"

text \<open>The effective amount of a post (\<open>True\<close>) or void, or the code that rejects it.\<close>

definition resolution_amount ::
  "bool \<Rightarrow> transfer \<Rightarrow> transfer \<Rightarrow> create_transfer_result + u128" where
  "resolution_amount post t pending =
     (if post then
        (if t_amount t = AMOUNT_MAX then Inr (t_amount pending)
         else if t_amount t > t_amount pending then Inl CT_ExceedsPendingTransferAmount
         else Inr (t_amount t))
      else
        (if t_amount t \<noteq> 0 \<and> t_amount t \<noteq> t_amount pending
         then Inl CT_PendingTransferHasDifferentAmount
         else Inr (t_amount pending)))"

definition already_resolved :: "pending_status \<Rightarrow> create_transfer_result" where
  "already_resolved s =
     (case s of Posted \<Rightarrow> CT_PendingTransferAlreadyPosted
      | Voided \<Rightarrow> CT_PendingTransferAlreadyVoided
      | Expired \<Rightarrow> CT_PendingTransferExpired)"

text \<open>Voiding or expiring a closing pending reopens the accounts it closed.\<close>

definition reopen_debit :: "transfer \<Rightarrow> account \<Rightarrow> account" where
  "reopen_debit pending a = (if flags_contain (t_flags pending) TF_CLOSING_DEBIT
     then a\<lparr>a_flags := flags_without (a_flags a) AF_CLOSED\<rparr> else a)"

definition reopen_credit :: "transfer \<Rightarrow> account \<Rightarrow> account" where
  "reopen_credit pending a = (if flags_contain (t_flags pending) TF_CLOSING_CREDIT
     then a\<lparr>a_flags := flags_without (a_flags a) AF_CLOSED\<rparr> else a)"

text \<open>The record a resolution persists: inherited fields filled from the pending.\<close>

definition materialize :: "transfer \<Rightarrow> transfer \<Rightarrow> u128 \<Rightarrow> transfer" where
  "materialize t pending effective = t\<lparr>
     t_debit_account_id := t_debit_account_id pending,
     t_credit_account_id := t_credit_account_id pending,
     t_amount := effective,
     t_ledger := t_ledger pending,
     t_code := (if t_code t \<noteq> 0 then t_code t else t_code pending),
     t_user_data_128 :=
       (if t_user_data_128 t \<noteq> 0 then t_user_data_128 t else t_user_data_128 pending),
     t_user_data_64 := (if t_user_data_64 t \<noteq> 0 then t_user_data_64 t else t_user_data_64 pending),
     t_user_data_32 :=
       (if t_user_data_32 t \<noteq> 0 then t_user_data_32 t else t_user_data_32 pending)\<rparr>"

text \<open>The checks 43 to 53 of a resolution: \<open>Inl\<close> a rejection, \<open>Inr\<close> the effective amount.\<close>

definition resolution_checks ::
  "ledger_db \<Rightarrow> transfer \<Rightarrow> transfer \<Rightarrow> bool \<Rightarrow> u64 \<Rightarrow> apply_state \<Rightarrow> create_transfer_result + u128" where
  "resolution_checks db t p post now st =
     (if \<not> flags_contain (t_flags p) TF_PENDING then Inl CT_PendingTransferNotPending
      else if t_debit_account_id t \<noteq> 0 \<and> t_debit_account_id t \<noteq> t_debit_account_id p
      then Inl CT_PendingTransferHasDifferentDebitAccountId
      else if t_credit_account_id t \<noteq> 0 \<and> t_credit_account_id t \<noteq> t_credit_account_id p
      then Inl CT_PendingTransferHasDifferentCreditAccountId
      else if t_ledger t \<noteq> 0 \<and> t_ledger t \<noteq> t_ledger p
      then Inl CT_PendingTransferHasDifferentLedger
      else if t_code t \<noteq> 0 \<and> t_code t \<noteq> t_code p
      then Inl CT_PendingTransferHasDifferentCode
      else
      (case resolution_amount post t p of
         Inl code \<Rightarrow> Inl code
       | Inr effective \<Rightarrow>
      (case (case resolved st (t_id p) of Some s \<Rightarrow> Some s | None \<Rightarrow> db_pending_state db (t_id p)) of
         Some s \<Rightarrow> Inl (already_resolved s)
       | None \<Rightarrow>
      if t_timeout p \<noteq> 0 \<and> expiry_of (t_timestamp p) (t_timeout p) \<le> now
      then Inl CT_PendingTransferExpired
      else Inr effective)))"

text \<open>After the checks: release, post or reopen, write back.\<close>

definition settle ::
  "transfer \<Rightarrow> bool \<Rightarrow> u128 \<Rightarrow> account \<Rightarrow> account \<Rightarrow> u128 \<Rightarrow> u128
   \<Rightarrow> create_transfer_result + account \<times> account" where
  "settle p post e D C dv cv =
     (if post then
        (case checked_add (a_debits_posted D) e of
           None \<Rightarrow> Inl CT_OverflowsDebitsPosted
         | Some x \<Rightarrow>
        (case checked_add (a_credits_posted C) e of
           None \<Rightarrow> Inl CT_OverflowsCreditsPosted
         | Some y \<Rightarrow> Inr (D\<lparr>a_debits_pending := dv, a_debits_posted := x\<rparr>,
             C\<lparr>a_credits_pending := cv, a_credits_posted := y\<rparr>)))
      else Inr (reopen_debit p (D\<lparr>a_debits_pending := dv\<rparr>),
        reopen_credit p (C\<lparr>a_credits_pending := cv\<rparr>)))"

definition settled_state ::
  "transfer \<Rightarrow> bool \<Rightarrow> account \<Rightarrow> account \<Rightarrow> apply_state \<Rightarrow> apply_state" where
  "settled_state p post D' C' st =
     (let st = write_back C' (write_back D' st);
          st = st\<lparr>resolved := (resolved st)(t_id p \<mapsto> (if post then Posted else Voided))\<rparr>
      in (if t_timeout p \<noteq> 0
          then st\<lparr>expiry_removals := expiry_removals st @
                 [(expiry_of (t_timestamp p) (t_timeout p), t_id p)]\<rparr>
          else st))"

definition stage_resolution ::
  "ledger_db \<Rightarrow> transfer \<Rightarrow> transfer option \<Rightarrow> bool \<Rightarrow> u64 \<Rightarrow> u64 option \<Rightarrow> u64 \<Rightarrow> apply_state
   \<Rightarrow> ledger_error + (create_transfer_result + transfer) \<times> apply_state" where
  "stage_resolution db t pending post now imported_ts last_ts st =
     (case pending of
        None \<Rightarrow> Inr (Inl CT_PendingTransferNotFound, st)
      | Some p \<Rightarrow>
     (case resolution_checks db t p post now st of
        Inl code \<Rightarrow> Inr (Inl code, st)
      | Inr effective \<Rightarrow>
     (case load_account db (t_debit_account_id p) st of
        (None, st) \<Rightarrow> Inl PendingDebitAccountMissing
      | (Some debit, st) \<Rightarrow>
     (case load_account db (t_credit_account_id p) st of
        (None, st) \<Rightarrow> Inl PendingCreditAccountMissing
      | (Some credit, st) \<Rightarrow>
     (case imported_transfer_checks imported_ts last_ts (a_timestamp debit) (a_timestamp credit)
             (t_timeout t) of
        Some code \<Rightarrow> Inr (Inl code, st)
      | None \<Rightarrow>
     (case checked_sub (a_debits_pending debit) (t_amount p) of
        None \<Rightarrow> Inl DebitsPendingUnderflowOnResolve
      | Some dv \<Rightarrow>
     (case checked_sub (a_credits_pending credit) (t_amount p) of
        None \<Rightarrow> Inl CreditsPendingUnderflowOnResolve
      | Some cv \<Rightarrow>
     (case settle p post effective debit credit dv cv of
        Inl code \<Rightarrow> Inr (Inl code, st)
      | Inr (debit', credit') \<Rightarrow>
          Inr (Inr (materialize t p effective), settled_state p post debit' credit' st)))))))))"

section \<open>The expiry sweep\<close>

definition sweep_one ::
  "ledger_db \<Rightarrow> u64 \<times> u128 \<Rightarrow> apply_state \<Rightarrow> ledger_error + apply_state" where
  "sweep_one db key st =
     (let pending_id = snd key;
          drop_key = (\<lambda>st. st\<lparr>expiry_removals := expiry_removals st @ [key]\<rparr>) in
      if resolved st pending_id \<noteq> None \<or> db_pending_state db pending_id \<noteq> None
      then Inr (drop_key st)
      else
      (case db_transfers db pending_id of
         None \<Rightarrow> Inr (drop_key st)
       | Some pending \<Rightarrow>
      (case load_account db (t_debit_account_id pending) st of
         (None, st) \<Rightarrow> Inl ExpiredDebitAccountMissing
       | (Some debit, st) \<Rightarrow>
      (case load_account db (t_credit_account_id pending) st of
         (None, st) \<Rightarrow> Inl ExpiredCreditAccountMissing
       | (Some credit, st) \<Rightarrow>
      (case checked_sub (a_debits_pending debit) (t_amount pending) of
         None \<Rightarrow> Inl DebitsPendingUnderflowOnExpiry
       | Some dv \<Rightarrow>
      (case checked_sub (a_credits_pending credit) (t_amount pending) of
         None \<Rightarrow> Inl CreditsPendingUnderflowOnExpiry
       | Some cv \<Rightarrow>
      let debit = reopen_debit pending (debit\<lparr>a_debits_pending := dv\<rparr>);
          credit = reopen_credit pending (credit\<lparr>a_credits_pending := cv\<rparr>);
          st = write_back credit (write_back debit st);
          st = st\<lparr>resolved := (resolved st)(pending_id \<mapsto> Expired)\<rparr>
      in Inr (drop_key st)))))))"

fun sweep_keys ::
  "ledger_db \<Rightarrow> (u64 \<times> u128) list \<Rightarrow> apply_state \<Rightarrow> ledger_error + apply_state" where
  "sweep_keys db [] st = Inr st"
| "sweep_keys db (key # keys) st =
     (case sweep_one db key st of Inl e \<Rightarrow> Inl e | Inr st' \<Rightarrow> sweep_keys db keys st')"

definition sweep_expired :: "ledger_db \<Rightarrow> u64 \<Rightarrow> apply_state \<Rightarrow> ledger_error + apply_state" where
  "sweep_expired db now st = sweep_keys db (scan_expired db now) st"

section \<open>One transfer\<close>

definition lookup_pending :: "ledger_db \<Rightarrow> (u128 \<rightharpoonup> transfer) \<Rightarrow> u128 \<Rightarrow> transfer option" where
  "lookup_pending db staged pid =
     (case db_transfers db pid of Some p \<Rightarrow> Some p | None \<Rightarrow> staged pid)"

definition stage_transfer ::
  "ledger_db \<Rightarrow> bool \<Rightarrow> u64 \<Rightarrow> transfer_batch \<Rightarrow> transfer
   \<Rightarrow> ledger_error + (create_transfer_result + transfer) \<times> apply_state" where
  "stage_transfer db batch_imported now b t =
     (let imported_ts = (if batch_imported then Some (t_timestamp t) else None);
          last_ts = b_last b in
      case classify t of
        Regular \<Rightarrow>
          (case stage_regular db t imported_ts last_ts (b_state b) of
             (Inl code, st) \<Rightarrow> Inr (Inl code, st)
           | (Inr amount, st) \<Rightarrow> Inr (Inr (t\<lparr>t_amount := amount\<rparr>), st))
      | PendingReserve \<Rightarrow>
          (let prospective_ts = (case imported_ts of Some its \<Rightarrow> its | None \<Rightarrow> ts_peek last_ts now) in
           case stage_pending db t prospective_ts imported_ts last_ts (b_state b) of
             (Inl code, st) \<Rightarrow> Inr (Inl code, st)
           | (Inr amount, st) \<Rightarrow> Inr (Inr (t\<lparr>t_amount := amount\<rparr>), st))
      | op \<Rightarrow>
          stage_resolution db t (lookup_pending db (b_staged b) (t_pending_id t)) (op = Post) now
            imported_ts last_ts (b_state b))"

definition process_transfer ::
  "ledger_db \<Rightarrow> bool \<Rightarrow> u64 \<Rightarrow> transfer_batch \<Rightarrow> transfer
   \<Rightarrow> ledger_error + create_transfer_result \<times> transfer_batch" where
  "process_transfer db batch_imported now b t =
     (case validate_transfer_pre_existence t batch_imported now of
        Some code \<Rightarrow> Inr (code, b)
      | None \<Rightarrow>
     (case db_transfers db (t_id t) of
        Some existing \<Rightarrow> Inr (transfer_exists_result t existing, b)
      | None \<Rightarrow>
     (case b_staged b (t_id t) of
        Some existing \<Rightarrow> Inr (transfer_exists_result t existing, b)
      | None \<Rightarrow>
     if t_id t \<in> b_failed b \<or> is_failed db (t_id t) then Inr (CT_IdAlreadyFailed, b)
     else
     (case validate_transfer_post_existence t of
        Some code \<Rightarrow> Inr (code, b)
      | None \<Rightarrow>
     (case stage_transfer db batch_imported now b t of
        Inl e \<Rightarrow> Inl e
      | Inr (Inl code, st) \<Rightarrow> Inr (code, b\<lparr>b_state := st\<rparr>)
      | Inr (Inr record, st) \<Rightarrow>
          let timestamp = (if batch_imported then t_timestamp t else ts_peek (b_last b) now);
              applied = record\<lparr>t_timestamp := timestamp\<rparr>
          in Inr (CT_Created, b\<lparr>b_last := timestamp, b_state := st,
               b_staged := (b_staged b)(t_id applied \<mapsto> applied),
               b_accepted := b_accepted b @ [applied]\<rparr>))))))"

section \<open>The transfer batch\<close>

definition transfer_ok :: "create_transfer_result \<Rightarrow> bool" where
  "transfer_ok r = (r = CT_Created \<or> r = CT_Exists)"

definition transfer_rollback :: "transfer_batch \<Rightarrow> transfer_batch \<Rightarrow> transfer_batch" where
  "transfer_rollback snap b = b\<lparr>b_state := b_state snap, b_staged := b_staged snap,
     b_accepted := take (length (b_accepted snap)) (b_accepted b), b_last := b_last snap\<rparr>"

definition burn_ids ::
  "transfer list \<Rightarrow> chain \<Rightarrow> create_transfer_result list \<Rightarrow> transfer_batch \<Rightarrow> transfer_batch" where
  "burn_ids transfers ch rs b = b\<lparr>b_failed := b_failed b \<union>
     set (map (\<lambda>(offset, r). t_id (transfers ! (c_start ch + offset)))
       (filter (\<lambda>(offset, r). transfer_burns_id r) (enumerate 0 rs)))\<rparr>"

section \<open>SQL projection\<close>

definition accounts_table :: projected_table where
  "accounts_table = \<lparr> pt_table = ''ledger_accounts'', pt_columns = [
     proj_column_new ''id'' (U128 0), proj_column_new ''ledger'' (U32 0),
     proj_column_new ''code'' (U16 0), proj_column_new ''flags'' (U16 0),
     proj_column_new ''debits_pending'' (U128 0), proj_column_new ''debits_posted'' (U128 0),
     proj_column_new ''credits_pending'' (U128 0), proj_column_new ''credits_posted'' (U128 0),
     proj_column_new ''user_data_128'' (U128 0), proj_column_new ''user_data_64'' (U64 0),
     proj_column_new ''user_data_32'' (U32 0), proj_column_new ''timestamp'' (U64 0)],
     pt_pk = 0 \<rparr>"

definition transfers_table :: projected_table where
  "transfers_table = \<lparr> pt_table = ''ledger_transfers'', pt_columns = [
     proj_column_new ''id'' (U128 0), proj_column_new ''debit_account_id'' (U128 0),
     proj_column_new ''credit_account_id'' (U128 0), proj_column_new ''amount'' (U128 0),
     proj_column_new ''pending_id'' (U128 0), proj_column_new ''user_data_128'' (U128 0),
     proj_column_new ''user_data_64'' (U64 0), proj_column_new ''user_data_32'' (U32 0),
     proj_column_new ''timeout'' (U32 0), proj_column_new ''ledger'' (U32 0),
     proj_column_new ''code'' (U16 0), proj_column_new ''flags'' (U16 0),
     proj_column_new ''timestamp'' (U64 0)],
     pt_pk = 0 \<rparr>"

definition project_account :: "account \<Rightarrow> proj_value list" where
  "project_account a = [U128 (a_id a), U32 (a_ledger a), U16 (a_code a), U16 (a_flags a),
     U128 (a_debits_pending a), U128 (a_debits_posted a), U128 (a_credits_pending a),
     U128 (a_credits_posted a), U128 (a_user_data_128 a), U64 (a_user_data_64 a),
     U32 (a_user_data_32 a), U64 (a_timestamp a)]"

definition project_transfer :: "transfer \<Rightarrow> proj_value list" where
  "project_transfer t = [U128 (t_id t), U128 (t_debit_account_id t), U128 (t_credit_account_id t),
     U128 (t_amount t), U128 (t_pending_id t), U128 (t_user_data_128 t), U64 (t_user_data_64 t),
     U32 (t_user_data_32 t), U32 (t_timeout t), U32 (t_ledger t), U16 (t_code t), U16 (t_flags t),
     U64 (t_timestamp t)]"

text \<open>Mirror one row into a projection table, when the table exists.\<close>

definition mirror_row ::
  "projected_table \<Rightarrow> proj_value list \<Rightarrow> sql_rows option \<Rightarrow> ledger_error + sql_rows option" where
  "mirror_row pt values rows =
     (case rows of
        None \<Rightarrow> Inr None
      | Some m \<Rightarrow>
          (case encode_row pt values of
             None \<Rightarrow> Inl ProjectionArityPanic
           | Some (k, v) \<Rightarrow> Inr (Some (m(k \<mapsto> v)))))"

definition ensure_schema :: "ledger_db \<Rightarrow> ledger_db" where
  "ensure_schema db = db\<lparr>
     db_sql_accounts := Some (case db_sql_accounts db of None \<Rightarrow> Map.empty | Some m \<Rightarrow> m),
     db_sql_transfers := Some (case db_sql_transfers db of None \<Rightarrow> Map.empty | Some m \<Rightarrow> m)\<rparr>"

section \<open>The atomic commit of a transfer batch\<close>

fun put_accounts :: "account list \<Rightarrow> ledger_db \<Rightarrow> ledger_error + ledger_db" where
  "put_accounts [] db = Inr db"
| "put_accounts (a # as) db =
     (case mirror_row accounts_table (project_account a) (db_sql_accounts db) of
        Inl e \<Rightarrow> Inl e
      | Inr rows \<Rightarrow> put_accounts as (db\<lparr>db_accounts := (db_accounts db)(a_id a \<mapsto> a),
          db_sql_accounts := rows\<rparr>))"

text \<open>A dirty account is stored under the id it was staged under.\<close>

fun put_dirty :: "(u128 \<rightharpoonup> account) \<Rightarrow> u128 list \<Rightarrow> ledger_db \<Rightarrow> ledger_error + ledger_db" where
  "put_dirty w [] db = Inr db"
| "put_dirty w (i # ids) db =
     (case w i of
        None \<Rightarrow> put_dirty w ids db
      | Some a \<Rightarrow>
          (case mirror_row accounts_table (project_account a) (db_sql_accounts db) of
             Inl e \<Rightarrow> Inl e
           | Inr rows \<Rightarrow> put_dirty w ids (db\<lparr>db_accounts := (db_accounts db)(i \<mapsto> a),
               db_sql_accounts := rows\<rparr>)))"

fun put_transfers :: "transfer list \<Rightarrow> ledger_db \<Rightarrow> ledger_error + ledger_db" where
  "put_transfers [] db = Inr db"
| "put_transfers (t # ts) db =
     (case mirror_row transfers_table (project_transfer t) (db_sql_transfers db) of
        Inl e \<Rightarrow> Inl e
      | Inr rows \<Rightarrow> put_transfers ts (db\<lparr>db_transfers := (db_transfers db)(t_id t \<mapsto> t),
          db_sql_transfers := rows,
          db_expiry :=
            (if flags_contain (t_flags t) TF_PENDING \<and> t_timeout t \<noteq> 0
             then insort_insert (expiry_of (t_timestamp t) (t_timeout t), t_id t) (db_expiry db)
             else db_expiry db)\<rparr>))"

definition commit_transfers :: "ledger_db \<Rightarrow> transfer_batch \<Rightarrow> ledger_error + ledger_db" where
  "commit_transfers db b =
     (case put_dirty (working (b_state b)) (dirty (b_state b)) db of
        Inl e \<Rightarrow> Inl e
      | Inr db1 \<Rightarrow>
     (case put_transfers (b_accepted b) db1 of
        Inl e \<Rightarrow> Inl e
      | Inr db2 \<Rightarrow> Inr (db2\<lparr>
          db_pending_state := db_pending_state db2 ++ resolved (b_state b),
          db_expiry := filter (\<lambda>k. k \<notin> set (expiry_removals (b_state b))) (db_expiry db2),
          db_failed := db_failed db2 \<union> b_failed b,
          db_watermark := (if b_accepted b \<noteq> [] then Some (b_last b) else db_watermark db2)\<rparr>)))"

definition create_transfers ::
  "bool \<Rightarrow> u64 \<Rightarrow> transfer list \<Rightarrow> ledger_db
   \<Rightarrow> ledger_error + create_transfer_result list \<times> ledger_db" where
  "create_transfers writer now transfers db =
     (if \<not> writer then Inl NotWriter
      else
      let batch_imported = (case transfers of [] \<Rightarrow> False
            | t # _ \<Rightarrow> flags_contain (t_flags t) TF_IMPORTED) in
      case sweep_expired db now apply_state_default of
        Inl e \<Rightarrow> Inl e
      | Inr st \<Rightarrow>
      (let linked = map (\<lambda>t. flags_contain (t_flags t) TF_LINKED) transfers;
           b0 = \<lparr> b_last = get_watermark db, b_state = st, b_staged = Map.empty,
                  b_accepted = [], b_failed = {} \<rparr> in
       case apply_chains (process_transfer db batch_imported now) transfer_ok transfer_rollback
              CT_LinkedEventChainOpen CT_LinkedEventFailed (burn_ids transfers) transfers
              (chains linked) b0 of
         Inl e \<Rightarrow> Inl e
       | Inr (results, b) \<Rightarrow>
       (case commit_transfers db b of
          Inl e \<Rightarrow> Inl e
        | Inr db' \<Rightarrow> Inr (results, db'))))"

section \<open>Account creation\<close>

definition stage_account ::
  "ledger_db \<Rightarrow> bool \<Rightarrow> u64 \<Rightarrow> account_batch \<Rightarrow> account
   \<Rightarrow> ledger_error + create_account_result \<times> account_batch" where
  "stage_account db batch_imported now b spec =
     (case validate_account_pre_existence spec batch_imported now of
        Some code \<Rightarrow> Inr (code, b)
      | None \<Rightarrow>
     (case db_accounts db (a_id spec) of
        Some existing \<Rightarrow> Inr (account_exists_result spec existing, b)
      | None \<Rightarrow>
     (case ab_staged b (a_id spec) of
        Some existing \<Rightarrow> Inr (account_exists_result spec existing, b)
      | None \<Rightarrow>
     (case validate_account_post_existence spec of
        Some code \<Rightarrow> Inr (code, b)
      | None \<Rightarrow>
     if batch_imported \<and> a_timestamp spec \<le> ab_last b
     then Inr (CA_ImportedEventTimestampMustNotRegress, b)
     else
     let timestamp = (if batch_imported then a_timestamp spec else ts_peek (ab_last b) now);
         acct = spec\<lparr>a_timestamp := timestamp\<rparr>
     in Inr (CA_Created, b\<lparr>ab_last := timestamp,
          ab_staged := (ab_staged b)(a_id acct \<mapsto> acct),
          ab_accepted := ab_accepted b @ [acct]\<rparr>)))))"

definition account_ok :: "create_account_result \<Rightarrow> bool" where
  "account_ok r = (r = CA_Created \<or> r = CA_Exists)"

definition account_rollback :: "account_batch \<Rightarrow> account_batch \<Rightarrow> account_batch" where
  "account_rollback snap b = b\<lparr>ab_staged := ab_staged snap,
     ab_accepted := take (length (ab_accepted snap)) (ab_accepted b), ab_last := ab_last snap\<rparr>"

definition commit_accounts :: "ledger_db \<Rightarrow> account_batch \<Rightarrow> ledger_error + ledger_db" where
  "commit_accounts db b =
     (case put_accounts (ab_accepted b) db of
        Inl e \<Rightarrow> Inl e
      | Inr db1 \<Rightarrow> Inr (db1\<lparr>db_watermark :=
          (if ab_accepted b \<noteq> [] then Some (ab_last b) else db_watermark db1)\<rparr>))"

definition create_accounts ::
  "bool \<Rightarrow> u64 \<Rightarrow> account list \<Rightarrow> ledger_db
   \<Rightarrow> ledger_error + create_account_result list \<times> ledger_db" where
  "create_accounts writer now specs db =
     (if \<not> writer then Inl NotWriter
      else
      let batch_imported = (case specs of [] \<Rightarrow> False
            | a # _ \<Rightarrow> flags_contain (a_flags a) AF_IMPORTED);
          linked = map (\<lambda>a. flags_contain (a_flags a) AF_LINKED) specs;
          b0 = \<lparr> ab_last = get_watermark db, ab_staged = Map.empty, ab_accepted = [] \<rparr> in
      case apply_chains (stage_account db batch_imported now) account_ok account_rollback
             CA_LinkedEventChainOpen CA_LinkedEventFailed (\<lambda>ch rs b. b) specs (chains linked) b0 of
        Inl e \<Rightarrow> Inl e
      | Inr (results, b) \<Rightarrow>
      (case commit_accounts db b of
         Inl e \<Rightarrow> Inl e
       | Inr db' \<Rightarrow> Inr (results, db')))"

definition lookup_account :: "ledger_db \<Rightarrow> u128 \<Rightarrow> account option" where
  "lookup_account db aid = db_accounts db aid"

definition lookup_transfer :: "ledger_db \<Rightarrow> u128 \<Rightarrow> transfer option" where
  "lookup_transfer db tid = db_transfers db tid"

definition empty_db :: ledger_db where
  "empty_db = \<lparr> db_accounts = Map.empty, db_transfers = Map.empty, db_pending_state = Map.empty,
     db_expiry = [], db_failed = {}, db_watermark = None, db_sql_accounts = None,
     db_sql_transfers = None \<rparr>"

end
