(* ===== verification/Ledger_View.thy ===== *)
theory Ledger_View
  imports Ledger_Apply
begin

text \<open>
  The abstract ledger: accounts, the log of stored transfers and the resolution state of pending
  transfers. Its invariant \<open>view_inv\<close> says that every balance of every account is what the
  log prescribes (pending buckets: the outstanding reservations; posted buckets: the regular
  transfers and the posts), that no constrained account exceeds its limit, and that every pending
  transfer is resolved at most once. Each movement of \<open>Ledger_Apply\<close> is one of four abstract
  steps on this view (regular, reserve, resolve, expire); this theory shows that each keeps the
  invariant.
\<close>

section \<open>The view and its invariant\<close>

type_synonym transfer_log = "u128 \<rightharpoonup> transfer"
type_synonym status_map = "u128 \<rightharpoonup> pending_status"

record ledger_view =
  v_accounts :: "u128 \<rightharpoonup> account"
  v_transfers :: transfer_log
  v_pstate :: status_map

text \<open>What one stored transfer adds to the pending or to the posted bucket of its accounts.\<close>

definition pending_amount :: "status_map \<Rightarrow> u128 \<Rightarrow> transfer \<Rightarrow> nat" where
  "pending_amount ps i t =
     (if classify t = PendingReserve \<and> ps i = None then unat (t_amount t) else 0)"

definition posted_amount :: "transfer \<Rightarrow> nat" where
  "posted_amount t = (if classify t = Regular \<or> classify t = Post then unat (t_amount t) else 0)"

text \<open>The sums the log prescribes for account \<open>a\<close> on the side \<open>side\<close> (debit or credit).\<close>

definition pending_sum ::
  "(transfer \<Rightarrow> u128) \<Rightarrow> transfer_log \<Rightarrow> status_map \<Rightarrow> u128 \<Rightarrow> nat" where
  "pending_sum side tr ps a = (\<Sum>i\<in>dom tr. let t = the (tr i) in
     if side t = a then pending_amount ps i t else 0)"

definition posted_sum :: "(transfer \<Rightarrow> u128) \<Rightarrow> transfer_log \<Rightarrow> u128 \<Rightarrow> nat" where
  "posted_sum side tr a = (\<Sum>i\<in>dom tr. let t = the (tr i) in
     if side t = a then posted_amount t else 0)"

text \<open>The balance limits of an account, over exact sums.\<close>

definition debit_within :: "account \<Rightarrow> bool" where
  "debit_within a = (flags_contain (a_flags a) AF_DEBITS_MUST_NOT_EXCEED_CREDITS \<longrightarrow>
     unat (a_debits_posted a) + unat (a_debits_pending a) \<le> unat (a_credits_posted a))"

definition credit_within :: "account \<Rightarrow> bool" where
  "credit_within a = (flags_contain (a_flags a) AF_CREDITS_MUST_NOT_EXCEED_DEBITS \<longrightarrow>
     unat (a_credits_posted a) + unat (a_credits_pending a) \<le> unat (a_debits_posted a))"

definition debit_fits :: "account \<Rightarrow> bool" where
  "debit_fits a = (unat (a_debits_pending a) + unat (a_debits_posted a) < 2 ^ 128)"

definition credit_fits :: "account \<Rightarrow> bool" where
  "credit_fits a = (unat (a_credits_pending a) + unat (a_credits_posted a) < 2 ^ 128)"

definition account_conf :: "transfer_log \<Rightarrow> status_map \<Rightarrow> u128 \<Rightarrow> account \<Rightarrow> bool" where
  "account_conf tr ps i a =
     (a_id a = i \<and>
      unat (a_debits_pending a) = pending_sum t_debit_account_id tr ps i \<and>
      unat (a_credits_pending a) = pending_sum t_credit_account_id tr ps i \<and>
      unat (a_debits_posted a) = posted_sum t_debit_account_id tr i \<and>
      unat (a_credits_posted a) = posted_sum t_credit_account_id tr i \<and>
      debit_fits a \<and> credit_fits a \<and> debit_within a \<and> credit_within a)"

text \<open>A stored resolution refers to a stored pending with the same accounts that is recorded as
  resolved the same way, and moves no more than was reserved.\<close>

definition resolution_conf :: "transfer_log \<Rightarrow> status_map \<Rightarrow> transfer \<Rightarrow> bool" where
  "resolution_conf tr ps t =
     (\<exists>p. tr (t_pending_id t) = Some p \<and> classify p = PendingReserve \<and>
        t_debit_account_id t = t_debit_account_id p \<and>
        t_credit_account_id t = t_credit_account_id p \<and>
        t_amount t \<le> t_amount p \<and>
        ps (t_pending_id t) = Some (if classify t = Post then Posted else Voided))"

definition transfer_conf ::
  "(u128 \<rightharpoonup> account) \<Rightarrow> transfer_log \<Rightarrow> status_map \<Rightarrow> u128 \<Rightarrow> transfer \<Rightarrow> bool" where
  "transfer_conf acc tr ps i t =
     (t_id t = i \<and> i \<noteq> 0 \<and> \<not> transfer_flags_exclusive_violation (t_flags t) \<and>
      t_debit_account_id t \<noteq> t_credit_account_id t \<and>
      acc (t_debit_account_id t) \<noteq> None \<and> acc (t_credit_account_id t) \<noteq> None \<and>
      (is_resolution t \<longrightarrow> resolution_conf tr ps t))"

definition view_inv :: "ledger_view \<Rightarrow> bool" where
  "view_inv v =
     (finite (dom (v_transfers v)) \<and>
      (\<forall>i a. v_accounts v i = Some a \<longrightarrow> account_conf (v_transfers v) (v_pstate v) i a) \<and>
      (\<forall>i t. v_transfers v i = Some t \<longrightarrow>
         transfer_conf (v_accounts v) (v_transfers v) (v_pstate v) i t) \<and>
      (\<forall>i s. v_pstate v i = Some s \<longrightarrow> (\<exists>t. v_transfers v i = Some t \<and> classify t = PendingReserve)) \<and>
      (\<forall>i j t u. v_transfers v i = Some t \<longrightarrow> v_transfers v j = Some u \<longrightarrow> is_resolution t \<longrightarrow>
         is_resolution u \<longrightarrow> t_pending_id t = t_pending_id u \<longrightarrow> i = j))"

lemma view_invI:
  assumes "finite (dom (v_transfers v))"
    and "\<And>i a. v_accounts v i = Some a \<Longrightarrow> account_conf (v_transfers v) (v_pstate v) i a"
    and "\<And>i t. v_transfers v i = Some t \<Longrightarrow>
      transfer_conf (v_accounts v) (v_transfers v) (v_pstate v) i t"
    and "\<And>i s. v_pstate v i = Some s \<Longrightarrow> \<exists>t. v_transfers v i = Some t \<and> classify t = PendingReserve"
    and "\<And>i j t u. v_transfers v i = Some t \<Longrightarrow> v_transfers v j = Some u \<Longrightarrow> is_resolution t \<Longrightarrow>
      is_resolution u \<Longrightarrow> t_pending_id t = t_pending_id u \<Longrightarrow> i = j"
  shows "view_inv v"
  using assms unfolding view_inv_def by blast

lemma view_invD:
  assumes "view_inv v"
  shows "finite (dom (v_transfers v))"
    and "v_accounts v i = Some a \<Longrightarrow> account_conf (v_transfers v) (v_pstate v) i a"
    and "v_transfers v i = Some t \<Longrightarrow>
      transfer_conf (v_accounts v) (v_transfers v) (v_pstate v) i t"
    and "v_pstate v i = Some s \<Longrightarrow> \<exists>t. v_transfers v i = Some t \<and> classify t = PendingReserve"
    and "v_transfers v i = Some t \<Longrightarrow> v_transfers v j = Some u \<Longrightarrow> is_resolution t \<Longrightarrow>
      is_resolution u \<Longrightarrow> t_pending_id t = t_pending_id u \<Longrightarrow> i = j"
  using assms unfolding view_inv_def by blast+

section \<open>Flags\<close>

lemma bit_push_1: "n < 16 \<Longrightarrow> bit (push_bit n (1 :: u16)) k \<longleftrightarrow> k = n"
  by (auto simp: bit_exp_iff)

lemma flags_contain_bit: "n < 16 \<Longrightarrow> flags_contain f (push_bit n 1) \<longleftrightarrow> bit f n"
  unfolding flags_contain_def
proof
  assume n: "n < 16" and "f AND push_bit n 1 = push_bit n 1"
  then have "bit (f AND push_bit n 1) n" by (simp only: bit_push_1)
  then show "bit f n" by (simp only: bit_and_iff)
next
  assume n: "n < 16" and f: "bit f n"
  show "f AND push_bit n 1 = push_bit n 1"
    by (rule bit_word_eqI) (use f in \<open>auto simp only: bit_and_iff bit_push_1 [OF n]\<close>)
qed

lemma account_flag_bits:
  "flags_contain f AF_LINKED \<longleftrightarrow> bit f 0"
  "flags_contain f AF_DEBITS_MUST_NOT_EXCEED_CREDITS \<longleftrightarrow> bit f 1"
  "flags_contain f AF_CREDITS_MUST_NOT_EXCEED_DEBITS \<longleftrightarrow> bit f 2"
  "flags_contain f AF_HISTORY \<longleftrightarrow> bit f 3"
  "flags_contain f AF_IMPORTED \<longleftrightarrow> bit f 4"
  "flags_contain f AF_CLOSED \<longleftrightarrow> bit f 5"
  by (simp_all only: AF_LINKED_def AF_DEBITS_MUST_NOT_EXCEED_CREDITS_def
      AF_CREDITS_MUST_NOT_EXCEED_DEBITS_def AF_HISTORY_def AF_IMPORTED_def AF_CLOSED_def)
    (rule flags_contain_bit, simp)+

lemma transfer_flag_bits:
  "flags_contain f TF_LINKED \<longleftrightarrow> bit f 0"
  "flags_contain f TF_PENDING \<longleftrightarrow> bit f 1"
  "flags_contain f TF_POST_PENDING_TRANSFER \<longleftrightarrow> bit f 2"
  "flags_contain f TF_VOID_PENDING_TRANSFER \<longleftrightarrow> bit f 3"
  "flags_contain f TF_BALANCING_DEBIT \<longleftrightarrow> bit f 4"
  "flags_contain f TF_BALANCING_CREDIT \<longleftrightarrow> bit f 5"
  "flags_contain f TF_CLOSING_DEBIT \<longleftrightarrow> bit f 6"
  "flags_contain f TF_CLOSING_CREDIT \<longleftrightarrow> bit f 7"
  "flags_contain f TF_IMPORTED \<longleftrightarrow> bit f 8"
  by (simp_all only: TF_LINKED_def TF_PENDING_def TF_POST_PENDING_TRANSFER_def
      TF_VOID_PENDING_TRANSFER_def TF_BALANCING_DEBIT_def TF_BALANCING_CREDIT_def
      TF_CLOSING_DEBIT_def TF_CLOSING_CREDIT_def TF_IMPORTED_def)
    (rule flags_contain_bit, simp)+

lemma contain_set_closed:
  "flags_contain (f OR AF_CLOSED) AF_DEBITS_MUST_NOT_EXCEED_CREDITS
     \<longleftrightarrow> flags_contain f AF_DEBITS_MUST_NOT_EXCEED_CREDITS"
  "flags_contain (f OR AF_CLOSED) AF_CREDITS_MUST_NOT_EXCEED_DEBITS
     \<longleftrightarrow> flags_contain f AF_CREDITS_MUST_NOT_EXCEED_DEBITS"
  unfolding account_flag_bits bit_or_iff AF_CLOSED_def by (simp_all add: bit_push_1)

lemma contain_clear_closed:
  "flags_contain (flags_without f AF_CLOSED) AF_DEBITS_MUST_NOT_EXCEED_CREDITS
     \<longleftrightarrow> flags_contain f AF_DEBITS_MUST_NOT_EXCEED_CREDITS"
  "flags_contain (flags_without f AF_CLOSED) AF_CREDITS_MUST_NOT_EXCEED_DEBITS
     \<longleftrightarrow> flags_contain f AF_CREDITS_MUST_NOT_EXCEED_DEBITS"
  unfolding account_flag_bits flags_without_def bit_and_iff bit_not_iff AF_CLOSED_def
  by (simp_all add: bit_push_1)

text \<open>A transfer with legal flags is pending exactly when it classifies as a reserve.\<close>

lemma pending_iff_classify:
  assumes "\<not> transfer_flags_exclusive_violation (t_flags t)"
  shows "flags_contain (t_flags t) TF_PENDING \<longleftrightarrow> classify t = PendingReserve"
  using assms
  by (cases "flags_contain (t_flags t) TF_PENDING";
      cases "flags_contain (t_flags t) TF_POST_PENDING_TRANSFER";
      cases "flags_contain (t_flags t) TF_VOID_PENDING_TRANSFER")
    (simp_all add: transfer_flags_exclusive_violation_def classify_def)

lemma is_resolution_iff: "is_resolution t \<longleftrightarrow> classify t = Post \<or> classify t = Void"
  by (auto simp: is_resolution_def classify_def)

section \<open>Sums over the log\<close>

lemma sum_log_insert:
  fixes f :: "u128 \<Rightarrow> transfer \<Rightarrow> nat"
  assumes "finite (dom tr)" and "tr i = None"
  shows "(\<Sum>k\<in>dom (tr(i \<mapsto> t)). f k (the ((tr(i \<mapsto> t)) k)))
    = f i t + (\<Sum>k\<in>dom tr. f k (the (tr k)))"
proof -
  have "(\<Sum>k\<in>dom tr. f k (the ((tr(i \<mapsto> t)) k))) = (\<Sum>k\<in>dom tr. f k (the (tr k)))"
    using assms(2) by (intro sum.cong) auto
  moreover have "i \<notin> dom tr" using assms(2) by auto
  ultimately show ?thesis using assms(1) by simp
qed

lemma pending_sum_insert:
  assumes "finite (dom tr)" and "tr i = None"
  shows "pending_sum side (tr(i \<mapsto> t)) ps a
    = pending_sum side tr ps a + (if side t = a then pending_amount ps i t else 0)"
  unfolding pending_sum_def Let_def
  using sum_log_insert [OF assms, of "\<lambda>k t. if side t = a then pending_amount ps k t else 0" t]
  by simp

lemma posted_sum_insert:
  assumes "finite (dom tr)" and "tr i = None"
  shows "posted_sum side (tr(i \<mapsto> t)) a
    = posted_sum side tr a + (if side t = a then posted_amount t else 0)"
  unfolding posted_sum_def Let_def
  using sum_log_insert [OF assms, of "\<lambda>k t. if side t = a then posted_amount t else 0" t]
  by simp

text \<open>Resolving one outstanding pending removes exactly its amount from the pending sums.\<close>

lemma pending_sum_resolve:
  assumes "finite (dom tr)" and "tr p = Some t" and "classify t = PendingReserve" and "ps p = None"
  shows "pending_sum side tr (ps(p \<mapsto> s)) a + (if side t = a then unat (t_amount t) else 0)
    = pending_sum side tr ps a"
proof -
  let ?f = "\<lambda>ps i. if side (the (tr i)) = a then pending_amount ps i (the (tr i)) else 0"
  have "sum (?f (ps(p \<mapsto> s))) (dom tr) + ?f ps p = sum (?f ps) (dom tr) + ?f (ps(p \<mapsto> s)) p"
    using assms by (intro sum_changed_at) (auto simp: pending_amount_def)
  moreover have "pending_amount ps p t = unat (t_amount t)" "pending_amount (ps(p \<mapsto> s)) p t = 0"
    using assms(3,4) by (simp_all add: pending_amount_def)
  ultimately show ?thesis
    using assms(2) by (cases "side t = a") (simp_all add: pending_sum_def Let_def)
qed

lemma pending_sum_upd_outside:
  assumes "tr p = None"
  shows "pending_sum side tr (ps(p \<mapsto> s)) a = pending_sum side tr ps a"
  unfolding pending_sum_def Let_def using assms
  by (intro sum.cong) (auto simp: pending_amount_def)

lemma pending_amount_le_sum:
  assumes "finite (dom tr)" and "tr p = Some t" and "classify t = PendingReserve" and "ps p = None"
  shows "unat (t_amount t) \<le> pending_sum side tr ps (side t)"
  using pending_sum_resolve [of tr p t ps side Posted "side t"] assms by simp

section \<open>The abstract steps\<close>

text \<open>The frame of an update: everything but the named fields is kept. Flags may change in the
  \<open>CLOSED\<close> bit only.\<close>

definition same_limits :: "account \<Rightarrow> account \<Rightarrow> bool" where
  "same_limits a b =
     ((flags_contain (a_flags a) AF_DEBITS_MUST_NOT_EXCEED_CREDITS
         \<longleftrightarrow> flags_contain (a_flags b) AF_DEBITS_MUST_NOT_EXCEED_CREDITS) \<and>
      (flags_contain (a_flags a) AF_CREDITS_MUST_NOT_EXCEED_DEBITS
         \<longleftrightarrow> flags_contain (a_flags b) AF_CREDITS_MUST_NOT_EXCEED_DEBITS))"

text \<open>\<open>balances x a b\<close>: account \<open>b\<close> is \<open>a\<close> with the given balances, up to flags.\<close>

definition rebalanced :: "account \<Rightarrow> account \<Rightarrow> nat \<Rightarrow> nat \<Rightarrow> nat \<Rightarrow> nat \<Rightarrow> bool" where
  "rebalanced a b dp dpo cp cpo =
     (a_id b = a_id a \<and> same_limits a b \<and>
      unat (a_debits_pending b) = dp \<and> unat (a_debits_posted b) = dpo \<and>
      unat (a_credits_pending b) = cp \<and> unat (a_credits_posted b) = cpo)"

definition debit_moved :: "account \<Rightarrow> account \<Rightarrow> nat \<Rightarrow> nat \<Rightarrow> bool" where
  "debit_moved a b dp dpo =
     rebalanced a b dp dpo (unat (a_credits_pending a)) (unat (a_credits_posted a))"

definition credit_moved :: "account \<Rightarrow> account \<Rightarrow> nat \<Rightarrow> nat \<Rightarrow> bool" where
  "credit_moved a b cp cpo =
     rebalanced a b (unat (a_debits_pending a)) (unat (a_debits_posted a)) cp cpo"

text \<open>A new log entry between two existing, different accounts.\<close>

definition new_entry :: "ledger_view \<Rightarrow> transfer \<Rightarrow> account \<Rightarrow> account \<Rightarrow> bool" where
  "new_entry v t D C =
     (v_transfers v (t_id t) = None \<and> t_id t \<noteq> 0 \<and>
      \<not> transfer_flags_exclusive_violation (t_flags t) \<and>
      t_debit_account_id t \<noteq> t_credit_account_id t \<and>
      v_accounts v (t_debit_account_id t) = Some D \<and> v_accounts v (t_credit_account_id t) = Some C)"

definition upd_accounts :: "ledger_view \<Rightarrow> transfer \<Rightarrow> account \<Rightarrow> account \<Rightarrow> (u128 \<rightharpoonup> account)" where
  "upd_accounts v t D C =
     (v_accounts v)(t_debit_account_id t \<mapsto> D, t_credit_account_id t \<mapsto> C)"

inductive view_step :: "ledger_view \<Rightarrow> ledger_view \<Rightarrow> bool" where
  regular: "new_entry v t D C \<Longrightarrow> classify t = Regular \<Longrightarrow>
    debit_moved D D' (unat (a_debits_pending D)) (unat (a_debits_posted D) + unat (t_amount t)) \<Longrightarrow>
    credit_moved C C' (unat (a_credits_pending C)) (unat (a_credits_posted C) + unat (t_amount t)) \<Longrightarrow>
    debit_fits D' \<Longrightarrow> credit_fits C' \<Longrightarrow> debit_within D' \<Longrightarrow> credit_within C' \<Longrightarrow>
    view_step v (v\<lparr>v_accounts := upd_accounts v t D' C',
      v_transfers := (v_transfers v)(t_id t \<mapsto> t)\<rparr>)"
| reserve: "new_entry v t D C \<Longrightarrow> classify t = PendingReserve \<Longrightarrow>
    debit_moved D D' (unat (a_debits_pending D) + unat (t_amount t)) (unat (a_debits_posted D)) \<Longrightarrow>
    credit_moved C C' (unat (a_credits_pending C) + unat (t_amount t)) (unat (a_credits_posted C)) \<Longrightarrow>
    debit_fits D' \<Longrightarrow> credit_fits C' \<Longrightarrow> debit_within D' \<Longrightarrow> credit_within C' \<Longrightarrow>
    view_step v (v\<lparr>v_accounts := upd_accounts v t D' C',
      v_transfers := (v_transfers v)(t_id t \<mapsto> t)\<rparr>)"
| post: "new_entry v t D C \<Longrightarrow> classify t = Post \<Longrightarrow>
    v_transfers v (t_pending_id t) = Some p \<Longrightarrow> classify p = PendingReserve \<Longrightarrow>
    v_pstate v (t_pending_id t) = None \<Longrightarrow>
    t_debit_account_id t = t_debit_account_id p \<Longrightarrow>
    t_credit_account_id t = t_credit_account_id p \<Longrightarrow> t_amount t \<le> t_amount p \<Longrightarrow>
    debit_moved D D' (unat (a_debits_pending D) - unat (t_amount p))
      (unat (a_debits_posted D) + unat (t_amount t)) \<Longrightarrow>
    credit_moved C C' (unat (a_credits_pending C) - unat (t_amount p))
      (unat (a_credits_posted C) + unat (t_amount t)) \<Longrightarrow>
    view_step v (v\<lparr>v_accounts := upd_accounts v t D' C',
      v_transfers := (v_transfers v)(t_id t \<mapsto> t),
      v_pstate := (v_pstate v)(t_pending_id t \<mapsto> Posted)\<rparr>)"
| void: "new_entry v t D C \<Longrightarrow> classify t = Void \<Longrightarrow>
    v_transfers v (t_pending_id t) = Some p \<Longrightarrow> classify p = PendingReserve \<Longrightarrow>
    v_pstate v (t_pending_id t) = None \<Longrightarrow>
    t_debit_account_id t = t_debit_account_id p \<Longrightarrow>
    t_credit_account_id t = t_credit_account_id p \<Longrightarrow> t_amount t \<le> t_amount p \<Longrightarrow>
    debit_moved D D' (unat (a_debits_pending D) - unat (t_amount p)) (unat (a_debits_posted D)) \<Longrightarrow>
    credit_moved C C' (unat (a_credits_pending C) - unat (t_amount p)) (unat (a_credits_posted C)) \<Longrightarrow>
    view_step v (v\<lparr>v_accounts := upd_accounts v t D' C',
      v_transfers := (v_transfers v)(t_id t \<mapsto> t),
      v_pstate := (v_pstate v)(t_pending_id t \<mapsto> Voided)\<rparr>)"
| expire: "v_transfers v i = Some p \<Longrightarrow> classify p = PendingReserve \<Longrightarrow> v_pstate v i = None \<Longrightarrow>
    v_accounts v (t_debit_account_id p) = Some D \<Longrightarrow> v_accounts v (t_credit_account_id p) = Some C \<Longrightarrow>
    debit_moved D D' (unat (a_debits_pending D) - unat (t_amount p)) (unat (a_debits_posted D)) \<Longrightarrow>
    credit_moved C C' (unat (a_credits_pending C) - unat (t_amount p)) (unat (a_credits_posted C)) \<Longrightarrow>
    view_step v (v\<lparr>v_accounts := upd_accounts v p D' C',
      v_pstate := (v_pstate v)(i \<mapsto> Expired)\<rparr>)"

section \<open>The steps keep the invariant\<close>

text \<open>How the prescribed sums change, for the whole of a step.\<close>

definition moved_sums ::
  "ledger_view \<Rightarrow> ledger_view \<Rightarrow> transfer \<Rightarrow> nat \<Rightarrow> nat \<Rightarrow> nat \<Rightarrow> bool" where
  "moved_sums v w t add sub post =
     (\<forall>side a. side \<in> {t_debit_account_id, t_credit_account_id} \<longrightarrow>
       pending_sum side (v_transfers w) (v_pstate w) a + (if side t = a then sub else 0)
         = pending_sum side (v_transfers v) (v_pstate v) a + (if side t = a then add else 0) \<and>
       posted_sum side (v_transfers w) a
         = posted_sum side (v_transfers v) a + (if side t = a then post else 0))"

text \<open>Accounts stay conformant when the two accounts of the movement are rebalanced by the same
  amounts.\<close>

lemma accounts_conf_moved:
  assumes inv: "view_inv v"
    and D: "v_accounts v (t_debit_account_id t) = Some D"
    and C: "v_accounts v (t_credit_account_id t) = Some C"
    and ne: "t_debit_account_id t \<noteq> t_credit_account_id t"
    and sums: "moved_sums v w t add sub post"
    and dm: "debit_moved D D' (unat (a_debits_pending D) + add - sub)
      (unat (a_debits_posted D) + post)"
    and cm: "credit_moved C C' (unat (a_credits_pending C) + add - sub)
      (unat (a_credits_posted C) + post)"
    and lim: "debit_fits D'" "credit_fits C'" "debit_within D'" "credit_within C'"
    and acc: "v_accounts w = upd_accounts v t D' C'"
    and a: "v_accounts w i = Some a"
  shows "account_conf (v_transfers w) (v_pstate w) i a"
proof -
  let ?d = "t_debit_account_id t" and ?c = "t_credit_account_id t"
  have sd: "pending_sum t_debit_account_id (v_transfers w) (v_pstate w) k + (if ?d = k then sub else 0)
      = pending_sum t_debit_account_id (v_transfers v) (v_pstate v) k + (if ?d = k then add else 0)"
    "posted_sum t_debit_account_id (v_transfers w) k
      = posted_sum t_debit_account_id (v_transfers v) k + (if ?d = k then post else 0)"
    "pending_sum t_credit_account_id (v_transfers w) (v_pstate w) k + (if ?c = k then sub else 0)
      = pending_sum t_credit_account_id (v_transfers v) (v_pstate v) k + (if ?c = k then add else 0)"
    "posted_sum t_credit_account_id (v_transfers w) k
      = posted_sum t_credit_account_id (v_transfers v) k + (if ?c = k then post else 0)" for k
    using sums unfolding moved_sums_def by blast+
  have confD: "account_conf (v_transfers v) (v_pstate v) ?d D"
    and confC: "account_conf (v_transfers v) (v_pstate v) ?c C"
    using view_invD(2) [OF inv] D C by blast+
  consider "i = ?c" "a = C'" | "i = ?d" "a = D'" | "i \<noteq> ?c" "i \<noteq> ?d" "v_accounts v i = Some a"
    using a ne unfolding acc upd_accounts_def by (auto split: if_splits)
  then show ?thesis
  proof cases
    case 1
    have "debit_fits C'" "debit_within C'"
      using confC cm lim(4)
      by (auto simp: account_conf_def credit_moved_def rebalanced_def same_limits_def debit_fits_def
          debit_within_def)
    then show ?thesis
      using 1 confC cm lim ne sd(1,2) [of ?c] sd(3,4) [of ?c]
      by (auto simp: account_conf_def credit_moved_def rebalanced_def)
  next
    case 2
    have "credit_fits D'" "credit_within D'"
      using confD dm
      by (auto simp: account_conf_def debit_moved_def rebalanced_def same_limits_def credit_fits_def
          credit_within_def)
    then show ?thesis
      using 2 confD dm lim ne sd(1,2) [of ?d] sd(3,4) [of ?d]
      by (auto simp: account_conf_def debit_moved_def rebalanced_def)
  next
    case 3
    then have "account_conf (v_transfers v) (v_pstate v) i a"
      using view_invD(2) [OF inv] by blast
    then show ?thesis
      using 3 sd(1,2) [of i] sd(3,4) [of i] by (auto simp: account_conf_def)
  qed
qed

lemma transfer_conf_mono:
  assumes "transfer_conf acc tr ps i t" and "dom acc \<subseteq> dom acc'" and "tr \<subseteq>\<^sub>m tr'" and "ps \<subseteq>\<^sub>m ps'"
  shows "transfer_conf acc' tr' ps' i t"
proof -
  have "resolution_conf tr ps t \<Longrightarrow> resolution_conf tr' ps' t"
    using assms(3,4) unfolding resolution_conf_def map_le_def by (metis domI)
  then show ?thesis
    using assms(1,2) unfolding transfer_conf_def by blast
qed

lemma pstate_fresh:
  assumes "view_inv v" and "v_transfers v i = None"
  shows "v_pstate v i = None"
  using view_invD(4) [OF assms(1)] assms(2) by (cases "v_pstate v i") fastforce+

lemma moved_sums_insert:
  assumes "finite (dom (v_transfers v))" and "v_transfers v i = None"
  shows "moved_sums v (v\<lparr>v_accounts := acc, v_transfers := (v_transfers v)(i \<mapsto> t)\<rparr>) t
    (pending_amount (v_pstate v) i t) 0 (posted_amount t)"
  using assms by (simp add: moved_sums_def pending_sum_insert posted_sum_insert)

lemma moved_sums_resolve:
  assumes "finite (dom (v_transfers v))" and "v_transfers v i = Some p"
    and "classify p = PendingReserve" and "v_pstate v i = None"
  shows "moved_sums v (v\<lparr>v_accounts := acc, v_pstate := (v_pstate v)(i \<mapsto> s)\<rparr>) p
    0 (unat (t_amount p)) 0"
  using pending_sum_resolve [OF assms(1,2,3), of "v_pstate v"] assms(4)
  by (simp add: moved_sums_def)

lemma moved_sums_resolution:
  assumes "finite (dom (v_transfers v))" and "v_transfers v j = Some p"
    and "classify p = PendingReserve" and "v_pstate v j = None"
    and "v_transfers v i = None" and "classify t \<noteq> PendingReserve"
    and "t_debit_account_id t = t_debit_account_id p"
    and "t_credit_account_id t = t_credit_account_id p"
  shows "moved_sums v (v\<lparr>v_accounts := acc, v_transfers := (v_transfers v)(i \<mapsto> t),
      v_pstate := (v_pstate v)(j \<mapsto> s)\<rparr>) t 0 (unat (t_amount p)) (posted_amount t)"
proof -
  have side: "side t = side p" if "side \<in> {t_debit_account_id, t_credit_account_id}"
    for side :: "transfer \<Rightarrow> u128"
    using that assms(7,8) by auto
  have zero: "pending_amount ps i t = 0" for ps
    using assms(6) by (simp add: pending_amount_def)
  show ?thesis
    unfolding moved_sums_def
  proof (intro allI impI)
    fix side :: "transfer \<Rightarrow> u128" and a
    assume "side \<in> {t_debit_account_id, t_credit_account_id}"
    then have eq: "side t = side p" by (rule side)
    have "pending_sum side (v_transfers v) ((v_pstate v)(j \<mapsto> s)) a
        + (if side p = a then unat (t_amount p) else 0)
      = pending_sum side (v_transfers v) (v_pstate v) a"
      using assms(1-4) by (rule pending_sum_resolve)
    then show "pending_sum side (v_transfers (v\<lparr>v_accounts := acc,
          v_transfers := (v_transfers v)(i \<mapsto> t), v_pstate := (v_pstate v)(j \<mapsto> s)\<rparr>))
          (v_pstate (v\<lparr>v_accounts := acc, v_transfers := (v_transfers v)(i \<mapsto> t),
            v_pstate := (v_pstate v)(j \<mapsto> s)\<rparr>)) a + (if side t = a then unat (t_amount p) else 0)
        = pending_sum side (v_transfers v) (v_pstate v) a + (if side t = a then 0 else 0) \<and>
      posted_sum side (v_transfers (v\<lparr>v_accounts := acc,
          v_transfers := (v_transfers v)(i \<mapsto> t), v_pstate := (v_pstate v)(j \<mapsto> s)\<rparr>)) a
        = posted_sum side (v_transfers v) a + (if side t = a then posted_amount t else 0)"
      using assms(1,5) eq zero
      by (cases "side p = a") (simp_all add: pending_sum_insert posted_sum_insert)
  qed
qed

text \<open>The log part of the invariant after a new entry.\<close>

lemma log_insert_inv:
  assumes inv: "view_inv v" and new: "new_entry v t D C"
    and ps: "v_pstate v \<subseteq>\<^sub>m ps'"
    and ps_dom: "\<And>i s. ps' i = Some s \<Longrightarrow> v_pstate v i = Some s \<or>
      (\<exists>p. v_transfers v i = Some p \<and> classify p = PendingReserve)"
    and res: "is_resolution t \<Longrightarrow> resolution_conf (v_transfers v) ps' t \<and>
      v_pstate v (t_pending_id t) = None"
    and conf: "\<And>i a. upd_accounts v t D' C' i = Some a \<Longrightarrow>
      account_conf ((v_transfers v)(t_id t \<mapsto> t)) ps' i a"
  shows "view_inv \<lparr>v_accounts = upd_accounts v t D' C',
    v_transfers = (v_transfers v)(t_id t \<mapsto> t), v_pstate = ps'\<rparr>" (is "view_inv ?w")
proof (rule view_invI)
  let ?tr = "(v_transfers v)(t_id t \<mapsto> t)"
  have le: "v_transfers v \<subseteq>\<^sub>m ?tr"
    using new by (auto simp: map_le_def new_entry_def)
  have dom: "dom (v_accounts v) \<subseteq> dom (upd_accounts v t D' C')"
    by (auto simp: upd_accounts_def)
  note old = view_invD [OF inv]
  show "finite (dom (v_transfers ?w))" using old(1) by simp
  show "account_conf (v_transfers ?w) (v_pstate ?w) i a" if "v_accounts ?w i = Some a" for i a
    using conf that by simp
  show "transfer_conf (v_accounts ?w) (v_transfers ?w) (v_pstate ?w) i u"
    if u: "v_transfers ?w i = Some u" for i u
  proof (cases "i = t_id t")
    case True
    have "is_resolution t \<Longrightarrow> resolution_conf ?tr ps' t"
      using res le unfolding resolution_conf_def map_le_def by (metis domI)
    then show ?thesis
      using True u new by (auto simp: transfer_conf_def new_entry_def upd_accounts_def)
  next
    case False
    then have "transfer_conf (v_accounts v) (v_transfers v) (v_pstate v) i u"
      using u old(3) by simp
    then show ?thesis
      using transfer_conf_mono [OF _ dom le ps] by simp
  qed
  show "\<exists>u. v_transfers ?w i = Some u \<and> classify u = PendingReserve"
    if "v_pstate ?w i = Some s" for i s
  proof -
    from that have "ps' i = Some s" by simp
    then obtain u where u: "v_transfers v i = Some u" "classify u = PendingReserve"
      using ps_dom old(4) by blast
    moreover have "i \<noteq> t_id t" using u new by (auto simp: new_entry_def)
    ultimately show ?thesis by simp
  qed
  show "i = j" if "v_transfers ?w i = Some x" "v_transfers ?w j = Some y" "is_resolution x"
    "is_resolution y" "t_pending_id x = t_pending_id y" for i j x y
  proof (rule ccontr)
    assume ne: "i \<noteq> j"
    have clash: False if "v_transfers v k = Some z" "is_resolution z" "is_resolution t"
      "t_pending_id z = t_pending_id t" for k z
      using that old(3) [OF that(1)] res
      by (auto simp: transfer_conf_def resolution_conf_def)
    show False
      using that ne old(5) [of i x j y] clash [of i x] clash [of j y] by (auto split: if_splits)
  qed
qed

text \<open>An outstanding reservation is held in full by both of its accounts.\<close>

lemma reservation_held:
  assumes "view_inv v" and "v_transfers v i = Some p" and "classify p = PendingReserve"
    and "v_pstate v i = None"
  shows "\<exists>D C. v_accounts v (t_debit_account_id p) = Some D \<and>
    v_accounts v (t_credit_account_id p) = Some C \<and>
    t_debit_account_id p \<noteq> t_credit_account_id p \<and>
    t_amount p \<le> a_debits_pending D \<and> t_amount p \<le> a_credits_pending C"
proof -
  obtain D C where D: "v_accounts v (t_debit_account_id p) = Some D"
    and C: "v_accounts v (t_credit_account_id p) = Some C"
    and ne: "t_debit_account_id p \<noteq> t_credit_account_id p"
    using view_invD(3) [OF assms(1,2)] by (auto simp: transfer_conf_def)
  have "unat (t_amount p) \<le> pending_sum side (v_transfers v) (v_pstate v) (side p)" for side
    using view_invD(1) [OF assms(1)] assms(2-4) by (rule pending_amount_le_sum)
  then have "t_amount p \<le> a_debits_pending D" "t_amount p \<le> a_credits_pending C"
    using view_invD(2) [OF assms(1) D] view_invD(2) [OF assms(1) C]
    by (simp_all add: account_conf_def word_le_nat_alt)
  with D C ne show ?thesis by blast
qed

text \<open>Settling a reservation for at most its amount keeps both accounts within their limits.\<close>

lemma settle_debit_limits:
  assumes "account_conf tr ps i D" and "x \<le> r" and "r \<le> unat (a_debits_pending D)"
    and "debit_moved D D' (unat (a_debits_pending D) - r) (unat (a_debits_posted D) + x)"
  shows "debit_fits D' \<and> debit_within D'"
  using assms by (auto simp: account_conf_def debit_moved_def rebalanced_def same_limits_def
      debit_fits_def debit_within_def)

lemma settle_credit_limits:
  assumes "account_conf tr ps i C" and "x \<le> r" and "r \<le> unat (a_credits_pending C)"
    and "credit_moved C C' (unat (a_credits_pending C) - r) (unat (a_credits_posted C) + x)"
  shows "credit_fits C' \<and> credit_within C'"
  using assms by (auto simp: account_conf_def credit_moved_def rebalanced_def same_limits_def
      credit_fits_def credit_within_def)

lemma resolution_step_inv:
  assumes inv: "view_inv v" and new: "new_entry v t D C"
    and p: "v_transfers v (t_pending_id t) = Some p" "classify p = PendingReserve"
      "v_pstate v (t_pending_id t) = None"
    and side: "t_debit_account_id t = t_debit_account_id p"
      "t_credit_account_id t = t_credit_account_id p"
    and amount: "t_amount t \<le> t_amount p"
    and cls: "classify t = Post \<and> s = Posted \<or> classify t = Void \<and> s = Voided"
    and dm: "debit_moved D D' (unat (a_debits_pending D) - unat (t_amount p))
      (unat (a_debits_posted D) + posted_amount t)"
    and cm: "credit_moved C C' (unat (a_credits_pending C) - unat (t_amount p))
      (unat (a_credits_posted C) + posted_amount t)"
  shows "view_inv (v\<lparr>v_accounts := upd_accounts v t D' C',
    v_transfers := (v_transfers v)(t_id t \<mapsto> t),
    v_pstate := (v_pstate v)(t_pending_id t \<mapsto> s)\<rparr>)" (is "view_inv ?w")
proof -
  have D: "v_accounts v (t_debit_account_id t) = Some D"
    and C: "v_accounts v (t_credit_account_id t) = Some C"
    and ne: "t_debit_account_id t \<noteq> t_credit_account_id t"
    and fresh: "v_transfers v (t_id t) = None"
    using new by (auto simp: new_entry_def)
  have held: "unat (t_amount p) \<le> unat (a_debits_pending D)"
    "unat (t_amount p) \<le> unat (a_credits_pending C)"
    using reservation_held [OF inv p] D C side by (auto simp: word_le_nat_alt)
  have le: "posted_amount t \<le> unat (t_amount p)"
    using amount by (auto simp: posted_amount_def word_le_nat_alt)
  have sums: "moved_sums v ?w t 0 (unat (t_amount p)) (posted_amount t)"
    using view_invD(1) [OF inv] p fresh _ side by (rule moved_sums_resolution) (use cls in auto)
  have lim: "debit_fits D'" "credit_fits C'" "debit_within D'" "credit_within C'"
    using settle_debit_limits [OF view_invD(2) [OF inv D] le held(1) dm]
      settle_credit_limits [OF view_invD(2) [OF inv C] le held(2) cm] by auto
  have conf: "account_conf (v_transfers ?w) (v_pstate ?w) i a" if "v_accounts ?w i = Some a" for i a
    by (rule accounts_conf_moved [OF inv D C ne sums _ _ lim _ that]) (use dm cm in simp_all)
  have "view_inv \<lparr>v_accounts = upd_accounts v t D' C',
    v_transfers = (v_transfers v)(t_id t \<mapsto> t), v_pstate = (v_pstate v)(t_pending_id t \<mapsto> s)\<rparr>"
  proof (rule log_insert_inv [OF inv new])
    show "v_pstate v \<subseteq>\<^sub>m (v_pstate v)(t_pending_id t \<mapsto> s)"
      using p(3) by (auto simp: map_le_def)
    show "v_pstate v i = Some s' \<or> (\<exists>p. v_transfers v i = Some p \<and> classify p = PendingReserve)"
      if "((v_pstate v)(t_pending_id t \<mapsto> s)) i = Some s'" for i s'
      using that p by (auto split: if_splits)
    show "resolution_conf (v_transfers v) ((v_pstate v)(t_pending_id t \<mapsto> s)) t \<and>
        v_pstate v (t_pending_id t) = None"
      using p side amount cls by (auto simp: resolution_conf_def)
    show "account_conf ((v_transfers v)(t_id t \<mapsto> t)) ((v_pstate v)(t_pending_id t \<mapsto> s)) i a"
      if "upd_accounts v t D' C' i = Some a" for i a
      using conf [of i a] that by simp
  qed
  then show ?thesis by (cases v) simp
qed

lemma entry_step_inv:
  assumes inv: "view_inv v" and new: "new_entry v t D C" and cls: "\<not> is_resolution t"
    and dm: "debit_moved D D' (unat (a_debits_pending D) + pending_amount (v_pstate v) (t_id t) t)
      (unat (a_debits_posted D) + posted_amount t)"
    and cm: "credit_moved C C' (unat (a_credits_pending C) + pending_amount (v_pstate v) (t_id t) t)
      (unat (a_credits_posted C) + posted_amount t)"
    and lim: "debit_fits D'" "credit_fits C'" "debit_within D'" "credit_within C'"
  shows "view_inv (v\<lparr>v_accounts := upd_accounts v t D' C',
    v_transfers := (v_transfers v)(t_id t \<mapsto> t)\<rparr>)" (is "view_inv ?w")
proof -
  have D: "v_accounts v (t_debit_account_id t) = Some D"
    and C: "v_accounts v (t_credit_account_id t) = Some C"
    and ne: "t_debit_account_id t \<noteq> t_credit_account_id t"
    and fresh: "v_transfers v (t_id t) = None"
    using new by (auto simp: new_entry_def)
  have sums: "moved_sums v ?w t (pending_amount (v_pstate v) (t_id t) t) 0 (posted_amount t)"
    using view_invD(1) [OF inv] fresh by (rule moved_sums_insert)
  have conf: "account_conf (v_transfers ?w) (v_pstate ?w) i a" if "v_accounts ?w i = Some a" for i a
    by (rule accounts_conf_moved [OF inv D C ne sums _ _ lim _ that]) (use dm cm in simp_all)
  have "view_inv \<lparr>v_accounts = upd_accounts v t D' C',
    v_transfers = (v_transfers v)(t_id t \<mapsto> t), v_pstate = v_pstate v\<rparr>"
  proof (rule log_insert_inv [OF inv new])
    show "account_conf ((v_transfers v)(t_id t \<mapsto> t)) (v_pstate v) i a"
      if "upd_accounts v t D' C' i = Some a" for i a
      using conf [of i a] that by simp
  qed (use cls in simp_all)
  then show ?thesis by (cases v) simp
qed

lemma expire_step_inv:
  assumes inv: "view_inv v"
    and p: "v_transfers v i = Some p" "classify p = PendingReserve" "v_pstate v i = None"
    and D: "v_accounts v (t_debit_account_id p) = Some D"
    and C: "v_accounts v (t_credit_account_id p) = Some C"
    and dm: "debit_moved D D' (unat (a_debits_pending D) - unat (t_amount p))
      (unat (a_debits_posted D))"
    and cm: "credit_moved C C' (unat (a_credits_pending C) - unat (t_amount p))
      (unat (a_credits_posted C))"
  shows "view_inv (v\<lparr>v_accounts := upd_accounts v p D' C',
    v_pstate := (v_pstate v)(i \<mapsto> Expired)\<rparr>)" (is "view_inv ?w")
proof -
  have ne: "t_debit_account_id p \<noteq> t_credit_account_id p"
    and held: "unat (t_amount p) \<le> unat (a_debits_pending D)"
      "unat (t_amount p) \<le> unat (a_credits_pending C)"
    using reservation_held [OF inv p] D C by (auto simp: word_le_nat_alt)
  have sums: "moved_sums v ?w p 0 (unat (t_amount p)) 0"
    using view_invD(1) [OF inv] p by (rule moved_sums_resolve)
  have lim: "debit_fits D'" "credit_fits C'" "debit_within D'" "credit_within C'"
    using settle_debit_limits [OF view_invD(2) [OF inv D], of 0 "unat (t_amount p)" D'] dm
      settle_credit_limits [OF view_invD(2) [OF inv C], of 0 "unat (t_amount p)" C'] cm held
    by auto
  have conf: "account_conf (v_transfers ?w) (v_pstate ?w) k a" if "v_accounts ?w k = Some a" for k a
    by (rule accounts_conf_moved [OF inv D C ne sums _ _ lim _ that]) (use dm cm in simp_all)
  have ps: "v_pstate v \<subseteq>\<^sub>m v_pstate ?w"
    using p(3) by (auto simp: map_le_def)
  have dom: "dom (v_accounts v) \<subseteq> dom (v_accounts ?w)"
    by (auto simp: upd_accounts_def)
  note old = view_invD [OF inv]
  show ?thesis
  proof (rule view_invI)
    show "transfer_conf (v_accounts ?w) (v_transfers ?w) (v_pstate ?w) k t"
      if "v_transfers ?w k = Some t" for k t
      using transfer_conf_mono [OF old(3) dom _ ps] that by simp
    show "\<exists>t. v_transfers ?w k = Some t \<and> classify t = PendingReserve"
      if "v_pstate ?w k = Some s" for k s
      using that p old(4) [of k s] by (auto split: if_splits)
  qed (use conf old(1) old(5) in auto)
qed

theorem view_step_inv: "view_step v w \<Longrightarrow> view_inv v \<Longrightarrow> view_inv w"
proof (induction rule: view_step.induct)
  case (regular v t D C D' C')
  then show ?case
    by (intro entry_step_inv [where D = D and C = C])
      (simp_all add: is_resolution_iff pending_amount_def posted_amount_def)
next
  case (reserve v t D C D' C')
  then have "v_pstate v (t_id t) = None"
    by (intro pstate_fresh) (auto simp: new_entry_def)
  then show ?case
    using reserve by (intro entry_step_inv [where D = D and C = C])
      (simp_all add: is_resolution_iff pending_amount_def posted_amount_def)
next
  case (post v t D C p D' C')
  then show ?case
    by (intro resolution_step_inv [where D = D and C = C and p = p])
      (simp_all add: posted_amount_def)
next
  case (void v t D C p D' C')
  then show ?case
    by (intro resolution_step_inv [where D = D and C = C and p = p])
      (simp_all add: posted_amount_def)
next
  case (expire v i p D C D' C')
  then show ?case by (intro expire_step_inv) simp_all
qed

section \<open>Double entry\<close>

lemma sum_sides:
  fixes f :: "u128 \<Rightarrow> nat" and side :: "transfer \<Rightarrow> u128"
  assumes "finite A" and "finite (dom tr)" and "\<And>i t. tr i = Some t \<Longrightarrow> side t \<in> A"
  shows "(\<Sum>a\<in>A. \<Sum>i\<in>dom tr. if side (the (tr i)) = a then f i else 0) = (\<Sum>i\<in>dom tr. f i)"
proof -
  have "(\<Sum>a\<in>A. \<Sum>i\<in>dom tr. if side (the (tr i)) = a then f i else 0)
      = (\<Sum>i\<in>dom tr. \<Sum>a\<in>A. if side (the (tr i)) = a then f i else 0)"
    by (rule sum.swap)
  also have "\<dots> = (\<Sum>i\<in>dom tr. f i)"
    using assms by (intro sum.cong) auto
  finally show ?thesis .
qed

definition bucket_total :: "(account \<Rightarrow> u128) \<Rightarrow> (u128 \<rightharpoonup> account) \<Rightarrow> nat" where
  "bucket_total f acc = (\<Sum>i\<in>dom acc. unat (f (the (acc i))))"

lemma view_double_entry:
  assumes inv: "view_inv v" and fin: "finite (dom (v_accounts v))"
  shows "bucket_total a_debits_posted (v_accounts v) = bucket_total a_credits_posted (v_accounts v)"
    and "bucket_total a_debits_pending (v_accounts v) = bucket_total a_credits_pending (v_accounts v)"
proof -
  let ?A = "dom (v_accounts v)" and ?tr = "v_transfers v" and ?ps = "v_pstate v"
  have sides: "t_debit_account_id t \<in> ?A" "t_credit_account_id t \<in> ?A" if "?tr i = Some t" for i t
    using view_invD(3) [OF inv that] by (auto simp: transfer_conf_def)
  have conf: "account_conf ?tr ?ps i (the (v_accounts v i))" if "i \<in> ?A" for i
    using view_invD(2) [OF inv] that by auto
  have posted: "(\<Sum>i\<in>?A. posted_sum side ?tr i) = (\<Sum>i\<in>dom ?tr. posted_amount (the (?tr i)))"
    if "\<And>i t. ?tr i = Some t \<Longrightarrow> side t \<in> ?A" for side
    unfolding posted_sum_def Let_def
    using fin view_invD(1) [OF inv] that by (rule sum_sides)
  have pending: "(\<Sum>i\<in>?A. pending_sum side ?tr ?ps i)
      = (\<Sum>i\<in>dom ?tr. pending_amount ?ps i (the (?tr i)))"
    if "\<And>i t. ?tr i = Some t \<Longrightarrow> side t \<in> ?A" for side
    unfolding pending_sum_def Let_def
    using fin view_invD(1) [OF inv] that by (rule sum_sides)
  have "bucket_total a_debits_posted (v_accounts v) = (\<Sum>i\<in>?A. posted_sum t_debit_account_id ?tr i)"
    "bucket_total a_credits_posted (v_accounts v) = (\<Sum>i\<in>?A. posted_sum t_credit_account_id ?tr i)"
    "bucket_total a_debits_pending (v_accounts v) = (\<Sum>i\<in>?A. pending_sum t_debit_account_id ?tr ?ps i)"
    "bucket_total a_credits_pending (v_accounts v) = (\<Sum>i\<in>?A. pending_sum t_credit_account_id ?tr ?ps i)"
    unfolding bucket_total_def using conf by (auto intro!: sum.cong simp: account_conf_def)
  then show "bucket_total a_debits_posted (v_accounts v) = bucket_total a_credits_posted (v_accounts v)"
    and "bucket_total a_debits_pending (v_accounts v) = bucket_total a_credits_pending (v_accounts v)"
    using posted sides pending by simp_all
qed

end
