(* ===== verification/Ledger_Invariant.thy ===== *)
theory Ledger_Invariant
  imports Ledger_View
begin

text \<open>
  The apply state machine of \<open>Ledger_Apply\<close> refines the abstract ledger of
  \<open>Ledger_View\<close>: the committed state overlaid with the working set of a batch is a view, every
  rejected item leaves that view unchanged and every accepted one is a \<open>view_step\<close>. From this
  follow the invariant of the committed state, that no call can fail on a reachable state, and the
  behaviour of the expiry sweep.
\<close>

section \<open>The view of a batch in progress\<close>

definition acc_view :: "ledger_db \<Rightarrow> apply_state \<Rightarrow> (u128 \<rightharpoonup> account)" where
  "acc_view db st = db_accounts db ++ working st"

definition view_of :: "ledger_db \<Rightarrow> apply_state \<Rightarrow> (u128 \<rightharpoonup> transfer) \<Rightarrow> ledger_view" where
  "view_of db st staged = \<lparr> v_accounts = acc_view db st, v_transfers = db_transfers db ++ staged,
     v_pstate = db_pending_state db ++ resolved st \<rparr>"

text \<open>Accounts of the working set that are not marked dirty are the committed ones.\<close>

definition working_ok :: "ledger_db \<Rightarrow> apply_state \<Rightarrow> bool" where
  "working_ok db st = (set (dirty st) \<subseteq> dom (working st) \<and>
     (\<forall>i a. i \<notin> set (dirty st) \<longrightarrow> working st i = Some a \<longrightarrow> db_accounts db i = Some a))"

text \<open>Loading accounts does not change what the batch sees.\<close>

definition st_frame :: "ledger_db \<Rightarrow> apply_state \<Rightarrow> apply_state \<Rightarrow> bool" where
  "st_frame db st st' = (acc_view db st' = acc_view db st \<and> resolved st' = resolved st \<and>
     expiry_removals st' = expiry_removals st \<and> (working_ok db st \<longrightarrow> working_ok db st'))"

lemma st_frame_refl [simp, intro]: "st_frame db st st"
  by (simp add: st_frame_def)

lemma st_frame_trans: "st_frame db a b \<Longrightarrow> st_frame db b c \<Longrightarrow> st_frame db a c"
  by (simp add: st_frame_def)

lemma view_of_frame: "st_frame db st st' \<Longrightarrow> view_of db st' staged = view_of db st staged"
  by (simp add: st_frame_def view_of_def)

lemma load_account_frame:
  assumes "load_account db i st = (r, st')"
  shows "r = acc_view db st i \<and> st_frame db st st'"
proof (cases "working st i")
  case (Some a)
  then show ?thesis
    using assms by (auto simp: load_account_def acc_view_def map_add_def split: option.splits)
next
  case None
  show ?thesis
  proof (cases "db_accounts db i")
    case None
    then show ?thesis
      using assms \<open>working st i = None\<close> by (auto simp: load_account_def acc_view_def map_add_def)
  next
    case (Some a)
    then have st': "r = Some a" "st' = st\<lparr>working := (working st)(i \<mapsto> a)\<rparr>"
      using assms \<open>working st i = None\<close> by (auto simp: load_account_def)
    have "acc_view db st' = acc_view db st"
      using Some \<open>working st i = None\<close>
      by (auto simp: acc_view_def st'(2) map_add_def fun_eq_iff split: option.splits)
    moreover have "acc_view db st i = Some a"
      using Some \<open>working st i = None\<close> by (simp add: acc_view_def map_add_def)
    ultimately show ?thesis
      using st' Some by (auto simp: st_frame_def working_ok_def)
  qed
qed

lemma load_two:
  assumes "load_account db i st = (Some D, st1)" and "load_account db j st1 = (Some C, st2)"
  shows "acc_view db st i = Some D \<and> acc_view db st j = Some C \<and> st_frame db st st2"
  using load_account_frame [OF assms(1)] load_account_frame [OF assms(2)]
  by (auto simp: st_frame_def)

lemma acc_view_write_back: "acc_view db (write_back a st) = (acc_view db st)(a_id a \<mapsto> a)"
  by (simp add: acc_view_def write_back_def map_add_upd_eq)

lemma working_ok_write_back: "working_ok db st \<Longrightarrow> working_ok db (write_back a st)"
  by (auto simp: working_ok_def write_back_def)

lemma working_ok_frame [simp]:
  "working_ok db (st\<lparr>resolved := r\<rparr>) = working_ok db st"
  "working_ok db (st\<lparr>expiry_removals := e\<rparr>) = working_ok db st"
  by (simp_all add: working_ok_def)

lemma acc_view_frame [simp]:
  "acc_view db (st\<lparr>resolved := r\<rparr>) = acc_view db st"
  "acc_view db (st\<lparr>expiry_removals := e\<rparr>) = acc_view db st"
  by (simp_all add: acc_view_def)

lemma write_back_simps [simp]:
  "resolved (write_back a st) = resolved st"
  "expiry_removals (write_back a st) = expiry_removals st"
  by (simp_all add: write_back_def)

section \<open>Staging one movement\<close>

lemma constraint_within:
  assumes "\<not> debit_constraint_violated a" and "debit_fits a"
  shows "debit_within a"
proof -
  have "unat (a_debits_posted a + a_debits_pending a) = unat (a_debits_posted a) + unat (a_debits_pending a)"
    using assms(2) by (intro unat_add_no_overflow) (simp add: debit_fits_def)
  then show ?thesis
    using assms(1) by (simp add: debit_constraint_violated_def debit_within_def word_less_nat_alt not_less)
qed

lemma constraint_within_credit:
  assumes "\<not> credit_constraint_violated a" and "credit_fits a"
  shows "credit_within a"
proof -
  have "unat (a_credits_posted a + a_credits_pending a) = unat (a_credits_posted a) + unat (a_credits_pending a)"
    using assms(2) by (intro unat_add_no_overflow) (simp add: credit_fits_def)
  then show ?thesis
    using assms(1) by (simp add: credit_constraint_violated_def credit_within_def word_less_nat_alt not_less)
qed

lemma stage_regular_rejected:
  assumes "stage_regular db t its last_ts st = (Inl code, st')"
  shows "st_frame db st st'"
proof -
  obtain rd st1 where d: "load_account db (t_debit_account_id t) st = (rd, st1)" by fastforce
  show ?thesis
  proof (cases rd)
    case None
    then show ?thesis using assms d load_account_frame [OF d] by (simp add: stage_regular_def)
  next
    case (Some D)
    obtain rc st2 where c: "load_account db (t_credit_account_id t) st1 = (rc, st2)" by fastforce
    have "st' = st2"
      using assms d c Some
      by (auto simp: stage_regular_def Let_def split: option.splits if_splits)
    then show ?thesis
      using load_account_frame [OF d] load_account_frame [OF c] st_frame_trans by blast
  qed
qed

lemma balancing_amount_le: "balancing_amount t D C \<le> t_amount t"
  by (simp add: balancing_amount_def Let_def min_le_iff_disj)

lemma stage_regular_accepted:
  assumes "stage_regular db t its last_ts st = (Inr amount, st')"
  obtains D C D' C' st1 where
    "acc_view db st (t_debit_account_id t) = Some D"
    "acc_view db st (t_credit_account_id t) = Some C"
    "st_frame db st st1" "st' = write_back C' (write_back D' st1)"
    "debit_moved D D' (unat (a_debits_pending D)) (unat (a_debits_posted D) + unat amount)"
    "credit_moved C C' (unat (a_credits_pending C)) (unat (a_credits_posted C) + unat amount)"
    "debit_fits D'" "credit_fits C'" "debit_within D'" "credit_within C'"
    "a_timestamp D' = a_timestamp D" "a_timestamp C' = a_timestamp C"
    "imported_transfer_checks its last_ts (a_timestamp D) (a_timestamp C) (t_timeout t) = None"
    "amount \<le> t_amount t"
proof -
  obtain D st1 where d: "load_account db (t_debit_account_id t) st = (Some D, st1)"
    using assms by (auto simp: stage_regular_def split: prod.splits option.splits)
  obtain C st2 where c: "load_account db (t_credit_account_id t) st1 = (Some C, st2)"
    using assms d by (auto simp: stage_regular_def split: prod.splits option.splits)
  obtain dv cv where
    dv: "checked_add (a_debits_posted D) amount = Some dv"
    and cv: "checked_add (a_credits_posted C) amount = Some cv"
    and am: "amount = balancing_amount t D C"
    and st': "st' = write_back (C\<lparr>a_credits_posted := cv\<rparr>)
      (write_back (D\<lparr>a_debits_posted := dv\<rparr>) st2)"
    and fits: "checked_add (a_debits_pending D) dv \<noteq> None" "checked_add (a_credits_pending C) cv \<noteq> None"
    and ok: "\<not> debit_constraint_violated (D\<lparr>a_debits_posted := dv\<rparr>)"
      "\<not> credit_constraint_violated (C\<lparr>a_credits_posted := cv\<rparr>)"
    and its: "imported_transfer_checks its last_ts (a_timestamp D) (a_timestamp C) (t_timeout t) = None"
    using assms d c by (auto simp: stage_regular_def Let_def split: option.splits if_splits)
  have fd: "debit_fits (D\<lparr>a_debits_posted := dv\<rparr>)" and fc: "credit_fits (C\<lparr>a_credits_posted := cv\<rparr>)"
    using fits by (simp_all add: debit_fits_def credit_fits_def checked_add_None_iff)
  show thesis
  proof (rule that)
    show "acc_view db st (t_debit_account_id t) = Some D"
      "acc_view db st (t_credit_account_id t) = Some C" "st_frame db st st2"
      using load_two [OF d c] by auto
    show "st' = write_back (C\<lparr>a_credits_posted := cv\<rparr>) (write_back (D\<lparr>a_debits_posted := dv\<rparr>) st2)"
      by (rule st')
    show "amount \<le> t_amount t"
      unfolding am by (rule balancing_amount_le)
    show "debit_moved D (D\<lparr>a_debits_posted := dv\<rparr>) (unat (a_debits_pending D))
        (unat (a_debits_posted D) + unat amount)"
      "credit_moved C (C\<lparr>a_credits_posted := cv\<rparr>) (unat (a_credits_pending C))
        (unat (a_credits_posted C) + unat amount)"
      using checked_add_SomeD [OF dv] checked_add_SomeD [OF cv]
      by (simp_all add: debit_moved_def credit_moved_def rebalanced_def same_limits_def)
    show "debit_within (D\<lparr>a_debits_posted := dv\<rparr>)" "credit_within (C\<lparr>a_credits_posted := cv\<rparr>)"
      by (rule constraint_within [OF ok(1) fd], rule constraint_within_credit [OF ok(2) fc])
  qed (use fd fc its in simp_all)
qed

lemma stage_pending_rejected:
  assumes "stage_pending db t pts its last_ts st = (Inl code, st')"
  shows "st_frame db st st'"
proof -
  obtain rd st1 where d: "load_account db (t_debit_account_id t) st = (rd, st1)" by fastforce
  show ?thesis
  proof (cases rd)
    case None
    then show ?thesis using assms d load_account_frame [OF d] by (simp add: stage_pending_def)
  next
    case (Some D)
    obtain rc st2 where c: "load_account db (t_credit_account_id t) st1 = (rc, st2)" by fastforce
    have "st' = st2"
      using assms d c Some
      by (auto simp: stage_pending_def Let_def split: option.splits if_splits)
    then show ?thesis
      using load_account_frame [OF d] load_account_frame [OF c] st_frame_trans by blast
  qed
qed

text \<open>The expiry a timed reserve was validated against.\<close>

definition timeout_fits :: "u64 \<Rightarrow> u32 \<Rightarrow> bool" where
  "timeout_fits ts timeout = (timeout \<noteq> 0 \<longrightarrow>
     unat ts + unat timeout * 1000000000 \<le> unat TIMESTAMP_MAX)"

lemma timeout_check_fits:
  assumes "\<not> (timeout \<noteq> 0 \<and>
    (case Option.bind (checked_mul (ucast timeout) NANOS_PER_SECOND) (checked_add pts) of
       Some e \<Rightarrow> \<not> e \<le> TIMESTAMP_MAX | None \<Rightarrow> True))"
  shows "timeout_fits pts (timeout :: u32)"
proof (cases "timeout = 0")
  case False
  then obtain d e where d: "checked_mul (ucast timeout) NANOS_PER_SECOND = Some d"
    and e: "checked_add pts d = Some e" and le: "e \<le> TIMESTAMP_MAX"
    using assms by (auto simp: bind_eq_Some_conv split: option.splits)
  have "unat (ucast timeout :: u64) = unat timeout"
    using unat_less_256(1) [of timeout] by (simp add: unsigned_ucast_eq take_bit_nat_eq_self)
  then show ?thesis
    using checked_mul_SomeD [OF d] checked_add_SomeD [OF e] le
    by (simp add: timeout_fits_def NANOS_PER_SECOND_def word_le_nat_alt)
qed (simp add: timeout_fits_def)

lemma stage_pending_accepted:
  assumes "stage_pending db t pts its last_ts st = (Inr amount, st')"
  obtains D C D' C' st1 where
    "acc_view db st (t_debit_account_id t) = Some D"
    "acc_view db st (t_credit_account_id t) = Some C"
    "st_frame db st st1" "st' = write_back C' (write_back D' st1)"
    "debit_moved D D' (unat (a_debits_pending D) + unat amount) (unat (a_debits_posted D))"
    "credit_moved C C' (unat (a_credits_pending C) + unat amount) (unat (a_credits_posted C))"
    "debit_fits D'" "credit_fits C'" "debit_within D'" "credit_within C'"
    "a_timestamp D' = a_timestamp D" "a_timestamp C' = a_timestamp C"
    "imported_transfer_checks its last_ts (a_timestamp D) (a_timestamp C) (t_timeout t) = None"
    "amount \<le> t_amount t" "timeout_fits pts (t_timeout t)"
proof -
  obtain D st1 where d: "load_account db (t_debit_account_id t) st = (Some D, st1)"
    using assms by (auto simp: stage_pending_def split: prod.splits option.splits)
  obtain C st2 where c: "load_account db (t_credit_account_id t) st1 = (Some C, st2)"
    using assms d by (auto simp: stage_pending_def split: prod.splits option.splits)
  define D1 where "D1 v = D\<lparr>a_debits_pending := v\<rparr>" for v
  define C1 where "C1 v = C\<lparr>a_credits_pending := v\<rparr>" for v
  define D2 where "D2 v = (if flags_contain (t_flags t) TF_CLOSING_DEBIT
    then (D1 v)\<lparr>a_flags := a_flags D OR AF_CLOSED\<rparr> else D1 v)" for v
  define C2 where "C2 v = (if flags_contain (t_flags t) TF_CLOSING_CREDIT
    then (C1 v)\<lparr>a_flags := a_flags C OR AF_CLOSED\<rparr> else C1 v)" for v
  obtain dv cv where
    dv: "checked_add (a_debits_pending D) amount = Some dv"
    and cv: "checked_add (a_credits_pending C) amount = Some cv"
    and am: "amount = balancing_amount t D C"
    and st': "st' = write_back (C2 cv) (write_back (D2 dv) st2)"
    and fits: "checked_add dv (a_debits_posted D) \<noteq> None" "checked_add cv (a_credits_posted C) \<noteq> None"
    and ok: "\<not> debit_constraint_violated (D1 dv)" "\<not> credit_constraint_violated (C1 cv)"
    and to: "\<not> (t_timeout t \<noteq> 0 \<and>
      (case Option.bind (checked_mul (ucast (t_timeout t)) NANOS_PER_SECOND) (checked_add pts) of
         Some e \<Rightarrow> \<not> e \<le> TIMESTAMP_MAX | None \<Rightarrow> True))"
    and its: "imported_transfer_checks its last_ts (a_timestamp D) (a_timestamp C) (t_timeout t) = None"
    using assms d c
    by (auto simp: stage_pending_def Let_def D1_def C1_def D2_def C2_def split: option.splits if_splits)
  have fd: "debit_fits (D1 dv)" and fc: "credit_fits (C1 cv)"
    using fits by (simp_all add: debit_fits_def credit_fits_def checked_add_None_iff D1_def C1_def)
  have wd: "debit_within (D1 dv)" and wc: "credit_within (C1 cv)"
    by (rule constraint_within [OF ok(1) fd], rule constraint_within_credit [OF ok(2) fc])
  show thesis
  proof (rule that [of D C st2 "C2 cv" "D2 dv"])
    show "acc_view db st (t_debit_account_id t) = Some D"
      "acc_view db st (t_credit_account_id t) = Some C" "st_frame db st st2"
      using load_two [OF d c] by auto
    show "amount \<le> t_amount t"
      unfolding am by (rule balancing_amount_le)
    show "debit_moved D (D2 dv) (unat (a_debits_pending D) + unat amount) (unat (a_debits_posted D))"
      "credit_moved C (C2 cv) (unat (a_credits_pending C) + unat amount) (unat (a_credits_posted C))"
      using checked_add_SomeD [OF dv] checked_add_SomeD [OF cv]
      by (simp_all add: debit_moved_def credit_moved_def rebalanced_def same_limits_def D2_def C2_def
          D1_def C1_def contain_set_closed)
    show "debit_within (D2 dv)" "credit_within (C2 cv)" "debit_fits (D2 dv)" "credit_fits (C2 cv)"
      using wd wc fd fc
      by (simp_all add: debit_within_def credit_within_def debit_fits_def credit_fits_def D2_def
          C2_def D1_def C1_def contain_set_closed)
    show "timeout_fits pts (t_timeout t)" by (rule timeout_check_fits [OF to])
  qed (use its st' in \<open>simp_all add: D2_def C2_def D1_def C1_def\<close>)
qed

lemma reopen_same_limits:
  "same_limits a (reopen_debit p a)" "same_limits a (reopen_credit p a)"
  by (simp_all add: same_limits_def reopen_debit_def reopen_credit_def contain_clear_closed)

lemma reopen_simps [simp]:
  "a_id (reopen_debit p a) = a_id a" "a_id (reopen_credit p a) = a_id a"
  "a_debits_pending (reopen_debit p a) = a_debits_pending a"
  "a_debits_pending (reopen_credit p a) = a_debits_pending a"
  "a_debits_posted (reopen_debit p a) = a_debits_posted a"
  "a_debits_posted (reopen_credit p a) = a_debits_posted a"
  "a_credits_pending (reopen_debit p a) = a_credits_pending a"
  "a_credits_pending (reopen_credit p a) = a_credits_pending a"
  "a_credits_posted (reopen_debit p a) = a_credits_posted a"
  "a_credits_posted (reopen_credit p a) = a_credits_posted a"
  "a_timestamp (reopen_debit p a) = a_timestamp a"
  "a_timestamp (reopen_credit p a) = a_timestamp a"
  by (simp_all add: reopen_debit_def reopen_credit_def)

lemma reopen_moved:
  "debit_moved D (reopen_debit p (D\<lparr>a_debits_pending := v\<rparr>)) (unat v) (unat (a_debits_posted D))"
  "credit_moved C (reopen_credit p (C\<lparr>a_credits_pending := v\<rparr>)) (unat v) (unat (a_credits_posted C))"
  by (simp_all add: debit_moved_def credit_moved_def rebalanced_def same_limits_def reopen_debit_def
      reopen_credit_def contain_clear_closed)

lemma resolution_amount_le:
  "resolution_amount post t p = Inr effective \<Longrightarrow> effective \<le> t_amount p"
  by (auto simp: resolution_amount_def split: if_splits)

text \<open>A stored reservation is backed by its accounts in the working view, so the release never
  underflows.\<close>

lemma reservation_release_ok:
  assumes "view_inv (view_of db st staged)" and "(db_transfers db ++ staged) i = Some p"
    and "classify p = PendingReserve" and "(db_pending_state db ++ resolved st) i = None"
  obtains D C dv cv st1 st2 where
    "load_account db (t_debit_account_id p) st = (Some D, st1)"
    "load_account db (t_credit_account_id p) st1 = (Some C, st2)"
    "acc_view db st (t_debit_account_id p) = Some D"
    "acc_view db st (t_credit_account_id p) = Some C" "st_frame db st st2"
    "checked_sub (a_debits_pending D) (t_amount p) = Some dv"
    "checked_sub (a_credits_pending C) (t_amount p) = Some cv"
    "a_id D = t_debit_account_id p" "a_id C = t_credit_account_id p"
    "t_debit_account_id p \<noteq> t_credit_account_id p"
proof -
  obtain D C where D: "acc_view db st (t_debit_account_id p) = Some D"
    and C: "acc_view db st (t_credit_account_id p) = Some C"
    and ne: "t_debit_account_id p \<noteq> t_credit_account_id p"
    and le: "t_amount p \<le> a_debits_pending D" "t_amount p \<le> a_credits_pending C"
    using reservation_held [OF assms(1), of i p] assms(2-4) by (auto simp: view_of_def)
  obtain rd st1 where d: "load_account db (t_debit_account_id p) st = (rd, st1)" by fastforce
  obtain rc st2 where c: "load_account db (t_credit_account_id p) st1 = (rc, st2)" by fastforce
  have rd: "rd = Some D" and f1: "st_frame db st st1"
    using load_account_frame [OF d] D by auto
  have rc: "rc = Some C"
    using load_account_frame [OF c] f1 C by (auto simp: st_frame_def)
  have ids: "a_id D = t_debit_account_id p" "a_id C = t_credit_account_id p"
    using view_invD(2) [OF assms(1)] D C by (auto simp: view_of_def account_conf_def)
  show thesis
    using that [of D st1 C st2] d c rd rc load_two D C le ids ne
    by (auto simp: checked_sub_def)
qed

definition resolution_conclusion ::
  "ledger_db \<Rightarrow> transfer \<Rightarrow> bool \<Rightarrow> u64 \<Rightarrow> u64 option \<Rightarrow> u64 \<Rightarrow> apply_state \<Rightarrow> transfer_log
   \<Rightarrow> transfer \<Rightarrow> apply_state \<Rightarrow> bool" where
  "resolution_conclusion db t post now its last_ts st tr m st' =
     (\<exists>p D C D' C'. tr (t_pending_id t) = Some p \<and> classify p = PendingReserve \<and>
        (db_pending_state db ++ resolved st) (t_pending_id t) = None \<and>
        acc_view db st (t_debit_account_id p) = Some D \<and>
        acc_view db st (t_credit_account_id p) = Some C \<and>
        acc_view db st' = (acc_view db st)(t_debit_account_id p \<mapsto> D', t_credit_account_id p \<mapsto> C') \<and>
        resolved st' = (resolved st)(t_pending_id t \<mapsto> (if post then Posted else Voided)) \<and>
        expiry_removals st' = expiry_removals st @ (if t_timeout p \<noteq> 0
          then [(expiry_of (t_timestamp p) (t_timeout p), t_pending_id t)] else []) \<and>
        (working_ok db st \<longrightarrow> working_ok db st') \<and>
        m = materialize t p (t_amount m) \<and> t_amount m \<le> t_amount p \<and>
        debit_moved D D' (unat (a_debits_pending D) - unat (t_amount p))
          (unat (a_debits_posted D) + (if post then unat (t_amount m) else 0)) \<and>
        credit_moved C C' (unat (a_credits_pending C) - unat (t_amount p))
          (unat (a_credits_posted C) + (if post then unat (t_amount m) else 0)) \<and>
        a_timestamp D' = a_timestamp D \<and> a_timestamp C' = a_timestamp C \<and>
        imported_transfer_checks its last_ts (a_timestamp D) (a_timestamp C) (t_timeout t) = None)"

lemma materialize_amount [simp]: "t_amount (materialize t p e) = e"
  by (simp add: materialize_def)

lemma resolution_checks_passes:
  assumes "resolution_checks db t p post now st = Inr effective"
  shows "flags_contain (t_flags p) TF_PENDING"
    and "resolution_amount post t p = Inr effective"
    and "(db_pending_state db ++ resolved st) (t_id p) = None"
  using assms
  by (auto simp: resolution_checks_def map_add_def split: if_splits sum.splits option.splits)

lemma settle_moved:
  assumes "checked_sub (a_debits_pending D) r = Some dv"
    and "checked_sub (a_credits_pending C) r = Some cv"
    and "settle p post e D C dv cv = Inr (D', C')"
  shows "debit_moved D D' (unat (a_debits_pending D) - unat r)
      (unat (a_debits_posted D) + (if post then unat e else 0)) \<and>
    credit_moved C C' (unat (a_credits_pending C) - unat r)
      (unat (a_credits_posted C) + (if post then unat e else 0)) \<and>
    a_id D' = a_id D \<and> a_id C' = a_id C \<and>
    a_timestamp D' = a_timestamp D \<and> a_timestamp C' = a_timestamp C"
proof (cases post)
  case True
  then show ?thesis
    using assms(3) checked_sub_SomeD [OF assms(1)] checked_sub_SomeD [OF assms(2)]
    by (auto simp: settle_def debit_moved_def credit_moved_def rebalanced_def same_limits_def
        split: option.splits dest: checked_add_SomeD)
next
  case False
  then show ?thesis
    using assms(3) checked_sub_SomeD [OF assms(1)] checked_sub_SomeD [OF assms(2)]
      reopen_moved(1) [of D p dv] reopen_moved(2) [of C p cv] by (auto simp: settle_def)
qed

lemma stage_resolution_outcome:
  assumes inv: "view_inv (view_of db st staged)"
    and pend: "pend = (db_transfers db ++ staged) (t_pending_id t)"
  shows "\<exists>out st'. stage_resolution db t pend post now its last_ts st = Inr (out, st') \<and>
    (case out of Inl code \<Rightarrow> st_frame db st st'
     | Inr m \<Rightarrow> resolution_conclusion db t post now its last_ts st (db_transfers db ++ staged) m st')"
proof (cases pend)
  case None
  then show ?thesis by (simp add: stage_resolution_def)
next
  case (Some p)
  then have trp: "(db_transfers db ++ staged) (t_pending_id t) = Some p" using pend by simp
  have pconf: "t_id p = t_pending_id t" "\<not> transfer_flags_exclusive_violation (t_flags p)"
    using view_invD(3) [OF inv, of "t_pending_id t" p] trp
    by (auto simp: view_of_def transfer_conf_def)
  show ?thesis
  proof (cases "resolution_checks db t p post now st")
    case (Inl code)
    then show ?thesis using Some by (simp add: stage_resolution_def)
  next
    case (Inr e)
    note ok = resolution_checks_passes [OF Inr]
    have cls: "classify p = PendingReserve"
      using ok(1) pending_iff_classify [OF pconf(2)] by simp
    have ps: "(db_pending_state db ++ resolved st) (t_pending_id t) = None"
      using ok(3) pconf(1) by simp
    obtain D C dv cv st1 st2 where
      ld: "load_account db (t_debit_account_id p) st = (Some D, st1)"
      and lc: "load_account db (t_credit_account_id p) st1 = (Some C, st2)"
      and D: "acc_view db st (t_debit_account_id p) = Some D"
      and C: "acc_view db st (t_credit_account_id p) = Some C" and fr: "st_frame db st st2"
      and dv: "checked_sub (a_debits_pending D) (t_amount p) = Some dv"
      and cv: "checked_sub (a_credits_pending C) (t_amount p) = Some cv"
      and ids: "a_id D = t_debit_account_id p" "a_id C = t_credit_account_id p"
      by (rule reservation_release_ok [OF inv trp cls ps])
    note eqs = Some Inr ld lc dv cv
    show ?thesis
    proof (cases "imported_transfer_checks its last_ts (a_timestamp D) (a_timestamp C) (t_timeout t)")
      case (Some code)
      then show ?thesis using eqs fr by (simp add: stage_resolution_def)
    next
      case None
      show ?thesis
      proof (cases "settle p post e D C dv cv")
        case (Inl code)
        then show ?thesis using eqs None fr by (simp add: stage_resolution_def)
      next
        case settled: (Inr acc)
        obtain D' C' where DC: "acc = (D', C')" by fastforce
        note moved = settle_moved [OF dv cv settled [unfolded DC]]
        let ?st' = "settled_state p post D' C' st2"
        have res: "stage_resolution db t pend post now its last_ts st
            = Inr (Inr (materialize t p e), ?st')"
          using eqs None settled DC by (simp add: stage_resolution_def)
        have av: "acc_view db ?st'
            = (acc_view db st)(t_debit_account_id p \<mapsto> D', t_credit_account_id p \<mapsto> C')"
          using moved ids fr
          by (simp add: settled_state_def Let_def acc_view_write_back st_frame_def)
        have wo: "working_ok db st \<longrightarrow> working_ok db ?st'"
          using fr by (simp add: settled_state_def Let_def st_frame_def working_ok_write_back)
        have rs: "resolved ?st' = (resolved st)(t_pending_id t \<mapsto> (if post then Posted else Voided))"
          "expiry_removals ?st' = expiry_removals st @ (if t_timeout p \<noteq> 0
            then [(expiry_of (t_timestamp p) (t_timeout p), t_pending_id t)] else [])"
          using fr pconf(1) by (simp_all add: settled_state_def Let_def st_frame_def)
        have "resolution_conclusion db t post now its last_ts st (db_transfers db ++ staged)
            (materialize t p e) ?st'"
          unfolding resolution_conclusion_def
          by (rule exI [of _ p], rule exI [of _ D], rule exI [of _ C], rule exI [of _ D'],
              rule exI [of _ C'])
            (use trp cls ps D C av wo rs moved None resolution_amount_le [OF ok(2)] in auto)
        then show ?thesis using res by auto
      qed
    qed
  qed
qed

section \<open>The invariant of a batch\<close>

text \<open>The expiry index holds exactly the outstanding timed reservations.\<close>

definition outstanding_timed :: "transfer_log \<Rightarrow> status_map \<Rightarrow> u64 \<Rightarrow> u128 \<Rightarrow> bool" where
  "outstanding_timed tr ps e i =
     (\<exists>t. tr i = Some t \<and> classify t = PendingReserve \<and> t_timeout t \<noteq> 0 \<and> ps i = None \<and>
        e = expiry_of (t_timestamp t) (t_timeout t))"

definition expiry_exact :: "ledger_db \<Rightarrow> bool" where
  "expiry_exact db = (sorted (db_expiry db) \<and> distinct (db_expiry db) \<and>
     (\<forall>e i. (e, i) \<in> set (db_expiry db)
        \<longleftrightarrow> outstanding_timed (db_transfers db) (db_pending_state db) e i))"

text \<open>A batch sees committed accounts only, none of them younger than the last timestamp.\<close>

definition accounts_known :: "ledger_db \<Rightarrow> u64 \<Rightarrow> apply_state \<Rightarrow> bool" where
  "accounts_known db w st = (dom (acc_view db st) \<subseteq> dom (db_accounts db) \<and>
     (\<forall>k a. acc_view db st k = Some a \<longrightarrow> a_timestamp a \<le> w))"

text \<open>Index keys to delete belong to resolved pendings, and every timed pending resolved by this
  batch has its key among them.\<close>

definition removals_ok :: "ledger_db \<Rightarrow> apply_state \<Rightarrow> (u128 \<rightharpoonup> transfer) \<Rightarrow> bool" where
  "removals_ok db st staged =
     ((\<forall>e i. (e, i) \<in> set (expiry_removals st) \<longrightarrow> resolved st i \<noteq> None \<or> db_pending_state db i \<noteq> None) \<and>
      (\<forall>i t. resolved st i \<noteq> None \<longrightarrow> (db_transfers db ++ staged) i = Some t \<longrightarrow> t_timeout t \<noteq> 0 \<longrightarrow>
         (expiry_of (t_timestamp t) (t_timeout t), i) \<in> set (expiry_removals st)))"

definition batch_core :: "ledger_db \<Rightarrow> u64 \<Rightarrow> apply_state \<Rightarrow> (u128 \<rightharpoonup> transfer) \<Rightarrow> bool" where
  "batch_core db w st staged =
     (view_inv (view_of db st staged) \<and> working_ok db st \<and> accounts_known db w st \<and>
      removals_ok db st staged \<and>
      view_step\<^sup>*\<^sup>* (view_of db apply_state_default Map.empty) (view_of db st staged))"

lemma batch_core_frame:
  "st_frame db st st' \<Longrightarrow> batch_core db w st staged \<Longrightarrow> batch_core db w st' staged"
  by (simp add: batch_core_def st_frame_def view_of_def accounts_known_def removals_ok_def)

lemma accounts_known_two:
  assumes "accounts_known db w st" and "acc_view db st i = Some D" and "acc_view db st j = Some C"
    and "acc_view db st' = (acc_view db st)(i \<mapsto> D', j \<mapsto> C')"
    and "a_timestamp D' = a_timestamp D" and "a_timestamp C' = a_timestamp C"
  shows "accounts_known db w st'"
  using assms by (auto simp: accounts_known_def)

section \<open>The sweep\<close>

lemma sweep_one_inv:
  assumes core: "batch_core db w st Map.empty" and exact: "expiry_exact db"
    and key: "(e, i) \<in> set (db_expiry db)"
  shows "\<exists>st'. sweep_one db (e, i) st = Inr st' \<and> batch_core db w st' Map.empty \<and>
    resolved st' i \<noteq> None \<and> resolved st \<subseteq>\<^sub>m resolved st'"
proof -
  obtain p where p: "db_transfers db i = Some p" "classify p = PendingReserve"
    and ps: "db_pending_state db i = None" and e: "e = expiry_of (t_timestamp p) (t_timeout p)"
    using exact key by (auto simp: expiry_exact_def outstanding_timed_def)
  have inv: "view_inv (view_of db st Map.empty)" and wo: "working_ok db st"
    and tl: "accounts_known db w st" and rem: "removals_ok db st Map.empty"
    and steps: "view_step\<^sup>*\<^sup>* (view_of db apply_state_default Map.empty) (view_of db st Map.empty)"
    using core by (auto simp: batch_core_def)
  show ?thesis
  proof (cases "resolved st i")
    case (Some s)
    then show ?thesis
      using core by (auto simp: sweep_one_def batch_core_def removals_ok_def view_of_def accounts_known_def
          map_add_def)
  next
    case None
    have tr: "(db_transfers db ++ Map.empty) i = Some p"
      and none: "(db_pending_state db ++ resolved st) i = None"
      using p ps None by simp_all
    obtain D C dv cv st1 st2 where
      ld: "load_account db (t_debit_account_id p) st = (Some D, st1)"
      and lc: "load_account db (t_credit_account_id p) st1 = (Some C, st2)"
      and D: "acc_view db st (t_debit_account_id p) = Some D"
      and C: "acc_view db st (t_credit_account_id p) = Some C" and fr: "st_frame db st st2"
      and dv: "checked_sub (a_debits_pending D) (t_amount p) = Some dv"
      and cv: "checked_sub (a_credits_pending C) (t_amount p) = Some cv"
      and ids: "a_id D = t_debit_account_id p" "a_id C = t_credit_account_id p"
      by (rule reservation_release_ok [OF inv tr p(2) none])
    define D' where "D' = reopen_debit p (D\<lparr>a_debits_pending := dv\<rparr>)"
    define C' where "C' = reopen_credit p (C\<lparr>a_credits_pending := cv\<rparr>)"
    define st' where "st' = (write_back C' (write_back D' st2))\<lparr>resolved := (resolved st)(i \<mapsto> Expired),
      expiry_removals := expiry_removals st @ [(e, i)]\<rparr>"
    have eq: "sweep_one db (e, i) st = Inr st'"
      using None ps p ld lc dv cv fr
      by (simp add: sweep_one_def D'_def C'_def st'_def st_frame_def)
    have av: "acc_view db st'
        = (acc_view db st)(t_debit_account_id p \<mapsto> D', t_credit_account_id p \<mapsto> C')"
      using ids fr by (simp add: st'_def acc_view_write_back st_frame_def D'_def C'_def)
    have step: "view_step (view_of db st Map.empty) (view_of db st' Map.empty)"
    proof -
      have "view_step (view_of db st Map.empty) ((view_of db st Map.empty)
        \<lparr>v_accounts := upd_accounts (view_of db st Map.empty) p D' C',
         v_pstate := (v_pstate (view_of db st Map.empty))(i \<mapsto> Expired)\<rparr>)"
        using p none D C checked_sub_SomeD [OF dv] checked_sub_SomeD [OF cv]
          reopen_moved(1) [of D p dv] reopen_moved(2) [of C p cv]
        by (intro view_step.expire) (simp_all add: view_of_def D'_def C'_def)
      moreover have "(view_of db st Map.empty)
        \<lparr>v_accounts := upd_accounts (view_of db st Map.empty) p D' C',
         v_pstate := (v_pstate (view_of db st Map.empty))(i \<mapsto> Expired)\<rparr> = view_of db st' Map.empty"
        by (simp add: view_of_def upd_accounts_def av) (simp add: st'_def)
      ultimately show ?thesis by simp
    qed
    have "view_inv (view_of db st' Map.empty)"
      using step inv by (rule view_step_inv)
    moreover have "view_step\<^sup>*\<^sup>* (view_of db apply_state_default Map.empty) (view_of db st' Map.empty)"
      using steps step by (rule rtranclp.rtrancl_into_rtrancl)
    moreover have "working_ok db st'"
      using fr wo by (simp add: st'_def st_frame_def working_ok_write_back)
    moreover have "accounts_known db w st'"
      by (rule accounts_known_two [OF tl D C av]) (simp_all add: D'_def C'_def)
    moreover have "removals_ok db st' Map.empty"
      using rem p e by (auto simp: removals_ok_def st'_def)
    moreover have "resolved st' i \<noteq> None" "resolved st \<subseteq>\<^sub>m resolved st'"
      using None by (auto simp: st'_def map_le_def)
    ultimately show ?thesis using eq by (auto simp: batch_core_def)
  qed
qed

lemma sweep_keys_inv:
  "batch_core db w st Map.empty \<Longrightarrow> expiry_exact db \<Longrightarrow> set keys \<subseteq> set (db_expiry db) \<Longrightarrow>
     \<exists>st'. sweep_keys db keys st = Inr st' \<and> batch_core db w st' Map.empty \<and>
       (\<forall>(e, i) \<in> set keys. resolved st' i \<noteq> None) \<and> resolved st \<subseteq>\<^sub>m resolved st'"
proof (induction keys arbitrary: st)
  case Nil
  then show ?case by simp
next
  case (Cons k keys)
  obtain e i where k: "k = (e, i)" by fastforce
  obtain st1 where st1: "sweep_one db (e, i) st = Inr st1" "batch_core db w st1 Map.empty"
    "resolved st1 i \<noteq> None" "resolved st \<subseteq>\<^sub>m resolved st1"
    using sweep_one_inv [OF Cons.prems(1,2), of e i] Cons.prems(3) k by auto
  obtain st2 where st2: "sweep_keys db keys st1 = Inr st2" "batch_core db w st2 Map.empty"
    "\<forall>(e, i) \<in> set keys. resolved st2 i \<noteq> None" "resolved st1 \<subseteq>\<^sub>m resolved st2"
    using Cons.IH [OF st1(2) Cons.prems(2)] Cons.prems(3) by auto
  have "resolved st2 i \<noteq> None"
    using st1(3) st2(4) by (auto simp: map_le_def dom_def)
  then show ?case
    using st1 st2 k map_le_trans [OF st1(4) st2(4)] by auto
qed

end
