(* ===== verification/Ledger_Batch.thy ===== *)
theory Ledger_Batch
  imports Ledger_Invariant
begin

text \<open>
  The invariant of a transfer batch in progress and of the committed state: every item a batch
  accepts is a step of the abstract ledger, no call fails on a state that satisfies the invariant,
  chains are all-or-nothing (through the interpretation of \<open>chain_driver\<close>), and the commit
  restores the invariant.
\<close>

section \<open>What the validators guarantee\<close>

lemma pre_existence_ok:
  "validate_transfer_pre_existence t bi now = None \<Longrightarrow> t_id t \<noteq> 0"
  by (auto simp: validate_transfer_pre_existence_def Let_def split: if_splits)

lemma post_existence_ok:
  assumes "validate_transfer_post_existence t = None"
  shows "\<not> transfer_flags_exclusive_violation (t_flags t)"
    and "\<not> is_resolution t \<Longrightarrow> t_debit_account_id t \<noteq> t_credit_account_id t"
    and "classify t \<noteq> PendingReserve \<Longrightarrow> t_timeout t = 0"
proof -
  show nv: "\<not> transfer_flags_exclusive_violation (t_flags t)"
    using assms by (auto simp: validate_transfer_post_existence_def Let_def)
  show "\<not> is_resolution t \<Longrightarrow> t_debit_account_id t \<noteq> t_credit_account_id t"
    using assms by (auto simp: validate_transfer_post_existence_def Let_def split: if_splits)
  show "classify t \<noteq> PendingReserve \<Longrightarrow> t_timeout t = 0"
    using assms pending_iff_classify [OF nv]
    by (auto simp: validate_transfer_post_existence_def Let_def split: if_splits)
qed

section \<open>Timestamps\<close>

lemma ts_peek_ge: "now \<le> ts_peek w now" "w \<le> ts_peek w now"
proof -
  have "unat w \<le> unat (saturating_add w 1)"
    using unsigned_less [of w, where 'a = nat] by (simp add: unat_saturating_add)
  then have "w \<le> saturating_add w 1" by (simp add: word_le_nat_alt)
  then show "w \<le> ts_peek w now" by (simp add: ts_peek_def le_max_iff_disj)
qed (simp add: ts_peek_def)

lemma ts_peek_gt:
  assumes "w \<noteq> - 1"
  shows "w < ts_peek w now"
proof -
  have "unat w < 2 ^ 64 - 1"
    using assms word_order.not_eq_extremum [of w] unat_minus_one_eq_max [where 'a = 64]
    by (simp add: word_less_nat_alt)
  then have "unat w < unat (saturating_add w 1)"
    by (simp add: unat_saturating_add)
  then have "w < saturating_add w 1" by (simp add: word_less_nat_alt)
  then show ?thesis by (simp add: ts_peek_def less_max_iff_disj)
qed

text \<open>The order of assigned timestamps: strictly later, unless the clock is saturated.\<close>

definition ts_after :: "u64 \<Rightarrow> u64 \<Rightarrow> bool" where
  "ts_after w x = (w < x \<or> w = - 1 \<and> x = - 1)"

lemma ts_after_le: "ts_after w x \<Longrightarrow> w \<le> x"
  by (auto simp: ts_after_def)

lemma ts_after_trans: "ts_after w x \<Longrightarrow> ts_after x y \<Longrightarrow> ts_after w y"
  using word_order.extremum_strict [of x] by (auto simp: ts_after_def)

lemma ts_after_peek: "ts_after w (ts_peek w now)"
proof (cases "w = - 1")
  case True
  then show ?thesis
    using ts_peek_ge(2) [of w now] word_order.extremum_unique by (auto simp: ts_after_def)
qed (simp add: ts_after_def ts_peek_gt)

lemma sorted_ts_snoc:
  "sorted_wrt ts_after xs \<Longrightarrow> xs \<noteq> [] \<Longrightarrow> ts_after (last xs) y \<Longrightarrow> sorted_wrt ts_after (xs @ [y])"
  by (induction xs) (auto intro: ts_after_trans simp: last_in_set split: if_splits)

lemma sorted_ts_last: "sorted_wrt ts_after xs \<Longrightarrow> x \<in> set xs \<Longrightarrow> x \<le> last xs"
proof (induction xs)
  case (Cons y ys)
  then show ?case by (cases "ys = []") (auto intro: ts_after_le order.trans)
qed simp

lemma expiry_of_gt:
  assumes "timeout_fits ts timeout" and "timeout \<noteq> 0"
  shows "unat (expiry_of ts timeout) = unat ts + unat timeout * 1000000000"
    and "ts < expiry_of ts timeout"
proof -
  have le: "unat ts + unat timeout * 1000000000 \<le> 2 ^ 63 - 1"
    using assms by (simp add: timeout_fits_def TIMESTAMP_MAX_def)
  have uc: "unat (ucast timeout :: u64) = unat timeout"
    using unat_less_256(1) [of timeout] by (simp add: unsigned_ucast_eq take_bit_nat_eq_self)
  show eq: "unat (expiry_of ts timeout) = unat ts + unat timeout * 1000000000"
    using le by (simp add: expiry_of_def unat_saturating_add unat_saturating_mul uc
        NANOS_PER_SECOND_def)
  have "0 < unat timeout"
    using assms(2) by (simp add: word_neq_0_conv unat_gt_0)
  then show "ts < expiry_of ts timeout"
    using eq by (simp add: word_less_nat_alt)
qed

section \<open>One accepted transfer\<close>

text \<open>What the staging of one transfer establishes: the record (under whatever timestamp it will
  get) is a step of the view.\<close>

definition accepted_ok ::
  "ledger_db \<Rightarrow> u64 \<Rightarrow> apply_state \<Rightarrow> (u128 \<rightharpoonup> transfer) \<Rightarrow> transfer \<Rightarrow> apply_state \<Rightarrow> bool" where
  "accepted_ok db w st staged m st' =
     (\<forall>ts. view_step (view_of db st staged)
         (view_of db st' (staged(t_id m \<mapsto> m\<lparr>t_timestamp := ts\<rparr>))) \<and>
       removals_ok db st' (staged(t_id m \<mapsto> m\<lparr>t_timestamp := ts\<rparr>)) \<and>
       working_ok db st' \<and> accounts_known db w st')"

lemma classify_upd [simp]:
  "classify (t\<lparr>t_amount := x\<rparr>) = classify t" "classify (t\<lparr>t_timestamp := y\<rparr>) = classify t"
  "classify (materialize t p e) = classify t"
  "is_resolution (t\<lparr>t_amount := x\<rparr>) = is_resolution t"
  by (simp_all add: classify_def materialize_def is_resolution_def)

lemma removals_ok_insert:
  assumes "removals_ok db st staged" and "resolved st i = None"
    and "resolved st' = resolved st" and "expiry_removals st' = expiry_removals st"
  shows "removals_ok db st' (staged(i \<mapsto> t))"
  using assms by (auto simp: removals_ok_def)

text \<open>A movement of a regular transfer or a reserve.\<close>

lemma entry_accepted:
  assumes core: "batch_core db w st staged"
    and fresh: "(db_transfers db ++ staged) (t_id m) = None" "t_id m \<noteq> 0"
    and flags: "\<not> transfer_flags_exclusive_violation (t_flags m)"
      "t_debit_account_id m \<noteq> t_credit_account_id m"
    and D: "acc_view db st (t_debit_account_id m) = Some D"
    and C: "acc_view db st (t_credit_account_id m) = Some C"
    and fr: "st_frame db st st1" and st': "st' = write_back C' (write_back D' st1)"
    and cls: "classify m = Regular \<and> r = 0 \<and> x = unat (t_amount m) \<or>
      classify m = PendingReserve \<and> r = unat (t_amount m) \<and> x = 0"
    and dm: "debit_moved D D' (unat (a_debits_pending D) + r) (unat (a_debits_posted D) + x)"
    and cm: "credit_moved C C' (unat (a_credits_pending C) + r) (unat (a_credits_posted C) + x)"
    and lim: "debit_fits D'" "credit_fits C'" "debit_within D'" "credit_within C'"
    and ts: "a_timestamp D' = a_timestamp D" "a_timestamp C' = a_timestamp C"
  shows "accepted_ok db w st staged m st'"
proof -
  let ?v = "view_of db st staged"
  have inv: "view_inv ?v" and wo: "working_ok db st" and tl: "accounts_known db w st"
    and rem: "removals_ok db st staged"
    using core by (auto simp: batch_core_def)
  have ids: "a_id D = t_debit_account_id m" "a_id C = t_credit_account_id m"
    using view_invD(2) [OF inv] D C by (auto simp: view_of_def account_conf_def)
  have av: "acc_view db st' = (acc_view db st)(t_debit_account_id m \<mapsto> D', t_credit_account_id m \<mapsto> C')"
    using dm cm fr ids
    by (simp add: st' acc_view_write_back st_frame_def debit_moved_def credit_moved_def rebalanced_def)
  have keep: "resolved st' = resolved st" "expiry_removals st' = expiry_removals st"
    using fr by (simp_all add: st' st_frame_def)
  have none: "resolved st (t_id m) = None"
    using pstate_fresh [OF inv, of "t_id m"] fresh by (simp add: view_of_def)
  have step: "view_step ?v (view_of db st' (staged(t_id m \<mapsto> m\<lparr>t_timestamp := y\<rparr>)))" for y
  proof -
    let ?m = "m\<lparr>t_timestamp := y\<rparr>"
    have new: "new_entry ?v ?m D C"
      using fresh flags D C by (simp add: new_entry_def view_of_def)
    have "view_step ?v (?v\<lparr>v_accounts := upd_accounts ?v ?m D' C',
        v_transfers := (v_transfers ?v)(t_id ?m \<mapsto> ?m)\<rparr>)"
      using cls
    proof
      assume "classify m = Regular \<and> r = 0 \<and> x = unat (t_amount m)"
      then show ?thesis
        using view_step.regular [OF new _ _ _ lim] dm cm by simp
    next
      assume "classify m = PendingReserve \<and> r = unat (t_amount m) \<and> x = 0"
      then show ?thesis
        using view_step.reserve [OF new _ _ _ lim] dm cm by simp
    qed
    moreover have "?v\<lparr>v_accounts := upd_accounts ?v ?m D' C',
        v_transfers := (v_transfers ?v)(t_id ?m \<mapsto> ?m)\<rparr>
      = view_of db st' (staged(t_id m \<mapsto> ?m))"
      by (simp add: view_of_def upd_accounts_def av keep map_add_upd_eq)
    ultimately show ?thesis by simp
  qed
  have "working_ok db st'"
    using fr wo by (simp add: st' st_frame_def working_ok_write_back)
  moreover have "accounts_known db w st'"
    by (rule accounts_known_two [OF tl D C av ts])
  ultimately show ?thesis
    unfolding accepted_ok_def using step removals_ok_insert [OF rem none keep] by blast
qed

text \<open>A post or void.\<close>

lemma resolution_accepted:
  assumes core: "batch_core db w st staged"
    and fresh: "(db_transfers db ++ staged) (t_id t) = None" "t_id t \<noteq> 0"
    and flags: "\<not> transfer_flags_exclusive_violation (t_flags t)"
    and cls: "classify t = (if post then Post else Void)"
    and concl: "resolution_conclusion db t post now its last_ts st (db_transfers db ++ staged) m st'"
  shows "accepted_ok db w st staged m st' \<and> t_id m = t_id t \<and> t_timeout m = t_timeout t"
proof -
  let ?v = "view_of db st staged"
  have inv: "view_inv ?v" and tl: "accounts_known db w st" and wo: "working_ok db st"
    and rem: "removals_ok db st staged"
    using core by (auto simp: batch_core_def)
  obtain p D C D' C' where p: "(db_transfers db ++ staged) (t_pending_id t) = Some p"
      "classify p = PendingReserve" "(db_pending_state db ++ resolved st) (t_pending_id t) = None"
    and D: "acc_view db st (t_debit_account_id p) = Some D"
    and C: "acc_view db st (t_credit_account_id p) = Some C"
    and av: "acc_view db st'
      = (acc_view db st)(t_debit_account_id p \<mapsto> D', t_credit_account_id p \<mapsto> C')"
    and rs: "resolved st' = (resolved st)(t_pending_id t \<mapsto> (if post then Posted else Voided))"
    and er: "expiry_removals st' = expiry_removals st @ (if t_timeout p \<noteq> 0
      then [(expiry_of (t_timestamp p) (t_timeout p), t_pending_id t)] else [])"
    and wo': "working_ok db st \<longrightarrow> working_ok db st'"
    and m: "m = materialize t p (t_amount m)" and am: "t_amount m \<le> t_amount p"
    and dm: "debit_moved D D' (unat (a_debits_pending D) - unat (t_amount p))
      (unat (a_debits_posted D) + (if post then unat (t_amount m) else 0))"
    and cm: "credit_moved C C' (unat (a_credits_pending C) - unat (t_amount p))
      (unat (a_credits_posted C) + (if post then unat (t_amount m) else 0))"
    and ts: "a_timestamp D' = a_timestamp D" "a_timestamp C' = a_timestamp C"
    using concl unfolding resolution_conclusion_def by (elim exE conjE) (rule that; assumption)
  obtain e where me: "m = materialize t p e" by (rule that [OF m])
  have mf: "t_id m = t_id t" "t_pending_id m = t_pending_id t" "t_flags m = t_flags t"
    "t_timeout m = t_timeout t" "t_debit_account_id m = t_debit_account_id p"
    "t_credit_account_id m = t_credit_account_id p" "classify m = classify t"
    unfolding me by (simp_all add: materialize_def classify_def)
  have ne: "t_debit_account_id p \<noteq> t_credit_account_id p"
    using reservation_held [OF inv, of "t_pending_id t" p] p by (auto simp: view_of_def)
  have none: "resolved st (t_id t) = None"
    using pstate_fresh [OF inv, of "t_id t"] fresh by (simp add: view_of_def)
  have idne: "t_pending_id t \<noteq> t_id t" using p(1) fresh(1) by auto
  have step: "view_step ?v (view_of db st' (staged(t_id m \<mapsto> m\<lparr>t_timestamp := y\<rparr>)))" for y
  proof -
    let ?m = "m\<lparr>t_timestamp := y\<rparr>"
    have new: "new_entry ?v ?m D C"
      using fresh flags D C ne mf by (simp add: new_entry_def view_of_def)
    have "view_step ?v (?v\<lparr>v_accounts := upd_accounts ?v ?m D' C',
        v_transfers := (v_transfers ?v)(t_id ?m \<mapsto> ?m),
        v_pstate := (v_pstate ?v)(t_pending_id ?m \<mapsto> (if post then Posted else Voided))\<rparr>)"
    proof (cases post)
      case True
      then show ?thesis
        using view_step.post [OF new, of p D' C'] cls p am dm cm mf by (simp add: view_of_def)
    next
      case False
      then show ?thesis
        using view_step.void [OF new, of p D' C'] cls p am dm cm mf by (simp add: view_of_def)
    qed
    moreover have "?v\<lparr>v_accounts := upd_accounts ?v ?m D' C',
        v_transfers := (v_transfers ?v)(t_id ?m \<mapsto> ?m),
        v_pstate := (v_pstate ?v)(t_pending_id ?m \<mapsto> (if post then Posted else Voided))\<rparr>
      = view_of db st' (staged(t_id m \<mapsto> ?m))"
      by (simp add: view_of_def upd_accounts_def av rs mf map_add_upd_eq)
    ultimately show ?thesis by simp
  qed
  have "removals_ok db st' (staged(t_id m \<mapsto> m\<lparr>t_timestamp := y\<rparr>))" for y
    using rem p(1) none idne by (auto simp: removals_ok_def rs er mf)
  then show ?thesis
    unfolding accepted_ok_def using step wo wo' accounts_known_two [OF tl D C av ts] mf by blast
qed

section \<open>Staging in a batch\<close>

definition staged_new :: "transfer_batch \<Rightarrow> ledger_db \<Rightarrow> transfer \<Rightarrow> bool" where
  "staged_new b db t = ((db_transfers db ++ b_staged b) (t_id t) = None)"

lemma imported_checks_None:
  "imported_transfer_checks its last_ts d c timeout = None \<Longrightarrow>
     its = None \<or> (\<exists>x. its = Some x \<and> last_ts < x \<and> timeout = 0)"
  by (auto simp: imported_transfer_checks_def split: option.splits if_splits)

text \<open>The timestamp an accepted transfer gets.\<close>

definition assigned_ts :: "bool \<Rightarrow> u64 \<Rightarrow> transfer_batch \<Rightarrow> transfer \<Rightarrow> u64" where
  "assigned_ts batch_imported now b t =
     (if batch_imported then t_timestamp t else ts_peek (b_last b) now)"

lemma assigned_ts_after:
  assumes "imported_transfer_checks (if bi then Some (t_timestamp t) else None) (b_last b) d c
    (t_timeout t) = None"
  shows "ts_after (b_last b) (assigned_ts bi now b t)"
  using imported_checks_None [OF assms] ts_after_peek by (auto simp: assigned_ts_def ts_after_def)

lemma assigned_ts_expiry:
  assumes "imported_transfer_checks (if bi then Some (t_timestamp t) else None) (b_last b) d c
      (t_timeout t) = None"
    and "timeout_fits (assigned_ts bi now b t) (t_timeout t)" and "t_timeout t \<noteq> 0"
  shows "now < expiry_of (assigned_ts bi now b t) (t_timeout t)"
proof -
  have "now \<le> assigned_ts bi now b t"
    using imported_checks_None [OF assms(1)] assms(3) ts_peek_ge by (auto simp: assigned_ts_def)
  then show ?thesis
    using expiry_of_gt(2) [OF assms(2,3)] by simp
qed

lemma stage_transfer_outcome:
  assumes core: "batch_core db (b_last b) (b_state b) (b_staged b)"
    and fresh: "staged_new b db t"
    and disj: "dom (b_staged b) \<inter> dom (db_transfers db) = {}"
    and pre: "t_id t \<noteq> 0" and post: "validate_transfer_post_existence t = None"
  shows "\<exists>out st'. stage_transfer db bi now b t = Inr (out, st') \<and>
    (case out of Inl code \<Rightarrow> st_frame db (b_state b) st'
     | Inr m \<Rightarrow> accepted_ok db (b_last b) (b_state b) (b_staged b) m st' \<and>
         t_id m = t_id t \<and> t_timeout m = t_timeout t \<and>
         ts_after (b_last b) (assigned_ts bi now b t) \<and>
         (t_timeout t \<noteq> 0 \<longrightarrow> now < expiry_of (assigned_ts bi now b t) (t_timeout t)))"
proof -
  let ?its = "if bi then Some (t_timestamp t) else None"
  note ok = post_existence_ok [OF post]
  have inv: "view_inv (view_of db (b_state b) (b_staged b))"
    using core by (simp add: batch_core_def)
  have none: "(db_transfers db ++ b_staged b) (t_id t) = None"
    using fresh by (simp add: staged_new_def)
  consider (reg) "classify t = Regular" | (pend) "classify t = PendingReserve"
    | (res) "classify t = Post \<or> classify t = Void"
    by (cases "classify t") auto
  then show ?thesis
  proof cases
    case reg
    then have nres: "\<not> is_resolution t" and to: "t_timeout t = 0"
      using ok(3) by (auto simp: is_resolution_iff)
    obtain out st' where o: "stage_regular db t ?its (b_last b) (b_state b) = (out, st')" by fastforce
    show ?thesis
    proof (cases out)
      case (Inl code)
      then show ?thesis
        using o reg stage_regular_rejected [of db t ?its "b_last b"] by (simp add: stage_transfer_def)
    next
      case (Inr amount)
      have "accepted_ok db (b_last b) (b_state b) (b_staged b) (t\<lparr>t_amount := amount\<rparr>) st' \<and>
          ts_after (b_last b) (assigned_ts bi now b t)"
      proof (rule stage_regular_accepted [OF o [unfolded Inr]])
        fix D C D' C' st1
        assume *: "acc_view db (b_state b) (t_debit_account_id t) = Some D"
          "acc_view db (b_state b) (t_credit_account_id t) = Some C"
          "st_frame db (b_state b) st1" "st' = write_back C' (write_back D' st1)"
          "debit_moved D D' (unat (a_debits_pending D)) (unat (a_debits_posted D) + unat amount)"
          "credit_moved C C' (unat (a_credits_pending C)) (unat (a_credits_posted C) + unat amount)"
          "debit_fits D'" "credit_fits C'" "debit_within D'" "credit_within C'"
          "a_timestamp D' = a_timestamp D" "a_timestamp C' = a_timestamp C"
          "imported_transfer_checks ?its (b_last b) (a_timestamp D) (a_timestamp C) (t_timeout t) = None"
        show ?thesis
          using entry_accepted [OF core, of "t\<lparr>t_amount := amount\<rparr>" D C st1 st' C' D' 0 "unat amount"]
            * none pre ok(1,2) nres reg assigned_ts_after [OF *(13)] by simp
      qed
      then show ?thesis
        using o reg Inr to by (simp add: stage_transfer_def)
    qed
  next
    case pend
    then have nres: "\<not> is_resolution t" by (auto simp: is_resolution_iff)
    have pts: "(case ?its of Some x \<Rightarrow> x | None \<Rightarrow> ts_peek (b_last b) now) = assigned_ts bi now b t"
      by (simp add: assigned_ts_def)
    obtain out st' where o: "stage_pending db t (assigned_ts bi now b t) ?its (b_last b) (b_state b)
        = (out, st')" by fastforce
    show ?thesis
    proof (cases out)
      case (Inl code)
      then show ?thesis
        using o pend pts stage_pending_rejected [of db t "assigned_ts bi now b t" ?its "b_last b"]
        by (simp add: stage_transfer_def Let_def)
    next
      case (Inr amount)
      have "accepted_ok db (b_last b) (b_state b) (b_staged b) (t\<lparr>t_amount := amount\<rparr>) st' \<and>
          ts_after (b_last b) (assigned_ts bi now b t) \<and>
          (t_timeout t \<noteq> 0 \<longrightarrow> now < expiry_of (assigned_ts bi now b t) (t_timeout t))"
      proof (rule stage_pending_accepted [OF o [unfolded Inr]])
        fix D C D' C' st1
        assume *: "acc_view db (b_state b) (t_debit_account_id t) = Some D"
          "acc_view db (b_state b) (t_credit_account_id t) = Some C"
          "st_frame db (b_state b) st1" "st' = write_back C' (write_back D' st1)"
          "debit_moved D D' (unat (a_debits_pending D) + unat amount) (unat (a_debits_posted D))"
          "credit_moved C C' (unat (a_credits_pending C) + unat amount) (unat (a_credits_posted C))"
          "debit_fits D'" "credit_fits C'" "debit_within D'" "credit_within C'"
          "a_timestamp D' = a_timestamp D" "a_timestamp C' = a_timestamp C"
          "imported_transfer_checks ?its (b_last b) (a_timestamp D) (a_timestamp C) (t_timeout t) = None"
          "timeout_fits (assigned_ts bi now b t) (t_timeout t)"
        show ?thesis
          using entry_accepted [OF core, of "t\<lparr>t_amount := amount\<rparr>" D C st1 st' C' D' "unat amount" 0]
            * none pre ok(1,2) nres pend assigned_ts_after [OF *(13)]
            assigned_ts_expiry [OF *(13,14)] by simp
      qed
      then show ?thesis
        using o pend pts Inr by (simp add: stage_transfer_def Let_def)
    qed
  next
    case res
    let ?post = "classify t = Post"
    have to: "t_timeout t = 0" using res ok(3) by auto
    have lookup: "lookup_pending db (b_staged b) (t_pending_id t)
        = (db_transfers db ++ b_staged b) (t_pending_id t)"
      using disj by (auto simp: lookup_pending_def map_add_def split: option.splits)
    obtain out st' where o: "stage_resolution db t (lookup_pending db (b_staged b) (t_pending_id t))
        ?post now ?its (b_last b) (b_state b) = Inr (out, st')"
      and c: "case out of Inl code \<Rightarrow> st_frame db (b_state b) st'
       | Inr m \<Rightarrow> resolution_conclusion db t ?post now ?its (b_last b) (b_state b)
           (db_transfers db ++ b_staged b) m st'"
      using stage_resolution_outcome [OF inv lookup, of ?post now ?its "b_last b"] by blast
    have st: "stage_transfer db bi now b t = Inr (out, st')"
      using res o by (auto simp: stage_transfer_def Let_def)
    show ?thesis
    proof (cases out)
      case (Inl code)
      then show ?thesis using st c by simp
    next
      case (Inr m)
      then have rc: "resolution_conclusion db t ?post now ?its (b_last b) (b_state b)
           (db_transfers db ++ b_staged b) m st'" using c by simp
      have "ts_after (b_last b) (assigned_ts bi now b t)"
        using rc unfolding resolution_conclusion_def by (elim exE conjE) (rule assigned_ts_after)
      moreover have "accepted_ok db (b_last b) (b_state b) (b_staged b) m st' \<and> t_id m = t_id t \<and>
          t_timeout m = t_timeout t"
        by (rule resolution_accepted [OF core none pre ok(1) _ rc]) (use res in auto)
      ultimately show ?thesis using st Inr to by simp
    qed
  qed
qed

end
