(* ===== verification/Ledger_Transfers.thy ===== *)
theory Ledger_Transfers
  imports Ledger_Batch
begin

text \<open>
  The batch of \<open>create_transfers\<close>: the invariant of the loop variables, that one item keeps it
  and never aborts the call, and the interpretation of the chain driver, which gives the same for
  whole batches together with the atomicity of linked chains.
\<close>

section \<open>The invariant of the loop\<close>

definition accepted_fresh :: "ledger_db \<Rightarrow> u64 \<Rightarrow> transfer_batch \<Rightarrow> bool" where
  "accepted_fresh db now b =
     (sorted_wrt ts_after (get_watermark db # map t_timestamp (b_accepted b)) \<and>
      last (get_watermark db # map t_timestamp (b_accepted b)) = b_last b \<and>
      (\<forall>t \<in> set (b_accepted b). t_timeout t \<noteq> 0 \<longrightarrow>
         now < expiry_of (t_timestamp t) (t_timeout t)))"

definition log_of :: "transfer list \<Rightarrow> (u128 \<rightharpoonup> transfer)" where
  "log_of ts = map_of (map (\<lambda>t. (t_id t, t)) ts)"

definition staged_ok :: "ledger_db \<Rightarrow> transfer_batch \<Rightarrow> bool" where
  "staged_ok db b =
     (log_of (b_accepted b) = b_staged b \<and>
      distinct (map t_id (b_accepted b)) \<and>
      dom (b_staged b) \<inter> dom (db_transfers db) = {} \<and>
      dom (b_staged b) \<inter> db_failed db = {} \<and>
      b_failed b \<inter> (dom (b_staged b) \<union> dom (db_transfers db)) = {})"

definition swept :: "ledger_db \<Rightarrow> u64 \<Rightarrow> transfer_batch \<Rightarrow> bool" where
  "swept db now b = (\<forall>(e, i) \<in> set (scan_expired db now). resolved (b_state b) i \<noteq> None)"

definition batch_inv :: "ledger_db \<Rightarrow> u64 \<Rightarrow> transfer_batch \<Rightarrow> bool" where
  "batch_inv db now b =
     (expiry_exact db \<and> batch_core db (b_last b) (b_state b) (b_staged b) \<and> staged_ok db b \<and>
      accepted_fresh db now b \<and> swept db now b)"

section \<open>One item\<close>

lemma dom_log_of: "dom (log_of ts) = t_id ` set ts"
  by (simp add: log_of_def dom_map_of_conv_image_fst image_image)

lemma log_of_SomeD: "log_of ts i = Some t \<Longrightarrow> t \<in> set ts \<and> t_id t = i"
  by (auto simp: log_of_def dest!: map_of_SomeD)

lemma dom_staged: "staged_ok db b \<Longrightarrow> dom (b_staged b) = t_id ` set (b_accepted b)"
  using dom_log_of [of "b_accepted b"] by (simp add: staged_ok_def)

lemma log_of_snoc: "t_id u \<notin> t_id ` set ts \<Longrightarrow> log_of (ts @ [u]) = (log_of ts)(t_id u \<mapsto> u)"
  using dom_log_of [of ts] by (auto simp: log_of_def map_add_def fun_eq_iff split: option.splits)

text \<open>Only staging burns an id.\<close>

lemma no_burn:
  "validate_transfer_pre_existence t bi now = Some r \<Longrightarrow> \<not> transfer_burns_id r"
  "validate_transfer_post_existence t = Some r \<Longrightarrow> \<not> transfer_burns_id r"
  "\<not> transfer_burns_id (transfer_exists_result t u)"
  by (auto simp: validate_transfer_pre_existence_def validate_transfer_post_existence_def
      transfer_exists_result_def transfer_burns_id_def Let_def split: if_splits)

text \<open>The view steps grow the resolved set.\<close>

lemma view_step_pstate: "view_step v w \<Longrightarrow> dom (v_pstate v) \<subseteq> dom (v_pstate w)"
  by (induction rule: view_step.induct) auto

lemma batch_core_accepted:
  assumes core: "batch_core db w st staged" and acc: "accepted_ok db w st staged m st'"
    and w: "w \<le> w'"
  shows "batch_core db w' st' (staged(t_id m \<mapsto> m\<lparr>t_timestamp := y\<rparr>))"
proof -
  have "view_inv (view_of db st' (staged(t_id m \<mapsto> m\<lparr>t_timestamp := y\<rparr>)))"
    using core acc view_step_inv by (auto simp: batch_core_def accepted_ok_def)
  moreover have "view_step\<^sup>*\<^sup>* (view_of db apply_state_default Map.empty)
      (view_of db st' (staged(t_id m \<mapsto> m\<lparr>t_timestamp := y\<rparr>)))"
    using core acc rtranclp.rtrancl_into_rtrancl [of view_step]
    by (auto simp: batch_core_def accepted_ok_def)
  moreover have "accounts_known db w' st'"
    using acc w order.trans by (fastforce simp: accepted_ok_def accounts_known_def)
  ultimately show ?thesis
    using acc by (simp add: batch_core_def accepted_ok_def)
qed

lemma swept_accepted:
  assumes core: "batch_core db w st staged" and acc: "accepted_ok db w st staged m st'"
    and exact: "expiry_exact db"
    and sw: "\<forall>(e, i) \<in> set (scan_expired db now). resolved st i \<noteq> None"
  shows "\<forall>(e, i) \<in> set (scan_expired db now). resolved st' i \<noteq> None"
proof -
  have "dom (db_pending_state db ++ resolved st) \<subseteq> dom (db_pending_state db ++ resolved st')"
    using acc view_step_pstate by (fastforce simp: accepted_ok_def view_of_def)
  then show ?thesis
    using exact sw by (fastforce simp: scan_expired_def expiry_exact_def outstanding_timed_def dom_def)
qed

lemma staged_ok_insert:
  assumes "staged_ok db b" and "b_staged b (t_id u) = None" and "db_transfers db (t_id u) = None"
    and "t_id u \<notin> b_failed b" and "t_id u \<notin> db_failed db"
    and "b_staged b' = (b_staged b)(t_id u \<mapsto> u)" and "b_accepted b' = b_accepted b @ [u]"
    and "b_failed b' = b_failed b"
  shows "staged_ok db b'"
proof -
  have new: "t_id u \<notin> t_id ` set (b_accepted b)"
    using dom_staged [OF assms(1)] assms(2) by auto
  then have st: "log_of (b_accepted b') = b_staged b'"
    using log_of_snoc [OF new] assms(1,6,7) by (simp add: staged_ok_def)
  have "dom (b_staged b') = insert (t_id u) (dom (b_staged b))"
    using assms(6) by simp
  then have "dom (b_staged b') \<inter> dom (db_transfers db) = {}" "dom (b_staged b') \<inter> db_failed db = {}"
    "b_failed b' \<inter> (dom (b_staged b') \<union> dom (db_transfers db)) = {}"
    using assms(1,3,4,5,8) by (auto simp: staged_ok_def)
  moreover have "distinct (map t_id (b_accepted b'))"
    using assms(1,7) new by (simp add: staged_ok_def)
  ultimately show ?thesis
    using st by (simp add: staged_ok_def)
qed

lemma accepted_fresh_insert:
  assumes "accepted_fresh db now b" and "ts_after (b_last b) (t_timestamp u)"
    and "t_timeout u \<noteq> 0 \<longrightarrow> now < expiry_of (t_timestamp u) (t_timeout u)"
    and "b_accepted b' = b_accepted b @ [u]" and "b_last b' = t_timestamp u"
  shows "accepted_fresh db now b'"
proof -
  have "sorted_wrt ts_after ((get_watermark db # map t_timestamp (b_accepted b)) @ [t_timestamp u])"
    using assms(1,2) by (intro sorted_ts_snoc) (simp_all add: accepted_fresh_def)
  then show ?thesis
    using assms by (auto simp: accepted_fresh_def)
qed

definition burn_ok :: "ledger_db \<Rightarrow> transfer_batch \<Rightarrow> transfer \<Rightarrow> create_transfer_result \<Rightarrow> bool" where
  "burn_ok db b t r =
     (transfer_burns_id r \<longrightarrow> t_id t \<notin> dom (b_staged b) \<union> dom (db_transfers db))"

lemma process_transfer_outcome:
  assumes inv: "batch_inv db now b"
  shows "\<exists>r b'. process_transfer db bi now b t = Inr (r, b') \<and> batch_inv db now b' \<and>
    burn_ok db b' t r"
proof -
  note defs = process_transfer_def burn_ok_def
  have core: "batch_core db (b_last b) (b_state b) (b_staged b)" and so: "staged_ok db b"
    and af: "accepted_fresh db now b" and sw: "swept db now b" and ex: "expiry_exact db"
    using inv by (auto simp: batch_inv_def)
  consider (pre) r where "validate_transfer_pre_existence t bi now = Some r"
    | (stored) u where "validate_transfer_pre_existence t bi now = None" "db_transfers db (t_id t) = Some u"
    | (staged) u where "validate_transfer_pre_existence t bi now = None"
        "db_transfers db (t_id t) = None" "b_staged b (t_id t) = Some u"
    | (failed) "validate_transfer_pre_existence t bi now = None"
        "db_transfers db (t_id t) = None" "b_staged b (t_id t) = None"
        "t_id t \<in> b_failed b \<or> is_failed db (t_id t)"
    | (post) r where "validate_transfer_pre_existence t bi now = None"
        "db_transfers db (t_id t) = None" "b_staged b (t_id t) = None"
        "\<not> (t_id t \<in> b_failed b \<or> is_failed db (t_id t))"
        "validate_transfer_post_existence t = Some r"
    | (go) "validate_transfer_pre_existence t bi now = None"
        "db_transfers db (t_id t) = None" "b_staged b (t_id t) = None"
        "\<not> (t_id t \<in> b_failed b \<or> is_failed db (t_id t))"
        "validate_transfer_post_existence t = None"
    by (meson not_None_eq)
  then show ?thesis
  proof cases
    case go
    have "dom (b_staged b) \<inter> dom (db_transfers db) = {}"
      using so by (simp add: staged_ok_def)
    moreover have "staged_new b db t"
      using go by (simp add: staged_new_def)
    ultimately obtain out st' where o: "stage_transfer db bi now b t = Inr (out, st')"
      and c: "case out of Inl code \<Rightarrow> st_frame db (b_state b) st'
       | Inr m \<Rightarrow> accepted_ok db (b_last b) (b_state b) (b_staged b) m st' \<and>
         t_id m = t_id t \<and> t_timeout m = t_timeout t \<and>
         ts_after (b_last b) (assigned_ts bi now b t) \<and>
         (t_timeout t \<noteq> 0 \<longrightarrow> now < expiry_of (assigned_ts bi now b t) (t_timeout t))"
      using stage_transfer_outcome [OF core, of t bi now] pre_existence_ok [OF go(1)] go(5) by blast
    show ?thesis
    proof (cases out)
      case (Inl code)
      then have fr: "st_frame db (b_state b) st'" using c by simp
      have "batch_inv db now (b\<lparr>b_state := st'\<rparr>)"
        using inv batch_core_frame [OF fr core] fr
        by (simp add: batch_inv_def staged_ok_def accepted_fresh_def swept_def st_frame_def)
      then show ?thesis using go o Inl by (auto simp: defs)
    next
      case (Inr m)
      let ?u = "m\<lparr>t_timestamp := assigned_ts bi now b t\<rparr>"
      let ?b = "b\<lparr>b_last := assigned_ts bi now b t, b_state := st',
        b_staged := (b_staged b)(t_id ?u \<mapsto> ?u), b_accepted := b_accepted b @ [?u]\<rparr>"
      have acc: "accepted_ok db (b_last b) (b_state b) (b_staged b) m st'"
        and ids: "t_id m = t_id t" "t_timeout m = t_timeout t"
        and ts: "ts_after (b_last b) (assigned_ts bi now b t)"
        and fut: "t_timeout t \<noteq> 0 \<longrightarrow> now < expiry_of (assigned_ts bi now b t) (t_timeout t)"
        using c Inr by simp_all
      have "batch_core db (b_last ?b) (b_state ?b) (b_staged ?b)"
        using batch_core_accepted [OF core acc ts_after_le [OF ts]] by simp
      moreover have "staged_ok db ?b"
        by (rule staged_ok_insert [OF so, of ?u]) (use go ids in \<open>simp_all add: is_failed_def\<close>)
      moreover have "accepted_fresh db now ?b"
        by (rule accepted_fresh_insert [OF af, of ?u]) (use ts fut ids in simp_all)
      moreover have "swept db now ?b"
        using swept_accepted [OF core acc ex] sw by (simp add: swept_def)
      ultimately have "batch_inv db now ?b" using ex by (simp add: batch_inv_def)
      moreover have "process_transfer db bi now b t = Inr (CT_Created, ?b)"
        using go o Inr by (simp add: process_transfer_def assigned_ts_def Let_def)
      ultimately show ?thesis by (simp add: burn_ok_def transfer_burns_id_def)
    qed
  qed (use inv no_burn in \<open>auto simp: defs transfer_burns_id_def\<close>)
qed

section \<open>The batch as an instance of the chain driver\<close>

definition batch_ext :: "transfer_batch \<Rightarrow> transfer_batch \<Rightarrow> bool" where
  "batch_ext b0 b = ((\<exists>ys. b_accepted b = b_accepted b0 @ ys) \<and> b_failed b = b_failed b0 \<and>
     dom (b_staged b0) \<subseteq> dom (b_staged b))"

lemma batch_ext_step:
  "batch_ext b0 b \<Longrightarrow> process_transfer db bi now b t = Inr (r, b') \<Longrightarrow> batch_ext b0 b'"
  by (auto simp: process_transfer_def batch_ext_def Let_def
      split: option.splits if_splits sum.splits prod.splits)

lemma burn_ids_inv:
  assumes "batch_inv db now b"
    and "\<And>k. k < length rs \<Longrightarrow> burn_ok db b (transfers ! (c_start ch + k)) (rs ! k)"
  shows "batch_inv db now (burn_ids transfers ch rs b)"
proof -
  have "b_failed (burn_ids transfers ch rs b) \<inter> (dom (b_staged b) \<union> dom (db_transfers db)) = {}"
    using assms by (auto simp: burn_ids_def batch_inv_def staged_ok_def burn_ok_def
        in_set_enumerate_eq dest!: assms(2))
  then show ?thesis
    using assms(1)
    by (simp add: batch_inv_def staged_ok_def accepted_fresh_def swept_def burn_ids_def
        del: last.simps sorted_wrt.simps)
qed

interpretation tb: chain_driver "process_transfer db bi now" transfer_ok transfer_rollback
  CT_LinkedEventChainOpen CT_LinkedEventFailed burn_ids "batch_inv db now" batch_ext "burn_ok db"
  for db bi now
proof (unfold_locales, goal_cases)
  case (1 s x)
  then show ?case using process_transfer_outcome by blast
next
  case (2 s x r s')
  then show ?case using process_transfer_outcome [OF 2(1), of bi x] by auto
next
  case (3 s0 s x r s')
  then show ?case by (rule batch_ext_step)
next
  case (5 s0 s)
  then show ?case by (auto simp: batch_ext_def transfer_rollback_def)
next
  case (8 s x r s')
  then show ?case using process_transfer_outcome [OF 8(1), of bi x] by auto
next
  case (13 s rs items ch)
  then show ?case by (rule burn_ids_inv)
qed (auto simp: batch_ext_def transfer_ok_def burn_ok_def transfer_burns_id_def)

lemma stage_transfer_id:
  "stage_transfer db bi now b t = Inr (Inr m, st) \<Longrightarrow> t_id m = t_id t"
  by (auto simp: stage_transfer_def stage_resolution_def materialize_def Let_def
      split: transfer_op.splits sum.splits prod.splits option.splits)

lemma reject_not_created:
  "imported_transfer_checks its w d c timeout = Some r \<Longrightarrow> r \<noteq> CT_Created"
  "resolution_amount post t p = Inl r \<Longrightarrow> r \<noteq> CT_Created"
  "already_resolved s \<noteq> CT_Created"
  "settle p post e D C dv cv = Inl r \<Longrightarrow> r \<noteq> CT_Created"
  by (auto simp: imported_transfer_checks_def resolution_amount_def already_resolved_def settle_def
      split: option.splits if_splits pending_status.splits)

lemma checks_not_created: "resolution_checks db t p post now st = Inl r \<Longrightarrow> r \<noteq> CT_Created"
  using reject_not_created(2) [of post t p] reject_not_created(3)
  by (auto simp: resolution_checks_def split: option.splits if_splits sum.splits)

lemma stage_regular_not_created: "stage_regular db t its w st = (Inl r, st') \<Longrightarrow> r \<noteq> CT_Created"
  using reject_not_created(1)
  by (auto simp: stage_regular_def Let_def split: option.splits if_splits prod.splits)

lemma stage_pending_not_created: "stage_pending db t pts its w st = (Inl r, st') \<Longrightarrow> r \<noteq> CT_Created"
  using reject_not_created(1)
  by (auto simp: stage_pending_def Let_def split: option.splits if_splits prod.splits)

lemma stage_resolution_not_created:
  "stage_resolution db t pend post now its w st = Inr (Inl r, st') \<Longrightarrow> r \<noteq> CT_Created"
  using reject_not_created(1,4) checks_not_created
  by (auto simp: stage_resolution_def split: option.splits sum.splits prod.splits)

lemma stage_transfer_not_created: "stage_transfer db bi now b t = Inr (Inl r, st') \<Longrightarrow> r \<noteq> CT_Created"
  by (auto simp: stage_transfer_def Let_def split: transfer_op.splits sum.splits prod.splits
      dest: stage_regular_not_created stage_pending_not_created stage_resolution_not_created)

interpretation tlog: chain_log "process_transfer db bi now" transfer_ok transfer_rollback
  CT_LinkedEventChainOpen CT_LinkedEventFailed burn_ids "batch_inv db now" batch_ext "burn_ok db"
  "\<lambda>b. dom (b_staged b)" t_id CT_Created
  for db bi now
proof (unfold_locales, goal_cases)
  case (1 s x r s')
  have ex: "transfer_exists_result x u \<noteq> CT_Created" for u
    by (simp add: transfer_exists_result_def Let_def)
  have pre: "validate_transfer_pre_existence x bi now \<noteq> Some CT_Created"
    and post: "validate_transfer_post_existence x \<noteq> Some CT_Created"
    by (auto simp: validate_transfer_pre_existence_def validate_transfer_post_existence_def Let_def)
  show ?case
  proof (cases "r = CT_Created")
    case True
    then show ?thesis
      using 1 ex pre post
      by (auto simp: process_transfer_def Let_def dest: stage_transfer_not_created dest!: stage_transfer_id
          split: option.splits if_splits sum.splits prod.splits)
  qed (use 1 in \<open>auto simp: process_transfer_def Let_def
          split: option.splits if_splits sum.splits prod.splits\<close>)
qed (simp_all add: burn_ids_def transfer_ok_def)

end
