(* ===== verification/Ledger_Commit.thy ===== *)
theory Ledger_Commit
  imports Ledger_Transfers
begin

text \<open>
  The committed state of the ledger: its invariant, what the atomic commit of a batch writes, and
  that \<open>create_transfers\<close> and \<open>create_accounts\<close> succeed on every state that satisfies
  the invariant and leave a state that satisfies it. The SQL mirror is shown to stay a faithful copy
  of the canonical records.
\<close>

section \<open>The SQL mirror\<close>

text \<open>Every mirrored row is the projection of the canonical record with that key.\<close>

definition mirror_sound ::
  "('r \<Rightarrow> proj_value list) \<Rightarrow> (u128 \<rightharpoonup> 'r) \<Rightarrow> sql_rows option \<Rightarrow> bool" where
  "mirror_sound proj recs rows =
     (case rows of None \<Rightarrow> True
      | Some m \<Rightarrow> \<forall>k v. m k = Some v \<longrightarrow> (\<exists>i x. recs i = Some x \<and> k = U128 i \<and> v = proj x))"

text \<open>The table exists and holds a row for every canonical record.\<close>

definition mirror_complete ::
  "('r \<Rightarrow> proj_value list) \<Rightarrow> (u128 \<rightharpoonup> 'r) \<Rightarrow> sql_rows option \<Rightarrow> bool" where
  "mirror_complete proj recs rows =
     (case rows of None \<Rightarrow> False
      | Some m \<Rightarrow> \<forall>i x. recs i = Some x \<longrightarrow> m (U128 i) = Some (proj x))"

lemma encode_account [simp]:
  "encode_row accounts_table (project_account a) = Some (U128 (a_id a), project_account a)"
  by (simp add: encode_row_def accounts_table_def project_account_def)

lemma encode_transfer [simp]:
  "encode_row transfers_table (project_transfer t) = Some (U128 (t_id t), project_transfer t)"
  by (simp add: encode_row_def transfers_table_def project_transfer_def)

definition mirrored :: "u128 \<Rightarrow> proj_value list \<Rightarrow> sql_rows option \<Rightarrow> sql_rows option" where
  "mirrored i v rows = map_option (\<lambda>m. m(U128 i \<mapsto> v)) rows"

lemma mirror_row_account [simp]:
  "mirror_row accounts_table (project_account a) rows
     = Inr (mirrored (a_id a) (project_account a) rows)"
  by (cases rows) (simp_all add: mirror_row_def mirrored_def)

lemma mirror_row_transfer [simp]:
  "mirror_row transfers_table (project_transfer t) rows
     = Inr (mirrored (t_id t) (project_transfer t) rows)"
  by (cases rows) (simp_all add: mirror_row_def mirrored_def)

lemma mirror_upd:
  "mirror_sound proj recs rows \<Longrightarrow> mirror_sound proj (recs(i \<mapsto> x)) (mirrored i (proj x) rows)"
  "mirror_complete proj recs rows \<Longrightarrow>
     mirror_complete proj (recs(i \<mapsto> x)) (mirrored i (proj x) rows)"
  by (cases rows; fastforce simp: mirror_sound_def mirror_complete_def mirrored_def)+

section \<open>The invariant of the committed state\<close>

definition db_view :: "ledger_db \<Rightarrow> ledger_view" where
  "db_view db = \<lparr> v_accounts = db_accounts db, v_transfers = db_transfers db,
     v_pstate = db_pending_state db \<rparr>"

definition mirrors_sound :: "ledger_db \<Rightarrow> bool" where
  "mirrors_sound db = (mirror_sound project_account (db_accounts db) (db_sql_accounts db) \<and>
     mirror_sound project_transfer (db_transfers db) (db_sql_transfers db))"

definition mirrors_complete :: "ledger_db \<Rightarrow> bool" where
  "mirrors_complete db = (mirror_complete project_account (db_accounts db) (db_sql_accounts db) \<and>
     mirror_complete project_transfer (db_transfers db) (db_sql_transfers db))"

definition stamps_ok :: "ledger_db \<Rightarrow> bool" where
  "stamps_ok db = ((\<forall>i a. db_accounts db i = Some a \<longrightarrow> a_timestamp a \<le> get_watermark db) \<and>
     (\<forall>i t. db_transfers db i = Some t \<longrightarrow> t_timestamp t \<le> get_watermark db))"

definition db_inv :: "ledger_db \<Rightarrow> bool" where
  "db_inv db = (view_inv (db_view db) \<and> finite (dom (db_accounts db)) \<and> expiry_exact db \<and>
     db_failed db \<inter> dom (db_transfers db) = {} \<and> stamps_ok db \<and> mirrors_sound db)"

lemma view_of_default: "view_of db apply_state_default Map.empty = db_view db"
  by (simp add: view_of_def db_view_def acc_view_def apply_state_default_def)

lemma db_inv_empty: "db_inv empty_db"
  by (simp add: db_inv_def view_inv_def db_view_def expiry_exact_def outstanding_timed_def
      stamps_ok_def mirrors_sound_def mirror_sound_def empty_db_def)

lemma db_inv_ensure_schema: "db_inv db \<Longrightarrow> db_inv (ensure_schema db)"
  by (auto simp: db_inv_def db_view_def expiry_exact_def stamps_ok_def get_watermark_def
      mirrors_sound_def mirror_sound_def ensure_schema_def split: option.splits)

section \<open>What the commit writes\<close>

lemma put_accounts_ok:
  "\<exists>rows. put_accounts as db = Inr (db\<lparr>db_accounts := db_accounts db ++ map_of (rev (map (\<lambda>a. (a_id a, a)) as)),
     db_sql_accounts := rows\<rparr>) \<and>
     (mirror_sound project_account (db_accounts db) (db_sql_accounts db) \<longrightarrow>
        mirror_sound project_account (db_accounts db ++ map_of (rev (map (\<lambda>a. (a_id a, a)) as))) rows) \<and>
     (mirror_complete project_account (db_accounts db) (db_sql_accounts db) \<longrightarrow>
        mirror_complete project_account (db_accounts db ++ map_of (rev (map (\<lambda>a. (a_id a, a)) as))) rows)"
proof (induction as arbitrary: db)
  case Nil
  show ?case by (rule exI [of _ "db_sql_accounts db"]) simp
next
  case (Cons a as)
  define acc where "acc = (db_accounts db)(a_id a \<mapsto> a)"
  define rows where "rows = mirrored (a_id a) (project_account a) (db_sql_accounts db)"
  have step: "put_accounts (a # as) db
      = put_accounts as (db\<lparr>db_accounts := acc, db_sql_accounts := rows\<rparr>)"
    by (simp add: acc_def rows_def)
  have eq: "acc ++ map_of (rev (map (\<lambda>a. (a_id a, a)) as))
      = db_accounts db ++ map_of (rev (map (\<lambda>a. (a_id a, a)) (a # as)))"
    by (auto simp: acc_def map_add_def fun_eq_iff split: option.splits)
  have "mirror_sound project_account (db_accounts db) (db_sql_accounts db) \<longrightarrow>
      mirror_sound project_account acc rows"
    "mirror_complete project_account (db_accounts db) (db_sql_accounts db) \<longrightarrow>
      mirror_complete project_account acc rows"
    using mirror_upd [of project_account "db_accounts db" "db_sql_accounts db" "a_id a" a]
    by (simp_all add: acc_def rows_def)
  then show ?case
    using Cons.IH [of "db\<lparr>db_accounts := acc, db_sql_accounts := rows\<rparr>"]
    unfolding step eq [symmetric] by auto
qed

lemma put_dirty_ok:
  assumes "\<And>i a. w i = Some a \<Longrightarrow> a_id a = i"
  shows "\<exists>rows. put_dirty w ids db = Inr (db\<lparr>db_accounts := db_accounts db ++ (w |` set ids),
     db_sql_accounts := rows\<rparr>) \<and>
     (mirror_sound project_account (db_accounts db) (db_sql_accounts db) \<longrightarrow>
        mirror_sound project_account (db_accounts db ++ (w |` set ids)) rows) \<and>
     (mirror_complete project_account (db_accounts db) (db_sql_accounts db) \<longrightarrow>
        mirror_complete project_account (db_accounts db ++ (w |` set ids)) rows)"
proof (induction ids arbitrary: db)
  case Nil
  show ?case by (rule exI [of _ "db_sql_accounts db"]) simp
next
  case (Cons i ids)
  show ?case
  proof (cases "w i")
    case None
    then have "w |` set (i # ids) = w |` set ids" by (auto simp: restrict_map_def fun_eq_iff)
    then show ?thesis using None Cons.IH [of db] by simp
  next
    case (Some a)
    define acc where "acc = (db_accounts db)(i \<mapsto> a)"
    define rows where "rows = mirrored i (project_account a) (db_sql_accounts db)"
    have step: "put_dirty w (i # ids) db
        = put_dirty w ids (db\<lparr>db_accounts := acc, db_sql_accounts := rows\<rparr>)"
      using Some assms [OF Some] by (simp add: acc_def rows_def)
    have eq: "acc ++ (w |` set ids) = db_accounts db ++ (w |` set (i # ids))"
      using Some by (auto simp: acc_def restrict_map_def map_add_def fun_eq_iff split: option.splits)
    have "mirror_sound project_account (db_accounts db) (db_sql_accounts db) \<longrightarrow>
        mirror_sound project_account acc rows"
      "mirror_complete project_account (db_accounts db) (db_sql_accounts db) \<longrightarrow>
        mirror_complete project_account acc rows"
      using mirror_upd [of project_account "db_accounts db" "db_sql_accounts db" i a]
      by (simp_all add: acc_def rows_def)
    then show ?thesis
      using Cons.IH [of "db\<lparr>db_accounts := acc, db_sql_accounts := rows\<rparr>"]
      unfolding step eq [symmetric] by auto
  qed
qed

text \<open>The expiry entry a stored transfer gets.\<close>

definition timed_pending :: "transfer \<Rightarrow> bool" where
  "timed_pending t = (flags_contain (t_flags t) TF_PENDING \<and> t_timeout t \<noteq> 0)"

definition expiry_entry :: "transfer \<Rightarrow> u64 \<times> u128" where
  "expiry_entry t = (expiry_of (t_timestamp t) (t_timeout t), t_id t)"

lemma put_transfers_ok:
  assumes "distinct (map t_id ts)"
  shows "\<exists>rows ex. put_transfers ts db = Inr (db\<lparr>db_transfers := db_transfers db ++ log_of ts,
     db_sql_transfers := rows, db_expiry := ex\<rparr>) \<and>
     (mirror_sound project_transfer (db_transfers db) (db_sql_transfers db) \<longrightarrow>
        mirror_sound project_transfer (db_transfers db ++ log_of ts) rows) \<and>
     (mirror_complete project_transfer (db_transfers db) (db_sql_transfers db) \<longrightarrow>
        mirror_complete project_transfer (db_transfers db ++ log_of ts) rows) \<and>
     set ex = set (db_expiry db) \<union> expiry_entry ` {t \<in> set ts. timed_pending t} \<and>
     (sorted (db_expiry db) \<longrightarrow> sorted ex) \<and> (distinct (db_expiry db) \<longrightarrow> distinct ex)"
  using assms
proof (induction ts arbitrary: db)
  case Nil
  show ?case
    by (rule exI [of _ "db_sql_transfers db"], rule exI [of _ "db_expiry db"]) (simp add: log_of_def)
next
  case (Cons t ts)
  define ex where "ex = (if timed_pending t then insort_insert (expiry_entry t) (db_expiry db)
    else db_expiry db)"
  define tr where "tr = (db_transfers db)(t_id t \<mapsto> t)"
  define rows where "rows = mirrored (t_id t) (project_transfer t) (db_sql_transfers db)"
  let ?db = "db\<lparr>db_transfers := tr, db_sql_transfers := rows, db_expiry := ex\<rparr>"
  have step: "put_transfers (t # ts) db = put_transfers ts ?db"
    by (simp add: ex_def tr_def rows_def timed_pending_def expiry_entry_def)
  have "log_of ts (t_id t) = None"
    using Cons.prems dom_log_of [of ts] by auto
  then have log: "tr ++ log_of ts = db_transfers db ++ log_of (t # ts)"
    by (auto simp: tr_def log_of_def map_add_def fun_eq_iff split: option.splits)
  have ex: "set (db_expiry db) \<union> expiry_entry ` {u \<in> set (t # ts). timed_pending u}
      = set ex \<union> expiry_entry ` {u \<in> set ts. timed_pending u}"
    "sorted (db_expiry db) \<longrightarrow> sorted ex" "distinct (db_expiry db) \<longrightarrow> distinct ex"
    by (auto simp: ex_def set_insort_insert distinct_insort_insert sorted_insort_insert)
  have m: "mirror_sound project_transfer (db_transfers db) (db_sql_transfers db) \<longrightarrow>
      mirror_sound project_transfer tr rows"
    "mirror_complete project_transfer (db_transfers db) (db_sql_transfers db) \<longrightarrow>
      mirror_complete project_transfer tr rows"
    using mirror_upd [of project_transfer "db_transfers db" "db_sql_transfers db" "t_id t" t]
    by (simp_all add: tr_def rows_def)
  have d: "distinct (map t_id ts)" using Cons.prems by simp
  show ?case
    using Cons.IH [OF d, of ?db] m ex(2,3) unfolding step log [symmetric] ex(1) by auto
qed

section \<open>The commit of a transfer batch restores the invariant\<close>

lemma working_dirty:
  "working_ok db st \<Longrightarrow> db_accounts db ++ (working st |` set (dirty st)) = acc_view db st"
  by (auto simp: working_ok_def acc_view_def map_add_def restrict_map_def fun_eq_iff
      split: option.splits)

lemma working_ids:
  "view_inv (view_of db st staged) \<Longrightarrow> working st i = Some a \<Longrightarrow> a_id a = i"
  using view_invD(2) [of "view_of db st staged" i a]
  by (simp add: view_of_def acc_view_def account_conf_def)

text \<open>The state a batch commits, in terms of what the batch has seen.\<close>

lemma commit_transfers_ok:
  assumes inv: "batch_inv db now b"
  shows "\<exists>db'. commit_transfers db b = Inr db' \<and>
    db_view db' = view_of db (b_state b) (b_staged b) \<and>
    db_failed db' = db_failed db \<union> b_failed b \<and> get_watermark db' = b_last b \<and>
    set (db_expiry db') = (set (db_expiry db) \<union> expiry_entry ` {t \<in> set (b_accepted b). timed_pending t})
      - set (expiry_removals (b_state b)) \<and>
    (sorted (db_expiry db) \<longrightarrow> sorted (db_expiry db')) \<and>
    (distinct (db_expiry db) \<longrightarrow> distinct (db_expiry db')) \<and>
    (mirrors_sound db \<longrightarrow> mirrors_sound db') \<and> (mirrors_complete db \<longrightarrow> mirrors_complete db')"
proof -
  let ?st = "b_state b"
  have v: "view_inv (view_of db ?st (b_staged b))" and wo: "working_ok db ?st"
    and so: "staged_ok db b" and af: "accepted_fresh db now b"
    using inv by (auto simp: batch_inv_def batch_core_def)
  have log: "log_of (b_accepted b) = b_staged b" and dist: "distinct (map t_id (b_accepted b))"
    using so by (auto simp: staged_ok_def)
  obtain rows where a: "put_dirty (working ?st) (dirty ?st) db
      = Inr (db\<lparr>db_accounts := acc_view db ?st, db_sql_accounts := rows\<rparr>)"
    and ma: "mirror_sound project_account (db_accounts db) (db_sql_accounts db) \<longrightarrow>
      mirror_sound project_account (acc_view db ?st) rows"
      "mirror_complete project_account (db_accounts db) (db_sql_accounts db) \<longrightarrow>
      mirror_complete project_account (acc_view db ?st) rows"
    using put_dirty_ok [of "working ?st" "dirty ?st" db, OF working_ids [OF v]]
    unfolding working_dirty [OF wo] by blast
  define db1 where "db1 = db\<lparr>db_accounts := acc_view db ?st, db_sql_accounts := rows\<rparr>"
  obtain trows ex where t: "put_transfers (b_accepted b) db1
      = Inr (db1\<lparr>db_transfers := db_transfers db1 ++ b_staged b, db_sql_transfers := trows,
          db_expiry := ex\<rparr>)"
    and mt: "mirror_sound project_transfer (db_transfers db1) (db_sql_transfers db1) \<longrightarrow>
      mirror_sound project_transfer (db_transfers db1 ++ b_staged b) trows"
      "mirror_complete project_transfer (db_transfers db1) (db_sql_transfers db1) \<longrightarrow>
      mirror_complete project_transfer (db_transfers db1 ++ b_staged b) trows"
    and ex: "set ex = set (db_expiry db1) \<union> expiry_entry ` {t \<in> set (b_accepted b). timed_pending t}"
      "sorted (db_expiry db1) \<longrightarrow> sorted ex" "distinct (db_expiry db1) \<longrightarrow> distinct ex"
    using put_transfers_ok [OF dist, of db1] unfolding log by blast
  have wm: "(case if b_accepted b \<noteq> [] then Some (b_last b) else db_watermark db of
      Some w \<Rightarrow> w | None \<Rightarrow> 0) = b_last b"
    using af by (auto simp: accepted_fresh_def get_watermark_def)
  show ?thesis
    unfolding commit_transfers_def a db1_def [symmetric] sum.case t
    using ma mt ex wm
    by (auto simp: db1_def db_view_def view_of_def get_watermark_def mirrors_sound_def
        mirrors_complete_def sorted_wrt_filter)
qed

lemma committed_expiry_exact:
  assumes exact: "expiry_exact db" and core: "batch_core db w st staged"
    and db: "view_inv (db_view db)"
    and log: "log_of ts = staged" and dist: "distinct (map t_id ts)"
    and disj: "dom staged \<inter> dom (db_transfers db) = {}"
  shows "(e, i) \<in> (set (db_expiry db) \<union> expiry_entry ` {t \<in> set ts. timed_pending t})
      - set (expiry_removals st) \<longleftrightarrow>
    outstanding_timed (db_transfers db ++ staged) (db_pending_state db ++ resolved st) e i"
    (is "?L \<longleftrightarrow> ?R")
proof -
  let ?tr = "db_transfers db ++ staged"
  have inv: "view_inv (view_of db st staged)" and rem: "removals_ok db st staged"
    using core by (auto simp: batch_core_def)
  have key: "i \<in> dom staged \<Longrightarrow> ?tr i = staged i" "i \<notin> dom staged \<Longrightarrow> ?tr i = db_transfers db i"
    by (auto simp: map_add_def split: option.splits)
  have st: "staged i = Some t \<longleftrightarrow> t \<in> set ts \<and> t_id t = i" for t
  proof -
    have "distinct (map fst (map (\<lambda>t. (t_id t, t)) ts))" using dist by (simp add: comp_def)
    then show ?thesis
      unfolding log [symmetric] log_of_def by (auto dest: map_of_SomeD simp: image_iff)
  qed
  have cls: "timed_pending t \<longleftrightarrow> classify t = PendingReserve \<and> t_timeout t \<noteq> 0"
    if "?tr i = Some t" for t
    using view_invD(3) [OF inv] pending_iff_classify [of t] that
    by (auto simp: view_of_def transfer_conf_def timed_pending_def)
  have new: "(e, i) \<in> expiry_entry ` {t \<in> set ts. timed_pending t} \<longleftrightarrow>
    (\<exists>t. staged i = Some t \<and> timed_pending t \<and> e = expiry_of (t_timestamp t) (t_timeout t))"
    by (auto simp: st expiry_entry_def)
  have old: "(e, i) \<in> set (db_expiry db) \<longleftrightarrow>
      outstanding_timed (db_transfers db) (db_pending_state db) e i"
    using exact by (simp add: expiry_exact_def)
  have gone: "(e, i) \<in> set (expiry_removals st) \<longleftrightarrow> (db_pending_state db ++ resolved st) i \<noteq> None"
    if "?tr i = Some t" "e = expiry_of (t_timestamp t) (t_timeout t)" "t_timeout t \<noteq> 0"
      "db_pending_state db i = None" for t
    using rem that by (fastforce simp: removals_ok_def map_add_def split: option.splits)
  show ?thesis
  proof (cases "i \<in> dom staged")
    case True
    then have dn: "db_transfers db i = None" using disj by auto
    then have "db_pending_state db i = None"
      using pstate_fresh [OF db, of i] by (simp add: db_view_def)
    moreover obtain t where t: "staged i = Some t" "?tr i = Some t" using True key(1) by auto
    ultimately show ?thesis
      using cls [OF t(2)] gone [OF t(2)] new old dn t
      by (cases "e = expiry_of (t_timestamp t) (t_timeout t)"; cases "timed_pending t")
        (auto simp: outstanding_timed_def)
  next
    case False
    then have eq: "?tr i = db_transfers db i"
      and none: "(e, i) \<notin> expiry_entry ` {t \<in> set ts. timed_pending t}"
      using key(2) new by auto
    show ?thesis
    proof (cases "outstanding_timed (db_transfers db) (db_pending_state db) e i")
      case True
      then obtain t where "db_transfers db i = Some t" "classify t = PendingReserve" "t_timeout t \<noteq> 0"
        "db_pending_state db i = None" "e = expiry_of (t_timestamp t) (t_timeout t)"
        by (auto simp: outstanding_timed_def)
      then have "?R \<longleftrightarrow> (e, i) \<notin> set (expiry_removals st)"
        using gone [of t] eq by (simp add: outstanding_timed_def)
      then show ?thesis using True old none by simp
    next
      case False
      have "?R \<Longrightarrow> outstanding_timed (db_transfers db) (db_pending_state db) e i"
        unfolding outstanding_timed_def eq map_add_None by blast
      then show ?thesis using False old none by blast
    qed
  qed
qed

lemma accepted_stamps:
  assumes "accepted_fresh db now b"
  shows "get_watermark db \<le> b_last b" and "t \<in> set (b_accepted b) \<Longrightarrow> t_timestamp t \<le> b_last b"
proof -
  note le = sorted_ts_last [of "get_watermark db # map t_timestamp (b_accepted b)"]
  show "get_watermark db \<le> b_last b" and "t \<in> set (b_accepted b) \<Longrightarrow> t_timestamp t \<le> b_last b"
    using assms le unfolding accepted_fresh_def by (metis list.set_intros(1))
      (metis (no_types, lifting) assms accepted_fresh_def le list.set_intros(2) image_eqI list.set_map)
qed

lemma commit_transfers_inv:
  assumes db: "db_inv db" and inv: "batch_inv db now b"
  shows "\<exists>db'. commit_transfers db b = Inr db' \<and> db_inv db' \<and>
    db_view db' = view_of db (b_state b) (b_staged b) \<and>
    db_failed db' = db_failed db \<union> b_failed b \<and> get_watermark db' = b_last b \<and>
    (mirrors_complete db \<longrightarrow> mirrors_complete db')"
proof -
  have core: "batch_core db (b_last b) (b_state b) (b_staged b)"
    and so: "staged_ok db b" and af: "accepted_fresh db now b" and ex: "expiry_exact db"
    using inv by (auto simp: batch_inv_def)
  have log: "log_of (b_accepted b) = b_staged b" and dist: "distinct (map t_id (b_accepted b))"
    and disj: "dom (b_staged b) \<inter> dom (db_transfers db) = {}"
    and fl: "dom (b_staged b) \<inter> db_failed db = {}"
      "b_failed b \<inter> (dom (b_staged b) \<union> dom (db_transfers db)) = {}"
    using so by (auto simp: staged_ok_def)
  obtain db' where c: "commit_transfers db b = Inr db'"
    and v: "db_view db' = view_of db (b_state b) (b_staged b)"
    and f: "db_failed db' = db_failed db \<union> b_failed b" and w: "get_watermark db' = b_last b"
    and e: "set (db_expiry db') = (set (db_expiry db) \<union>
        expiry_entry ` {t \<in> set (b_accepted b). timed_pending t}) - set (expiry_removals (b_state b))"
      "sorted (db_expiry db) \<longrightarrow> sorted (db_expiry db')"
      "distinct (db_expiry db) \<longrightarrow> distinct (db_expiry db')"
    and m: "mirrors_sound db \<longrightarrow> mirrors_sound db'" "mirrors_complete db \<longrightarrow> mirrors_complete db'"
    using commit_transfers_ok [OF inv] by blast
  have parts: "db_accounts db' = acc_view db (b_state b)"
    "db_transfers db' = db_transfers db ++ b_staged b"
    "db_pending_state db' = db_pending_state db ++ resolved (b_state b)"
    using v by (simp_all add: db_view_def view_of_def)
  have "view_inv (db_view db')" using core v by (simp add: batch_core_def)
  moreover have "expiry_exact db'"
    using committed_expiry_exact [OF ex core _ log dist disj] db e ex parts
    by (simp add: db_inv_def expiry_exact_def)
  moreover have "db_failed db' \<inter> dom (db_transfers db') = {}"
    using db fl f parts by (auto simp: db_inv_def)
  moreover have "stamps_ok db'"
  proof -
    have "t_timestamp t \<le> b_last b" if "db_transfers db' i = Some t" for i t
    proof (cases "b_staged b i")
      case None
      then have "t_timestamp t \<le> get_watermark db"
        using that db parts by (auto simp: db_inv_def stamps_ok_def)
      then show ?thesis using accepted_stamps(1) [OF af] by simp
    next
      case (Some u)
      then have "u \<in> set (b_accepted b)"
        using log_of_SomeD [of "b_accepted b" i u] log by simp
      then show ?thesis using accepted_stamps(2) [OF af] that Some parts by auto
    qed
    then show ?thesis
      using core w parts by (auto simp: stamps_ok_def batch_core_def accounts_known_def)
  qed
  moreover have "finite (dom (db_accounts db'))"
    using db core parts finite_subset by (auto simp: db_inv_def batch_core_def accounts_known_def)
  ultimately have "db_inv db'"
    using db m(1) by (simp add: db_inv_def)
  then show ?thesis using c v f w m(2) by blast
qed

section \<open>A transfer batch\<close>

text \<open>The state a batch starts from, after the sweep.\<close>

definition batch_start :: "ledger_db \<Rightarrow> apply_state \<Rightarrow> transfer_batch" where
  "batch_start db st = \<lparr> b_last = get_watermark db, b_state = st, b_staged = Map.empty,
     b_accepted = [], b_failed = {} \<rparr>"

lemma batch_core_default:
  "db_inv db \<Longrightarrow> batch_core db (get_watermark db) apply_state_default Map.empty"
  unfolding batch_core_def view_of_default
  by (auto simp: db_inv_def stamps_ok_def working_ok_def accounts_known_def removals_ok_def
      acc_view_def apply_state_default_def)

lemma sweep_ok:
  assumes "db_inv db"
  shows "\<exists>st. sweep_expired db now apply_state_default = Inr st \<and> batch_inv db now (batch_start db st)"
proof -
  have ex: "expiry_exact db" using assms by (simp add: db_inv_def)
  have sub: "set (scan_expired db now) \<subseteq> set (db_expiry db)" by (auto simp: scan_expired_def)
  obtain st where st: "sweep_keys db (scan_expired db now) apply_state_default = Inr st"
    "batch_core db (get_watermark db) st Map.empty"
    "\<forall>(e, i) \<in> set (scan_expired db now). resolved st i \<noteq> None"
    using sweep_keys_inv [OF batch_core_default [OF assms] ex sub] by blast
  then show ?thesis
    using ex by (simp add: sweep_expired_def batch_inv_def batch_start_def staged_ok_def log_of_def
        accepted_fresh_def swept_def)
qed

definition batch_imported_transfers :: "transfer list \<Rightarrow> bool" where
  "batch_imported_transfers transfers =
     (case transfers of [] \<Rightarrow> False | t # _ \<Rightarrow> flags_contain (t_flags t) TF_IMPORTED)"

definition transfer_links :: "transfer list \<Rightarrow> bool list" where
  "transfer_links transfers = map (\<lambda>t. flags_contain (t_flags t) TF_LINKED) transfers"

definition run_transfer_chains ::
  "ledger_db \<Rightarrow> u64 \<Rightarrow> transfer list \<Rightarrow> apply_state
   \<Rightarrow> ledger_error + create_transfer_result list \<times> transfer_batch" where
  "run_transfer_chains db now transfers st =
     apply_chains (process_transfer db (batch_imported_transfers transfers) now) transfer_ok
       transfer_rollback CT_LinkedEventChainOpen CT_LinkedEventFailed (burn_ids transfers) transfers
       (chains (transfer_links transfers)) (batch_start db st)"

text \<open>A call on a consistent ledger succeeds: the batch it ran, what it committed.\<close>

lemma create_transfers_ok:
  assumes "db_inv db"
  obtains st rs b db' where
    "sweep_expired db now apply_state_default = Inr st"
    "run_transfer_chains db now transfers st = Inr (rs, b)"
    "batch_inv db now b" "commit_transfers db b = Inr db'"
    "create_transfers True now transfers db = Inr (rs, db')"
    "length rs = length transfers" "db_inv db'"
    "db_view db' = view_of db (b_state b) (b_staged b)"
    "db_failed db' = db_failed db \<union> b_failed b" "get_watermark db' = b_last b"
    "mirrors_complete db \<longrightarrow> mirrors_complete db'"
proof -
  obtain st where st: "sweep_expired db now apply_state_default = Inr st"
    and inv: "batch_inv db now (batch_start db st)"
    using sweep_ok [OF assms] by blast
  obtain rs b where run: "run_transfer_chains db now transfers st = Inr (rs, b)"
    and b: "batch_inv db now b" and len: "length rs = length transfers"
    using tb.batch_total [OF inv, of "transfer_links transfers" transfers
        "batch_imported_transfers transfers"]
    unfolding run_transfer_chains_def by (auto simp: transfer_links_def)
  obtain db' where c: "commit_transfers db b = Inr db'" and i: "db_inv db'"
    and v: "db_view db' = view_of db (b_state b) (b_staged b)"
      "db_failed db' = db_failed db \<union> b_failed b" "get_watermark db' = b_last b"
      "mirrors_complete db \<longrightarrow> mirrors_complete db'"
    using commit_transfers_inv [OF assms b] by blast
  have "create_transfers True now transfers db = Inr (rs, db')"
    using st run c
    unfolding create_transfers_def run_transfer_chains_def batch_imported_transfers_def
      transfer_links_def batch_start_def by (simp add: Let_def)
  then show thesis by (rule that [OF st run b c _ len i v])
qed

section \<open>An account batch\<close>

definition acc_log :: "account list \<Rightarrow> (u128 \<rightharpoonup> account)" where
  "acc_log as = map_of (map (\<lambda>a. (a_id a, a)) as)"

definition new_account :: "account \<Rightarrow> bool" where
  "new_account a = (a_id a \<noteq> 0 \<and> a_debits_pending a = 0 \<and> a_debits_posted a = 0 \<and>
     a_credits_pending a = 0 \<and> a_credits_posted a = 0)"

definition acc_batch_inv :: "ledger_db \<Rightarrow> account_batch \<Rightarrow> bool" where
  "acc_batch_inv db b =
     (acc_log (ab_accepted b) = ab_staged b \<and> distinct (map a_id (ab_accepted b)) \<and>
      (\<forall>a \<in> set (ab_accepted b). new_account a) \<and>
      dom (ab_staged b) \<inter> dom (db_accounts db) = {} \<and>
      sorted_wrt ts_after (get_watermark db # map a_timestamp (ab_accepted b)) \<and>
      last (get_watermark db # map a_timestamp (ab_accepted b)) = ab_last b)"

definition acc_batch_ext :: "account_batch \<Rightarrow> account_batch \<Rightarrow> bool" where
  "acc_batch_ext b0 b = (\<exists>ys. ab_accepted b = ab_accepted b0 @ ys)"

lemma dom_acc_log: "dom (acc_log as) = a_id ` set as"
  by (simp add: acc_log_def dom_map_of_conv_image_fst image_image)

lemma acc_log_SomeD: "acc_log as i = Some a \<Longrightarrow> a \<in> set as \<and> a_id a = i"
  by (auto simp: acc_log_def dest!: map_of_SomeD)

lemma acc_log_snoc: "a_id u \<notin> a_id ` set as \<Longrightarrow> acc_log (as @ [u]) = (acc_log as)(a_id u \<mapsto> u)"
  using dom_acc_log [of as] by (auto simp: acc_log_def map_add_def fun_eq_iff split: option.splits)

lemma acc_log_rev:
  "distinct (map a_id as) \<Longrightarrow> map_of (rev (map (\<lambda>a. (a_id a, a)) as)) = acc_log as"
proof (induction as)
  case (Cons a as)
  then have "acc_log as (a_id a) = None"
    using dom_acc_log [of as] by auto
  then show ?case
    using Cons by (auto simp: acc_log_def map_add_def fun_eq_iff split: option.splits)
qed (simp add: acc_log_def)

lemma account_validated:
  assumes "validate_account_pre_existence a bi now = None" and "validate_account_post_existence a = None"
  shows "new_account a"
  using assms by (auto simp: new_account_def validate_account_pre_existence_def
      validate_account_post_existence_def Let_def split: if_splits)

lemma stage_account_outcome:
  assumes inv: "acc_batch_inv db b"
  shows "\<exists>r b'. stage_account db bi now b a = Inr (r, b') \<and> acc_batch_inv db b'"
proof (cases "validate_account_pre_existence a bi now = None \<and> db_accounts db (a_id a) = None \<and>
    ab_staged b (a_id a) = None \<and> validate_account_post_existence a = None \<and>
    \<not> (bi \<and> a_timestamp a \<le> ab_last b)")
  case False
  then show ?thesis using inv
    by (auto simp: stage_account_def split: option.splits)
next
  case True
  define ts where "ts = (if bi then a_timestamp a else ts_peek (ab_last b) now)"
  let ?u = "a\<lparr>a_timestamp := ts\<rparr>"
  let ?b = "b\<lparr>ab_last := ts, ab_staged := (ab_staged b)(a_id a \<mapsto> ?u), ab_accepted := ab_accepted b @ [?u]\<rparr>"
  have "a_id a \<notin> a_id ` set (ab_accepted b)"
    using True inv dom_acc_log [of "ab_accepted b"] by (auto simp: acc_batch_inv_def)
  then have "acc_log (ab_accepted b @ [?u]) = (ab_staged b)(a_id a \<mapsto> ?u)"
      "distinct (map a_id (ab_accepted b @ [?u]))"
    using inv acc_log_snoc [of ?u "ab_accepted b"] by (simp_all add: acc_batch_inv_def)
  moreover have "ts_after (ab_last b) ts"
    using True ts_after_peek by (auto simp: ts_def ts_after_def)
  then have "sorted_wrt ts_after ((get_watermark db # map a_timestamp (ab_accepted b)) @ [ts])"
    using inv by (intro sorted_ts_snoc) (simp_all add: acc_batch_inv_def)
  moreover have "new_account ?u"
    using account_validated [of a bi now] True by (simp add: new_account_def)
  ultimately have "acc_batch_inv db ?b"
    using inv True by (simp add: acc_batch_inv_def domIff)
  moreover have "stage_account db bi now b a = Inr (CA_Created, ?b)"
    using True by (auto simp: stage_account_def ts_def Let_def)
  ultimately show ?thesis by blast
qed

lemma acc_batch_ext_step:
  "acc_batch_ext b0 b \<Longrightarrow> stage_account db bi now b a = Inr (r, b') \<Longrightarrow> acc_batch_ext b0 b'"
  by (auto simp: stage_account_def acc_batch_ext_def Let_def split: option.splits if_splits)

interpretation ab: chain_driver "stage_account db bi now" account_ok account_rollback
  CA_LinkedEventChainOpen CA_LinkedEventFailed "\<lambda>items ch rs b. b" "acc_batch_inv db" acc_batch_ext
  "\<lambda>b a r. True"
  for db bi now
proof (unfold_locales, goal_cases)
  case (1 s x)
  then show ?case using stage_account_outcome by blast
next
  case (2 s x r s')
  then show ?case using stage_account_outcome [OF 2(1), of bi now x] by auto
next
  case (3 s0 s x r s')
  then show ?case by (rule acc_batch_ext_step)
next
  case (5 s0 s)
  then show ?case by (auto simp: acc_batch_ext_def account_rollback_def)
qed (auto simp: acc_batch_ext_def account_ok_def)

interpretation alog: chain_log "stage_account db bi now" account_ok account_rollback
  CA_LinkedEventChainOpen CA_LinkedEventFailed "\<lambda>items ch rs b. b" "acc_batch_inv db" acc_batch_ext
  "\<lambda>b a r. True" "\<lambda>b. dom (ab_staged b)" a_id CA_Created
  for db bi now
proof (unfold_locales, goal_cases)
  case (1 s x r s')
  have "account_exists_result x u \<noteq> CA_Created" for u
    by (simp add: account_exists_result_def)
  moreover have "validate_account_pre_existence x bi now \<noteq> Some CA_Created"
    "validate_account_post_existence x \<noteq> Some CA_Created"
    by (auto simp: validate_account_pre_existence_def validate_account_post_existence_def Let_def)
  ultimately show ?case
    using 1 by (auto simp: stage_account_def Let_def split: option.splits if_splits)
qed (simp_all add: account_ok_def)

text \<open>New accounts with empty balances keep the view invariant.\<close>

lemma untouched_sums:
  assumes "view_inv v" and "v_accounts v i = None"
  shows "pending_sum t_debit_account_id (v_transfers v) (v_pstate v) i = 0"
    and "pending_sum t_credit_account_id (v_transfers v) (v_pstate v) i = 0"
    and "posted_sum t_debit_account_id (v_transfers v) i = 0"
    and "posted_sum t_credit_account_id (v_transfers v) i = 0"
proof -
  have *: "t_debit_account_id t \<noteq> i \<and> t_credit_account_id t \<noteq> i" if "v_transfers v k = Some t" for k t
    using view_invD(3) [OF assms(1) that] assms(2) by (auto simp: transfer_conf_def)
  show "pending_sum t_debit_account_id (v_transfers v) (v_pstate v) i = 0"
    and "pending_sum t_credit_account_id (v_transfers v) (v_pstate v) i = 0"
    and "posted_sum t_debit_account_id (v_transfers v) i = 0"
    and "posted_sum t_credit_account_id (v_transfers v) i = 0"
    unfolding pending_sum_def posted_sum_def Let_def by (rule sum.neutral; use * in fastforce)+
qed

lemma view_inv_add_accounts:
  assumes inv: "view_inv v" and new: "\<And>i a. m i = Some a \<Longrightarrow> a_id a = i \<and> new_account a"
    and disj: "dom m \<inter> dom (v_accounts v) = {}"
  shows "view_inv (v\<lparr>v_accounts := v_accounts v ++ m\<rparr>)"
proof -
  have conf: "account_conf (v_transfers v) (v_pstate v) i a" if "(v_accounts v ++ m) i = Some a" for i a
  proof (cases "m i")
    case None
    then show ?thesis using that view_invD(2) [OF inv] by (simp add: map_add_def)
  next
    case (Some x)
    then have "v_accounts v i = None" using disj by auto
    then show ?thesis
      using untouched_sums [OF inv] new [OF Some] Some that
      by (auto simp: account_conf_def new_account_def debit_fits_def credit_fits_def
          debit_within_def credit_within_def)
  qed
  have tconf: "transfer_conf (v_accounts v ++ m) (v_transfers v) (v_pstate v) i t"
    if "v_transfers v i = Some t" for i t
    using transfer_conf_mono [OF view_invD(3) [OF inv that]] by auto
  show ?thesis
    by (rule view_invI)
      (use conf tconf view_invD(1,4) [OF inv] view_invD(5) [OF inv] in \<open>simp_all, blast?\<close>)
qed

lemma commit_accounts_inv:
  assumes db: "db_inv db" and inv: "acc_batch_inv db b"
  shows "\<exists>db'. commit_accounts db b = Inr db' \<and> db_inv db' \<and>
    db_accounts db' = db_accounts db ++ ab_staged b \<and> db_transfers db' = db_transfers db \<and>
    db_pending_state db' = db_pending_state db \<and> db_expiry db' = db_expiry db \<and>
    db_failed db' = db_failed db \<and> get_watermark db' = ab_last b \<and>
    (mirrors_complete db \<longrightarrow> mirrors_complete db')"
proof -
  let ?acc = "db_accounts db ++ ab_staged b"
  have log: "acc_log (ab_accepted b) = ab_staged b" and d: "distinct (map a_id (ab_accepted b))"
    and new: "\<forall>a \<in> set (ab_accepted b). new_account a"
    and disj: "dom (ab_staged b) \<inter> dom (db_accounts db) = {}"
    and srt: "sorted_wrt ts_after (get_watermark db # map a_timestamp (ab_accepted b))"
    and lst: "last (get_watermark db # map a_timestamp (ab_accepted b)) = ab_last b"
    using inv unfolding acc_batch_inv_def by blast+
  obtain rows where p: "put_accounts (ab_accepted b) db
      = Inr (db\<lparr>db_accounts := ?acc, db_sql_accounts := rows\<rparr>)"
    and m: "mirror_sound project_account (db_accounts db) (db_sql_accounts db) \<longrightarrow>
      mirror_sound project_account ?acc rows"
      "mirror_complete project_account (db_accounts db) (db_sql_accounts db) \<longrightarrow>
      mirror_complete project_account ?acc rows"
    using put_accounts_ok [of "ab_accepted b" db] unfolding acc_log_rev [OF d] log by blast
  define wm where "wm = (if ab_accepted b \<noteq> [] then Some (ab_last b) else db_watermark db)"
  let ?db = "db\<lparr>db_accounts := ?acc, db_sql_accounts := rows, db_watermark := wm\<rparr>"
  have c: "commit_accounts db b = Inr ?db" using p by (simp add: commit_accounts_def wm_def)
  have w: "get_watermark ?db = ab_last b"
    using lst by (auto simp: get_watermark_def wm_def)
  have staged: "a \<in> set (ab_accepted b) \<and> a_id a = i" if "ab_staged b i = Some a" for i a
    using acc_log_SomeD [of "ab_accepted b" i a] log that by simp
  have le: "get_watermark db \<le> ab_last b" "a \<in> set (ab_accepted b) \<Longrightarrow> a_timestamp a \<le> ab_last b" for a
    using sorted_ts_last [OF srt] lst by (auto simp del: last.simps)
  have "view_inv (db_view ?db)"
    using view_inv_add_accounts [of "db_view db" "ab_staged b"] db disj staged new
    by (simp add: db_view_def db_inv_def)
  moreover have "stamps_ok ?db"
    unfolding stamps_ok_def w using db le staged
    by (fastforce simp: db_inv_def stamps_ok_def intro: order.trans)
  moreover have "finite (dom (ab_staged b))"
    unfolding log [symmetric] dom_acc_log by simp
  moreover have "expiry_exact ?db" "mirrors_sound ?db" "mirrors_complete db \<longrightarrow> mirrors_complete ?db"
    using db m by (simp_all add: db_inv_def expiry_exact_def mirrors_sound_def mirrors_complete_def)
  ultimately show ?thesis
    using c w db by (simp add: db_inv_def)
qed

definition batch_imported_accounts :: "account list \<Rightarrow> bool" where
  "batch_imported_accounts specs =
     (case specs of [] \<Rightarrow> False | a # _ \<Rightarrow> flags_contain (a_flags a) AF_IMPORTED)"

definition account_links :: "account list \<Rightarrow> bool list" where
  "account_links specs = map (\<lambda>a. flags_contain (a_flags a) AF_LINKED) specs"

definition acc_batch_start :: "ledger_db \<Rightarrow> account_batch" where
  "acc_batch_start db = \<lparr> ab_last = get_watermark db, ab_staged = Map.empty, ab_accepted = [] \<rparr>"

definition run_account_chains ::
  "ledger_db \<Rightarrow> u64 \<Rightarrow> account list \<Rightarrow> ledger_error + create_account_result list \<times> account_batch" where
  "run_account_chains db now specs =
     apply_chains (stage_account db (batch_imported_accounts specs) now) account_ok account_rollback
       CA_LinkedEventChainOpen CA_LinkedEventFailed (\<lambda>ch rs b. b) specs
       (chains (account_links specs)) (acc_batch_start db)"

lemma create_accounts_ok:
  assumes "db_inv db"
  obtains rs b db' where
    "run_account_chains db now specs = Inr (rs, b)" "acc_batch_inv db b"
    "commit_accounts db b = Inr db'" "create_accounts True now specs db = Inr (rs, db')"
    "length rs = length specs" "db_inv db'" "db_accounts db' = db_accounts db ++ ab_staged b"
    "db_transfers db' = db_transfers db" "db_pending_state db' = db_pending_state db"
    "db_failed db' = db_failed db" "get_watermark db' = ab_last b"
    "mirrors_complete db \<longrightarrow> mirrors_complete db'"
proof -
  have inv: "acc_batch_inv db (acc_batch_start db)"
    by (simp add: acc_batch_inv_def acc_batch_start_def acc_log_def)
  obtain rs b where run: "run_account_chains db now specs = Inr (rs, b)"
    and b: "acc_batch_inv db b" and len: "length rs = length specs"
    using ab.batch_total [OF inv, of "account_links specs" specs "batch_imported_accounts specs" now]
    unfolding run_account_chains_def by (auto simp: account_links_def)
  obtain db' where c: "commit_accounts db b = Inr db'" and i: "db_inv db'"
    and v: "db_accounts db' = db_accounts db ++ ab_staged b"
    "db_transfers db' = db_transfers db" "db_pending_state db' = db_pending_state db"
    "db_failed db' = db_failed db" "get_watermark db' = ab_last b"
    "mirrors_complete db \<longrightarrow> mirrors_complete db'"
    using commit_accounts_inv [OF assms b] by blast
  have "create_accounts True now specs db = Inr (rs, db')"
    using run c
    unfolding create_accounts_def run_account_chains_def batch_imported_accounts_def
      account_links_def acc_batch_start_def by (simp add: Let_def)
  then show thesis by (rule that [OF run b c _ len i v])
qed

end
