(* ===== verification/Ledger_Properties.thy ===== *)
theory Ledger_Properties
  imports Ledger_Commit
begin

text \<open>
  The ledger as a whole: the states that calls of its interface reach from the empty store, and what
  holds in each of them. The calls are those of \<open>Ledger\<close> in \<open>bluedb-ledger/src/ledger.rs\<close>
  that write: \<open>ensure_schema\<close>, \<open>create_accounts\<close> and \<open>create_transfers\<close>, in any
  order, with any arguments and any clock values.
\<close>

section \<open>Histories of calls\<close>

inductive ledger_run :: "ledger_db \<Rightarrow> ledger_db \<Rightarrow> bool" where
  start: "ledger_run db db"
| schema: "ledger_run db0 db \<Longrightarrow> ledger_run db0 (ensure_schema db)"
| accounts: "ledger_run db0 db \<Longrightarrow> create_accounts w now specs db = Inr (rs, db') \<Longrightarrow>
    ledger_run db0 db'"
| transfers: "ledger_run db0 db \<Longrightarrow> create_transfers w now ts db = Inr (rs, db') \<Longrightarrow>
    ledger_run db0 db'"

abbreviation reachable :: "ledger_db \<Rightarrow> bool" where
  "reachable \<equiv> ledger_run empty_db"

lemma create_accounts_writer:
  "create_accounts w now specs db = Inr (rs, db') \<Longrightarrow> w"
  by (auto simp: create_accounts_def split: if_splits)

lemma create_transfers_writer:
  "create_transfers w now ts db = Inr (rs, db') \<Longrightarrow> w"
  by (auto simp: create_transfers_def split: if_splits)

lemma create_accounts_inv:
  assumes "db_inv db" and "create_accounts w now specs db = Inr (rs, db')"
  shows "db_inv db'" and "mirrors_complete db \<longrightarrow> mirrors_complete db'"
    and "db_transfers db' = db_transfers db" and "db_pending_state db' = db_pending_state db"
    and "db_accounts db \<subseteq>\<^sub>m db_accounts db'" and "db_failed db' = db_failed db"
proof -
  have w using create_accounts_writer [OF assms(2)] .
  show "db_inv db'" and "mirrors_complete db \<longrightarrow> mirrors_complete db'"
    and "db_transfers db' = db_transfers db" and "db_pending_state db' = db_pending_state db"
    and "db_accounts db \<subseteq>\<^sub>m db_accounts db'" and "db_failed db' = db_failed db"
    by (rule create_accounts_ok [OF assms(1), of now specs],
        use assms(2) \<open>w\<close> in \<open>force simp: acc_batch_inv_def map_le_def map_add_def split: option.splits\<close>)+
qed

lemma create_transfers_inv:
  assumes "db_inv db" and "create_transfers w now ts db = Inr (rs, db')"
  shows "db_inv db'" and "mirrors_complete db \<longrightarrow> mirrors_complete db'"
    and "view_step\<^sup>*\<^sup>* (db_view db) (db_view db')" and "db_failed db \<subseteq> db_failed db'"
proof -
  have w using create_transfers_writer [OF assms(2)] .
  have "db_inv db' \<and> (mirrors_complete db \<longrightarrow> mirrors_complete db') \<and>
    view_step\<^sup>*\<^sup>* (db_view db) (db_view db') \<and> db_failed db \<subseteq> db_failed db'"
    by (rule create_transfers_ok [OF assms(1), of now ts])
      (use assms(2) \<open>w\<close> in \<open>auto simp: batch_inv_def batch_core_def view_of_default\<close>)
  then show "db_inv db'" and "mirrors_complete db \<longrightarrow> mirrors_complete db'"
    and "view_step\<^sup>*\<^sup>* (db_view db) (db_view db')" and "db_failed db \<subseteq> db_failed db'" by auto
qed

lemma ledger_run_inv: "ledger_run db0 db \<Longrightarrow> db_inv db0 \<Longrightarrow> db_inv db"
  by (induction rule: ledger_run.induct)
    (auto intro: db_inv_ensure_schema create_accounts_inv create_transfers_inv)

lemma reachable_inv: "reachable db \<Longrightarrow> db_inv db"
  using ledger_run_inv db_inv_empty by blast

lemma view_step_mono:
  "view_step v w \<Longrightarrow> v_transfers v \<subseteq>\<^sub>m v_transfers w \<and> v_pstate v \<subseteq>\<^sub>m v_pstate w"
  by (induction rule: view_step.induct) (auto simp: map_le_def new_entry_def)

lemma view_steps_mono:
  "view_step\<^sup>*\<^sup>* v w \<Longrightarrow> v_transfers v \<subseteq>\<^sub>m v_transfers w \<and> v_pstate v \<subseteq>\<^sub>m v_pstate w"
  by (induction rule: rtranclp.induct) (auto dest: view_step_mono intro: map_le_trans)

lemma ledger_run_mono:
  "ledger_run db0 db \<Longrightarrow> db_inv db0 \<Longrightarrow>
     db_transfers db0 \<subseteq>\<^sub>m db_transfers db \<and> db_pending_state db0 \<subseteq>\<^sub>m db_pending_state db \<and>
     db_failed db0 \<subseteq> db_failed db"
proof (induction rule: ledger_run.induct)
  case (start db)
  then show ?case by simp
next
  case (schema db0 db)
  then show ?case by (simp add: ensure_schema_def)
next
  case (accounts db0 db w now specs rs db')
  then show ?case
    using create_accounts_inv(3,4,6) [OF ledger_run_inv] by simp
next
  case (transfers db0 db w now ts rs db')
  have "view_step\<^sup>*\<^sup>* (db_view db) (db_view db')" "db_failed db \<subseteq> db_failed db'"
    using create_transfers_inv(3,4) [OF ledger_run_inv [OF transfers(1,4)] transfers(2)] .
  then have "db_transfers db \<subseteq>\<^sub>m db_transfers db'" "db_pending_state db \<subseteq>\<^sub>m db_pending_state db'"
    "db_failed db \<subseteq> db_failed db'"
    using view_steps_mono [of "db_view db" "db_view db'"] by (simp_all add: db_view_def)
  then show ?case
    using transfers(3) [OF transfers(4)] by (blast intro: map_le_trans)
qed

lemma create_transfers_elim:
  assumes "db_inv db" and "create_transfers w now ts db = Inr (rs, db')"
  obtains st b where
    "run_transfer_chains db now ts st = Inr (rs, b)" "batch_inv db now b"
    "db_view db' = view_of db (b_state b) (b_staged b)"
    "db_failed db' = db_failed db \<union> b_failed b" "get_watermark db' = b_last b"
    "length rs = length ts" "db_inv db'"
proof -
  have w using create_transfers_writer [OF assms(2)] .
  show thesis
    by (rule create_transfers_ok [OF assms(1), of now ts])
      (use assms(2) \<open>w\<close> in \<open>auto intro: that\<close>)
qed

lemma create_accounts_elim:
  assumes "db_inv db" and "create_accounts w now specs db = Inr (rs, db')"
  obtains b where
    "run_account_chains db now specs = Inr (rs, b)" "acc_batch_inv db b"
    "db_accounts db' = db_accounts db ++ ab_staged b" "get_watermark db' = ab_last b"
    "length rs = length specs" "db_inv db'"
proof -
  have w using create_accounts_writer [OF assms(2)] .
  show thesis
    by (rule create_accounts_ok [OF assms(1), of now specs])
      (use assms(2) \<open>w\<close> in \<open>auto intro: that\<close>)
qed

section \<open>A ledger with two accounts\<close>

text \<open>A concrete history for the witnesses: two accounts, the second of which may not be debited
  beyond its credits, a timed reservation, its post, and a chain that fails.\<close>

definition demo_accounts :: "account list" where
  "demo_accounts = [(account_input 1 7)\<lparr>a_code := 1\<rparr>,
     (account_input 2 7)\<lparr>a_code := 1, a_flags := AF_DEBITS_MUST_NOT_EXCEED_CREDITS\<rparr>]"

definition demo_reserve :: transfer where
  "demo_reserve = (transfer_new 10 1 2 50 7)\<lparr>t_code := 1, t_flags := TF_PENDING, t_timeout := 5\<rparr>"

definition demo_post :: transfer where
  "demo_post = (transfer_new 11 0 0 30 0)\<lparr>t_pending_id := 10, t_flags := TF_POST_PENDING_TRANSFER\<rparr>"

definition demo_chain :: "transfer list" where
  "demo_chain = [(transfer_new 12 1 2 5 7)\<lparr>t_code := 1, t_flags := TF_LINKED\<rparr>,
     (transfer_new 13 2 1 900 7)\<lparr>t_code := 1\<rparr>]"

definition after_call :: "ledger_error + 'r list \<times> ledger_db \<Rightarrow> ledger_db" where
  "after_call out = (case out of Inr (_, db) \<Rightarrow> db | Inl _ \<Rightarrow> empty_db)"

definition demo_open :: ledger_db where
  "demo_open = after_call (create_accounts True 100 demo_accounts (ensure_schema empty_db))"

definition demo_reserved :: ledger_db where
  "demo_reserved = after_call (create_transfers True 200 [demo_reserve] demo_open)"

definition demo_posted :: ledger_db where
  "demo_posted = after_call (create_transfers True 300 (demo_post # demo_chain) demo_reserved)"

lemma run_after_accounts:
  assumes "ledger_run db0 db" and "db_inv db0"
  shows "ledger_run db0 (after_call (create_accounts True now specs db))"
  by (rule create_accounts_ok [OF ledger_run_inv [OF assms], of now specs])
    (use assms(1) in \<open>auto simp: after_call_def intro: ledger_run.accounts\<close>)

lemma run_after_transfers:
  assumes "ledger_run db0 db" and "db_inv db0"
  shows "ledger_run db0 (after_call (create_transfers True now ts db))"
  by (rule create_transfers_ok [OF ledger_run_inv [OF assms], of now ts])
    (use assms(1) in \<open>auto simp: after_call_def intro: ledger_run.transfers\<close>)

lemma demo_runs:
  "ledger_run (ensure_schema empty_db) demo_open" "ledger_run (ensure_schema empty_db) demo_reserved"
  "ledger_run (ensure_schema empty_db) demo_posted"
  unfolding demo_posted_def demo_reserved_def demo_open_def
  by (intro run_after_transfers run_after_accounts ledger_run.start db_inv_ensure_schema db_inv_empty)+

lemma reachable_trans: "ledger_run b c \<Longrightarrow> ledger_run a b \<Longrightarrow> ledger_run a c"
  by (induction rule: ledger_run.induct) (auto intro: ledger_run.intros)

lemma demo_reachable: "reachable demo_open" "reachable demo_reserved" "reachable demo_posted"
  using demo_runs reachable_trans ledger_run.schema [OF ledger_run.start] by blast+

text \<open>The calls of the example, with their results.\<close>

lemma call_results:
  "case out of Inl e \<Rightarrow> False | Inr (rs, db) \<Rightarrow> rs = rs0 \<Longrightarrow> out = Inr (rs0, after_call out)"
  by (auto simp: after_call_def split: sum.splits)

lemma demo_calls:
  "create_transfers True 200 [demo_reserve] demo_open = Inr ([CT_Created], demo_reserved)"
  "create_transfers True 300 (demo_post # demo_chain) demo_reserved
     = Inr ([CT_Created, CT_LinkedEventFailed, CT_ExceedsCredits], demo_posted)"
  unfolding demo_reserved_def demo_posted_def
  by (rule call_results, code_simp)+

section \<open>Properties\<close>

text \<open>C1. Double entry: in every reachable ledger the posted debits of all accounts add up to
  the posted credits of all accounts, and so do the pending ones. The sums are exact (no wrap).\<close>

theorem ledger_double_entry:
  assumes "reachable db"
  shows "bucket_total a_debits_posted (db_accounts db) = bucket_total a_credits_posted (db_accounts db)
    \<and> bucket_total a_debits_pending (db_accounts db) = bucket_total a_credits_pending (db_accounts db)"
  using view_double_entry [of "db_view db"] reachable_inv [OF assms]
  by (simp add: db_inv_def db_view_def)

theorem ledger_double_entry_witness:
  "bucket_total a_debits_posted (db_accounts demo_posted)
     = bucket_total a_credits_posted (db_accounts demo_posted)
   \<and> map_option a_debits_posted (db_accounts demo_posted 1) = Some 30
   \<and> map_option a_credits_posted (db_accounts demo_posted 2) = Some 30"
proof -
  have "map_option a_debits_posted (db_accounts demo_posted 1) = Some 30
    \<and> map_option a_credits_posted (db_accounts demo_posted 2) = Some 30" by code_simp
  then show ?thesis using ledger_double_entry [OF demo_reachable(3)] by blast
qed

text \<open>C2. Refinement: what \<open>create_transfers\<close> commits is a sequence of steps of the abstract
  ledger (a posted movement, a reservation, a post, a void or an expiry, each between two existing
  accounts that keep their limits), whatever the batch, its chains and their rollbacks were.\<close>

theorem create_transfers_refines:
  assumes "reachable db" and "create_transfers w now ts db = Inr (rs, db')"
  shows "view_step\<^sup>*\<^sup>* (db_view db) (db_view db')"
  by (rule create_transfers_inv(3) [OF reachable_inv [OF assms(1)] assms(2)])

theorem create_transfers_refines_witness:
  "view_step\<^sup>*\<^sup>* (db_view demo_reserved) (db_view demo_posted)
   \<and> map_option a_debits_pending (db_accounts demo_reserved 1) = Some 50
   \<and> map_option a_debits_pending (db_accounts demo_posted 1) = Some 0"
proof -
  have "view_step\<^sup>*\<^sup>* (db_view demo_reserved) (db_view demo_posted)"
    by (rule create_transfers_refines [OF demo_reachable(2) demo_calls(2)])
  moreover have "map_option a_debits_pending (db_accounts demo_reserved 1) = Some 50
    \<and> map_option a_debits_pending (db_accounts demo_posted 1) = Some 0" by code_simp
  ultimately show ?thesis by blast
qed

text \<open>C3. No call aborts: on every reachable ledger the writer's \<open>create_transfers\<close> returns
  one result per transfer and the next ledger is reachable; none of the internal errors (a missing
  account or an underflowing reservation in the sweep or in a post) can occur.\<close>

theorem create_transfers_total:
  assumes "reachable db"
  shows "\<exists>rs db'. create_transfers True now ts db = Inr (rs, db') \<and> length rs = length ts \<and>
    reachable db'"
  by (rule create_transfers_ok [OF reachable_inv [OF assms], of now ts])
    (use assms in \<open>auto intro: ledger_run.transfers\<close>)

theorem create_transfers_total_witness:
  "\<exists>rs db'. create_transfers True 9000000000 [demo_post] demo_reserved = Inr (rs, db') \<and>
     length rs = length [demo_post] \<and> reachable db'"
  by (rule create_transfers_total [OF demo_reachable(2)])

text \<open>The same for \<open>create_accounts\<close>: the writer's call always returns one result per
  account, and exactly the accounts reported as created are added, with empty balances.\<close>

theorem create_accounts_total:
  assumes "reachable db"
  shows "\<exists>rs db'. create_accounts True now specs db = Inr (rs, db') \<and> length rs = length specs \<and>
    reachable db' \<and> dom (db_accounts db') = dom (db_accounts db) \<union> reported a_id CA_Created specs rs \<and>
    db_accounts db \<subseteq>\<^sub>m db_accounts db' \<and> db_transfers db' = db_transfers db"
proof (rule create_accounts_ok [OF reachable_inv [OF assms], of now specs])
  fix rs b db'
  assume run: "run_account_chains db now specs = Inr (rs, b)"
    and call: "create_accounts True now specs db = Inr (rs, db')"
    and len: "length rs = length specs" and acc: "db_accounts db' = db_accounts db ++ ab_staged b"
  have "dom (ab_staged b) = reported a_id CA_Created specs rs"
    using alog.batch_stored [OF run [unfolded run_account_chains_def]]
    by (simp add: account_links_def acc_batch_start_def)
  then have "dom (db_accounts db') = dom (db_accounts db) \<union> reported a_id CA_Created specs rs"
    using acc by auto
  then show ?thesis
    using call len create_accounts_inv(3,5) [OF reachable_inv [OF assms] call] assms
    by (blast intro: ledger_run.accounts)
qed

theorem create_accounts_total_witness:
  "\<exists>rs db'. create_accounts True 100 demo_accounts empty_db = Inr (rs, db') \<and>
     length rs = length demo_accounts \<and> reachable db' \<and>
     dom (db_accounts db') = dom (db_accounts empty_db) \<union> reported a_id CA_Created demo_accounts rs \<and>
     db_accounts empty_db \<subseteq>\<^sub>m db_accounts db' \<and> db_transfers db' = db_transfers empty_db"
  by (rule create_accounts_total [OF ledger_run.start])

lemma stores_reported:
  assumes "db_inv db" and "create_transfers w now ts db = Inr (rs, db')"
  shows "dom (db_transfers db') = dom (db_transfers db) \<union> reported t_id CT_Created ts rs
    \<and> db_transfers db \<subseteq>\<^sub>m db_transfers db'"
proof (rule create_transfers_elim [OF assms])
  fix st b
  assume run: "run_transfer_chains db now ts st = Inr (rs, b)"
    and v: "db_view db' = view_of db (b_state b) (b_staged b)"
  have "dom (b_staged b) = reported t_id CT_Created ts rs"
    using tlog.batch_stored [OF run [unfolded run_transfer_chains_def]]
    by (simp add: transfer_links_def batch_start_def)
  moreover have "db_transfers db' = db_transfers db ++ b_staged b"
    using v by (simp add: db_view_def view_of_def)
  moreover have "db_transfers db \<subseteq>\<^sub>m db_transfers db'"
    using view_steps_mono [OF create_transfers_inv(3) [OF assms]] by (simp add: db_view_def)
  ultimately show ?thesis by auto
qed

text \<open>C4. What is reported is what is stored: after \<open>create_transfers\<close> the log holds the old
  transfers, unchanged, and exactly the ids that the results report as created.\<close>

theorem create_transfers_stores_reported:
  assumes "reachable db" and "create_transfers w now ts db = Inr (rs, db')"
  shows "dom (db_transfers db') = dom (db_transfers db) \<union> reported t_id CT_Created ts rs
    \<and> db_transfers db \<subseteq>\<^sub>m db_transfers db'"
  by (rule stores_reported [OF reachable_inv [OF assms(1)] assms(2)])

theorem create_transfers_stores_reported_witness:
  "dom (db_transfers demo_posted) = dom (db_transfers demo_reserved) \<union> {11} \<and>
     db_transfers demo_reserved \<subseteq>\<^sub>m db_transfers demo_posted"
  using create_transfers_stores_reported [OF demo_reachable(2) demo_calls(2)]
  by (simp add: demo_chain_def demo_post_def transfer_new_def)

text \<open>C6. Balances follow the log: each balance of a stored account is the exact sum of the amounts
  of the stored transfers on that side, outstanding reservations for the pending balances, regular
  and post transfers for the posted ones.\<close>

theorem balances_follow_log:
  assumes "reachable db" and "db_accounts db i = Some a"
  shows "a_id a = i
    \<and> unat (a_debits_pending a) = pending_sum t_debit_account_id (db_transfers db) (db_pending_state db) i
    \<and> unat (a_credits_pending a) = pending_sum t_credit_account_id (db_transfers db) (db_pending_state db) i
    \<and> unat (a_debits_posted a) = posted_sum t_debit_account_id (db_transfers db) i
    \<and> unat (a_credits_posted a) = posted_sum t_credit_account_id (db_transfers db) i"
  using reachable_inv [OF assms(1)] view_invD(2) [of "db_view db" i a] assms(2)
  by (simp add: db_inv_def db_view_def account_conf_def)

theorem balances_follow_log_witness:
  "\<exists>a. db_accounts demo_reserved 1 = Some a \<and> a_debits_pending a = 50 \<and>
     unat (a_debits_pending a)
       = pending_sum t_debit_account_id (db_transfers demo_reserved) (db_pending_state demo_reserved) 1"
proof -
  have "map_option a_debits_pending (db_accounts demo_reserved 1) = Some 50" by code_simp
  then obtain a where a: "db_accounts demo_reserved 1 = Some a" "a_debits_pending a = 50" by auto
  then show ?thesis using balances_follow_log [OF demo_reachable(2) a(1)] by blast
qed

text \<open>C7. Limits: no reachable account with the flag \<open>DEBITS_MUST_NOT_EXCEED_CREDITS\<close> has
  debits (posted and pending) above its posted credits, nor the converse for the other flag, and the
  pending and posted balances of a side never overflow together. The comparison is on exact
  numbers, so the wrapping addition in the constraint check is harmless.\<close>

theorem account_limits_hold:
  assumes "reachable db" and "db_accounts db i = Some a"
  shows "debit_within a \<and> credit_within a \<and> debit_fits a \<and> credit_fits a"
  using reachable_inv [OF assms(1)] view_invD(2) [of "db_view db" i a] assms(2)
  by (simp add: db_inv_def db_view_def account_conf_def)

theorem account_limits_hold_witness:
  "\<exists>a. db_accounts demo_posted 2 = Some a \<and>
     flags_contain (a_flags a) AF_DEBITS_MUST_NOT_EXCEED_CREDITS \<and> debit_within a"
proof -
  have "map_option (\<lambda>a. flags_contain (a_flags a) AF_DEBITS_MUST_NOT_EXCEED_CREDITS)
    (db_accounts demo_posted 2) = Some True" by code_simp
  then obtain a where a: "db_accounts demo_posted 2 = Some a"
    "flags_contain (a_flags a) AF_DEBITS_MUST_NOT_EXCEED_CREDITS" by auto
  then show ?thesis using account_limits_hold [OF demo_reachable(3) a(1)] by blast
qed

text \<open>C5. Linked chains are all-or-nothing: among the results of a chain of two or more transfers,
  or of an open one, either every result is a success or none is.\<close>

theorem linked_chain_atomic:
  assumes "reachable db" and "create_transfers w now ts db = Inr (rs, db')"
    and "ch \<in> set (chains (transfer_links ts))" and "c_start ch < c_end ch \<or> c_open ch"
  shows "(\<forall>k. c_start ch \<le> k \<and> k \<le> c_end ch \<longrightarrow> transfer_ok (rs ! k)) \<or>
    (\<forall>k. c_start ch \<le> k \<and> k \<le> c_end ch \<longrightarrow> \<not> transfer_ok (rs ! k))"
  by (rule create_transfers_elim [OF reachable_inv [OF assms(1)] assms(2)])
    (rule tb.batch_atomic [OF _ _ assms(3,4)], auto simp: run_transfer_chains_def transfer_links_def)

theorem linked_chain_atomic_witness:
  "\<not> transfer_ok ([CT_Created, CT_LinkedEventFailed, CT_ExceedsCredits] ! 1) \<and>
   \<not> transfer_ok ([CT_Created, CT_LinkedEventFailed, CT_ExceedsCredits] ! 2)"
proof -
  let ?ch = "\<lparr> c_start = 1, c_end = 2, c_open = False \<rparr>"
  have "?ch \<in> set (chains (transfer_links (demo_post # demo_chain)))" by code_simp
  then show ?thesis
    using linked_chain_atomic [OF demo_reachable(2) demo_calls(2), of ?ch]
    by (auto simp: transfer_ok_def dest: spec [of _ 1])
qed

text \<open>C8. Two-phase commit: a reservation is resolved at most once. Two stored post or void
  transfers for the same pending transfer are the same transfer, and it was posted or voided for at
  most the reserved amount between the reserved accounts.\<close>

theorem pending_resolved_once:
  assumes "reachable db" and "db_transfers db i = Some t" and "is_resolution t"
    and "db_transfers db j = Some u" and "is_resolution u" and "t_pending_id t = t_pending_id u"
  shows "i = j \<and> t = u \<and> (\<exists>p. db_transfers db (t_pending_id t) = Some p \<and>
    classify p = PendingReserve \<and> t_amount t \<le> t_amount p \<and>
    t_debit_account_id t = t_debit_account_id p \<and> t_credit_account_id t = t_credit_account_id p \<and>
    db_pending_state db (t_pending_id t) = Some (if classify t = Post then Posted else Voided))"
proof -
  have inv: "view_inv (db_view db)" using reachable_inv [OF assms(1)] by (simp add: db_inv_def)
  have "i = j"
    using view_invD(5) [OF inv, of i t j u] assms(2-6) by (simp add: db_view_def)
  then show ?thesis
    using view_invD(3) [OF inv, of i t] assms(2-4)
    by (auto simp: db_view_def transfer_conf_def resolution_conf_def)
qed

theorem pending_resolved_once_witness:
  "\<exists>t. db_transfers demo_posted 11 = Some t \<and> (\<exists>p. db_transfers demo_posted 10 = Some p \<and>
     t_amount t \<le> t_amount p \<and> db_pending_state demo_posted 10 = Some Posted)"
proof -
  have "map_option (\<lambda>t. is_resolution t \<and> t_pending_id t = 10 \<and> classify t = Post)
    (db_transfers demo_posted 11) = Some True" by code_simp
  then obtain t where t: "db_transfers demo_posted 11 = Some t" "is_resolution t"
    "t_pending_id t = 10" "classify t = Post" by auto
  then show ?thesis
    using pending_resolved_once [OF demo_reachable(3) t(1,2) t(1,2) refl] by auto
qed

text \<open>C9. The expiry index is exact: it lists, in key order and without duplicates, exactly the
  outstanding reservations with a timeout, under their expiry time.\<close>

theorem expiry_index_exact:
  assumes "reachable db"
  shows "sorted (db_expiry db) \<and> distinct (db_expiry db) \<and> set (db_expiry db)
    = {(e, i). outstanding_timed (db_transfers db) (db_pending_state db) e i}"
  using reachable_inv [OF assms] by (auto simp: db_inv_def expiry_exact_def)

theorem expiry_index_exact_witness:
  "outstanding_timed (db_transfers demo_reserved) (db_pending_state demo_reserved) 5000000200 10"
proof -
  have "db_expiry demo_reserved = [(5000000200, 10)]" by code_simp
  then show ?thesis using expiry_index_exact [OF demo_reachable(2)] by auto
qed

lemma scan_expired_iff:
  assumes "now \<noteq> - 1"
  shows "(e, i) \<in> set (scan_expired db now) \<longleftrightarrow> (e, i) \<in> set (db_expiry db) \<and> e \<le> now"
proof -
  have "unat now < 2 ^ 64 - 1"
    using assms word_order.not_eq_extremum [of now] unat_minus_one_eq_max [where 'a = 64]
    by (simp add: word_less_nat_alt)
  then have "e < saturating_add now 1 \<longleftrightarrow> e \<le> now"
    by (simp add: word_less_nat_alt word_le_nat_alt unat_saturating_add less_Suc_eq_le)
  then show ?thesis by (auto simp: scan_expired_def)
qed

text \<open>Every call expires what is due: after \<open>create_transfers\<close> at clock \<open>now\<close> no
  reservation whose expiry is at or before \<open>now\<close> is still outstanding.\<close>

theorem sweep_leaves_nothing_due:
  assumes "reachable db" and "create_transfers w now ts db = Inr (rs, db')" and "now \<noteq> - 1"
    and "outstanding_timed (db_transfers db') (db_pending_state db') e i"
  shows "now < e"
proof (rule create_transfers_elim [OF reachable_inv [OF assms(1)] assms(2)])
  fix st b
  assume inv: "batch_inv db now b" and v: "db_view db' = view_of db (b_state b) (b_staged b)"
  have parts: "db_transfers db' = db_transfers db ++ b_staged b"
    "db_pending_state db' = db_pending_state db ++ resolved (b_state b)"
    using v by (simp_all add: db_view_def view_of_def)
  obtain t where t: "db_transfers db' i = Some t" "classify t = PendingReserve" "t_timeout t \<noteq> 0"
    "db_pending_state db' i = None" "e = expiry_of (t_timestamp t) (t_timeout t)"
    using assms(4) by (auto simp: outstanding_timed_def)
  show ?thesis
  proof (cases "b_staged b i")
    case None
    then have "(e, i) \<in> set (db_expiry db)"
      using t parts inv by (auto simp: batch_inv_def expiry_exact_def outstanding_timed_def)
    moreover have "resolved (b_state b) i = None" using t(4) parts by simp
    then have "(e, i) \<notin> set (scan_expired db now)"
      using inv by (auto simp: batch_inv_def swept_def)
    ultimately show ?thesis using scan_expired_iff [OF assms(3)] by auto
  next
    case (Some u)
    then have "t \<in> set (b_accepted b)"
      using t(1) parts inv log_of_SomeD [of "b_accepted b" i t]
      by (simp add: batch_inv_def staged_ok_def)
    then show ?thesis
      using inv t(3,5) unfolding batch_inv_def accepted_fresh_def by blast
  qed
qed

definition demo_expired :: ledger_db where
  "demo_expired = after_call (create_transfers True 5000000200 [demo_post] demo_reserved)"

lemma demo_expired_call:
  "create_transfers True 5000000200 [demo_post] demo_reserved
     = Inr ([CT_PendingTransferExpired], demo_expired)"
  unfolding demo_expired_def by (rule call_results) code_simp

theorem sweep_leaves_nothing_due_witness:
  "\<not> outstanding_timed (db_transfers demo_expired) (db_pending_state demo_expired) 5000000200 10
   \<and> db_pending_state demo_expired 10 = Some Expired"
proof -
  have "db_pending_state demo_expired 10 = Some Expired" by code_simp
  then show ?thesis
    using sweep_leaves_nothing_due [OF demo_reachable(2) demo_expired_call, of 5000000200 10] by auto
qed

text \<open>A burned id stays burned: an id recorded as failed is not in the log, and no later calls
  ever store a transfer under it.\<close>

theorem burned_id_never_stored:
  assumes "reachable db" and "i \<in> db_failed db" and "ledger_run db db2"
  shows "db_transfers db2 i = None"
proof -
  have "db_inv db2" using ledger_run_inv [OF assms(3) reachable_inv [OF assms(1)]] .
  moreover have "i \<in> db_failed db2"
    using ledger_run_mono [OF assms(3) reachable_inv [OF assms(1)]] assms(2) by blast
  ultimately show ?thesis by (auto simp: db_inv_def)
qed

theorem burned_id_never_stored_witness:
  "13 \<in> db_failed demo_posted \<and>
     db_transfers (after_call (create_transfers True 400 demo_chain demo_posted)) 13 = None"
proof -
  have f: "13 \<in> db_failed demo_posted" by code_simp
  have "ledger_run demo_posted (after_call (create_transfers True 400 demo_chain demo_posted))"
    using ledger_run.start reachable_inv [OF demo_reachable(3)] by (rule run_after_transfers)
  then show ?thesis using f burned_id_never_stored [OF demo_reachable(3) f] by blast
qed

text \<open>C10. History is immutable: whatever calls follow, a stored transfer keeps every field and a
  resolved reservation keeps its resolution.\<close>

theorem history_immutable:
  assumes "reachable db" and "ledger_run db db2"
  shows "db_transfers db \<subseteq>\<^sub>m db_transfers db2 \<and> db_pending_state db \<subseteq>\<^sub>m db_pending_state db2"
  using ledger_run_mono [OF assms(2) reachable_inv [OF assms(1)]] by blast

theorem history_immutable_witness:
  "db_transfers demo_reserved \<subseteq>\<^sub>m db_transfers demo_posted \<and>
     db_pending_state demo_reserved \<subseteq>\<^sub>m db_pending_state demo_posted"
  by (rule history_immutable [OF demo_reachable(2) ledger_run.transfers [OF ledger_run.start demo_calls(2)]])

text \<open>Timestamps: the transfers a call adds carry timestamps after the watermark of the ledger
  before the call and at most the one after it, and no stored record is younger than the watermark.
  (\<open>ts_after\<close> is the strict order except at the saturated clock value.)\<close>

theorem timestamps_advance:
  assumes "reachable db" and "create_transfers w now ts db = Inr (rs, db')"
    and "db_transfers db' i = Some t" and "db_transfers db i = None"
  shows "ts_after (get_watermark db) (t_timestamp t) \<and> t_timestamp t \<le> get_watermark db'"
proof (rule create_transfers_elim [OF reachable_inv [OF assms(1)] assms(2)])
  fix st b
  assume inv: "batch_inv db now b" and v: "db_view db' = view_of db (b_state b) (b_staged b)"
    and i: "db_inv db'"
  have "b_staged b i = Some t"
    using v assms(3,4) by (auto simp: db_view_def view_of_def map_add_def split: option.splits)
  then have "t \<in> set (b_accepted b)"
    using inv log_of_SomeD [of "b_accepted b" i t] by (simp add: batch_inv_def staged_ok_def)
  then show ?thesis
    using inv i assms(3) by (auto simp: batch_inv_def accepted_fresh_def db_inv_def stamps_ok_def)
qed

theorem timestamps_advance_witness:
  "\<exists>t. db_transfers demo_posted 11 = Some t \<and> ts_after (get_watermark demo_reserved) (t_timestamp t)"
proof -
  have "db_transfers demo_posted 11 \<noteq> None \<and> db_transfers demo_reserved 11 = None" by code_simp
  then obtain t where t: "db_transfers demo_posted 11 = Some t" "db_transfers demo_reserved 11 = None"
    by auto
  then show ?thesis using timestamps_advance [OF demo_reachable(2) demo_calls(2) t] by blast
qed

lemma mirrors_complete_run:
  "ledger_run db0 db \<Longrightarrow> db_inv db0 \<Longrightarrow> mirrors_complete db0 \<Longrightarrow> mirrors_complete db"
proof (induction rule: ledger_run.induct)
  case (schema db0 db)
  then show ?case
    by (auto simp: mirrors_complete_def mirror_complete_def ensure_schema_def split: option.splits)
qed (auto dest: create_accounts_inv(2) [rotated] create_transfers_inv(2) [rotated] ledger_run_inv)

lemma mirror_exact:
  assumes "mirror_sound proj recs rows" and "mirror_complete proj recs rows"
  shows "\<exists>m. rows = Some m \<and> (\<forall>i. m (U128 i) = map_option proj (recs i)) \<and> dom m = U128 ` dom recs"
proof -
  obtain m where m: "rows = Some m" using assms(2) by (auto simp: mirror_complete_def split: option.splits)
  have s: "m k = Some v \<Longrightarrow> \<exists>i x. recs i = Some x \<and> k = U128 i \<and> v = proj x" for k v
    using assms(1) m by (simp add: mirror_sound_def)
  have c: "recs i = Some x \<Longrightarrow> m (U128 i) = Some (proj x)" for i x
    using assms(2) m by (simp add: mirror_complete_def)
  have "m (U128 i) = map_option proj (recs i)" for i
    using s [of "U128 i"] c by (cases "recs i"; cases "m (U128 i)") auto
  moreover have "dom m = U128 ` dom recs" using s c by (auto simp: dom_def) blast
  ultimately show ?thesis using m by blast
qed

text \<open>C11. The SQL mirror agrees with the ledger: when the projection tables were created first, then
  after any calls each table holds exactly the projections of the canonical records, keyed by id.\<close>

theorem sql_mirror_exact:
  assumes "ledger_run (ensure_schema empty_db) db"
  shows "\<exists>m n. db_sql_accounts db = Some m \<and> db_sql_transfers db = Some n \<and>
    (\<forall>i. m (U128 i) = map_option project_account (db_accounts db i)) \<and>
    (\<forall>i. n (U128 i) = map_option project_transfer (db_transfers db i)) \<and>
    dom m = U128 ` dom (db_accounts db) \<and> dom n = U128 ` dom (db_transfers db)"
proof -
  have i: "db_inv (ensure_schema empty_db)" by (rule db_inv_ensure_schema [OF db_inv_empty])
  have "mirrors_complete (ensure_schema empty_db)"
    by (simp add: mirrors_complete_def mirror_complete_def ensure_schema_def empty_db_def)
  then have "mirrors_complete db" using mirrors_complete_run [OF assms i] by blast
  moreover have "mirrors_sound db" using ledger_run_inv [OF assms i] by (simp add: db_inv_def)
  ultimately show ?thesis
    using mirror_exact [of project_account "db_accounts db" "db_sql_accounts db"]
      mirror_exact [of project_transfer "db_transfers db" "db_sql_transfers db"]
    by (auto simp: mirrors_complete_def mirrors_sound_def)
qed

theorem sql_mirror_exact_witness:
  "\<exists>m. db_sql_accounts demo_posted = Some m \<and>
     m (U128 2) = map_option project_account (db_accounts demo_posted 2) \<and>
     map_option a_credits_posted (db_accounts demo_posted 2) = Some 30"
proof -
  have "map_option a_credits_posted (db_accounts demo_posted 2) = Some 30" by code_simp
  then show ?thesis using sql_mirror_exact [OF demo_runs(3)] by blast
qed

section \<open>Retries\<close>














end
