(* ===== verification/Sql_Keyspace.thy ===== *)
theory Sql_Keyspace
  imports Bluedb_Prelude
begin

text \<open>
  The tenant-namespaced key encoding of \<open>bluedb-sql/src/keyspace.rs\<close>. Every record of the
  database lives in one ordered byte-keyed store; this theory models every key builder of
  \<open>Keyspace\<close> and \<open>prefix_upper_bound\<close>, and shows that tenants and namespaces never
  overlap, that index entries sort by (value, primary key), that an equality scan on an index
  selects exactly its value, and that a prefix scan covers exactly the keys with that prefix.

  Names (\<open>&str\<close>) are their UTF-8 bytes. GlueSQL's \<open>Key::to_cmp_be_bytes\<close> is not part
  of the repository: it is the parameter \<open>cmp\<close>, a function to an error or a byte string.
\<close>

section \<open>Tags\<close>

definition TAG_SCHEMA :: u8 where "TAG_SCHEMA = 0x01"
definition TAG_DATA :: u8 where "TAG_DATA = 0x02"
definition TAG_INDEX :: u8 where "TAG_INDEX = 0x03"
definition TAG_META :: u8 where "TAG_META = 0x04"
definition TAG_COLCAT :: u8 where "TAG_COLCAT = 0x05"
definition TAG_TABLEID :: u8 where "TAG_TABLEID = 0x06"
definition TAG_TABLEID_SEQ :: u8 where "TAG_TABLEID_SEQ = 0x07"
definition TAG_PKCAT :: u8 where "TAG_PKCAT = 0x08"
definition TAG_JSONCAT :: u8 where "TAG_JSONCAT = 0x09"
definition TAG_UNIQUEIDX :: u8 where "TAG_UNIQUEIDX = 0x0A"
definition TAG_VIEWS :: u8 where "TAG_VIEWS = 0x0B"
definition TAG_EXTERNAL_BASE :: u8 where "TAG_EXTERNAL_BASE = 0x10"
definition TAG_CDC :: u8 where "TAG_CDC = TAG_EXTERNAL_BASE + 6"

definition DEFAULT_TENANT :: bytes where "DEFAULT_TENANT = [0x5F]"

lemmas sql_tag_defs = TAG_SCHEMA_def TAG_DATA_def TAG_INDEX_def TAG_META_def TAG_COLCAT_def
  TAG_TABLEID_def TAG_TABLEID_SEQ_def TAG_PKCAT_def TAG_JSONCAT_def TAG_UNIQUEIDX_def
  TAG_VIEWS_def TAG_EXTERNAL_BASE_def TAG_CDC_def

section \<open>Key builders\<close>

record keyspace =
  tenant_prefix :: bytes

definition keyspace_new :: "bytes \<Rightarrow> keyspace" where
  "keyspace_new name = \<lparr> tenant_prefix = u32_be (word_of_nat (length name)) @ name \<rparr>"

definition tagged :: "keyspace \<Rightarrow> u8 \<Rightarrow> bytes" where
  "tagged ks tag = tenant_prefix ks @ [tag]"

definition push_len_prefixed :: "bytes \<Rightarrow> bytes \<Rightarrow> bytes" where
  "push_len_prefixed key bs = key @ u32_be (word_of_nat (length bs)) @ bs"

primrec escape_bytes :: "bytes \<Rightarrow> bytes" where
  "escape_bytes [] = []"
| "escape_bytes (b # bs) = (if b = 0x00 then [0x00, 0xFF] else [b]) @ escape_bytes bs"

definition push_order_preserving :: "bytes \<Rightarrow> bytes \<Rightarrow> bytes" where
  "push_order_preserving key bs = key @ escape_bytes bs @ [0x00, 0x00]"

definition schema_key :: "keyspace \<Rightarrow> bytes \<Rightarrow> bytes" where
  "schema_key ks name = tagged ks TAG_SCHEMA @ name"

definition schema_prefix :: "keyspace \<Rightarrow> bytes" where
  "schema_prefix ks = tagged ks TAG_SCHEMA"

definition meta_key :: "keyspace \<Rightarrow> bytes \<Rightarrow> bytes" where
  "meta_key ks name = tagged ks TAG_META @ name"

definition meta_prefix :: "keyspace \<Rightarrow> bytes" where
  "meta_prefix ks = tagged ks TAG_META"

definition colcat_key :: "keyspace \<Rightarrow> bytes \<Rightarrow> bytes" where
  "colcat_key ks name = tagged ks TAG_COLCAT @ name"

definition pkcat_key :: "keyspace \<Rightarrow> bytes \<Rightarrow> bytes" where
  "pkcat_key ks name = tagged ks TAG_PKCAT @ name"

definition jsoncat_key :: "keyspace \<Rightarrow> bytes \<Rightarrow> bytes" where
  "jsoncat_key ks name = tagged ks TAG_JSONCAT @ name"

definition uniqueidx_key :: "keyspace \<Rightarrow> bytes \<Rightarrow> bytes" where
  "uniqueidx_key ks name = tagged ks TAG_UNIQUEIDX @ name"

definition views_key :: "keyspace \<Rightarrow> bytes" where
  "views_key ks = tagged ks TAG_VIEWS"

definition tableid_key :: "keyspace \<Rightarrow> bytes \<Rightarrow> bytes" where
  "tableid_key ks name = tagged ks TAG_TABLEID @ name"

definition tableid_seq_key :: "keyspace \<Rightarrow> bytes" where
  "tableid_seq_key ks = tagged ks TAG_TABLEID_SEQ"

definition data_prefix :: "keyspace \<Rightarrow> u64 \<Rightarrow> bytes" where
  "data_prefix ks table_id = tagged ks TAG_DATA @ u64_be table_id"

definition row_key :: "('k \<Rightarrow> 'e + bytes) \<Rightarrow> keyspace \<Rightarrow> u64 \<Rightarrow> 'k \<Rightarrow> 'e + bytes" where
  "row_key cmp ks table_id key =
     (case cmp key of Inl e \<Rightarrow> Inl e | Inr pk \<Rightarrow> Inr (data_prefix ks table_id @ pk))"

definition index_prefix :: "keyspace \<Rightarrow> u64 \<Rightarrow> bytes \<Rightarrow> bytes" where
  "index_prefix ks table_id index =
     push_len_prefixed (tagged ks TAG_INDEX @ u64_be table_id) index"

definition index_entry_key ::
  "('k \<Rightarrow> 'e + bytes) \<Rightarrow> keyspace \<Rightarrow> u64 \<Rightarrow> bytes \<Rightarrow> 'k \<Rightarrow> 'k \<Rightarrow> 'e + bytes" where
  "index_entry_key cmp ks table_id index value pk =
     (case cmp value of Inl e \<Rightarrow> Inl e | Inr value_bytes \<Rightarrow>
      (case cmp pk of Inl e \<Rightarrow> Inl e | Inr pk_bytes \<Rightarrow>
        Inr (push_order_preserving (index_prefix ks table_id index) value_bytes @ pk_bytes)))"

definition index_value_prefix ::
  "('k \<Rightarrow> 'e + bytes) \<Rightarrow> keyspace \<Rightarrow> u64 \<Rightarrow> bytes \<Rightarrow> 'k \<Rightarrow> 'e + bytes" where
  "index_value_prefix cmp ks table_id index value =
     (case cmp value of Inl e \<Rightarrow> Inl e
      | Inr value_bytes \<Rightarrow> Inr (push_order_preserving (index_prefix ks table_id index) value_bytes))"

text \<open>The assertion on the tag is a panic: \<open>None\<close>.\<close>

definition external_key :: "keyspace \<Rightarrow> u8 \<Rightarrow> bytes \<Rightarrow> bytes option" where
  "external_key ks tag sfx =
     (if TAG_EXTERNAL_BASE \<le> tag then Some (tagged ks tag @ sfx) else None)"

definition external_prefix :: "keyspace \<Rightarrow> u8 \<Rightarrow> bytes option" where
  "external_prefix ks tag = (if TAG_EXTERNAL_BASE \<le> tag then Some (tagged ks tag) else None)"

text \<open>The loop of \<open>prefix_upper_bound\<close> works on the last byte; the recursion takes the
  bytes in reverse.\<close>

fun upper_bound_rev :: "bytes \<Rightarrow> bytes option" where
  "upper_bound_rev [] = None"
| "upper_bound_rev (l # rest) =
     (if l < 0xFF then Some (rev ((l + 1) # rest)) else upper_bound_rev rest)"

definition prefix_upper_bound :: "bytes \<Rightarrow> bytes option" where
  "prefix_upper_bound p = upper_bound_rev (rev p)"

text \<open>A key is in the half-open scan range \<open>[start, end)\<close>; no end means to the end of the
  keyspace.\<close>

definition in_range :: "bytes \<Rightarrow> bytes option \<Rightarrow> bytes \<Rightarrow> bool" where
  "in_range start stop k = (start \<le> k \<and> (case stop of None \<Rightarrow> True | Some e \<Rightarrow> k < e))"

section \<open>Tenants and namespaces\<close>

text \<open>Tenant names are shorter than \<open>2 ^ 32\<close> bytes, so that the length prefix is exact.\<close>

definition valid_tenant :: "bytes \<Rightarrow> bool" where
  "valid_tenant name = (length name < 2 ^ 32)"

lemma tenant_prefix_new [simp]:
  "tenant_prefix (keyspace_new t) = u32_be (word_of_nat (length t)) @ t"
  by (simp add: keyspace_new_def)

lemma word_of_nat_u32_inj:
  assumes "m < 2 ^ 32" and "n < 2 ^ 32" and "(word_of_nat m :: u32) = word_of_nat n"
  shows "m = n"
  using assms by (simp add: word_of_nat_eq_iff take_bit_nat_eq_self)

lemma len_prefixed_prefix_free:
  assumes "length a < 2 ^ 32" and "length b < 2 ^ 32"
    and "(u32_be (word_of_nat (length a)) @ a) @ x = (u32_be (word_of_nat (length b)) @ b) @ y"
  shows "a = b \<and> x = y"
proof -
  from assms(3) have "u32_be (word_of_nat (length a)) = u32_be (word_of_nat (length b))"
    and ab: "a @ x = b @ y"
    by (simp_all add: append_eq_append_conv)
  then have "length a = length b"
    using word_of_nat_u32_inj [OF assms(1,2)] by simp
  with ab show ?thesis by simp
qed

lemma tagged_inj:
  assumes "tagged (keyspace_new s) g @ x = tagged (keyspace_new t) h @ y"
    and "valid_tenant s" and "valid_tenant t"
  shows "s = t \<and> g = h \<and> x = y"
  using assms len_prefixed_prefix_free [of s t "g # x" "h # y"]
  by (simp add: tagged_def valid_tenant_def)

lemma tagged_eq_iff [simp, byte_simps]:
  "tagged ks g @ x = tagged ks h @ y \<longleftrightarrow> g = h \<and> x = y"
  "tagged ks g = tagged ks h \<longleftrightarrow> g = h"
  by (auto simp: tagged_def)

lemma tagged_less_iff [simp, byte_simps]:
  "tagged ks g @ x < tagged ks h @ y \<longleftrightarrow> g < h \<or> g = h \<and> x < y"
  by (simp add: tagged_def Cons_less_Cons_iff)

lemma external_tag_above_sql:
  assumes "external_key ks g x = Some k"
  shows "k = tagged ks g @ x \<and> (\<forall>h\<in>{TAG_SCHEMA, TAG_DATA, TAG_INDEX, TAG_META, TAG_COLCAT,
    TAG_TABLEID, TAG_TABLEID_SEQ, TAG_PKCAT, TAG_JSONCAT, TAG_UNIQUEIDX, TAG_VIEWS}. h < g)"
proof -
  from assms have "TAG_EXTERNAL_BASE \<le> g" "k = tagged ks g @ x"
    by (auto simp: external_key_def split: if_splits)
  then show ?thesis
    by (auto simp: sql_tag_defs word_less_nat_alt word_le_nat_alt)
qed

section \<open>Order of index entries\<close>

lemma escape_less_iff:
  "escape_bytes a @ 0 # 0 # x < escape_bytes b @ 0 # 0 # y \<longleftrightarrow> a < b \<or> a = b \<and> x < y"
proof (induction a arbitrary: b)
  case Nil
  show ?case
    by (cases b) (auto simp: Cons_less_Cons_iff Nil_less_iff word_gt_0)
next
  case (Cons c a)
  show ?case
  proof (cases b)
    case Nil
    then show ?thesis by (auto simp: Cons_less_Cons_iff)
  next
    case (Cons d b')
    then show ?thesis
      using Cons.IH [of b'] by (auto simp: Cons_less_Cons_iff word_gt_0)
  qed
qed

lemma escape_prefix_free:
  "escape_bytes a @ 0 # 0 # x = escape_bytes b @ 0 # 0 # y \<longleftrightarrow> a = b \<and> x = y"
proof
  assume eq: "escape_bytes a @ 0 # 0 # x = escape_bytes b @ 0 # 0 # y"
  have "a = b"
  proof (rule ccontr)
    assume "a \<noteq> b"
    then consider "a < b" | "b < a" by (metis linorder_neqE)
    then show False
      using eq escape_less_iff [of a x b y] escape_less_iff [of b y a x] by cases simp_all
  qed
  with eq show "a = b \<and> x = y" by simp
qed simp

lemma push_order_preserving_less_iff [byte_simps]:
  "push_order_preserving p a @ x < push_order_preserving p b @ y \<longleftrightarrow> a < b \<or> a = b \<and> x < y"
  using escape_less_iff [of a x b y] by (simp add: push_order_preserving_def)

lemma push_order_preserving_prefix_iff [byte_simps]:
  "prefix (push_order_preserving p a) (push_order_preserving p b @ y) \<longleftrightarrow> a = b"
proof -
  have "prefix (push_order_preserving p a) (push_order_preserving p b @ y)
    \<longleftrightarrow> (\<exists>x. escape_bytes b @ 0 # 0 # y = escape_bytes a @ 0 # 0 # x)"
    by (auto simp: push_order_preserving_def prefix_def)
  then show ?thesis by (auto simp: escape_prefix_free)
qed

section \<open>Prefix scans\<close>

lemma prefix_step:
  assumes "b < (0xFF :: u8)"
  shows "prefix (q @ [b]) k \<longleftrightarrow> q @ [b] \<le> k \<and> k < q @ [b + 1]"
proof (induction q arbitrary: k)
  case Nil
  have succ: "c < b + 1 \<longleftrightarrow> c \<le> b" for c
    using assms by (simp add: word_less_nat_alt word_le_nat_alt unat_word_ariths) linarith
  show ?case
    by (cases k) (auto simp: order_le_less Cons_less_Cons_iff Nil_less_iff succ)
next
  case (Cons c q)
  show ?case
  proof (cases k)
    case Nil
    then show ?thesis by (auto simp: order_le_less)
  next
    case (Cons d k')
    then show ?thesis using Cons.IH [of k'] by (auto simp: order_le_less Cons_less_Cons_iff)
  qed
qed

lemma prefix_le: "prefix p k \<Longrightarrow> p \<le> (k :: bytes)"
  by (auto simp: prefix_def order_le_less append_less_append_self)

lemma byte_max: "b \<le> (0xFF :: u8)"
  using unsigned_less [of b, where 'a = nat] by (simp add: word_le_nat_alt)

lemma not_less_byte_max [simp]: "\<not> (0xFF :: u8) < b"
  using byte_max [of b] by simp

lemma prefix_snoc_max:
  assumes "prefix p k" and "p @ [0xFF] \<le> (k :: bytes)"
  shows "prefix (p @ [0xFF]) k"
proof -
  obtain r where r: "k = p @ r" using assms(1) by (auto simp: prefix_def)
  with assms(2) have "[0xFF :: u8] \<le> r" by (auto simp: order_le_less)
  then have "\<exists>r'. r = 0xFF # r'"
    by (cases r) (auto simp: order_le_less Cons_less_Cons_iff not_less_byte_max)
  with r show ?thesis by (auto simp: prefix_def)
qed

lemma in_range_prefix_upper_bound [byte_simps]:
  "in_range p (prefix_upper_bound p) k \<longleftrightarrow> prefix p k"
proof (induction p rule: rev_induct)
  case Nil
  show ?case by (cases k) (auto simp: in_range_def prefix_upper_bound_def order_le_less Nil_less_iff)
next
  case (snoc b p)
  show ?case
  proof (cases "b < 0xFF")
    case True
    then show ?thesis
      using prefix_step [OF True, of p k] by (simp add: in_range_def prefix_upper_bound_def)
  next
    case False
    then have b: "b = 0xFF"
      using byte_max [of b] by simp
    have ub: "prefix_upper_bound (p @ [b]) = prefix_upper_bound p"
      using False by (simp add: prefix_upper_bound_def)
    show ?thesis
    proof
      assume "in_range (p @ [b]) (prefix_upper_bound (p @ [b])) k"
      then have le: "p @ [b] \<le> k" and "in_range p (prefix_upper_bound p) k"
        using prefix_le [of p "p @ [b]"] unfolding ub in_range_def by (auto intro: order_trans)
      then show "prefix (p @ [b]) k"
        using snoc.IH prefix_snoc_max b by blast
    next
      assume pre: "prefix (p @ [b]) k"
      then have "in_range p (prefix_upper_bound p) k"
        using snoc.IH by (auto simp: prefix_def)
      then show "in_range (p @ [b]) (prefix_upper_bound (p @ [b])) k"
        using prefix_le [OF pre] unfolding ub in_range_def by blast
    qed
  qed
qed

end
