(* ===== verification/Ledger_Keyspace.thy ===== *)
theory Ledger_Keyspace
  imports Sql_Keyspace
begin

text \<open>
  The ledger's keys, \<open>bluedb-ledger/src/keyspace.rs\<close>, inside the external namespaces of
  the tenant keyspace, and the bounds of the expiry scan. Each builder is the tagged prefix of
  \<open>external_key\<close> followed by its suffix; \<open>ledger_keys_external\<close> shows that the tag
  assertion of \<open>external_key\<close> never fires for them.
\<close>

definition TAG_ACCOUNT :: u8 where "TAG_ACCOUNT = TAG_EXTERNAL_BASE"
definition TAG_TRANSFER :: u8 where "TAG_TRANSFER = TAG_EXTERNAL_BASE + 1"
definition TAG_PENDING_STATE :: u8 where "TAG_PENDING_STATE = TAG_EXTERNAL_BASE + 2"
definition TAG_EXPIRY :: u8 where "TAG_EXPIRY = TAG_EXTERNAL_BASE + 3"
definition TAG_FAILED :: u8 where "TAG_FAILED = TAG_EXTERNAL_BASE + 4"
definition TAG_TS_WATERMARK :: u8 where "TAG_TS_WATERMARK = TAG_EXTERNAL_BASE + 5"

lemmas ledger_tag_defs = TAG_ACCOUNT_def TAG_TRANSFER_def TAG_PENDING_STATE_def TAG_EXPIRY_def
  TAG_FAILED_def TAG_TS_WATERMARK_def TAG_EXTERNAL_BASE_def

definition account_key :: "keyspace \<Rightarrow> u128 \<Rightarrow> bytes" where
  "account_key ks aid = tagged ks TAG_ACCOUNT @ u128_be aid"

definition transfer_key :: "keyspace \<Rightarrow> u128 \<Rightarrow> bytes" where
  "transfer_key ks tid = tagged ks TAG_TRANSFER @ u128_be tid"

definition pending_state_key :: "keyspace \<Rightarrow> u128 \<Rightarrow> bytes" where
  "pending_state_key ks pending_id = tagged ks TAG_PENDING_STATE @ u128_be pending_id"

text \<open>The suffix is the ASCII string \<open>ts\<close>.\<close>

definition watermark_key :: "keyspace \<Rightarrow> bytes" where
  "watermark_key ks = tagged ks TAG_TS_WATERMARK @ [0x74, 0x73]"

definition expiry_key :: "keyspace \<Rightarrow> u64 \<Rightarrow> u128 \<Rightarrow> bytes" where
  "expiry_key ks expires_at pending_id =
     tagged ks TAG_EXPIRY @ u64_be expires_at @ u128_be pending_id"

definition expiry_prefix :: "keyspace \<Rightarrow> bytes" where
  "expiry_prefix ks = tagged ks TAG_EXPIRY"

definition failed_key :: "keyspace \<Rightarrow> u128 \<Rightarrow> bytes" where
  "failed_key ks tid = tagged ks TAG_FAILED @ u128_be tid"

definition expiry_scan_end :: "keyspace \<Rightarrow> u64 \<Rightarrow> bytes" where
  "expiry_scan_end ks now = tagged ks TAG_EXPIRY @ u64_be (saturating_add now 1)"

definition account_prefix :: "keyspace \<Rightarrow> bytes" where
  "account_prefix ks = tagged ks TAG_ACCOUNT"

definition transfer_prefix :: "keyspace \<Rightarrow> bytes" where
  "transfer_prefix ks = tagged ks TAG_TRANSFER"

lemmas ledger_key_defs = account_key_def transfer_key_def pending_state_key_def watermark_key_def
  expiry_key_def expiry_prefix_def failed_key_def expiry_scan_end_def account_prefix_def
  transfer_prefix_def

lemma ledger_tags_external:
  "TAG_EXTERNAL_BASE \<le> TAG_ACCOUNT" "TAG_EXTERNAL_BASE \<le> TAG_TRANSFER"
  "TAG_EXTERNAL_BASE \<le> TAG_PENDING_STATE" "TAG_EXTERNAL_BASE \<le> TAG_EXPIRY"
  "TAG_EXTERNAL_BASE \<le> TAG_FAILED" "TAG_EXTERNAL_BASE \<le> TAG_TS_WATERMARK"
  by (simp_all add: ledger_tag_defs word_le_nat_alt)

lemma ledger_keys_external:
  "external_key ks TAG_ACCOUNT (u128_be i) = Some (account_key ks i)"
  "external_key ks TAG_TRANSFER (u128_be i) = Some (transfer_key ks i)"
  "external_key ks TAG_PENDING_STATE (u128_be i) = Some (pending_state_key ks i)"
  "external_key ks TAG_TS_WATERMARK [0x74, 0x73] = Some (watermark_key ks)"
  "external_key ks TAG_EXPIRY (u64_be e @ u128_be i) = Some (expiry_key ks e i)"
  "external_key ks TAG_FAILED (u128_be i) = Some (failed_key ks i)"
  "external_key ks TAG_EXPIRY (u64_be (saturating_add e 1)) = Some (expiry_scan_end ks e)"
  "external_prefix ks TAG_EXPIRY = Some (expiry_prefix ks)"
  "external_prefix ks TAG_ACCOUNT = Some (account_prefix ks)"
  "external_prefix ks TAG_TRANSFER = Some (transfer_prefix ks)"
  by (simp_all add: external_key_def external_prefix_def ledger_key_defs ledger_tags_external)

lemma ledger_tags_distinct:
  "distinct [TAG_ACCOUNT, TAG_TRANSFER, TAG_PENDING_STATE, TAG_EXPIRY, TAG_FAILED,
     TAG_TS_WATERMARK]"
  by (simp add: ledger_tag_defs)

lemma expiry_key_less_iff [byte_simps]:
  "expiry_key ks e i < expiry_key ks f j \<longleftrightarrow> (e, i) < (f, j)"
  by (auto simp: expiry_key_def append_less_append_same_length byte_simps)

lemma expiry_key_inj [simp]: "expiry_key ks e i = expiry_key ks f j \<longleftrightarrow> e = f \<and> i = j"
  by (auto simp: expiry_key_def append_eq_append_conv)

text \<open>The scan range selects exactly the entries that have expired, for every clock value below
  the largest \<open>u64\<close>.\<close>

lemma in_expiry_range_iff:
  assumes "now < - 1"
  shows "in_range (expiry_prefix ks) (Some (expiry_scan_end ks now)) (expiry_key ks e i)
    \<longleftrightarrow> e \<le> now"
proof -
  have n: "unat now < 2 ^ 64 - 1"
    using assms by (simp add: word_less_nat_alt unat_minus_one_eq_max)
  have "e < saturating_add now 1 \<longleftrightarrow> e \<le> now"
    using n by (auto simp: word_less_nat_alt word_le_nat_alt unat_saturating_add)
  moreover have "expiry_prefix ks \<le> expiry_key ks e i"
    unfolding expiry_prefix_def expiry_key_def by (intro prefix_le) simp
  moreover have "expiry_key ks e i < expiry_scan_end ks now \<longleftrightarrow> e < saturating_add now 1"
    using append_less_append_same_length
      [of "u64_be e" "u64_be (saturating_add now 1)" "u128_be i" "[]"]
    by (simp add: expiry_key_def expiry_scan_end_def byte_simps)
  ultimately show ?thesis by (simp add: in_range_def)
qed

end
