(* ===== verification/Evidence_Keyspace.thy ===== *)
theory Evidence_Keyspace
  imports Sql_Keyspace "HOL-Library.Signed_Division"
begin

text \<open>
  The keys of the evidence store, \<open>bluedb-evidence/src/keyspace.rs\<close>: entries, counters,
  idempotency records, Merkle nodes and the three key families of the graph. Strings are their UTF-8
  bytes. A sequence number is an \<open>int\<close> whose key bytes are those of the \<open>i64\<close>, a weight
  is the 64-bit word of the \<open>i64\<close>, read with \<open>sint\<close>.
\<close>

unbundle bit_operations_syntax

type_synonym i64 = "64 word"

definition TAG_EVIDENCE_ENTRY :: u8 where "TAG_EVIDENCE_ENTRY = TAG_EXTERNAL_BASE + 7"
definition TAG_EVIDENCE_SEQ :: u8 where "TAG_EVIDENCE_SEQ = TAG_EXTERNAL_BASE + 8"
definition TAG_EVIDENCE_IDEM :: u8 where "TAG_EVIDENCE_IDEM = TAG_EXTERNAL_BASE + 9"
definition TAG_EVIDENCE_MERKLE :: u8 where "TAG_EVIDENCE_MERKLE = TAG_EXTERNAL_BASE + 10"
definition TAG_EVIDENCE_CHAIN :: u8 where "TAG_EVIDENCE_CHAIN = TAG_EXTERNAL_BASE + 11"
definition TAG_GRAPH_EDGE :: u8 where "TAG_GRAPH_EDGE = TAG_EXTERNAL_BASE + 12"
definition TAG_GRAPH_OUT :: u8 where "TAG_GRAPH_OUT = TAG_EXTERNAL_BASE + 13"
definition TAG_GRAPH_IN :: u8 where "TAG_GRAPH_IN = TAG_EXTERNAL_BASE + 14"
definition TAG_EVIDENCE_MERKLE_NODE :: u8 where "TAG_EVIDENCE_MERKLE_NODE = TAG_EXTERNAL_BASE + 15"

lemmas evidence_tag_defs = TAG_EVIDENCE_ENTRY_def TAG_EVIDENCE_SEQ_def TAG_EVIDENCE_IDEM_def
  TAG_EVIDENCE_MERKLE_def TAG_EVIDENCE_CHAIN_def TAG_GRAPH_EDGE_def TAG_GRAPH_OUT_def
  TAG_GRAPH_IN_def TAG_EVIDENCE_MERKLE_NODE_def TAG_EXTERNAL_BASE_def

section \<open>Weights and segments\<close>

definition weight_obe :: "i64 \<Rightarrow> bytes" where
  "weight_obe w = u64_be (w XOR push_bit 63 1)"

definition weight_from_obe :: "bytes \<Rightarrow> i64" where
  "weight_from_obe b = (word_of_nat (from_be_bytes b) :: u64) XOR push_bit 63 1"

definition push_lp :: "bytes \<Rightarrow> bytes \<Rightarrow> bytes" where
  "push_lp buf s = buf @ u32_be (word_of_nat (length s)) @ s"

definition chain_suffix :: "bytes \<Rightarrow> bytes" where
  "chain_suffix chain = u32_be (word_of_nat (length chain)) @ chain"

text \<open>\<open>i64::to_be_bytes\<close>.\<close>

definition i64_be :: "int \<Rightarrow> bytes" where
  "i64_be s = u64_be (word_of_int s)"

section \<open>Key builders\<close>

definition entry_key :: "keyspace \<Rightarrow> bytes \<Rightarrow> int \<Rightarrow> bytes" where
  "entry_key ks chain seq = tagged ks TAG_EVIDENCE_ENTRY @ chain_suffix chain @ i64_be seq"

definition entry_prefix :: "keyspace \<Rightarrow> bytes \<Rightarrow> bytes" where
  "entry_prefix ks chain = tagged ks TAG_EVIDENCE_ENTRY @ chain_suffix chain"

text \<open>The \<open>expect\<close> panics when the prefix is all \<open>0xFF\<close>: \<open>None\<close>.\<close>

definition entry_prefix_end :: "keyspace \<Rightarrow> bytes \<Rightarrow> bytes option" where
  "entry_prefix_end ks chain = prefix_upper_bound (entry_prefix ks chain)"

definition seq_key :: "keyspace \<Rightarrow> bytes \<Rightarrow> bytes" where
  "seq_key ks chain = tagged ks TAG_EVIDENCE_SEQ @ chain_suffix chain"

definition idem_key :: "keyspace \<Rightarrow> bytes \<Rightarrow> bytes \<Rightarrow> bytes" where
  "idem_key ks chain idem = tagged ks TAG_EVIDENCE_IDEM @ chain_suffix chain @ idem"

definition chain_meta_key :: "keyspace \<Rightarrow> bytes \<Rightarrow> bytes" where
  "chain_meta_key ks chain = tagged ks TAG_EVIDENCE_CHAIN @ chain_suffix chain"

definition merkle_key :: "keyspace \<Rightarrow> bytes \<Rightarrow> bytes" where
  "merkle_key ks chain = tagged ks TAG_EVIDENCE_MERKLE @ chain_suffix chain"

definition merkle_node_key :: "keyspace \<Rightarrow> bytes \<Rightarrow> u8 \<Rightarrow> u64 \<Rightarrow> bytes" where
  "merkle_node_key ks chain level index =
     tagged ks TAG_EVIDENCE_MERKLE_NODE @ chain_suffix chain @ [level] @ u64_be index"

definition graph_edge_key :: "keyspace \<Rightarrow> bytes \<Rightarrow> bytes \<Rightarrow> bytes \<Rightarrow> bytes \<Rightarrow> bytes" where
  "graph_edge_key ks graph src dst etype =
     tagged ks TAG_GRAPH_EDGE @ push_lp (push_lp (push_lp (push_lp [] graph) src) dst) etype"

definition graph_out_key :: "keyspace \<Rightarrow> bytes \<Rightarrow> bytes \<Rightarrow> i64 \<Rightarrow> bytes \<Rightarrow> bytes \<Rightarrow> bytes" where
  "graph_out_key ks graph src weight dst etype = tagged ks TAG_GRAPH_OUT @
     push_lp (push_lp (push_lp (push_lp [] graph) src @ weight_obe weight) dst) etype"

definition graph_in_key :: "keyspace \<Rightarrow> bytes \<Rightarrow> bytes \<Rightarrow> i64 \<Rightarrow> bytes \<Rightarrow> bytes \<Rightarrow> bytes" where
  "graph_in_key ks graph dst weight src etype = tagged ks TAG_GRAPH_IN @
     push_lp (push_lp (push_lp (push_lp [] graph) dst @ weight_obe weight) src) etype"

definition graph_out_prefix :: "keyspace \<Rightarrow> bytes \<Rightarrow> bytes \<Rightarrow> bytes" where
  "graph_out_prefix ks graph src = tagged ks TAG_GRAPH_OUT @ push_lp (push_lp [] graph) src"

definition graph_in_prefix :: "keyspace \<Rightarrow> bytes \<Rightarrow> bytes \<Rightarrow> bytes" where
  "graph_in_prefix ks graph dst = tagged ks TAG_GRAPH_IN @ push_lp (push_lp [] graph) dst"

definition graph_prefix :: "keyspace \<Rightarrow> u8 \<Rightarrow> bytes \<Rightarrow> bytes option" where
  "graph_prefix ks tag graph = external_key ks tag (push_lp [] graph)"

lemmas evidence_key_defs = entry_key_def entry_prefix_def seq_key_def idem_key_def chain_meta_key_def
  merkle_key_def merkle_node_key_def graph_edge_key_def graph_out_key_def graph_in_key_def
  graph_out_prefix_def graph_in_prefix_def

lemma evidence_keys_external:
  "external_key ks TAG_EVIDENCE_ENTRY (chain_suffix c @ i64_be s) = Some (entry_key ks c s)"
  "external_key ks TAG_EVIDENCE_SEQ (chain_suffix c) = Some (seq_key ks c)"
  "external_key ks TAG_EVIDENCE_IDEM (chain_suffix c @ i) = Some (idem_key ks c i)"
  "external_key ks TAG_EVIDENCE_CHAIN (chain_suffix c) = Some (chain_meta_key ks c)"
  "external_key ks TAG_EVIDENCE_MERKLE (chain_suffix c) = Some (merkle_key ks c)"
  "external_key ks TAG_EVIDENCE_MERKLE_NODE (chain_suffix c @ [l] @ u64_be n)
     = Some (merkle_node_key ks c l n)"
  "graph_prefix ks TAG_GRAPH_EDGE g = Some (tagged ks TAG_GRAPH_EDGE @ push_lp [] g)"
  "graph_prefix ks TAG_GRAPH_OUT g = Some (tagged ks TAG_GRAPH_OUT @ push_lp [] g)"
  "graph_prefix ks TAG_GRAPH_IN g = Some (tagged ks TAG_GRAPH_IN @ push_lp [] g)"
  by (simp_all add: external_key_def evidence_key_defs graph_prefix_def evidence_tag_defs
      word_le_nat_alt)

section \<open>Weights sort numerically\<close>

lemma top_and: "\<not> bit v 63 \<Longrightarrow> v AND push_bit 63 (1 :: 64 word) = 0"
  by (simp add: push_bit_eq_mult and_exp_eq_0_iff_not_bit flip: power_numeral)

lemma flip_top: "w XOR push_bit 63 1 = w + (push_bit 63 1 :: 64 word)"
proof (cases "bit w 63")
  case False
  then have "w AND push_bit 63 1 = 0" by (rule top_and)
  then show ?thesis by (simp only: disjunctive_add_eq_or disjunctive_xor_eq_or)
next
  case True
  define m where "m = (push_bit 63 1 :: 64 word)"
  have mm: "m + m = 0" by (simp add: m_def push_bit_eq_mult)
  have "\<not> bit (w XOR m) 63" using True by (simp add: m_def bit_xor_iff bit_push_bit_iff)
  then have "(w XOR m) AND m = 0" unfolding m_def by (rule top_and)
  then have "(w XOR m) + m = (w XOR m) XOR m"
    by (simp only: disjunctive_add_eq_or disjunctive_xor_eq_or)
  then have "(w XOR m) + m = w" by (simp add: xor.assoc)
  then have "(w XOR m) + (m + m) = w + m" by (simp only: add.assoc [symmetric])
  then show ?thesis unfolding m_def [symmetric] mm by simp
qed

lemma weight_flip: "uint (w XOR push_bit 63 1 :: 64 word) = sint w + 2 ^ 63"
proof -
  have "sint w = (uint w + 2 ^ 63) mod 2 ^ 64 - 2 ^ 63"
    using int_word_sint [of "uint w", where 'a = 64] by simp
  moreover have "uint (w + push_bit 63 1) = (uint w + 2 ^ 63) mod 2 ^ 64"
    by (simp add: uint_word_ariths push_bit_eq_mult)
  ultimately show ?thesis by (simp only: flip_top)
qed

lemma weight_obe_less_iff [byte_simps]: "weight_obe v < weight_obe w \<longleftrightarrow> sint v < sint w"
  unfolding weight_obe_def u64_be_less_iff word_less_def weight_flip by simp

lemma weight_obe_inj [simp]: "weight_obe v = weight_obe w \<longleftrightarrow> v = w"
proof
  assume "weight_obe v = weight_obe w"
  then have "(v XOR push_bit 63 1) XOR push_bit 63 1 = (w XOR push_bit 63 1) XOR push_bit 63 1"
    by (simp only: weight_obe_def u64_be_inj)
  then show "v = w" by (simp only: xor.assoc xor_self_eq xor.right_neutral)
qed simp

lemma length_weight_obe [simp, byte_simps]: "length (weight_obe w) = 8"
  by (simp add: weight_obe_def)

lemma weight_roundtrip [simp]: "weight_from_obe (weight_obe w) = w"
  by (simp add: weight_from_obe_def weight_obe_def xor.assoc)

section \<open>Segments are self-delimiting\<close>

lemma push_lp_prefix_free:
  assumes "push_lp p a @ x = push_lp p b @ y" and "length a < 2 ^ 32" and "length b < 2 ^ 32"
  shows "a = b \<and> x = y"
  using len_prefixed_prefix_free [OF assms(2,3), of x y] assms(1) by (simp add: push_lp_def)

lemma push_lp_append: "push_lp (p @ q) s = p @ push_lp q s"
  by (simp add: push_lp_def)

lemma chain_suffix_prefix_free:
  assumes "chain_suffix a @ x = chain_suffix b @ y" and "length a < 2 ^ 32" and "length b < 2 ^ 32"
  shows "a = b \<and> x = y"
  using len_prefixed_prefix_free [OF assms(2,3), of x y] assms(1) by (simp add: chain_suffix_def)

text \<open>A segment with its length in front, as the reader of a key sees it.\<close>

definition seg :: "bytes \<Rightarrow> bytes" where
  "seg s = u32_be (word_of_nat (length s)) @ s"

lemma push_lp_seg: "push_lp p s = p @ seg s" and chain_suffix_seg: "chain_suffix s = seg s"
  by (simp_all add: push_lp_def seg_def chain_suffix_def)

lemma seg_prefix_free:
  "seg a @ x = seg b @ y \<Longrightarrow> length a < 2 ^ 32 \<Longrightarrow> length b < 2 ^ 32 \<Longrightarrow> a = b \<and> x = y"
  using len_prefixed_prefix_free [of a b x y] by (simp add: seg_def)

lemma i64_be_inj:
  assumes "i64_be s = i64_be t" and "s \<in> {- (2 ^ 63) ..< 2 ^ 63}" and "t \<in> {- (2 ^ 63) ..< 2 ^ 63}"
  shows "s = t"
proof -
  have "sint (word_of_int s :: 64 word) = sint (word_of_int t :: 64 word)"
    using assms(1) by (simp add: i64_be_def)
  then show ?thesis
    using assms(2,3) unfolding int_word_sint by simp
qed

lemma length_i64_be [simp, byte_simps]: "length (i64_be s) = 8"
  by (simp add: i64_be_def)

text \<open>On the non-negative sequence numbers the key order is the numeric order.\<close>

lemma i64_be_less_iff:
  assumes "0 \<le> s" and "s < 2 ^ 63" and "0 \<le> t" and "t < 2 ^ 63"
  shows "i64_be s < i64_be t \<longleftrightarrow> s < t"
  using assms by (simp add: i64_be_def byte_simps word_less_def uint_word_of_int_eq take_bit_int_eq_self)

end
