(* ===== verification/Evidence_Model.thy ===== *)
theory Evidence_Model
  imports Evidence_Keyspace
begin

text \<open>
  The records of \<open>bluedb-evidence/src/model.rs\<close>, the errors of \<open>error.rs\<close>, the committed
  state of the evidence store with the point reads of \<open>store.rs\<close>, and the signed tree head of
  \<open>sth.rs\<close>. The store has one component per key namespace; the components a range scan
  reads are association lists, so that scans compute. Sizes, levels and node indices are natural
  numbers: they are bounded by the number of entries of a chain.
\<close>

datatype merge = Merge_Set | Merge_Max

datatype edge_op = Upsert merge | Delete

record edge_delta =
  ed_graph :: bytes
  ed_src :: bytes
  ed_dst :: bytes
  ed_weight :: i64
  ed_etype :: bytes
  ed_op :: edge_op

record entry_record =
  en_etype :: bytes
  en_payload :: bytes
  en_at :: bytes
  en_edges :: "edge_delta list"
  en_leaf_hash :: "bytes option"
  en_redacted :: bool

record idem_record =
  id_base_seq :: int
  id_seqs :: "int list"
  id_fingerprint :: bytes

record chain_meta =
  cm_verified :: bool

record frontier =
  fr_size :: nat
  fr_peaks :: "bytes list"

definition frontier_default :: frontier where
  "frontier_default = \<lparr> fr_size = 0, fr_peaks = [] \<rparr>"

datatype evidence_error =
    IdemConflict
  | ChainModeConflict bytes
  | EntryNotFound bytes int
  | NotWriter
  | NotVerified bytes
  | InvalidArgument
  | VerifiedNoDelete bytes
  | Storage
  | Panic

section \<open>Committed state\<close>

type_synonym edge_id = "bytes \<times> bytes \<times> bytes \<times> bytes"
type_synonym adjacency = "bytes \<times> bytes \<times> i64 \<times> bytes \<times> bytes"

record graph_db =
  gr_edge :: "(edge_id \<times> i64) list"
  gr_out :: "adjacency list"
  gr_in :: "adjacency list"

record evidence_db = graph_db +
  ev_meta :: "bytes \<rightharpoonup> chain_meta"
  ev_seq :: "bytes \<rightharpoonup> int"
  ev_entries :: "((bytes \<times> int) \<times> entry_record) list"
  ev_idem :: "bytes \<times> bytes \<rightharpoonup> idem_record"
  ev_frontier :: "bytes \<rightharpoonup> frontier"
  ev_nodes :: "bytes \<times> nat \<times> nat \<rightharpoonup> bytes"

definition empty_evidence :: evidence_db where
  "empty_evidence = \<lparr> gr_edge = [], gr_out = [], gr_in = [], ev_meta = Map.empty, ev_seq = Map.empty,
     ev_entries = [], ev_idem = Map.empty, ev_frontier = Map.empty, ev_nodes = Map.empty \<rparr>"

section \<open>Point reads\<close>

definition get_chain_meta :: "evidence_db \<Rightarrow> bytes \<Rightarrow> chain_meta option" where
  "get_chain_meta db chain = ev_meta db chain"

definition get_seq :: "evidence_db \<Rightarrow> bytes \<Rightarrow> int" where
  "get_seq db chain = (case ev_seq db chain of Some s \<Rightarrow> s | None \<Rightarrow> 0)"

definition get_idem :: "evidence_db \<Rightarrow> bytes \<Rightarrow> bytes \<Rightarrow> idem_record option" where
  "get_idem db chain idem = ev_idem db (chain, idem)"

definition get_frontier :: "evidence_db \<Rightarrow> bytes \<Rightarrow> frontier option" where
  "get_frontier db chain = ev_frontier db chain"

definition get_merkle_node :: "evidence_db \<Rightarrow> bytes \<Rightarrow> nat \<Rightarrow> nat \<Rightarrow> bytes option" where
  "get_merkle_node db chain level index = ev_nodes db (chain, level, index)"

definition get_entry :: "evidence_db \<Rightarrow> bytes \<Rightarrow> int \<Rightarrow> entry_record option" where
  "get_entry db chain seq = map_of (ev_entries db) (chain, seq)"

definition get_edge_weight ::
  "'a graph_db_scheme \<Rightarrow> bytes \<Rightarrow> bytes \<Rightarrow> bytes \<Rightarrow> bytes \<Rightarrow> i64 option" where
  "get_edge_weight db graph src dst etype = map_of (gr_edge db) (graph, src, dst, etype)"

section \<open>Signed tree heads\<close>

text \<open>The domain string is the ASCII text \<open>bluedb-evidence-sth-v1\<close>.\<close>

definition STH_DOMAIN :: bytes where
  "STH_DOMAIN = [98, 108, 117, 101, 100, 98, 45, 101, 118, 105, 100, 101, 110, 99, 101, 45,
     115, 116, 104, 45, 118, 49]"

text \<open>\<open>(len as u64).to_be_bytes()\<close> followed by the bytes.\<close>

definition frame :: "bytes \<Rightarrow> bytes" where
  "frame x = u64_be (word_of_nat (length x)) @ x"

definition sth_payload :: "bytes \<Rightarrow> bytes \<Rightarrow> int \<Rightarrow> bytes \<Rightarrow> int \<Rightarrow> bytes" where
  "sth_payload tenant chain n root_hash timestamp_ms =
     concat (map frame [STH_DOMAIN, tenant, chain]) @ i64_be n @ root_hash @ i64_be timestamp_ms"

lemma frame_prefix_free:
  assumes "frame a @ x = frame b @ y" and "length a < 2 ^ 64" and "length b < 2 ^ 64"
  shows "a = b \<and> x = y"
proof -
  have "(word_of_nat (length a) :: u64) = word_of_nat (length b)" and ab: "a @ x = b @ y"
    using assms(1) by (simp_all add: frame_def append_eq_append_conv)
  then have "length a = length b"
    using assms(2,3) by (simp add: word_of_nat_eq_iff take_bit_nat_eq_self)
  then show ?thesis using ab by simp
qed

text \<open>No two tree heads share signed bytes: the framing of a tree head is injective on
  (tenant, chain, size, root, timestamp), for 32-byte roots, sizes and times in the range of
  \<open>i64\<close> and names shorter than \<open>2 ^ 64\<close> bytes.\<close>

theorem sth_payload_inj:
  assumes "sth_payload t c n r ms = sth_payload t' c' n' r' ms'"
    and "length t < 2 ^ 64" "length c < 2 ^ 64" "length t' < 2 ^ 64" "length c' < 2 ^ 64"
    and "length r = 32" "length r' = 32"
    and "n \<in> {- (2 ^ 63) ..< 2 ^ 63}" "n' \<in> {- (2 ^ 63) ..< 2 ^ 63}"
    and "ms \<in> {- (2 ^ 63) ..< 2 ^ 63}" "ms' \<in> {- (2 ^ 63) ..< 2 ^ 63}"
  shows "t = t' \<and> c = c' \<and> n = n' \<and> r = r' \<and> ms = ms'"
proof -
  have "frame t @ frame c @ i64_be n @ r @ i64_be ms
      = frame t' @ frame c' @ i64_be n' @ r' @ i64_be ms'"
    using assms(1) by (simp add: sth_payload_def)
  then have "t = t'" and "frame c @ i64_be n @ r @ i64_be ms = frame c' @ i64_be n' @ r' @ i64_be ms'"
    using frame_prefix_free [of t _ t'] assms(2,4) by blast+
  then have "c = c'" and tail: "i64_be n @ r @ i64_be ms = i64_be n' @ r' @ i64_be ms'"
    using frame_prefix_free [of c _ c'] assms(3,5) by blast+
  then have "i64_be n = i64_be n'" "r = r'" "i64_be ms = i64_be ms'"
    using assms(6,7) by (simp_all add: append_eq_append_conv)
  then show ?thesis
    using i64_be_inj [of n n'] i64_be_inj [of ms ms'] assms(8-11) \<open>t = t'\<close> \<open>c = c'\<close> by simp
qed

theorem sth_payload_inj_witness:
  "sth_payload [97] [98] 3 (replicate 32 0) 5 = sth_payload [97] [98] 3 (replicate 32 0) 5 \<and>
   [97 :: u8] = [97] \<and> (3 :: int) = 3"
  using sth_payload_inj [of "[97]" "[98]" 3 "replicate 32 0" 5 "[97]" "[98]" 3 "replicate 32 0" 5]
  by simp

end
