(* ===== verification/Evidence_Merkle.thy ===== *)
theory Evidence_Merkle
  imports Evidence_Model
begin

text \<open>
  The Merkle tree of \<open>bluedb-evidence/src/merkle.rs\<close>: leaf and node hashes, the reference
  root and proofs of RFC 6962, and the incremental frontier. SHA-256 is a parameter
  \<open>sha\<close>; nothing is assumed about it except, where a property is about forgery, that its
  digests have 32 bytes. The frontier is shown to compute the reference root for every sequence of
  leaves, and the nodes it emits are exactly the roots of the complete subtrees.
\<close>

type_synonym hasher = "bytes \<Rightarrow> bytes"

section \<open>Hashes\<close>

fun op_discriminant :: "edge_op \<Rightarrow> u8" where
  "op_discriminant (Upsert Merge_Set) = 0"
| "op_discriminant (Upsert Merge_Max) = 1"
| "op_discriminant Delete = 2"

definition empty_root :: "hasher \<Rightarrow> bytes" where
  "empty_root sha = sha []"

definition node_hash :: "hasher \<Rightarrow> bytes \<Rightarrow> bytes \<Rightarrow> bytes" where
  "node_hash sha left right = sha ([0x01] @ left @ right)"

definition edge_sort_key :: "edge_delta \<Rightarrow> bytes \<times> bytes \<times> bytes \<times> bytes \<times> u8" where
  "edge_sort_key e = (ed_graph e, ed_src e, ed_dst e, ed_etype e, op_discriminant (ed_op e))"

definition edge_frame :: "edge_delta \<Rightarrow> bytes" where
  "edge_frame e = concat (map frame [ed_graph e, ed_src e, ed_dst e, ed_etype e]) @
     u64_be (ed_weight e) @ [op_discriminant (ed_op e)]"

definition leaf_hash :: "hasher \<Rightarrow> bytes \<Rightarrow> bytes \<Rightarrow> bytes \<Rightarrow> edge_delta list \<Rightarrow> bytes" where
  "leaf_hash sha etype payload at edges =
     (let sorted = sort_key edge_sort_key edges in
      sha ([0x00] @ concat (map frame [etype, payload, at]) @
        u64_be (word_of_nat (length sorted)) @ concat (map edge_frame sorted)))"

section \<open>The reference tree\<close>

text \<open>The loop starts at \<open>k = 1\<close>; the guard \<open>0 < k\<close> only makes the recursion total.\<close>

function pow2_below :: "nat \<Rightarrow> nat \<Rightarrow> nat" where
  "pow2_below k n = (if 0 < k \<and> 2 * k < n then pow2_below (2 * k) n else k)"
  by pat_completeness auto
termination
  by (relation "measure (\<lambda>(k, n). n - k)") auto

declare pow2_below.simps [simp del]

definition largest_pow2_lt :: "nat \<Rightarrow> nat" where
  "largest_pow2_lt n = pow2_below 1 n"

lemma pow2_below_spec:
  "0 < k \<Longrightarrow> k < n \<Longrightarrow> pow2_below k n < n \<and> n \<le> 2 * pow2_below k n \<and> (\<exists>j. pow2_below k n = k * 2 ^ j)"
proof (induction k n rule: pow2_below.induct)
  case (1 k n)
  show ?case
  proof (cases "2 * k < n")
    case True
    then obtain j where "pow2_below (2 * k) n < n" "n \<le> 2 * pow2_below (2 * k) n"
      "pow2_below (2 * k) n = 2 * k * 2 ^ j"
      using 1 by auto
    moreover have "pow2_below k n = pow2_below (2 * k) n"
      using True 1 by (simp add: pow2_below.simps [of k])
    ultimately show ?thesis by (intro conjI exI [of _ "Suc j"]) simp_all
  next
    case False
    then show ?thesis using 1 by (simp add: pow2_below.simps [of k]) (rule exI [of _ 0], simp)
  qed
qed

lemma largest_pow2_lt_spec:
  assumes "2 \<le> n"
  obtains j where "largest_pow2_lt n = 2 ^ j" "2 ^ j < n" "n \<le> 2 * 2 ^ j"
  using pow2_below_spec [of 1 n] assms unfolding largest_pow2_lt_def by auto

lemma largest_pow2_lt_eq:
  assumes "2 ^ j < n" and "n \<le> 2 * 2 ^ j"
  shows "largest_pow2_lt n = 2 ^ j"
proof -
  have "2 \<le> n" using assms(1) one_le_power [of "2::nat" j] by linarith
  then obtain i where i: "largest_pow2_lt n = 2 ^ i" "2 ^ i < n" "n \<le> 2 * 2 ^ i"
    by (rule largest_pow2_lt_spec)
  have "(2::nat) ^ i < 2 ^ Suc j" "(2::nat) ^ j < 2 ^ Suc i" using assms i by simp_all
  then have "i < Suc j" "j < Suc i" by (simp_all only: power_strict_increasing_iff one_less_numeral_iff
        semiring_norm)
  then show ?thesis using i by simp
qed

lemma largest_pow2_lt_bounds:
  assumes "2 \<le> n"
  shows "0 < largest_pow2_lt n" and "largest_pow2_lt n < n"
  by (rule largest_pow2_lt_spec [OF assms], simp)+

function merkle_root :: "hasher \<Rightarrow> bytes list \<Rightarrow> bytes" where
  "merkle_root sha leaves =
     (if length leaves = 0 then empty_root sha
      else if length leaves = 1 then leaves ! 0
      else let k = largest_pow2_lt (length leaves)
           in node_hash sha (merkle_root sha (take k leaves)) (merkle_root sha (drop k leaves)))"
  by pat_completeness auto
termination
proof (relation "measure (\<lambda>(sha, leaves). length leaves)", goal_cases)
  case (2 sha leaves k)
  then have "2 \<le> length leaves" by linarith
  from largest_pow2_lt_bounds [OF this] 2 show ?case by simp
next
  case (3 sha leaves k)
  then have "2 \<le> length leaves" by linarith
  from largest_pow2_lt_bounds [OF this] 3 show ?case by simp
qed simp

declare merkle_root.simps [simp del]

text \<open>RFC 6962 audit path of the leaf at \<open>index\<close>; \<open>None\<close> is the assertion.\<close>

function inclusion_proof :: "hasher \<Rightarrow> bytes list \<Rightarrow> nat \<Rightarrow> bytes list option" where
  "inclusion_proof sha leaves index =
     (let n = length leaves in
      if \<not> index < n then None
      else if n = 1 then Some []
      else let k = largest_pow2_lt n in
        if index < k
        then map_option (\<lambda>p. p @ [merkle_root sha (drop k leaves)]) (inclusion_proof sha (take k leaves) index)
        else map_option (\<lambda>p. p @ [merkle_root sha (take k leaves)])
               (inclusion_proof sha (drop k leaves) (index - k)))"
  by pat_completeness auto
termination
proof (relation "measure (\<lambda>(sha, leaves, i). length leaves)", goal_cases)
  case (2 sha leaves index n k)
  then have "2 \<le> length leaves" by linarith
  from largest_pow2_lt_bounds [OF this] 2 show ?case by simp
next
  case (3 sha leaves index n k)
  then have "2 \<le> length leaves" by linarith
  from largest_pow2_lt_bounds [OF this] 3 show ?case by simp
qed simp

declare inclusion_proof.simps [simp del]

text \<open>The recursion of the consistency proof. A prefix longer than the tree has no proof in the
  source (the recursion would not end); the guard returns the empty list there.\<close>

function ref_subproof :: "hasher \<Rightarrow> nat \<Rightarrow> bytes list \<Rightarrow> bool \<Rightarrow> bytes list" where
  "ref_subproof sha m leaves b =
     (let n = length leaves in
      if m = n then (if b then [] else [merkle_root sha leaves])
      else if \<not> (0 < m \<and> m < n) then []
      else let k = largest_pow2_lt n in
        if m \<le> k then ref_subproof sha m (take k leaves) b @ [merkle_root sha (drop k leaves)]
        else ref_subproof sha (m - k) (drop k leaves) False @ [merkle_root sha (take k leaves)])"
  by pat_completeness auto
termination
proof (relation "measure (\<lambda>(sha, m, leaves, b). length leaves)", goal_cases)
  case (2 sha m leaves b n k)
  then have "2 \<le> length leaves" by linarith
  from largest_pow2_lt_bounds [OF this] 2 show ?case by simp
next
  case (3 sha m leaves b n k)
  then have "2 \<le> length leaves" by linarith
  from largest_pow2_lt_bounds [OF this] 3 show ?case by simp
qed simp

declare ref_subproof.simps [simp del]

definition consistency_proof :: "hasher \<Rightarrow> bytes list \<Rightarrow> nat \<Rightarrow> bytes list" where
  "consistency_proof sha leaves first =
     (if first = 0 then [] else ref_subproof sha first leaves True)"

section \<open>The frontier\<close>

text \<open>The carry loop: the remaining size, the peaks, the carried hash with its level and leaf
  offset, the nodes emitted so far. \<open>None\<close> is the panic on a missing peak.\<close>

function carry_merge ::
  "hasher \<Rightarrow> nat \<Rightarrow> bytes list \<Rightarrow> bytes \<Rightarrow> nat \<Rightarrow> nat \<Rightarrow> (nat \<times> nat \<times> bytes) list
   \<Rightarrow> (bytes list \<times> (nat \<times> nat \<times> bytes) list) option" where
  "carry_merge sha s peaks carry level start emitted =
     (if odd s then
        (if peaks = [] then None
         else
           let left = last peaks;
               carry' = node_hash sha left carry;
               start' = start - 2 ^ level;
               level' = level + 1;
               index = start' div 2 ^ level'
           in carry_merge sha (s div 2) (butlast peaks) carry' level' start'
                (emitted @ [(level', index, carry')]))
      else Some (peaks @ [carry], emitted))"
  by pat_completeness auto
termination
  by (relation "measure (\<lambda>(sha, s, _). s)") (auto elim: oddE)

declare carry_merge.simps [simp del]

definition push_emit ::
  "hasher \<Rightarrow> frontier \<Rightarrow> bytes \<Rightarrow> (frontier \<times> (nat \<times> nat \<times> bytes) list) option" where
  "push_emit sha f leaf =
     map_option (\<lambda>(peaks, emitted). (\<lparr> fr_size = fr_size f + 1, fr_peaks = peaks \<rparr>, emitted))
       (carry_merge sha (fr_size f) (fr_peaks f) leaf 0 (fr_size f) [])"

text \<open>Bag the peaks from the right.\<close>

definition frontier_root :: "hasher \<Rightarrow> frontier \<Rightarrow> bytes" where
  "frontier_root sha f =
     (case rev (fr_peaks f) of
        [] \<Rightarrow> empty_root sha
      | p # ps \<Rightarrow> foldl (\<lambda>acc q. node_hash sha q acc) p ps)"

section \<open>Levels of the tree\<close>

text \<open>Combine neighbours; an odd last element waits for its partner.\<close>

fun pairup :: "hasher \<Rightarrow> bytes list \<Rightarrow> bytes list" where
  "pairup sha (x # y # zs) = node_hash sha x y # pairup sha zs"
| "pairup sha _ = []"

lemma length_pairup [simp]: "length (pairup sha xs) = length xs div 2"
  by (induction sha xs rule: pairup.induct) auto

lemma pairup_append: "even (length xs) \<Longrightarrow> pairup sha (xs @ ys) = pairup sha xs @ pairup sha ys"
  by (induction sha xs rule: pairup.induct) auto

lemma nth_pairup: "i < length xs div 2 \<Longrightarrow> pairup sha xs ! i = node_hash sha (xs ! (2 * i)) (xs ! (2 * i + 1))"
proof (induction sha xs arbitrary: i rule: pairup.induct)
  case (1 sha x y zs)
  then show ?case by (cases i) auto
qed auto

primrec level_nodes :: "hasher \<Rightarrow> nat \<Rightarrow> bytes list \<Rightarrow> bytes list" where
  "level_nodes sha 0 xs = xs"
| "level_nodes sha (Suc l) xs = level_nodes sha l (pairup sha xs)"

lemma level_nodes_Suc: "level_nodes sha (Suc l) xs = pairup sha (level_nodes sha l xs)"
  by (induction l arbitrary: xs) auto

lemma length_level_nodes [simp]: "length (level_nodes sha l xs) = length xs div 2 ^ l"
  by (induction l arbitrary: xs) (auto simp: div_mult2_eq)

text \<open>The peaks of a list of leaves, smallest subtree first.\<close>

function rpeaks :: "hasher \<Rightarrow> bytes list \<Rightarrow> bytes list" where
  "rpeaks sha xs =
     (if xs = [] then []
      else if even (length xs) then rpeaks sha (pairup sha xs)
      else last xs # rpeaks sha (pairup sha (butlast xs)))"
  by pat_completeness auto
termination
  by (relation "measure (\<lambda>(sha, xs). length xs)") (auto elim: oddE)

declare rpeaks.simps [simp del]

lemma rpeaks_Nil [simp]: "rpeaks sha [] = []"
  by (simp add: rpeaks.simps)

lemma rpeaks_even: "even (length xs) \<Longrightarrow> rpeaks sha (pairup sha xs) = rpeaks sha xs"
  by (cases "xs = []") (simp_all add: rpeaks.simps [of sha xs])

lemma rpeaks_snoc: "even (length xs) \<Longrightarrow> rpeaks sha (xs @ [x]) = x # rpeaks sha xs"
  by (simp add: rpeaks.simps [of sha "xs @ [x]"] rpeaks_even)

lemma rpeaks_Nil_iff: "rpeaks sha xs = [] \<longleftrightarrow> xs = []"
proof (induction sha xs rule: rpeaks.induct)
  case (1 sha xs)
  show ?case
  proof (cases "xs = [] \<or> odd (length xs)")
    case True
    then show ?thesis by (auto simp: rpeaks.simps [of sha xs])
  next
    case False
    then have "pairup sha xs \<noteq> []"
      by (cases "(sha, xs)" rule: pairup.cases) auto
    then show ?thesis using 1(1) False by (simp add: rpeaks.simps [of sha xs])
  qed
qed

section \<open>What a push emits\<close>

function emitted_nodes :: "hasher \<Rightarrow> nat \<Rightarrow> bytes list \<Rightarrow> bytes \<Rightarrow> (nat \<times> nat \<times> bytes) list" where
  "emitted_nodes sha l ys c =
     (if odd (length ys)
      then (l + 1, length ys div 2, node_hash sha (last ys) c)
        # emitted_nodes sha (l + 1) (pairup sha (butlast ys)) (node_hash sha (last ys) c)
      else [])"
  by pat_completeness auto
termination
  by (relation "measure (\<lambda>(sha, l, ys, c). length ys)") (auto elim: oddE)

declare emitted_nodes.simps [simp del]

lemma pairup_carry:
  assumes "odd (length ys)"
  shows "pairup sha (ys @ [c]) = pairup sha (butlast ys) @ [node_hash sha (last ys) c]"
proof -
  have "ys \<noteq> []" using assms by auto
  then have "ys @ [c] = butlast ys @ [last ys, c]" by simp
  moreover have "even (length (butlast ys))" using assms by simp
  ultimately show ?thesis by (simp only: pairup_append pairup.simps)
qed

lemma carry_merge_spec:
  "s = length ys \<Longrightarrow> peaks = rev (rpeaks sha ys) \<Longrightarrow> start = s * 2 ^ l \<Longrightarrow>
     carry_merge sha s peaks c l start em
     = Some (rev (rpeaks sha (ys @ [c])), em @ emitted_nodes sha l ys c)"
proof (induction sha s peaks c l start em arbitrary: ys rule: carry_merge.induct)
  case (1 sha s peaks c l start em)
  show ?case
  proof (cases "odd s")
    case False
    then have "carry_merge sha s peaks c l start em = Some (peaks @ [c], em)"
      by (simp add: carry_merge.simps [of sha s])
    then show ?thesis
      using False 1(2,3) rpeaks_snoc [of ys sha c] by (simp add: emitted_nodes.simps [of sha l ys])
  next
    case True
    let ?n = "node_hash sha (last ys) c"
    have ne: "ys \<noteq> []" and od: "odd (length ys)" using True 1(2) by auto
    have rp: "rpeaks sha ys = last ys # rpeaks sha (pairup sha (butlast ys))"
      using ne od by (simp add: rpeaks.simps [of sha ys])
    then have pk: "peaks \<noteq> []" "last peaks = last ys"
      "butlast peaks = rev (rpeaks sha (pairup sha (butlast ys)))"
      using 1(3) by simp_all
    have len: "s div 2 = length (pairup sha (butlast ys))"
      using 1(2) od by (auto elim: oddE)
    have st: "start - 2 ^ l = s div 2 * 2 ^ (l + 1)"
      using 1(4) True by (auto elim!: oddE simp: algebra_simps)
    then have idx: "(start - 2 ^ l) div 2 ^ (l + 1) = s div 2" by simp
    have ih: "carry_merge sha (s div 2) (butlast peaks) ?n (l + 1) (start - 2 ^ l)
        (em @ [(l + 1, s div 2, ?n)])
      = Some (rev (rpeaks sha (pairup sha (butlast ys) @ [?n])),
          (em @ [(l + 1, s div 2, ?n)]) @ emitted_nodes sha (l + 1) (pairup sha (butlast ys)) ?n)"
      using 1(1) [OF True pk(1) refl refl refl refl refl, of "pairup sha (butlast ys)"]
        len pk st idx by simp
    have "carry_merge sha s peaks c l start em
      = carry_merge sha (s div 2) (butlast peaks) ?n (l + 1) (start - 2 ^ l)
          (em @ [(l + 1, s div 2, ?n)])"
      using True pk idx by (simp add: carry_merge.simps [of sha s] Let_def)
    moreover have "rpeaks sha (ys @ [c]) = rpeaks sha (pairup sha (butlast ys) @ [?n])"
      using rpeaks_even [of "ys @ [c]" sha] od pairup_carry [OF od] by simp
    moreover have "emitted_nodes sha l ys c
      = (l + 1, s div 2, ?n) # emitted_nodes sha (l + 1) (pairup sha (butlast ys)) ?n"
      using od 1(2) by (simp add: emitted_nodes.simps [of sha l ys])
    ultimately show ?thesis using ih by simp
  qed
qed

definition frontier_of :: "hasher \<Rightarrow> bytes list \<Rightarrow> frontier" where
  "frontier_of sha leaves = \<lparr> fr_size = length leaves, fr_peaks = rev (rpeaks sha leaves) \<rparr>"

lemma push_emit_frontier_of:
  "push_emit sha (frontier_of sha xs) x = Some (frontier_of sha (xs @ [x]), emitted_nodes sha 0 xs x)"
  using carry_merge_spec [of "length xs" xs "rev (rpeaks sha xs)" sha "length xs" 0 x "[]"]
  by (simp add: push_emit_def frontier_of_def)

lemma frontier_of_Nil: "frontier_of sha [] = frontier_default"
  by (simp add: frontier_of_def frontier_default_def)

section \<open>Complete subtrees\<close>

lemma merkle_root_single [simp]: "merkle_root sha [x] = x"
  by (simp add: merkle_root.simps)

lemma merkle_root_split:
  assumes "2 ^ j < length xs" and "length xs \<le> 2 * 2 ^ j"
  shows "merkle_root sha xs
    = node_hash sha (merkle_root sha (take (2 ^ j) xs)) (merkle_root sha (drop (2 ^ j) xs))"
proof -
  have "length xs \<noteq> 0" "length xs \<noteq> 1" using assms(1) one_le_power [of "2::nat" j] by auto
  then show ?thesis
    using largest_pow2_lt_eq [OF assms] by (simp add: merkle_root.simps [of sha xs] Let_def)
qed

lemma level_node_root:
  "(i + 1) * 2 ^ l \<le> length xs \<Longrightarrow>
     merkle_root sha (take (2 ^ l) (drop (i * 2 ^ l) xs)) = level_nodes sha l xs ! i"
proof (induction l arbitrary: i)
  case 0
  then have "take 1 (drop i xs) = [xs ! i]" by (simp add: take_Suc_conv_app_nth)
  then show ?case by simp
next
  case (Suc l)
  let ?ys = "take (2 ^ Suc l) (drop (i * 2 ^ Suc l) xs)"
  have len: "length ?ys = 2 * 2 ^ l" using Suc.prems by (simp add: algebra_simps)
  have lt: "2 ^ l < length ?ys" "length ?ys \<le> 2 * 2 ^ l" by (simp_all only: len) simp_all
  have le: "(2 * i + 1) * 2 ^ l \<le> length xs" "(2 * i + 1 + 1) * 2 ^ l \<le> length xs"
    using Suc.prems by (simp_all add: algebra_simps)
  have "take (2 ^ l) ?ys = take (2 ^ l) (drop (2 * i * 2 ^ l) xs)"
    by (simp add: min_def algebra_simps)
  moreover have "drop (2 ^ l) ?ys = take (2 ^ l) (drop ((2 * i + 1) * 2 ^ l) xs)"
    by (simp add: drop_take algebra_simps)
  ultimately have "merkle_root sha ?ys
    = node_hash sha (level_nodes sha l xs ! (2 * i)) (level_nodes sha l xs ! (2 * i + 1))"
    using merkle_root_split [OF lt, of sha] Suc.IH [OF le(1)] Suc.IH [OF le(2)] by (simp only:)
  moreover have "i < length (level_nodes sha l xs) div 2"
    using le(2) by (simp add: div_mult2_eq [symmetric] less_eq_div_iff_mult_less_eq Suc_le_eq [symmetric]
        algebra_simps)
  ultimately show ?case by (simp add: level_nodes_Suc nth_pairup del: level_nodes.simps)
qed

lemma root_pairup:
  assumes "length xs = 2 ^ Suc j"
  shows "merkle_root sha (pairup sha xs) = merkle_root sha xs"
  using level_node_root [of 0 "Suc j" xs sha] level_node_root [of 0 j "pairup sha xs" sha] assms
  by simp

lemma rpeaks_append:
  "length ys = 2 ^ j \<Longrightarrow> length zs < 2 ^ j \<Longrightarrow>
     rpeaks sha (ys @ zs) = rpeaks sha zs @ [merkle_root sha ys]"
proof (induction j arbitrary: ys zs)
  case 0
  then obtain y where "ys = [y]" "zs = []" by (auto simp: length_Suc_conv)
  then show ?case using rpeaks_snoc [of "[]" sha y] by simp
next
  case (Suc j)
  have root: "merkle_root sha (pairup sha ys) = merkle_root sha ys"
    by (rule root_pairup [OF Suc.prems(1)])
  have ev: "even (length ys)" and ly: "length (pairup sha ys) = 2 ^ j" using Suc.prems(1) by simp_all
  show ?case
  proof (cases "even (length zs)")
    case True
    have "rpeaks sha (ys @ zs) = rpeaks sha (pairup sha ys @ pairup sha zs)"
      using rpeaks_even [of "ys @ zs" sha] True ev by (simp add: pairup_append)
    also have "\<dots> = rpeaks sha (pairup sha zs) @ [merkle_root sha (pairup sha ys)]"
      using Suc.IH [OF ly, of "pairup sha zs"] Suc.prems(2) by simp
    finally show ?thesis using rpeaks_even [OF True] root by simp
  next
    case False
    then obtain us u where zs: "zs = us @ [u]" by (metis even_zero list.size(3) rev_exhaust)
    then have eu: "even (length us)" using False by simp
    have "rpeaks sha ((ys @ us) @ [u]) = u # rpeaks sha (ys @ us)"
      using eu ev by (intro rpeaks_snoc) simp
    also have "rpeaks sha (ys @ us) = rpeaks sha (pairup sha ys @ pairup sha us)"
      using rpeaks_even [of "ys @ us" sha] eu ev by (simp add: pairup_append)
    also have "\<dots> = rpeaks sha (pairup sha us) @ [merkle_root sha (pairup sha ys)]"
      using Suc.IH [OF ly, of "pairup sha us"] Suc.prems(2) zs by simp
    finally show ?thesis using rpeaks_even [OF eu] rpeaks_snoc [OF eu] root zs by simp
  qed
qed


section \<open>The frontier computes the reference root\<close>

definition bag :: "hasher \<Rightarrow> bytes list \<Rightarrow> bytes" where
  "bag sha ps = (case ps of [] \<Rightarrow> empty_root sha | p # qs \<Rightarrow> foldl (\<lambda>acc q. node_hash sha q acc) p qs)"

lemma frontier_root_bag: "frontier_root sha (frontier_of sha xs) = bag sha (rpeaks sha xs)"
  by (simp add: frontier_root_def frontier_of_def bag_def)

lemma bag_snoc: "ps \<noteq> [] \<Longrightarrow> bag sha (ps @ [q]) = node_hash sha q (bag sha ps)"
  by (cases ps) (simp_all add: bag_def)

lemma pow2_bracket:
  assumes "0 < (n::nat)"
  obtains j where "2 ^ j \<le> n" "n < 2 * 2 ^ j"
  using ex_power_ivl1 [of 2 n] assms by auto

lemma bag_rpeaks: "bag sha (rpeaks sha xs) = merkle_root sha xs"
proof (induction "length xs" arbitrary: xs rule: less_induct)
  case less
  show ?case
  proof (cases "xs = []")
    case True
    then show ?thesis by (simp add: bag_def merkle_root.simps)
  next
    case False
    then obtain j where j: "2 ^ j \<le> length xs" "length xs < 2 * 2 ^ j"
      by (auto intro: pow2_bracket)
    let ?a = "take (2 ^ j) xs" and ?b = "drop (2 ^ j) xs"
    have "rpeaks sha (?a @ ?b) = rpeaks sha ?b @ [merkle_root sha ?a]"
      using j by (intro rpeaks_append) (simp, (simp; linarith))
    then have rp: "rpeaks sha xs = rpeaks sha ?b @ [merkle_root sha ?a]" by simp
    show ?thesis
    proof (cases "length xs = 2 ^ j")
      case True
      then show ?thesis using rp by (simp add: bag_def)
    next
      case ne: False
      then have "?b \<noteq> []" "2 ^ j < length xs" using j by auto
      moreover have "bag sha (rpeaks sha ?b) = merkle_root sha ?b"
        using False by (intro less) simp
      ultimately show ?thesis
        using rp j merkle_root_split [of j xs sha] by (simp add: bag_snoc rpeaks_Nil_iff)
    qed
  qed
qed

lemma frontier_root_of: "frontier_root sha (frontier_of sha xs) = merkle_root sha xs"
  by (simp add: frontier_root_bag bag_rpeaks)

section \<open>Stored nodes\<close>

lemma level_nodes_prefix:
  assumes "(i + 1) * 2 ^ l \<le> length xs"
  shows "level_nodes sha l (xs @ ys) ! i = level_nodes sha l xs ! i"
proof -
  have "take (2 ^ l) (drop (i * 2 ^ l) (xs @ ys)) = take (2 ^ l) (drop (i * 2 ^ l) xs)"
    using assms by (simp add: algebra_simps)
  moreover have "(i + 1) * 2 ^ l \<le> length (xs @ ys)" using assms by simp
  ultimately show ?thesis
    using level_node_root [of i l xs sha] level_node_root [of i l "xs @ ys" sha] assms by metis
qed

lemma ex_nat_cases: "(\<exists>k. P k) \<longleftrightarrow> P 0 \<or> (\<exists>k. P (Suc k))"
  by (metis not0_implies_Suc)

lemma emitted_nodes_iff:
  "(lev, i, h) \<in> set (emitted_nodes sha l ys c) \<longleftrightarrow>
     (\<exists>k. lev = l + Suc k \<and> 2 ^ Suc k dvd length ys + 1 \<and> i = (length ys + 1) div 2 ^ Suc k - 1
        \<and> h = level_nodes sha (Suc k) (ys @ [c]) ! i)"
proof (induction sha l ys c rule: emitted_nodes.induct)
  case (1 sha l ys c)
  show ?case
  proof (cases "odd (length ys)")
    case False
    then have "\<not> 2 ^ Suc k dvd length ys + 1" for k
      by (metis dvd_mult_left even_Suc power_Suc Suc_eq_plus1)
    then show ?thesis using False by (simp add: emitted_nodes.simps [of sha l ys])
  next
    case True
    define n where "n = node_hash sha (last ys) c"
    define zs where "zs = pairup sha (butlast ys)"
    have pc: "pairup sha (ys @ [c]) = zs @ [n]" using pairup_carry [OF True] by (simp add: n_def zs_def)
    have len: "length ys + 1 = 2 * (length zs + 1)" and lz: "length ys div 2 = length zs"
      using True by (auto elim!: oddE simp: zs_def)
    have step: "2 ^ Suc k dvd length ys + 1 \<longleftrightarrow> 2 ^ k dvd length zs + 1"
      "(length ys + 1) div 2 ^ Suc k = (length zs + 1) div 2 ^ k"
      "level_nodes sha (Suc k) (ys @ [c]) = level_nodes sha k (zs @ [n])" for k
      using dvd_times_left_cancel_iff [of 2 "2 ^ k" "length zs + 1"]
      by (simp_all only: len power_Suc div_mult_mult1 level_nodes.simps pc)
    have ih: "(lev, i, h) \<in> set (emitted_nodes sha (l + 1) zs n) \<longleftrightarrow>
        (\<exists>k. lev = l + 1 + Suc k \<and> 2 ^ Suc k dvd length zs + 1 \<and> i = (length zs + 1) div 2 ^ Suc k - 1
          \<and> h = level_nodes sha (Suc k) (zs @ [n]) ! i)"
      using 1 True unfolding n_def zs_def by blast
    have "emitted_nodes sha l ys c = (l + 1, length zs, n) # emitted_nodes sha (l + 1) zs n"
      using True lz by (simp add: emitted_nodes.simps [of sha l ys] n_def zs_def)
    then have "(lev, i, h) \<in> set (emitted_nodes sha l ys c) \<longleftrightarrow>
        lev = l + 1 \<and> i = length zs \<and> h = n \<or> (lev, i, h) \<in> set (emitted_nodes sha (l + 1) zs n)"
      by simp
    also have "\<dots> \<longleftrightarrow> (\<exists>k. lev = l + Suc k \<and> 2 ^ k dvd length zs + 1
        \<and> i = (length zs + 1) div 2 ^ k - 1 \<and> h = level_nodes sha k (zs @ [n]) ! i)"
      (is "_ \<longleftrightarrow> (\<exists>k. ?P k)")
    proof -
      have "(\<exists>k. ?P k) \<longleftrightarrow> ?P 0 \<or> (\<exists>k. ?P (Suc k))" by (rule ex_nat_cases)
      moreover have "?P 0 \<longleftrightarrow> lev = l + 1 \<and> i = length zs \<and> h = n" by auto
      moreover have "(\<exists>k. ?P (Suc k)) \<longleftrightarrow> (lev, i, h) \<in> set (emitted_nodes sha (l + 1) zs n)"
        using ih by simp
      ultimately show ?thesis by blast
    qed
    finally show ?thesis by (simp only: step)
  qed
qed

text \<open>The node table of a chain is complete for a list of leaves when every complete aligned subtree
  of at least two leaves has its root stored.\<close>

type_synonym node_table = "bytes \<times> nat \<times> nat \<rightharpoonup> bytes"

definition nodes_complete :: "hasher \<Rightarrow> node_table \<Rightarrow> bytes \<Rightarrow> bytes list \<Rightarrow> bool" where
  "nodes_complete sha nodes chain leaves \<longleftrightarrow>
     (\<forall>l i. 0 < l \<and> (i + 1) * 2 ^ l \<le> length leaves \<longrightarrow>
        nodes (chain, l, i) = Some (level_nodes sha l leaves ! i))"

fun put_nodes :: "bytes \<Rightarrow> (nat \<times> nat \<times> bytes) list \<Rightarrow> node_table \<Rightarrow> node_table" where
  "put_nodes chain [] nodes = nodes"
| "put_nodes chain ((level, index, hash) # em) nodes
     = put_nodes chain em (nodes((chain, level, index) \<mapsto> hash))"

lemma put_nodes_other [simp]: "c \<noteq> chain \<Longrightarrow> put_nodes chain em nodes (c, l, i) = nodes (c, l, i)"
  by (induction chain em nodes rule: put_nodes.induct) simp_all

lemma put_nodes_old: "\<forall>h. (l, i, h) \<notin> set em \<Longrightarrow> put_nodes chain em nodes (chain, l, i) = nodes (chain, l, i)"
  by (induction chain em nodes rule: put_nodes.induct) auto

lemma put_nodes_new:
  "\<exists>h. (l, i, h) \<in> set em \<Longrightarrow> \<exists>h. (l, i, h) \<in> set em \<and> put_nodes chain em nodes (chain, l, i) = Some h"
proof (induction em arbitrary: nodes)
  case (Cons e em)
  obtain l' i' h' where e: "e = (l', i', h')" by (cases e)
  show ?case
  proof (cases "\<exists>h. (l, i, h) \<in> set em")
    case True
    define nodes' where "nodes' = nodes((chain, l', i') \<mapsto> h')"
    have "put_nodes chain (e # em) nodes = put_nodes chain em nodes'" by (simp add: e nodes'_def)
    then show ?thesis using Cons.IH [OF True, of nodes'] by auto
  next
    case False
    then show ?thesis using Cons.prems e put_nodes_old [of l i em chain] by auto
  qed
qed simp

lemma nodes_complete_push:
  assumes "nodes_complete sha nodes chain xs"
  shows "nodes_complete sha (put_nodes chain (emitted_nodes sha 0 xs x) nodes) chain (xs @ [x])"
  unfolding nodes_complete_def
proof (intro allI impI, elim conjE)
  fix l i :: nat
  assume l: "0 < l" and le: "(i + 1) * 2 ^ l \<le> length (xs @ [x])"
  let ?em = "emitted_nodes sha 0 xs x"
  show "put_nodes chain ?em nodes (chain, l, i) = Some (level_nodes sha l (xs @ [x]) ! i)"
  proof (cases "\<exists>h. (l, i, h) \<in> set ?em")
    case True
    then obtain h where "(l, i, h) \<in> set ?em" "put_nodes chain ?em nodes (chain, l, i) = Some h"
      using put_nodes_new by blast
    then show ?thesis by (auto simp: emitted_nodes_iff)
  next
    case old: False
    have "(i + 1) * 2 ^ l \<noteq> length xs + 1"
    proof
      assume eq: "(i + 1) * 2 ^ l = length xs + 1"
      obtain k where k: "l = Suc k" using l by (cases l) auto
      have "2 ^ l dvd length xs + 1" "(length xs + 1) div 2 ^ l - 1 = i" by (simp_all only: eq [symmetric]) simp_all
      then have "(l, i, level_nodes sha l (xs @ [x]) ! i) \<in> set ?em"
        unfolding emitted_nodes_iff k by (intro exI [of _ k]) simp
      then show False using old by blast
    qed
    then have "(i + 1) * 2 ^ l \<le> length xs" using le by simp
    then show ?thesis
      using old assms l by (simp add: put_nodes_old nodes_complete_def level_nodes_prefix del: Suc_eq_plus1)
  qed
qed

lemma nodes_complete_Nil: "nodes_complete sha nodes chain []"
  by (simp add: nodes_complete_def)

end
