(* ===== verification/Evidence_Proof.thy ===== *)
theory Evidence_Proof
  imports Evidence_Merkle
begin

text \<open>
  The storage-backed proofs of \<open>bluedb-evidence/src/proof.rs\<close>. Each subtree root is read from
  the stored nodes and leaf hashes instead of being recomputed; the results are shown equal to the
  reference proofs over the leaves. The theory also states the verifier's side: the root that an
  audit path reconstructs and the two roots that a consistency proof reconstructs, with completeness
  and with binding up to a hash collision.
\<close>

section \<open>Reading subtree roots\<close>

function trailing_zeros :: "nat \<Rightarrow> nat" where
  "trailing_zeros n = (if n = 0 \<or> odd n then 0 else Suc (trailing_zeros (n div 2)))"
  by pat_completeness auto
termination
  by (relation "measure (\<lambda>n. n)") auto

declare trailing_zeros.simps [simp del]

definition is_power_of_two :: "nat \<Rightarrow> bool" where
  "is_power_of_two n \<longleftrightarrow> n = 2 ^ trailing_zeros n"

lemma trailing_zeros_pow2 [simp]: "trailing_zeros (2 ^ j) = j"
  by (induction j) (simp_all add: trailing_zeros.simps [of "2 ^ _"] trailing_zeros.simps [of "Suc 0"]
      trailing_zeros.simps [of "2 * _"])

lemma is_power_of_two_iff: "is_power_of_two n \<longleftrightarrow> (\<exists>j. n = 2 ^ j)"
  by (auto simp: is_power_of_two_def)

text \<open>An empty range is a panic: the subtraction underflows in the recursive call.\<close>

function subtree_root ::
  "hasher \<Rightarrow> evidence_db \<Rightarrow> bytes \<Rightarrow> nat \<Rightarrow> nat \<Rightarrow> evidence_error + bytes" where
  "subtree_root sha db chain lo hi =
     (let n = hi - lo in
      if hi \<le> lo then Inl Panic
      else if n = 1 then
        and_then (ok_or Storage (get_entry db chain (int lo + 1))) (\<lambda>rec.
        ok_or Storage (en_leaf_hash rec))
      else if is_power_of_two n \<and> lo mod n = 0 then
        (let level = trailing_zeros n; index = lo div 2 ^ level
         in ok_or Storage (get_merkle_node db chain level index))
      else
        (let k = largest_pow2_lt n in
         and_then (subtree_root sha db chain lo (lo + k)) (\<lambda>left.
         and_then (subtree_root sha db chain (lo + k) hi) (\<lambda>right.
         Inr (node_hash sha left right)))))"
  by pat_completeness auto
termination
proof (relation "measure (\<lambda>(sha, db, chain, lo, hi). hi - lo)", goal_cases)
  case (2 sha db chain lo hi n k)
  then have "2 \<le> hi - lo" by linarith
  from largest_pow2_lt_bounds [OF this] 2 show ?case by simp
next
  case (3 sha db chain lo hi n k x)
  then have "2 \<le> hi - lo" by linarith
  from largest_pow2_lt_bounds [OF this] 3 show ?case by simp
qed simp

declare subtree_root.simps [simp del]

function incl ::
  "hasher \<Rightarrow> evidence_db \<Rightarrow> bytes \<Rightarrow> nat \<Rightarrow> nat \<Rightarrow> nat \<Rightarrow> evidence_error + bytes list" where
  "incl sha db chain lo hi index =
     (let n = hi - lo in
      if hi \<le> lo then Inl Panic
      else if n = 1 then Inr []
      else
        (let k = largest_pow2_lt n; mid = lo + k in
         if index < mid then
           and_then (incl sha db chain lo mid index) (\<lambda>p.
           and_then (subtree_root sha db chain mid hi) (\<lambda>r. Inr (p @ [r])))
         else
           and_then (incl sha db chain mid hi index) (\<lambda>p.
           and_then (subtree_root sha db chain lo mid) (\<lambda>r. Inr (p @ [r])))))"
  by pat_completeness auto
termination
proof (relation "measure (\<lambda>(sha, db, chain, lo, hi, index). hi - lo)", goal_cases)
  case (2 sha db chain lo hi index n k)
  then have "2 \<le> hi - lo" by linarith
  from largest_pow2_lt_bounds [OF this] 2 show ?case by simp
next
  case (3 sha db chain lo hi index n k mid)
  then have "2 \<le> hi - lo" by linarith
  from largest_pow2_lt_bounds [OF this] 3 show ?case by simp linarith
qed simp

declare incl.simps [simp del]

definition proof_inclusion ::
  "hasher \<Rightarrow> evidence_db \<Rightarrow> bytes \<Rightarrow> nat \<Rightarrow> nat \<Rightarrow> evidence_error + bytes list" where
  "proof_inclusion sha db chain index n = incl sha db chain 0 n index"

text \<open>A prefix longer than the range never arises; the guard makes it a panic.\<close>

function subproof ::
  "hasher \<Rightarrow> evidence_db \<Rightarrow> bytes \<Rightarrow> nat \<Rightarrow> nat \<Rightarrow> nat \<Rightarrow> bool \<Rightarrow> evidence_error + bytes list" where
  "subproof sha db chain m lo hi b =
     (let n = hi - lo in
      if m = n then
        (if b then Inr [] else and_then (subtree_root sha db chain lo hi) (\<lambda>r. Inr [r]))
      else if \<not> (0 < m \<and> m < n) then Inl Panic
      else
        (let k = largest_pow2_lt n in
         if m \<le> k then
           and_then (subproof sha db chain m lo (lo + k) b) (\<lambda>p.
           and_then (subtree_root sha db chain (lo + k) hi) (\<lambda>r. Inr (p @ [r])))
         else
           and_then (subproof sha db chain (m - k) (lo + k) hi False) (\<lambda>p.
           and_then (subtree_root sha db chain lo (lo + k)) (\<lambda>r. Inr (p @ [r])))))"
  by pat_completeness auto
termination
proof (relation "measure (\<lambda>(sha, db, chain, m, lo, hi, b). hi - lo)", goal_cases)
  case (2 sha db chain m lo hi b n k)
  then have "2 \<le> hi - lo" by linarith
  from largest_pow2_lt_bounds [OF this] 2 show ?case by simp
next
  case (3 sha db chain m lo hi b n k)
  then have "2 \<le> hi - lo" by linarith
  from largest_pow2_lt_bounds [OF this] 3 show ?case by simp
qed simp

declare subproof.simps [simp del]

definition proof_consistency ::
  "hasher \<Rightarrow> evidence_db \<Rightarrow> bytes \<Rightarrow> nat \<Rightarrow> nat \<Rightarrow> evidence_error + bytes list" where
  "proof_consistency sha db chain first second =
     (if first = 0 then Inr [] else subproof sha db chain first 0 second True)"

section \<open>A store that holds a tree\<close>

definition holds_tree :: "hasher \<Rightarrow> evidence_db \<Rightarrow> bytes \<Rightarrow> bytes list \<Rightarrow> bool" where
  "holds_tree sha db chain leaves \<longleftrightarrow>
     (\<forall>i < length leaves. map_option en_leaf_hash (get_entry db chain (int i + 1)) = Some (Some (leaves ! i)))
     \<and> nodes_complete sha (ev_nodes db) chain leaves"

lemma holds_tree_leaf:
  assumes "holds_tree sha db chain leaves" and "i < length leaves"
  obtains rec where "get_entry db chain (int i + 1) = Some rec" "en_leaf_hash rec = Some (leaves ! i)"
  using assms unfolding holds_tree_def by (auto dest!: spec [of _ i])

lemma holds_tree_node:
  assumes "holds_tree sha db chain leaves" and "0 < l" and "(i + 1) * 2 ^ l \<le> length leaves"
  shows "get_merkle_node db chain l i = Some (level_nodes sha l leaves ! i)"
  using assms unfolding holds_tree_def nodes_complete_def get_merkle_node_def by blast

lemma slice_split:
  assumes "k \<le> n"
  shows "take k (take n xs) = take k xs" and "drop k (take n (drop lo xs)) = take (n - k) (drop (lo + k) xs)"
  using assms by (simp_all add: min_def drop_take ac_simps)

lemma merkle_root_step:
  assumes "2 \<le> length xs"
  shows "merkle_root sha xs = node_hash sha
    (merkle_root sha (take (largest_pow2_lt (length xs)) xs))
    (merkle_root sha (drop (largest_pow2_lt (length xs)) xs))"
proof -
  have "length xs \<noteq> 0" "length xs \<noteq> 1" using assms by linarith+
  then show ?thesis by (simp add: merkle_root.simps [of sha xs] Let_def)
qed

lemma aligned_root:
  assumes tree: "holds_tree sha db chain leaves" and "hi \<le> length leaves" and "hi - lo = n"
    and n: "is_power_of_two n" "lo mod n = 0" "2 \<le> n"
  shows "get_merkle_node db chain (trailing_zeros n) (lo div 2 ^ trailing_zeros n)
    = Some (merkle_root sha (take n (drop lo leaves)))"
proof -
  obtain j where j: "n = 2 ^ j" using n(1) by (auto simp: is_power_of_two_iff)
  have j0: "0 < j" using n(3) j by (cases j) auto
  define i where "i = lo div n"
  have lo: "lo = i * 2 ^ j" using n(2) j by (simp add: i_def mod_0_imp_dvd)
  have le: "(i + 1) * 2 ^ j \<le> length leaves" using assms(2,3) n(3) lo j by simp
  show ?thesis
    using holds_tree_node [OF tree j0 le] level_node_root [OF le, of sha] j lo by simp
qed

lemma subtree_root_correct:
  assumes tree: "holds_tree sha db chain leaves"
  shows "lo < hi \<Longrightarrow> hi \<le> length leaves \<Longrightarrow>
    subtree_root sha db chain lo hi = Inr (merkle_root sha (take (hi - lo) (drop lo leaves)))"
proof (induction "hi - lo" arbitrary: lo hi rule: less_induct)
  case less
  define n where "n = hi - lo"
  have n0: "0 < n" "\<not> hi \<le> lo" "lo < length leaves" using less.prems by (auto simp: n_def)
  consider (one) "n = 1" | (node) "n \<noteq> 1" "is_power_of_two n" "lo mod n = 0"
    | (split) "n \<noteq> 1" "\<not> (is_power_of_two n \<and> lo mod n = 0)" by metis
  then show ?case
  proof cases
    case one
    obtain rec where "get_entry db chain (int lo + 1) = Some rec" "en_leaf_hash rec = Some (leaves ! lo)"
      using holds_tree_leaf [OF tree n0(3)] .
    moreover have "take n (drop lo leaves) = [leaves ! lo]"
      using one n0 by (simp add: take_Suc_conv_app_nth)
    ultimately show ?thesis
      using one n0(2) unfolding n_def by (simp add: subtree_root.simps [of sha db chain lo hi])
  next
    case node
    have "get_merkle_node db chain (trailing_zeros n) (lo div 2 ^ trailing_zeros n)
        = Some (merkle_root sha (take n (drop lo leaves)))"
      using node n0 less.prems by (intro aligned_root [OF tree]) (simp_all add: n_def)
    then show ?thesis
      using node n0(2) unfolding n_def by (simp add: subtree_root.simps [of sha db chain lo hi] Let_def)
  next
    case split
    then have n2: "2 \<le> n" using n0 by linarith
    define k where "k = largest_pow2_lt n"
    have k: "0 < k" "k < n" using largest_pow2_lt_bounds [OF n2] by (simp_all add: k_def)
    let ?xs = "take n (drop lo leaves)"
    have len: "length ?xs = n" using less.prems by (simp add: n_def)
    have "subtree_root sha db chain lo (lo + k) = Inr (merkle_root sha (take (lo + k - lo) (drop lo leaves)))"
      using k less.prems by (intro less.hyps) (auto simp: n_def)
    then have l: "subtree_root sha db chain lo (lo + k) = Inr (merkle_root sha (take k ?xs))"
      using k by (simp add: slice_split)
    have "subtree_root sha db chain (lo + k) hi
        = Inr (merkle_root sha (take (hi - (lo + k)) (drop (lo + k) leaves)))"
      using k less.prems by (intro less.hyps) (auto simp: n_def)
    then have r: "subtree_root sha db chain (lo + k) hi = Inr (merkle_root sha (drop k ?xs))"
      using k by (simp add: slice_split n_def)
    have "subtree_root sha db chain lo hi
        = Inr (node_hash sha (merkle_root sha (take k ?xs)) (merkle_root sha (drop k ?xs)))"
      using split n0(2) l r unfolding n_def
      by (auto simp: subtree_root.simps [of sha db chain lo hi] Let_def k_def [unfolded n_def, symmetric])
    also have "\<dots> = Inr (merkle_root sha ?xs)"
      using merkle_root_step [of ?xs sha] n2 len by (simp add: k_def)
    finally show ?thesis by (simp add: n_def)
  qed
qed


lemma subtree_roots_split:
  assumes tree: "holds_tree sha db chain leaves" and le: "hi \<le> length leaves"
    and n: "n = hi - lo" "2 \<le> n" and k: "k = largest_pow2_lt n" and xs: "xs = take n (drop lo leaves)"
  shows "subtree_root sha db chain lo (lo + k) = Inr (merkle_root sha (take k xs))"
    and "subtree_root sha db chain (lo + k) hi = Inr (merkle_root sha (drop k xs))"
    and "take k xs = take (lo + k - lo) (drop lo leaves)"
    and "drop k xs = take (hi - (lo + k)) (drop (lo + k) leaves)"
proof -
  have k': "0 < k" "k < n" using largest_pow2_lt_bounds [OF n(2)] k by simp_all
  then have bounds: "lo < lo + k" "lo + k < hi" using n by linarith+
  show l: "take k xs = take (lo + k - lo) (drop lo leaves)"
    and r: "drop k xs = take (hi - (lo + k)) (drop (lo + k) leaves)"
    using k' n(1) by (simp_all add: xs slice_split)
  show "subtree_root sha db chain lo (lo + k) = Inr (merkle_root sha (take k xs))"
    "subtree_root sha db chain (lo + k) hi = Inr (merkle_root sha (drop k xs))"
    using bounds le unfolding l r by (intro subtree_root_correct [OF tree]; linarith)+
qed

lemma incl_correct:
  assumes tree: "holds_tree sha db chain leaves"
  shows "lo \<le> index \<Longrightarrow> index < hi \<Longrightarrow> hi \<le> length leaves \<Longrightarrow>
    \<exists>p. incl sha db chain lo hi index = Inr p
      \<and> inclusion_proof sha (take (hi - lo) (drop lo leaves)) (index - lo) = Some p"
proof (induction "hi - lo" arbitrary: lo hi rule: less_induct)
  case less
  define n where "n = hi - lo"
  define xs where "xs = take n (drop lo leaves)"
  have len: "length xs = n" using less.prems by (simp add: n_def xs_def)
  have idx: "index - lo < n" "\<not> hi \<le> lo" using less.prems by (auto simp: n_def)
  show ?case
  proof (cases "n = 1")
    case True
    then have "inclusion_proof sha xs (index - lo) = Some []"
      using len idx(1) by (simp add: inclusion_proof.simps [of sha xs])
    moreover have "incl sha db chain lo hi index = Inr []"
      using True idx(2) by (simp add: incl.simps [of _ _ _ lo hi] n_def)
    ultimately show ?thesis unfolding xs_def n_def by blast
  next
    case False
    define k where "k = largest_pow2_lt n"
    have n2: "2 \<le> n" using False idx by linarith
    have k: "0 < k" "k < n" using largest_pow2_lt_bounds [OF n2] by (simp_all add: k_def)
    have bounds: "lo + k < hi" using k n_def by linarith
    note roots = subtree_roots_split [OF tree less.prems(3) n_def n2 k_def xs_def]
    show ?thesis
    proof (cases "index < lo + k")
      case True
      have "\<exists>p. incl sha db chain lo (lo + k) index = Inr p
          \<and> inclusion_proof sha (take (lo + k - lo) (drop lo leaves)) (index - lo) = Some p"
        using True k less.prems bounds by (intro less.hyps) linarith+
      then obtain p where "incl sha db chain lo (lo + k) index = Inr p"
        "inclusion_proof sha (take k xs) (index - lo) = Some p" unfolding roots(3) by blast
      moreover have "index - lo < k" using True less.prems by linarith
      ultimately show ?thesis
        using False idx len roots(1,2) True
        by (simp add: incl.simps [of _ _ _ lo hi] inclusion_proof.simps [of sha xs] Let_def
            n_def [symmetric] xs_def [symmetric] k_def [symmetric])
    next
      case right: False
      have "\<exists>p. incl sha db chain (lo + k) hi index = Inr p
          \<and> inclusion_proof sha (take (hi - (lo + k)) (drop (lo + k) leaves)) (index - (lo + k)) = Some p"
        using right k less.prems bounds by (intro less.hyps) linarith+
      then obtain p where "incl sha db chain (lo + k) hi index = Inr p"
        "inclusion_proof sha (drop k xs) (index - lo - k) = Some p" unfolding roots(4) by auto
      moreover have "\<not> index - lo < k" using right less.prems by linarith
      ultimately show ?thesis
        using False idx len roots(1,2) right
        by (simp add: incl.simps [of _ _ _ lo hi] inclusion_proof.simps [of sha xs] Let_def
            n_def [symmetric] xs_def [symmetric] k_def [symmetric])
    qed
  qed
qed

lemma subproof_correct:
  assumes tree: "holds_tree sha db chain leaves"
  shows "0 < m \<Longrightarrow> m \<le> hi - lo \<Longrightarrow> hi \<le> length leaves \<Longrightarrow>
    subproof sha db chain m lo hi b = Inr (ref_subproof sha m (take (hi - lo) (drop lo leaves)) b)"
proof (induction "hi - lo" arbitrary: m lo hi b rule: less_induct)
  case less
  define n where "n = hi - lo"
  define xs where "xs = take n (drop lo leaves)"
  have len: "length xs = n" using less.prems by (simp add: n_def xs_def)
  show ?case
  proof (cases "m = n")
    case True
    have "lo < hi" using less.prems by linarith
    then have "subtree_root sha db chain lo hi = Inr (merkle_root sha xs)"
      using subtree_root_correct [OF tree _ less.prems(3)] by (simp add: xs_def n_def)
    then have "subproof sha db chain m lo hi b = Inr (ref_subproof sha m xs b)"
      using True len
      by (auto simp: subproof.simps [of _ _ _ _ lo hi] ref_subproof.simps [of _ _ xs] n_def)
    then show ?thesis by (simp add: xs_def n_def)
  next
    case False
    define k where "k = largest_pow2_lt n"
    have m: "0 < m" "m < n" using False less.prems by (auto simp: n_def)
    then have n2: "2 \<le> n" by linarith
    have k: "0 < k" "k < n" using largest_pow2_lt_bounds [OF n2] by (simp_all add: k_def)
    have bounds: "lo + k < hi" using k n_def by linarith
    note roots = subtree_roots_split [OF tree less.prems(3) n_def n2 k_def xs_def]
    have left: "subproof sha db chain m lo (lo + k) b = Inr (ref_subproof sha m (take k xs) b)" if "m \<le> k"
      unfolding roots(3) using that m k bounds less.prems by (intro less.hyps) linarith+
    have right: "subproof sha db chain (m - k) (lo + k) hi False
        = Inr (ref_subproof sha (m - k) (drop k xs) False)" if "\<not> m \<le> k"
      unfolding roots(4) using that m k bounds less.prems n_def by (intro less.hyps) linarith+
    show ?thesis
      using False m len left right roots(1,2)
      by (simp add: subproof.simps [of _ _ _ m lo hi] ref_subproof.simps [of _ m xs] Let_def
          n_def [symmetric] xs_def [symmetric] k_def [symmetric])
  qed
qed

end
