(* ===== verification/Evidence_Graph.thy ===== *)
theory Evidence_Graph
  imports Evidence_Proof
begin

text \<open>
  The graph store of \<open>bluedb-evidence/src/graph.rs\<close>: the delta that a batch accumulates for
  one edge, with the overlay that lets a batch read its own writes, and the operations of the
  standalone handle. A \<open>WriteBatch\<close> is the list of its operations; a commit applies them in
  order, so the last write of a key wins. The invariant of the store is that both adjacency indexes
  hold exactly the edges of the canonical table; a batch is shown to have the effect of its deltas
  applied one after the other.
\<close>

record edge_upsert =
  eu_src :: bytes
  eu_dst :: bytes
  eu_weight :: i64
  eu_etype :: bytes

record edge_ref =
  er_src :: bytes
  er_dst :: bytes
  er_etype :: bytes

section \<open>Batches\<close>

datatype graph_write =
    Put_edge edge_id i64
  | Del_edge edge_id
  | Put_out adjacency
  | Del_out adjacency
  | Put_in adjacency
  | Del_in adjacency

definition put_assoc :: "'k \<Rightarrow> 'v \<Rightarrow> ('k \<times> 'v) list \<Rightarrow> ('k \<times> 'v) list" where
  "put_assoc k v al = (k, v) # filter (\<lambda>(k', _). k' \<noteq> k) al"

definition del_assoc :: "'k \<Rightarrow> ('k \<times> 'v) list \<Rightarrow> ('k \<times> 'v) list" where
  "del_assoc k al = filter (\<lambda>(k', _). k' \<noteq> k) al"

fun graph_write_step :: "graph_write \<Rightarrow> 'a graph_db_scheme \<Rightarrow> 'a graph_db_scheme" where
  "graph_write_step (Put_edge e w) db = db\<lparr> gr_edge := put_assoc e w (gr_edge db) \<rparr>"
| "graph_write_step (Del_edge e) db = db\<lparr> gr_edge := del_assoc e (gr_edge db) \<rparr>"
| "graph_write_step (Put_out a) db = db\<lparr> gr_out := List.insert a (gr_out db) \<rparr>"
| "graph_write_step (Del_out a) db = db\<lparr> gr_out := removeAll a (gr_out db) \<rparr>"
| "graph_write_step (Put_in a) db = db\<lparr> gr_in := List.insert a (gr_in db) \<rparr>"
| "graph_write_step (Del_in a) db = db\<lparr> gr_in := removeAll a (gr_in db) \<rparr>"

definition commit_graph :: "graph_write list \<Rightarrow> 'a graph_db_scheme \<Rightarrow> 'a graph_db_scheme" where
  "commit_graph batch db = fold graph_write_step batch db"

lemma commit_graph_append: "commit_graph (b @ c) db = commit_graph c (commit_graph b db)"
  by (simp add: commit_graph_def)

lemma commit_graph_simps [simp]:
  "commit_graph [] db = db"
  "commit_graph (w # b) db = commit_graph b (graph_write_step w db)"
  by (simp_all add: commit_graph_def)

section \<open>One delta\<close>

definition i64_max :: "i64 \<Rightarrow> i64 \<Rightarrow> i64" where
  "i64_max a b = (if sint a \<le> sint b then b else a)"

type_synonym overlay = "edge_id \<rightharpoonup> i64 option"

definition ed_id :: "edge_delta \<Rightarrow> edge_id" where
  "ed_id d = (ed_graph d, ed_src d, ed_dst d, ed_etype d)"

definition out_row :: "edge_delta \<Rightarrow> i64 \<Rightarrow> adjacency" where
  "out_row d w = (ed_graph d, ed_src d, w, ed_dst d, ed_etype d)"

definition in_row :: "edge_delta \<Rightarrow> i64 \<Rightarrow> adjacency" where
  "in_row d w = (ed_graph d, ed_dst d, w, ed_src d, ed_etype d)"

definition apply_edge_delta ::
  "'a graph_db_scheme \<Rightarrow> edge_delta \<Rightarrow> graph_write list \<times> overlay \<Rightarrow> bool \<times> graph_write list \<times> overlay" where
  "apply_edge_delta db d = (\<lambda>(batch, overlay).
     let canon = ed_id d;
         current = (case overlay canon of
                      Some v \<Rightarrow> v
                    | None \<Rightarrow> get_edge_weight db (ed_graph d) (ed_src d) (ed_dst d) (ed_etype d))
     in case ed_op d of
          Delete \<Rightarrow>
            (case current of
               Some w0 \<Rightarrow>
                 (True, batch @ [Del_edge canon, Del_out (out_row d w0), Del_in (in_row d w0)],
                  overlay(canon \<mapsto> None))
             | None \<Rightarrow> (False, batch, overlay))
        | Upsert merge \<Rightarrow>
            (let new_w = (case (current, merge) of
                            (Some w0, Merge_Max) \<Rightarrow> i64_max w0 (ed_weight d)
                          | _ \<Rightarrow> ed_weight d);
                 weight_changed = (current \<noteq> Some new_w);
                 stale = (case current of
                            Some w0 \<Rightarrow> if w0 \<noteq> new_w then [Del_out (out_row d w0), Del_in (in_row d w0)] else []
                          | None \<Rightarrow> [])
             in (weight_changed,
                 batch @ stale @ [Put_edge canon new_w, Put_out (out_row d new_w), Put_in (in_row d new_w)],
                 overlay(canon \<mapsto> Some new_w))))"

text \<open>The loop that every writer runs: apply the deltas in order and count the changes.\<close>

primrec apply_edge_deltas ::
  "'a graph_db_scheme \<Rightarrow> edge_delta list \<Rightarrow> graph_write list \<times> overlay \<Rightarrow> nat \<times> graph_write list \<times> overlay" where
  "apply_edge_deltas db [] st = (0, st)"
| "apply_edge_deltas db (d # ds) st =
     (let (changed, st1) = apply_edge_delta db d st; (n, st2) = apply_edge_deltas db ds st1
      in ((if changed then 1 else 0) + n, st2))"

section \<open>The graph handle\<close>

definition upsert_delta :: "bytes \<Rightarrow> merge \<Rightarrow> edge_upsert \<Rightarrow> edge_delta" where
  "upsert_delta graph merge e = \<lparr> ed_graph = graph, ed_src = eu_src e, ed_dst = eu_dst e,
     ed_weight = eu_weight e, ed_etype = eu_etype e, ed_op = Upsert merge \<rparr>"

definition delete_delta :: "bytes \<Rightarrow> edge_ref \<Rightarrow> edge_delta" where
  "delete_delta graph e = \<lparr> ed_graph = graph, ed_src = er_src e, ed_dst = er_dst e,
     ed_weight = 0, ed_etype = er_etype e, ed_op = Delete \<rparr>"

definition graph_upsert ::
  "bool \<Rightarrow> 'a graph_db_scheme \<Rightarrow> bytes \<Rightarrow> edge_upsert list \<Rightarrow> merge
   \<Rightarrow> evidence_error + 'a graph_db_scheme \<times> nat" where
  "graph_upsert writer db graph edges merge =
     (if edges = [] then Inr (db, 0)
      else if \<not> writer then Inl NotWriter
      else let (changed, batch, overlay) =
             apply_edge_deltas db (map (upsert_delta graph merge) edges) ([], Map.empty)
           in if batch = [] then Inr (db, changed) else Inr (commit_graph batch db, changed))"

definition graph_delete ::
  "bool \<Rightarrow> 'a graph_db_scheme \<Rightarrow> bytes \<Rightarrow> edge_ref list \<Rightarrow> evidence_error + 'a graph_db_scheme \<times> nat" where
  "graph_delete writer db graph edges =
     (if edges = [] then Inr (db, 0)
      else if \<not> writer then Inl NotWriter
      else let (removed, batch, overlay) =
             apply_edge_deltas db (map (delete_delta graph) edges) ([], Map.empty)
           in if batch = [] then Inr (db, removed) else Inr (commit_graph batch db, removed))"

definition graph_mutate ::
  "bool \<Rightarrow> 'a graph_db_scheme \<Rightarrow> bytes \<Rightarrow> edge_upsert list \<Rightarrow> edge_ref list \<Rightarrow> merge
   \<Rightarrow> evidence_error + 'a graph_db_scheme \<times> nat \<times> nat" where
  "graph_mutate writer db graph upserts deletes merge =
     (if upserts = [] \<and> deletes = [] then Inr (db, 0, 0)
      else if \<not> writer then Inl NotWriter
      else
        let (upserts_changed, st1) =
              apply_edge_deltas db (map (upsert_delta graph merge) upserts) ([], Map.empty);
            (deletes_removed, batch, overlay) = apply_edge_deltas db (map (delete_delta graph) deletes) st1
        in if batch = [] then Inr (db, upserts_changed, deletes_removed)
           else Inr (commit_graph batch db, upserts_changed, deletes_removed))"

text \<open>The key of a row of each of the three tables, and the rows that the scan of a graph's prefix
  under the table's tag returns.\<close>

fun edge_row_key :: "keyspace \<Rightarrow> edge_id \<Rightarrow> bytes" where
  "edge_row_key ks (g, s, d, t) = graph_edge_key ks g s d t"

fun out_row_key :: "keyspace \<Rightarrow> adjacency \<Rightarrow> bytes" where
  "out_row_key ks (g, s, w, d, t) = graph_out_key ks g s w d t"

fun in_row_key :: "keyspace \<Rightarrow> adjacency \<Rightarrow> bytes" where
  "in_row_key ks (g, d, w, s, t) = graph_in_key ks g d w s t"

definition scan_graph :: "keyspace \<Rightarrow> u8 \<Rightarrow> bytes \<Rightarrow> ('r \<Rightarrow> bytes) \<Rightarrow> 'r list \<Rightarrow> 'r list" where
  "scan_graph ks tag graph key rows =
     (case graph_prefix ks tag graph of
        None \<Rightarrow> []
      | Some p \<Rightarrow> filter (\<lambda>r. in_range p (prefix_upper_bound p) (key r)) rows)"

definition drop_graph ::
  "bool \<Rightarrow> keyspace \<Rightarrow> 'a graph_db_scheme \<Rightarrow> bytes \<Rightarrow> evidence_error + 'a graph_db_scheme \<times> nat" where
  "drop_graph writer ks db graph =
     (if \<not> writer then Inl NotWriter
      else
        let edges = scan_graph ks TAG_GRAPH_EDGE graph (edge_row_key ks) (map fst (gr_edge db));
            outs = scan_graph ks TAG_GRAPH_OUT graph (out_row_key ks) (gr_out db);
            ins = scan_graph ks TAG_GRAPH_IN graph (in_row_key ks) (gr_in db);
            batch = map Del_edge edges @ map Del_out outs @ map Del_in ins
        in if batch = [] then Inr (db, 0) else Inr (commit_graph batch db, length edges))"

section \<open>Deltas one after the other\<close>

text \<open>The specification: a graph is a map from edge identities to weights.\<close>

definition edge_step :: "edge_delta \<Rightarrow> (edge_id \<rightharpoonup> i64) \<Rightarrow> edge_id \<rightharpoonup> i64" where
  "edge_step d g =
     (case ed_op d of
        Delete \<Rightarrow> g(ed_id d := None)
      | Upsert Merge_Set \<Rightarrow> g(ed_id d \<mapsto> ed_weight d)
      | Upsert Merge_Max \<Rightarrow>
          g(ed_id d \<mapsto> (case g (ed_id d) of None \<Rightarrow> ed_weight d | Some w \<Rightarrow> i64_max w (ed_weight d))))"

primrec edge_changes :: "edge_delta list \<Rightarrow> (edge_id \<rightharpoonup> i64) \<Rightarrow> nat" where
  "edge_changes [] g = 0"
| "edge_changes (d # ds) g =
     (if edge_step d g (ed_id d) = g (ed_id d) then 0 else 1) + edge_changes ds (edge_step d g)"

definition edges_of :: "'a graph_db_scheme \<Rightarrow> edge_id \<rightharpoonup> i64" where
  "edges_of db = map_of (gr_edge db)"

text \<open>Both indexes hold exactly the canonical edges.\<close>

definition graph_inv :: "'a graph_db_scheme \<Rightarrow> bool" where
  "graph_inv db \<longleftrightarrow> distinct (map fst (gr_edge db)) \<and> distinct (gr_out db) \<and> distinct (gr_in db) \<and>
     (\<forall>g s w d t. (g, s, w, d, t) \<in> set (gr_out db) \<longleftrightarrow> edges_of db (g, s, d, t) = Some w) \<and>
     (\<forall>g d w s t. (g, d, w, s, t) \<in> set (gr_in db) \<longleftrightarrow> edges_of db (g, s, d, t) = Some w)"

lemma map_of_put_assoc [simp]: "map_of (put_assoc k v al) = (map_of al)(k \<mapsto> v)"
proof -
  have "map_of (filter (\<lambda>(k', _). k' \<noteq> k) al) = (map_of al)(k := None)"
    by (induction al) (auto simp: fun_eq_iff)
  then show ?thesis by (simp add: put_assoc_def)
qed

lemma map_of_del_assoc [simp]: "map_of (del_assoc k al) = (map_of al)(k := None)"
  unfolding del_assoc_def by (induction al) (auto simp: fun_eq_iff)

lemma distinct_assoc [simp]:
  assumes "distinct (map fst al)"
  shows "distinct (map fst (put_assoc k v al))" and "distinct (map fst (del_assoc k al))"
proof -
  have "distinct (map fst (filter P al))" for P using assms by (rule distinct_map_filter)
  then show "distinct (map fst (put_assoc k v al))" "distinct (map fst (del_assoc k al))"
    by (auto simp: put_assoc_def del_assoc_def)
qed


section \<open>A batch is its deltas in order\<close>

text \<open>The writes of one delta when the edge currently has weight \<open>current\<close>, and its new weight.\<close>

definition new_weight :: "edge_delta \<Rightarrow> i64 option \<Rightarrow> i64 option" where
  "new_weight d current =
     (case ed_op d of
        Delete \<Rightarrow> None
      | Upsert Merge_Set \<Rightarrow> Some (ed_weight d)
      | Upsert Merge_Max \<Rightarrow>
          Some (case current of None \<Rightarrow> ed_weight d | Some w0 \<Rightarrow> i64_max w0 (ed_weight d)))"

lemma edge_step_new_weight: "edge_step d g = g(ed_id d := new_weight d (g (ed_id d)))"
  by (auto simp: edge_step_def new_weight_def split: edge_op.splits merge.splits)

definition replace_edge :: "edge_delta \<Rightarrow> i64 option \<Rightarrow> i64 option \<Rightarrow> graph_write list" where
  "replace_edge d old new =
     (case new of
        None \<Rightarrow> (case old of None \<Rightarrow> [] | Some w0 \<Rightarrow> [Del_edge (ed_id d), Del_out (out_row d w0), Del_in (in_row d w0)])
      | Some w \<Rightarrow>
          (case old of None \<Rightarrow> [] | Some w0 \<Rightarrow> if w0 \<noteq> w then [Del_out (out_row d w0), Del_in (in_row d w0)] else [])
          @ [Put_edge (ed_id d) w, Put_out (out_row d w), Put_in (in_row d w)])"

lemma apply_edge_delta_replace:
  assumes "current = (case overlay (ed_id d) of Some v \<Rightarrow> v | None \<Rightarrow> edges_of db (ed_id d))"
    and "new = new_weight d current"
  shows "apply_edge_delta db d (batch, overlay)
    = (current \<noteq> new, batch @ replace_edge d current new,
       if current = None \<and> new = None then overlay else overlay(ed_id d \<mapsto> new))"
  using assms
  by (auto simp: apply_edge_delta_def Let_def edges_of_def get_edge_weight_def ed_id_def
      new_weight_def replace_edge_def split: edge_op.splits merge.splits option.splits)

lemma id_row_iff [simp]:
  "(g, s, w, d', t) = out_row d v \<longleftrightarrow> (g, s, d', t) = ed_id d \<and> w = v"
  "(g, d', w, s, t) = in_row d v \<longleftrightarrow> (g, s, d', t) = ed_id d \<and> w = v"
  by (auto simp: out_row_def in_row_def ed_id_def)

lemma graph_fields_replace:
  assumes "replace_edge d old new = ops"
  shows "edges_of (commit_graph ops db) = (if old = None \<and> new = None then edges_of db else (edges_of db)(ed_id d := new))"
    and "set (gr_out (commit_graph ops db))
      = set (gr_out db) - (\<lambda>w. out_row d w) ` (set_option old) \<union> (\<lambda>w. out_row d w) ` (set_option new)"
    and "set (gr_in (commit_graph ops db))
      = set (gr_in db) - (\<lambda>w. in_row d w) ` (set_option old) \<union> (\<lambda>w. in_row d w) ` (set_option new)"
  using assms by (auto simp: replace_edge_def edges_of_def out_row_def in_row_def split: option.splits if_splits)

lemma graph_distinct_step:
  assumes "distinct (map fst (gr_edge db)) \<and> distinct (gr_out db) \<and> distinct (gr_in db)"
  shows "distinct (map fst (gr_edge (graph_write_step w db))) \<and> distinct (gr_out (graph_write_step w db))
    \<and> distinct (gr_in (graph_write_step w db))"
  using assms by (cases w) (auto simp: distinct_removeAll)

lemma graph_distinct_commit:
  assumes "distinct (map fst (gr_edge db)) \<and> distinct (gr_out db) \<and> distinct (gr_in db)"
  shows "distinct (map fst (gr_edge (commit_graph b db))) \<and> distinct (gr_out (commit_graph b db))
    \<and> distinct (gr_in (commit_graph b db))"
  using assms by (induction b arbitrary: db) (simp, metis commit_graph_simps(2) graph_distinct_step)

lemma replace_edge_inv:
  assumes "graph_inv db" and old: "old = edges_of db (ed_id d)"
  shows "graph_inv (commit_graph (replace_edge d old new) db)"
    and "edges_of (commit_graph (replace_edge d old new) db) = (edges_of db)(ed_id d := new)"
proof -
  note f = graph_fields_replace [OF refl, of d old new db]
  show e: "edges_of (commit_graph (replace_edge d old new) db) = (edges_of db)(ed_id d := new)"
    using f(1) old by (auto simp: fun_eq_iff)
  have ds: "distinct (map fst (gr_edge db)) \<and> distinct (gr_out db) \<and> distinct (gr_in db)"
    and io: "(g, s, w, d', t) \<in> set (gr_out db) \<longleftrightarrow> edges_of db (g, s, d', t) = Some w"
      "(g, d', w, s, t) \<in> set (gr_in db) \<longleftrightarrow> edges_of db (g, s, d', t) = Some w" for g s w d' t
    using assms(1) by (simp_all add: graph_inv_def)
  have "(g, s, w, d', t) \<in> set (gr_out (commit_graph (replace_edge d old new) db))
      \<longleftrightarrow> ((edges_of db)(ed_id d := new)) (g, s, d', t) = Some w"
    "(g, d', w, s, t) \<in> set (gr_in (commit_graph (replace_edge d old new) db))
      \<longleftrightarrow> ((edges_of db)(ed_id d := new)) (g, s, d', t) = Some w" for g s w d' t
    unfolding f(2,3) using old io by (auto simp: image_iff)
  with graph_distinct_commit [OF ds] e show "graph_inv (commit_graph (replace_edge d old new) db)"
    unfolding graph_inv_def by metis
qed

definition batch_state :: "'a graph_db_scheme \<Rightarrow> graph_write list \<times> overlay \<Rightarrow> bool" where
  "batch_state db st \<longleftrightarrow> graph_inv (commit_graph (fst st) db) \<and>
     (\<forall>e. edges_of (commit_graph (fst st) db) e = (case snd st e of Some v \<Rightarrow> v | None \<Rightarrow> edges_of db e))"

lemma batch_state_start: "graph_inv db \<Longrightarrow> batch_state db ([], Map.empty)"
  by (simp add: batch_state_def)

lemma apply_edge_delta_step:
  assumes st: "batch_state db st" and run: "apply_edge_delta db d st = (changed, st')"
  defines "g \<equiv> edges_of (commit_graph (fst st) db)"
  shows "batch_state db st'" and "edges_of (commit_graph (fst st') db) = edge_step d g"
    and "changed \<longleftrightarrow> edge_step d g (ed_id d) \<noteq> g (ed_id d)"
proof -
  obtain batch overlay where s: "st = (batch, overlay)" by (cases st)
  define db1 where "db1 = commit_graph batch db"
  define current where "current = (case overlay (ed_id d) of Some v \<Rightarrow> v | None \<Rightarrow> edges_of db (ed_id d))"
  define new where "new = new_weight d current"
  have inv: "graph_inv db1" and ov: "\<And>e. edges_of db1 e = (case overlay e of Some v \<Rightarrow> v | None \<Rightarrow> edges_of db e)"
    using st by (simp_all add: batch_state_def s db1_def del: split_paired_All)
  have g: "g = edges_of db1" by (simp add: g_def s db1_def)
  have cur: "current = edges_of db1 (ed_id d)" by (simp add: current_def ov)
  from run have res: "changed \<longleftrightarrow> current \<noteq> new" "st' = (batch @ replace_edge d current new,
      if current = None \<and> new = None then overlay else overlay(ed_id d \<mapsto> new))"
    unfolding s apply_edge_delta_replace [where current = current and overlay = overlay and d = d and db = db and new = new, OF current_def new_def] by simp_all
  note rep = replace_edge_inv [OF inv cur, of new]
  have com: "commit_graph (fst st') db = commit_graph (replace_edge d current new) db1"
    by (simp add: res commit_graph_append db1_def)
  show e: "edges_of (commit_graph (fst st') db) = edge_step d g"
    by (simp only: com rep(2) edge_step_new_weight g cur [symmetric] new_def [symmetric])
  show "changed \<longleftrightarrow> edge_step d g (ed_id d) \<noteq> g (ed_id d)"
    unfolding res edge_step_new_weight g by (auto simp: cur new_def)
  have "((edges_of db1)(ed_id d := new)) e = (case snd st' e of Some v \<Rightarrow> v | None \<Rightarrow> edges_of db e)" for e
    using ov [of e] cur by (auto simp: res(2))
  then show "batch_state db st'"
    using rep(1) by (simp only: batch_state_def com rep(2)) blast
qed

lemma apply_edge_deltas_steps:
  assumes "batch_state db st" and "apply_edge_deltas db ds st = (n, st')"
  shows "batch_state db st' \<and>
    edges_of (commit_graph (fst st') db) = fold edge_step ds (edges_of (commit_graph (fst st) db)) \<and>
    n = edge_changes ds (edges_of (commit_graph (fst st) db))"
  using assms
proof (induction ds arbitrary: st n)
  case Nil
  then show ?case by simp
next
  case (Cons d ds)
  obtain c st1 where d: "apply_edge_delta db d st = (c, st1)" by (cases "apply_edge_delta db d st")
  obtain k where ds: "apply_edge_deltas db ds st1 = (k, st')" and n: "n = (if c then 1 else 0) + k"
    using Cons.prems(2) d by (auto simp: Let_def split: prod.splits)
  note step = apply_edge_delta_step [OF Cons.prems(1) d]
  from Cons.IH [OF step(1) ds] show ?case using step(2,3) n by auto
qed

lemma apply_from_empty:
  assumes "graph_inv db" and "apply_edge_deltas db ds ([], Map.empty) = (n, batch, overlay)"
  shows "graph_inv (commit_graph batch db)"
    and "edges_of (commit_graph batch db) = fold edge_step ds (edges_of db)"
    and "n = edge_changes ds (edges_of db)"
  using apply_edge_deltas_steps [OF batch_state_start [OF assms(1)] assms(2)]
  by (simp_all add: batch_state_def)


section \<open>Operations of the handle\<close>

lemma commit_if_nonempty: "(if batch = [] then Inr (db, c) else Inr (commit_graph batch db, c))
    = Inr (commit_graph batch db, c)"
  by simp

lemma graph_upsert_spec:
  assumes "graph_inv db" and "ds = map (upsert_delta graph merge) edges"
  shows "\<exists>db'. graph_upsert True db graph edges merge = Inr (db', edge_changes ds (edges_of db))
    \<and> graph_inv db' \<and> edges_of db' = fold edge_step ds (edges_of db)"
proof -
  obtain n batch overlay where run: "apply_edge_deltas db ds ([], Map.empty) = (n, batch, overlay)"
    by (cases "apply_edge_deltas db ds ([], Map.empty)") auto
  show ?thesis
    using apply_from_empty [OF assms(1) run] run assms
    by (auto simp: graph_upsert_def commit_if_nonempty)
qed

lemma graph_delete_spec:
  assumes "graph_inv db" and "ds = map (delete_delta graph) edges"
  shows "\<exists>db'. graph_delete True db graph edges = Inr (db', edge_changes ds (edges_of db))
    \<and> graph_inv db' \<and> edges_of db' = fold edge_step ds (edges_of db)"
proof -
  obtain n batch overlay where run: "apply_edge_deltas db ds ([], Map.empty) = (n, batch, overlay)"
    by (cases "apply_edge_deltas db ds ([], Map.empty)") auto
  show ?thesis
    using apply_from_empty [OF assms(1) run] run assms
    by (auto simp: graph_delete_def commit_if_nonempty)
qed

lemma graph_mutate_spec:
  assumes "graph_inv db" and us: "us = map (upsert_delta graph merge) upserts"
    and ds: "ds = map (delete_delta graph) deletes"
  shows "\<exists>db'. graph_mutate True db graph upserts deletes merge
      = Inr (db', edge_changes us (edges_of db), edge_changes ds (fold edge_step us (edges_of db)))
    \<and> graph_inv db' \<and> edges_of db' = fold edge_step (us @ ds) (edges_of db)"
proof -
  obtain n st1 where r1: "apply_edge_deltas db us ([], Map.empty) = (n, st1)"
    by (cases "apply_edge_deltas db us ([], Map.empty)") auto
  obtain m batch overlay where r2: "apply_edge_deltas db ds st1 = (m, batch, overlay)"
    by (cases "apply_edge_deltas db ds st1") auto
  note s1 = apply_edge_deltas_steps [OF batch_state_start [OF assms(1)] r1]
  note s2 = apply_edge_deltas_steps [OF conjunct1 [OF s1] r2]
  show ?thesis
    using s1 s2 r1 r2 us ds
    by (auto simp: graph_mutate_def commit_if_nonempty batch_state_def)
qed

section \<open>Dropping a graph\<close>

definition short :: "bytes \<Rightarrow> bool" where
  "short s \<longleftrightarrow> length s < 2 ^ 32"

lemma prefix_seg_iff:
  assumes "short g" and "short g'"
  shows "prefix (tagged ks tag @ seg g) (tagged ks tag @ seg g' @ rest) \<longleftrightarrow> g' = g"
proof
  assume "prefix (tagged ks tag @ seg g) (tagged ks tag @ seg g' @ rest)"
  then obtain r where "seg g' @ rest = seg g @ r" by (auto simp: prefix_def)
  then show "g' = g" using seg_prefix_free [of g' rest g r] assms by (simp add: short_def)
qed (auto simp: prefix_def)

lemma graph_rows_in_range:
  assumes "short graph" and "short g"
  shows "graph_prefix ks TAG_GRAPH_EDGE graph = Some p \<Longrightarrow>
      in_range p (prefix_upper_bound p) (edge_row_key ks (g, s, d, t)) \<longleftrightarrow> g = graph"
    and "graph_prefix ks TAG_GRAPH_OUT graph = Some p \<Longrightarrow>
      in_range p (prefix_upper_bound p) (out_row_key ks (g, s, w, d, t)) \<longleftrightarrow> g = graph"
    and "graph_prefix ks TAG_GRAPH_IN graph = Some p \<Longrightarrow>
      in_range p (prefix_upper_bound p) (in_row_key ks (g, d, w, s, t)) \<longleftrightarrow> g = graph"
  using assms prefix_seg_iff [OF assms]
  by (auto simp: evidence_keys_external evidence_key_defs push_lp_seg in_range_prefix_upper_bound)

definition graph_short :: "'a graph_db_scheme \<Rightarrow> bool" where
  "graph_short db \<longleftrightarrow> (\<forall>e \<in> fst ` set (gr_edge db). short (fst e)) \<and>
     (\<forall>a \<in> set (gr_out db) \<union> set (gr_in db). short (fst a))"

lemma scan_graph_rows:
  assumes "graph_short db" and "short graph"
  shows "scan_graph ks TAG_GRAPH_EDGE graph (edge_row_key ks) (map fst (gr_edge db))
      = filter (\<lambda>e. fst e = graph) (map fst (gr_edge db))"
    and "scan_graph ks TAG_GRAPH_OUT graph (out_row_key ks) (gr_out db) = filter (\<lambda>a. fst a = graph) (gr_out db)"
    and "scan_graph ks TAG_GRAPH_IN graph (in_row_key ks) (gr_in db) = filter (\<lambda>a. fst a = graph) (gr_in db)"
proof -
  have "filter (\<lambda>e. in_range p (prefix_upper_bound p) (edge_row_key ks e)) xs = filter (\<lambda>e. fst e = graph) xs"
    if "graph_prefix ks TAG_GRAPH_EDGE graph = Some p" "\<forall>e \<in> set xs. short (fst e)" for p xs
    using graph_rows_in_range(1) [OF assms(2) _ that(1)] that(2) by (intro filter_cong refl) auto
  moreover have "filter (\<lambda>a. in_range p (prefix_upper_bound p) (out_row_key ks a)) xs = filter (\<lambda>a. fst a = graph) xs"
    if "graph_prefix ks TAG_GRAPH_OUT graph = Some p" "\<forall>a \<in> set xs. short (fst a)" for p xs
    using graph_rows_in_range(2) [OF assms(2) _ that(1)] that(2) by (intro filter_cong refl) auto
  moreover have "filter (\<lambda>a. in_range p (prefix_upper_bound p) (in_row_key ks a)) xs = filter (\<lambda>a. fst a = graph) xs"
    if "graph_prefix ks TAG_GRAPH_IN graph = Some p" "\<forall>a \<in> set xs. short (fst a)" for p xs
    using graph_rows_in_range(3) [OF assms(2) _ that(1)] that(2) by (intro filter_cong refl) auto
  ultimately show "scan_graph ks TAG_GRAPH_EDGE graph (edge_row_key ks) (map fst (gr_edge db))
      = filter (\<lambda>e. fst e = graph) (map fst (gr_edge db))"
    "scan_graph ks TAG_GRAPH_OUT graph (out_row_key ks) (gr_out db) = filter (\<lambda>a. fst a = graph) (gr_out db)"
    "scan_graph ks TAG_GRAPH_IN graph (in_row_key ks) (gr_in db) = filter (\<lambda>a. fst a = graph) (gr_in db)"
    using assms(1) evidence_keys_external(7-9) [of ks graph]
    by (simp_all add: scan_graph_def graph_short_def)
qed

lemma commit_del_edges:
  "edges_of (commit_graph (map Del_edge es) db) = (\<lambda>e. if e \<in> set es then None else edges_of db e)"
  "gr_out (commit_graph (map Del_edge es) db) = gr_out db"
  "gr_in (commit_graph (map Del_edge es) db) = gr_in db"
  by (induction es arbitrary: db) (simp_all add: edges_of_def fun_eq_iff)

lemma commit_del_out:
  "edges_of (commit_graph (map Del_out xs) db) = edges_of db"
  "set (gr_out (commit_graph (map Del_out xs) db)) = set (gr_out db) - set xs"
  "gr_in (commit_graph (map Del_out xs) db) = gr_in db"
  by (induction xs arbitrary: db) (auto simp: edges_of_def)

lemma commit_del_in:
  "edges_of (commit_graph (map Del_in xs) db) = edges_of db"
  "gr_out (commit_graph (map Del_in xs) db) = gr_out db"
  "set (gr_in (commit_graph (map Del_in xs) db)) = set (gr_in db) - set xs"
  by (induction xs arbitrary: db) (auto simp: edges_of_def)

lemma drop_graph_spec:
  assumes inv: "graph_inv db" and short: "graph_short db" "short graph"
  shows "\<exists>db'. drop_graph True ks db graph = Inr (db', card {e \<in> dom (edges_of db). fst e = graph})
    \<and> graph_inv db' \<and> edges_of db' = (\<lambda>e. if fst e = graph then None else edges_of db e)"
proof -
  define es where "es = filter (\<lambda>e. fst e = graph) (map fst (gr_edge db))"
  define os where "os = filter (\<lambda>a. fst a = graph) (gr_out db)"
  define ins where "ins = filter (\<lambda>a. fst a = graph) (gr_in db)"
  define batch where "batch = map Del_edge es @ map Del_out os @ map Del_in ins"
  define db' where "db' = commit_graph batch db"
  have run: "drop_graph True ks db graph = Inr (db', length es)"
    unfolding drop_graph_def Let_def scan_graph_rows [OF short] es_def [symmetric] os_def [symmetric]
      ins_def [symmetric] batch_def [symmetric] db'_def
    by (auto simp: batch_def)
  have ds: "distinct (map fst (gr_edge db)) \<and> distinct (gr_out db) \<and> distinct (gr_in db)"
    using inv by (simp add: graph_inv_def)
  have dom: "dom (edges_of db) = fst ` set (gr_edge db)" by (simp add: edges_of_def dom_map_of_conv_image_fst)
  have len: "length es = card {e \<in> dom (edges_of db). fst e = graph}"
    using ds distinct_card [of es] by (auto simp: es_def dom image_iff intro!: arg_cong [where f = card])
  have "edges_of db' = (\<lambda>e. if e \<in> set es then None else edges_of db e)"
    by (simp add: db'_def batch_def commit_graph_append commit_del_edges commit_del_out commit_del_in)
  then have edges: "edges_of db' = (\<lambda>e. if fst e = graph then None else edges_of db e)"
    using dom by (fastforce simp: es_def fun_eq_iff domIff)
  have out: "set (gr_out db') = set (gr_out db) - set os" and ins: "set (gr_in db') = set (gr_in db) - set ins"
    by (simp_all add: db'_def batch_def commit_graph_append commit_del_edges commit_del_out commit_del_in)
  have "graph_inv db'"
    using inv graph_distinct_commit [OF ds, of batch, folded db'_def]
    unfolding graph_inv_def edges out ins os_def ins_def by auto
  then show ?thesis using run len edges by auto
qed

end
