(* ===== verification/Evidence_Chain.thy ===== *)
theory Evidence_Chain
  imports Evidence_Graph
begin

text \<open>
  The evidence handle of \<open>bluedb-evidence/src/chain.rs\<close>: chains of entries with dense sequence
  numbers, idempotent appends, range reads, the Merkle digest and proofs of a verified chain, and
  the two forms of erasure. An operation takes the committed state and whether this node is the
  active writer, and returns an error or the new committed state; the writes of one batch are one
  step. Sequence numbers are integers inside the \<open>i64\<close> range: a head counts the entries ever
  appended to the chain.
\<close>

record entry_input =
  ei_etype :: bytes
  ei_payload :: bytes
  ei_at :: bytes
  ei_edges :: "edge_delta list"

record appended =
  ap_base_seq :: int
  ap_seqs :: "int list"

record chain_digest =
  dg_size :: nat
  dg_root :: bytes

record inclusion_result =
  ip_seq :: int
  ip_size :: int
  ip_audit_path :: "bytes list"

record consistency_result =
  cp_first :: int
  cp_second :: int
  cp_proof :: "bytes list"

definition MAX_PAGE :: nat where "MAX_PAGE = 1000"

definition I64_MAX :: int where "I64_MAX = 2 ^ 63 - 1"

definition USIZE_MAX :: nat where "USIZE_MAX = 2 ^ 64 - 1"

section \<open>Creating chains\<close>

definition chain_meta_of :: "evidence_db \<Rightarrow> bytes \<Rightarrow> chain_meta option" where
  "chain_meta_of db chain = get_chain_meta db chain"

definition create_chain :: "bool \<Rightarrow> evidence_db \<Rightarrow> bytes \<Rightarrow> bool \<Rightarrow> evidence_error + evidence_db" where
  "create_chain writer db chain verified =
     (if \<not> writer then Inl NotWriter
      else case get_chain_meta db chain of
        Some existing \<Rightarrow>
          if cm_verified existing \<noteq> verified then Inl (ChainModeConflict chain) else Inr db
      | None \<Rightarrow> Inr (db\<lparr> ev_meta := (ev_meta db)(chain \<mapsto> \<lparr> cm_verified = verified \<rparr>) \<rparr>))"

section \<open>Append\<close>

definition entry_frame :: "entry_input \<Rightarrow> bytes" where
  "entry_frame e = concat (map frame [ei_etype e, ei_payload e, ei_at e]) @
     u64_be (word_of_nat (length (ei_edges e))) @ concat (map edge_frame (ei_edges e))"

definition fingerprint :: "hasher \<Rightarrow> entry_input list \<Rightarrow> bytes" where
  "fingerprint sha entries = sha (u64_be (word_of_nat (length entries)) @ concat (map entry_frame entries))"

definition chain_head :: "evidence_db \<Rightarrow> bytes \<Rightarrow> int" where
  "chain_head db chain = get_seq db chain"

definition entry_of :: "hasher \<Rightarrow> bool \<Rightarrow> entry_input \<Rightarrow> entry_record" where
  "entry_of sha verified e = \<lparr> en_etype = ei_etype e, en_payload = ei_payload e, en_at = ei_at e,
     en_edges = ei_edges e,
     en_leaf_hash = (if verified then Some (leaf_hash sha (ei_etype e) (ei_payload e) (ei_at e) (ei_edges e))
                     else None),
     en_redacted = False \<rparr>"

fun put_entries ::
  "bytes \<Rightarrow> (int \<times> entry_record) list \<Rightarrow> ((bytes \<times> int) \<times> entry_record) list
   \<Rightarrow> ((bytes \<times> int) \<times> entry_record) list" where
  "put_entries chain [] es = es"
| "put_entries chain ((seq, rec) # rs) es = put_entries chain rs (put_assoc (chain, seq) rec es)"

text \<open>Fold the new leaves into the frontier and store the nodes each push emits; \<open>None\<close> is the
  panic of a frontier whose peaks do not match its size.\<close>

fun push_leaves ::
  "hasher \<Rightarrow> bytes \<Rightarrow> bytes list \<Rightarrow> frontier \<times> node_table \<Rightarrow> (frontier \<times> node_table) option" where
  "push_leaves sha chain [] st = Some st"
| "push_leaves sha chain (lh # lhs) (f, nodes) =
     (case push_emit sha f lh of
        None \<Rightarrow> None
      | Some (f', emitted) \<Rightarrow> push_leaves sha chain lhs (f', put_nodes chain emitted nodes))"

text \<open>The batch of an append that is not a replay.\<close>

definition append_batch ::
  "hasher \<Rightarrow> evidence_db \<Rightarrow> bytes \<Rightarrow> entry_input list \<Rightarrow> bytes option \<Rightarrow> bytes
   \<Rightarrow> evidence_error + evidence_db \<times> appended" where
  "append_batch sha db chain entries idem fp =
     (let existing_meta = get_chain_meta db chain;
          base = get_seq db chain;
          k = int (length entries);
          seqs = [base + 1 .. base + k];
          verified = (case existing_meta of Some m \<Rightarrow> cm_verified m | None \<Rightarrow> True);
          meta = (if existing_meta = None then (ev_meta db)(chain \<mapsto> \<lparr> cm_verified = True \<rparr>)
                  else ev_meta db);
          recs = map (entry_of sha verified) entries;
          leaves = List.map_filter en_leaf_hash recs;
          all_edges = concat (map en_edges recs);
          graph_batch = fst (snd (apply_edge_deltas db all_edges ([], Map.empty)));
          frontier0 = (case get_frontier db chain of None \<Rightarrow> frontier_default | Some f \<Rightarrow> f);
          merkle = (if verified
                    then map_option (\<lambda>(f, nodes). ((ev_frontier db)(chain \<mapsto> f), nodes))
                           (push_leaves sha chain leaves (frontier0, ev_nodes db))
                    else Some (ev_frontier db, ev_nodes db));
          idems = (case idem of
                     None \<Rightarrow> ev_idem db
                   | Some key \<Rightarrow> (ev_idem db)((chain, key) \<mapsto>
                       \<lparr> id_base_seq = base, id_seqs = seqs, id_fingerprint = fp \<rparr>))
      in case merkle of
           None \<Rightarrow> Inl Panic
         | Some (frontiers, nodes) \<Rightarrow>
             Inr ((commit_graph graph_batch db)\<lparr>
                    ev_meta := meta,
                    ev_seq := (ev_seq db)(chain \<mapsto> base + k),
                    ev_entries := put_entries chain (zip seqs recs) (ev_entries db),
                    ev_idem := idems,
                    ev_frontier := frontiers,
                    ev_nodes := nodes \<rparr>,
                  \<lparr> ap_base_seq = base, ap_seqs = seqs \<rparr>))"

definition append_entries ::
  "hasher \<Rightarrow> bool \<Rightarrow> evidence_db \<Rightarrow> bytes \<Rightarrow> entry_input list \<Rightarrow> bytes option
   \<Rightarrow> evidence_error + evidence_db \<times> appended" where
  "append_entries sha writer db chain entries idem =
     (if entries = [] then Inr (db, \<lparr> ap_base_seq = chain_head db chain, ap_seqs = [] \<rparr>)
      else if \<not> writer then Inl NotWriter
      else
        let fp = fingerprint sha entries
        in case (case idem of None \<Rightarrow> None | Some key \<Rightarrow> get_idem db chain key) of
             Some rec \<Rightarrow>
               if id_fingerprint rec = fp
               then Inr (db, \<lparr> ap_base_seq = id_base_seq rec, ap_seqs = id_seqs rec \<rparr>)
               else Inl IdemConflict
           | None \<Rightarrow> append_batch sha db chain entries idem fp)"

section \<open>Reads\<close>

definition i64_from_be :: "bytes \<Rightarrow> int" where
  "i64_from_be b = sint (word_of_nat (from_be_bytes b) :: 64 word)"

fun entry_row_key :: "keyspace \<Rightarrow> (bytes \<times> int) \<times> entry_record \<Rightarrow> bytes" where
  "entry_row_key ks ((chain, seq), rec) = entry_key ks chain seq"

text \<open>The store iterates keys in byte order; the sequence number is read back from the last eight
  bytes of the key.\<close>

definition scan_entries ::
  "keyspace \<Rightarrow> evidence_db \<Rightarrow> bytes \<Rightarrow> bytes \<Rightarrow> nat \<Rightarrow> (int \<times> entry_record) list" where
  "scan_entries ks db start stop cap =
     map (\<lambda>row. let key = entry_row_key ks row in (i64_from_be (drop (length key - 8) key), snd row))
       (take cap (sort_key (entry_row_key ks)
          (filter (\<lambda>row. in_range start (Some stop) (entry_row_key ks row)) (ev_entries db))))"

definition read_range ::
  "keyspace \<Rightarrow> evidence_db \<Rightarrow> bytes \<Rightarrow> int \<Rightarrow> int \<Rightarrow> evidence_error + (int \<times> entry_record) list" where
  "read_range ks db chain lo hi =
     (if hi < lo then Inr []
      else
        let start = entry_key ks chain lo;
            stop = (if hi < I64_MAX then Some (entry_key ks chain (hi + 1)) else entry_prefix_end ks chain)
        in and_then (ok_or Panic stop) (\<lambda>e. Inr (scan_entries ks db start e USIZE_MAX)))"

definition read_from ::
  "keyspace \<Rightarrow> evidence_db \<Rightarrow> bytes \<Rightarrow> int \<Rightarrow> nat option \<Rightarrow> evidence_error + (int \<times> entry_record) list" where
  "read_from ks db chain after limit =
     (let cap = min (case limit of None \<Rightarrow> MAX_PAGE | Some l \<Rightarrow> l) MAX_PAGE;
          start = entry_key ks chain (min (after + 1) I64_MAX)
      in and_then (ok_or Panic (entry_prefix_end ks chain)) (\<lambda>e. Inr (scan_entries ks db start e cap)))"

section \<open>Digest and proofs\<close>

definition require_verified :: "evidence_db \<Rightarrow> bytes \<Rightarrow> evidence_error + unit" where
  "require_verified db chain =
     (case get_chain_meta db chain of
        Some m \<Rightarrow> if \<not> cm_verified m then Inl (NotVerified chain) else Inr ()
      | None \<Rightarrow> Inr ())"

definition digest :: "hasher \<Rightarrow> evidence_db \<Rightarrow> bytes \<Rightarrow> evidence_error + chain_digest" where
  "digest sha db chain =
     and_then (require_verified db chain) (\<lambda>_.
       case get_frontier db chain of
         Some f \<Rightarrow> Inr \<lparr> dg_size = fr_size f, dg_root = frontier_root sha f \<rparr>
       | None \<Rightarrow> Inr \<lparr> dg_size = 0, dg_root = empty_root sha \<rparr>)"

definition inclusion ::
  "hasher \<Rightarrow> evidence_db \<Rightarrow> bytes \<Rightarrow> int \<Rightarrow> int option \<Rightarrow> evidence_error + inclusion_result" where
  "inclusion sha db chain seq n =
     and_then (require_verified db chain) (\<lambda>_.
       let hd = chain_head db chain;
           m = (case n of None \<Rightarrow> hd | Some v \<Rightarrow> v)
       in if m < 1 \<or> hd < m then Inl InvalidArgument
          else if seq < 1 then Inl InvalidArgument
          else if m < seq then Inl (EntryNotFound chain seq)
          else and_then (proof_inclusion sha db chain (nat (seq - 1)) (nat m)) (\<lambda>p.
            Inr \<lparr> ip_seq = seq, ip_size = m, ip_audit_path = p \<rparr>))"

definition consistency ::
  "hasher \<Rightarrow> evidence_db \<Rightarrow> bytes \<Rightarrow> int \<Rightarrow> int option \<Rightarrow> evidence_error + consistency_result" where
  "consistency sha db chain first second =
     and_then (require_verified db chain) (\<lambda>_.
       let hd = chain_head db chain;
           snd' = (case second of None \<Rightarrow> hd | Some v \<Rightarrow> v)
       in if first < 1 \<or> snd' < first \<or> hd < snd' then Inl InvalidArgument
          else and_then (proof_consistency sha db chain (nat first) (nat snd')) (\<lambda>p.
            Inr \<lparr> cp_first = first, cp_second = snd', cp_proof = p \<rparr>))"

section \<open>Erasure\<close>

definition redact :: "bool \<Rightarrow> evidence_db \<Rightarrow> bytes \<Rightarrow> int \<Rightarrow> evidence_error + evidence_db" where
  "redact writer db chain seq =
     (if \<not> writer then Inl NotWriter
      else and_then (ok_or (EntryNotFound chain seq) (get_entry db chain seq)) (\<lambda>rec.
        Inr (db\<lparr> ev_entries := put_assoc (chain, seq)
                  (rec\<lparr> en_payload := [], en_redacted := True \<rparr>) (ev_entries db) \<rparr>)))"

definition hard_delete ::
  "bool \<Rightarrow> evidence_db \<Rightarrow> bytes \<Rightarrow> int \<Rightarrow> bool \<Rightarrow> evidence_error + evidence_db" where
  "hard_delete writer db chain seq retract_edges =
     (if \<not> writer then Inl NotWriter
      else
        let verified = (case get_chain_meta db chain of Some m \<Rightarrow> cm_verified m | None \<Rightarrow> True)
        in if verified then Inl (VerifiedNoDelete chain)
           else and_then (ok_or (EntryNotFound chain seq) (get_entry db chain seq)) (\<lambda>rec.
             let batch = (if retract_edges \<and> en_edges rec \<noteq> []
                   then fst (snd (apply_edge_deltas db
                          (map (\<lambda>e. e\<lparr> ed_weight := 0, ed_op := Delete \<rparr>) (en_edges rec)) ([], Map.empty)))
                   else [])
             in Inr ((commit_graph batch db)\<lparr> ev_entries := del_assoc (chain, seq) (ev_entries db) \<rparr>)))"

end
