(* ===== verification/Evidence_Log.thy ===== *)
theory Evidence_Log
  imports Evidence_Chain
begin

text \<open>
  The invariant of the evidence store and its preservation. On a verified chain the sequence numbers
  are dense, every entry carries its leaf hash, the stored frontier is the frontier of the leaves
  and the stored nodes are the roots of all complete subtrees; an append extends the list of leaves
  and no operation changes a leaf already there.
\<close>

section \<open>Leaves of a chain\<close>

definition leaf_of :: "hasher \<Rightarrow> entry_input \<Rightarrow> bytes" where
  "leaf_of sha e = leaf_hash sha (ei_etype e) (ei_payload e) (ei_at e) (ei_edges e)"

definition verified_chain :: "evidence_db \<Rightarrow> bytes \<Rightarrow> bool" where
  "verified_chain db chain = (case get_chain_meta db chain of Some m \<Rightarrow> cm_verified m | None \<Rightarrow> True)"

definition leaf_at :: "evidence_db \<Rightarrow> bytes \<Rightarrow> int \<Rightarrow> bytes" where
  "leaf_at db chain seq =
     (case Option.bind (get_entry db chain seq) en_leaf_hash of Some h \<Rightarrow> h | None \<Rightarrow> [])"

definition chain_leaves :: "evidence_db \<Rightarrow> bytes \<Rightarrow> bytes list" where
  "chain_leaves db chain = map (\<lambda>i. leaf_at db chain (int i + 1)) [0 ..< nat (get_seq db chain)]"

definition frontier_at :: "evidence_db \<Rightarrow> bytes \<Rightarrow> frontier" where
  "frontier_at db chain = (case get_frontier db chain of None \<Rightarrow> frontier_default | Some f \<Rightarrow> f)"

lemma length_chain_leaves [simp]: "length (chain_leaves db chain) = nat (get_seq db chain)"
  by (simp add: chain_leaves_def)

section \<open>The invariant\<close>

definition idem_ok :: "evidence_db \<Rightarrow> bytes \<Rightarrow> idem_record \<Rightarrow> bool" where
  "idem_ok db chain rec \<longleftrightarrow> (let b = id_base_seq rec; n = int (length (id_seqs rec)) in
     0 \<le> b \<and> 0 < n \<and> b + n \<le> get_seq db chain \<and> id_seqs rec = [b + 1 .. b + n])"

definition chain_inv :: "hasher \<Rightarrow> evidence_db \<Rightarrow> bytes \<Rightarrow> bool" where
  "chain_inv sha db chain \<longleftrightarrow>
     0 \<le> get_seq db chain \<and> (get_chain_meta db chain = None \<longrightarrow> get_seq db chain = 0) \<and>
     (\<forall>s. get_entry db chain s \<noteq> None \<longrightarrow> 1 \<le> s \<and> s \<le> get_seq db chain) \<and>
     (\<forall>k rec. get_idem db chain k = Some rec \<longrightarrow> idem_ok db chain rec) \<and>
     (verified_chain db chain \<longrightarrow> holds_tree sha db chain (chain_leaves db chain)
        \<and> frontier_at db chain = frontier_of sha (chain_leaves db chain))"

definition evidence_inv :: "hasher \<Rightarrow> evidence_db \<Rightarrow> bool" where
  "evidence_inv sha db \<longleftrightarrow> graph_inv db \<and> distinct (map fst (ev_entries db)) \<and> (\<forall>c. chain_inv sha db c)"

lemmas read_defs = get_chain_meta_def get_seq_def get_entry_def get_idem_def get_frontier_def
  get_merkle_node_def

lemma evidence_inv_empty: "evidence_inv sha empty_evidence"
  by (simp add: evidence_inv_def graph_inv_def edges_of_def chain_inv_def empty_evidence_def
      read_defs holds_tree_def nodes_complete_def chain_leaves_def frontier_at_def frontier_of_Nil)

lemma nth_chain_leaves: "i < nat (get_seq db c) \<Longrightarrow> chain_leaves db c ! i = leaf_at db c (int i + 1)"
  by (simp add: chain_leaves_def)

lemma holds_tree_leaves:
  "holds_tree sha db c (chain_leaves db c) \<longleftrightarrow>
     (\<forall>i < nat (get_seq db c). Option.bind (get_entry db c (int i + 1)) en_leaf_hash \<noteq> None)
     \<and> nodes_complete sha (ev_nodes db) c (chain_leaves db c)"
proof -
  have eq: "map_option en_leaf_hash x = Some (Some (case Option.bind x en_leaf_hash of Some h \<Rightarrow> h | None \<Rightarrow> []))
      \<longleftrightarrow> Option.bind x en_leaf_hash \<noteq> None" for x
    by (cases x) (auto split: option.splits)
  show ?thesis unfolding holds_tree_def
    by (simp add: nth_chain_leaves leaf_at_def eq del: map_option_eq_Some not_None_eq)
qed

text \<open>What the invariant of a chain reads of the store.\<close>

lemma chain_inv_cong:
  assumes "get_seq db' c = get_seq db c" and "get_chain_meta db' c = get_chain_meta db c"
    and "\<And>s. get_entry db' c s = None \<longleftrightarrow> get_entry db c s = None"
    and "\<And>s. Option.bind (get_entry db' c s) en_leaf_hash = Option.bind (get_entry db c s) en_leaf_hash"
    and "\<And>k. get_idem db' c k = get_idem db c k"
    and "get_frontier db' c = get_frontier db c" and "\<And>l i. ev_nodes db' (c, l, i) = ev_nodes db (c, l, i)"
  shows "chain_leaves db' c = chain_leaves db c" and "chain_inv sha db' c = chain_inv sha db c"
proof -
  show l: "chain_leaves db' c = chain_leaves db c"
    using assms by (simp add: chain_leaves_def leaf_at_def)
  have "holds_tree sha db' c (chain_leaves db' c) = holds_tree sha db c (chain_leaves db c)"
    using assms unfolding holds_tree_leaves nodes_complete_def by (simp add: l)
  then show "chain_inv sha db' c = chain_inv sha db c"
    using assms unfolding chain_inv_def idem_ok_def verified_chain_def frontier_at_def by (simp add: l)
qed

section \<open>Pieces of an append\<close>

lemma map_of_put_entries:
  assumes "length recs = n"
  shows "map_of (put_entries chain (zip [b + 1 .. b + int n] recs) es) (c, s) =
    (if c = chain \<and> b < s \<and> s \<le> b + int n then Some (recs ! nat (s - b - 1)) else map_of es (c, s))"
  using assms
proof (induction recs arbitrary: n b es)
  case Nil
  then show ?case by auto
next
  case (Cons r recs)
  then obtain m where n: "n = Suc m" and m: "length recs = m" by auto
  have up: "[b + 1 .. b + int n] = (b + 1) # [(b + 1) + 1 .. (b + 1) + int m]"
    using upto_rec1 [of "b + 1" "b + int n"] n by (simp add: ac_simps)
  have nth: "(r # recs) ! nat (s - b - 1) = recs ! nat (s - (b + 1) - 1)" if "b + 1 < s"
  proof -
    have "nat (s - b - 1) = Suc (nat (s - (b + 1) - 1))" using that by linarith
    then show ?thesis by simp
  qed
  show ?case
    unfolding up zip_Cons_Cons put_entries.simps Cons.IH [OF m] using nth n by auto
qed

lemma distinct_put_entries: "distinct (map fst es) \<Longrightarrow> distinct (map fst (put_entries chain rs es))"
  by (induction chain rs es rule: put_entries.induct) simp_all

lemma push_leaves_spec:
  "nodes_complete sha nodes chain xs \<Longrightarrow>
     \<exists>nodes'. push_leaves sha chain lhs (frontier_of sha xs, nodes) = Some (frontier_of sha (xs @ lhs), nodes')
       \<and> nodes_complete sha nodes' chain (xs @ lhs)
       \<and> (\<forall>c l i. c \<noteq> chain \<longrightarrow> nodes' (c, l, i) = nodes (c, l, i))"
proof (induction lhs arbitrary: xs nodes)
  case Nil
  then show ?case by simp
next
  case (Cons lh lhs)
  have step: "push_leaves sha chain (lh # lhs) (frontier_of sha xs, nodes)
      = push_leaves sha chain lhs (frontier_of sha (xs @ [lh]),
          put_nodes chain (emitted_nodes sha 0 xs lh) nodes)"
    by (simp add: push_emit_frontier_of)
  from Cons.IH [OF nodes_complete_push [OF Cons.prems], of lh] show ?case
    unfolding step by auto
qed

lemma entry_of_simps [simp]:
  "en_leaf_hash (entry_of sha True e) = Some (leaf_of sha e)"
  "en_edges (entry_of sha v e) = ei_edges e"
  by (simp_all add: entry_of_def leaf_of_def)

lemma map_filter_leaves: "List.map_filter en_leaf_hash (map (entry_of sha True) es) = map (leaf_of sha) es"
  by (induction es) (simp_all add: List.map_filter_simps)

text \<open>Committing graph writes leaves the rest of the store alone.\<close>

lemma graph_write_step_more [simp]: "graph_db.more (graph_write_step w db) = graph_db.more db"
  by (cases w) simp_all

lemma commit_graph_more [simp]: "graph_db.more (commit_graph b db) = graph_db.more db"
  by (induction b arbitrary: db) simp_all

lemma evidence_fields_eq:
  assumes "graph_db.more db = graph_db.more (db' :: evidence_db)"
  shows "ev_meta db = ev_meta db'" "ev_seq db = ev_seq db'" "ev_entries db = ev_entries db'"
    "ev_idem db = ev_idem db'" "ev_frontier db = ev_frontier db'" "ev_nodes db = ev_nodes db'"
  using assms by (cases db; cases db'; simp)+

lemmas commit_graph_fields [simp] = evidence_fields_eq [OF commit_graph_more]


section \<open>The effect of an append\<close>

text \<open>The state after an append, read field by field.\<close>

definition appended_state ::
  "hasher \<Rightarrow> evidence_db \<Rightarrow> bytes \<Rightarrow> entry_input list \<Rightarrow> bytes option \<Rightarrow> bytes \<Rightarrow> evidence_db \<Rightarrow> bool" where
  "appended_state sha db chain entries idem fp db' \<longleftrightarrow>
     (let base = get_seq db chain; k = int (length entries); v = verified_chain db chain in
     get_seq db' chain = base + k \<and> (\<forall>c. c \<noteq> chain \<longrightarrow> get_seq db' c = get_seq db c) \<and>
     get_chain_meta db' chain = Some \<lparr> cm_verified = v \<rparr> \<and>
     (\<forall>c. c \<noteq> chain \<longrightarrow> get_chain_meta db' c = get_chain_meta db c) \<and>
     (\<forall>c s. get_entry db' c s = (if c = chain \<and> base < s \<and> s \<le> base + k
        then Some (entry_of sha v (entries ! nat (s - base - 1))) else get_entry db c s)) \<and>
     (\<forall>c key. get_idem db' c key = (if c = chain \<and> idem = Some key
        then Some \<lparr> id_base_seq = base, id_seqs = [base + 1 .. base + k], id_fingerprint = fp \<rparr>
        else get_idem db c key)) \<and>
     (\<forall>c. c \<noteq> chain \<longrightarrow> get_frontier db' c = get_frontier db c
        \<and> (\<forall>l i. ev_nodes db' (c, l, i) = ev_nodes db (c, l, i))) \<and>
     (v \<longrightarrow> frontier_at db' chain = frontier_of sha (chain_leaves db chain @ map (leaf_of sha) entries)
        \<and> nodes_complete sha (ev_nodes db') chain (chain_leaves db chain @ map (leaf_of sha) entries)) \<and>
     graph_inv db' \<and> edges_of db' = fold edge_step (concat (map ei_edges entries)) (edges_of db) \<and>
     distinct (map fst (ev_entries db')))"

lemma append_batch_merkle:
  assumes inv: "chain_inv sha db chain" and v: "v = verified_chain db chain"
    and leaves: "leaves = List.map_filter en_leaf_hash (map (entry_of sha v) entries)"
  defines "merkle \<equiv> if v
      then map_option (\<lambda>(f, nodes). ((ev_frontier db)(chain \<mapsto> f), nodes))
             (push_leaves sha chain leaves (frontier_at db chain, ev_nodes db))
      else Some (ev_frontier db, ev_nodes db)"
  shows "\<exists>frontiers nodes. merkle = Some (frontiers, nodes)
    \<and> (\<forall>c. c \<noteq> chain \<longrightarrow> frontiers c = ev_frontier db c)
    \<and> (\<forall>c l i. c \<noteq> chain \<longrightarrow> nodes (c, l, i) = ev_nodes db (c, l, i))
    \<and> (v \<longrightarrow> frontiers chain = Some (frontier_of sha (chain_leaves db chain @ map (leaf_of sha) entries))
         \<and> nodes_complete sha nodes chain (chain_leaves db chain @ map (leaf_of sha) entries))"
proof (cases v)
  case True
  have tree: "nodes_complete sha (ev_nodes db) chain (chain_leaves db chain)"
    and fr: "frontier_at db chain = frontier_of sha (chain_leaves db chain)"
    using inv True v by (simp_all add: chain_inv_def holds_tree_def)
  have "leaves = map (leaf_of sha) entries" using leaves True by (simp add: map_filter_leaves)
  with push_leaves_spec [OF tree, of leaves] fr True show ?thesis
    unfolding merkle_def by fastforce
next
  case False
  then show ?thesis by (simp add: merkle_def)
qed

lemma append_batch_spec:
  assumes inv: "evidence_inv sha db"
  shows "\<exists>db'. append_batch sha db chain entries idem fp
      = Inr (db', \<lparr> ap_base_seq = get_seq db chain,
                   ap_seqs = [get_seq db chain + 1 .. get_seq db chain + int (length entries)] \<rparr>)
    \<and> appended_state sha db chain entries idem fp db'"
proof -
  define v where "v = verified_chain db chain"
  define recs where "recs = map (entry_of sha v) entries"
  define base where "base = get_seq db chain"
  define k where "k = int (length entries)"
  define edges where "edges = concat (map en_edges recs)"
  define leaves where "leaves = List.map_filter en_leaf_hash recs"
  have edges: "edges = concat (map ei_edges entries)" by (simp add: edges_def recs_def o_def)
  obtain n batch overlay where run: "apply_edge_deltas db edges ([], Map.empty) = (n, batch, overlay)"
    by (cases "apply_edge_deltas db edges ([], Map.empty)") auto
  have lv: "leaves = List.map_filter en_leaf_hash (map (entry_of sha v) entries)"
    by (simp add: leaves_def recs_def)
  have ci: "chain_inv sha db chain" and "graph_inv db" using inv by (simp_all add: evidence_inv_def)
  note graph = apply_from_empty [OF \<open>graph_inv db\<close> run]
  obtain frontiers nodes where merkle: "(if v
      then map_option (\<lambda>(f, nodes). ((ev_frontier db)(chain \<mapsto> f), nodes))
             (push_leaves sha chain leaves (frontier_at db chain, ev_nodes db))
      else Some (ev_frontier db, ev_nodes db)) = Some (frontiers, nodes)"
    and other: "\<forall>c. c \<noteq> chain \<longrightarrow> frontiers c = ev_frontier db c"
      "\<forall>c l i. c \<noteq> chain \<longrightarrow> nodes (c, l, i) = ev_nodes db (c, l, i)"
    and tree: "v \<longrightarrow> frontiers chain = Some (frontier_of sha (chain_leaves db chain @ map (leaf_of sha) entries))
         \<and> nodes_complete sha nodes chain (chain_leaves db chain @ map (leaf_of sha) entries)"
    using append_batch_merkle [OF ci v_def lv] by blast
  define meta where "meta = (if get_chain_meta db chain = None then (ev_meta db)(chain \<mapsto> \<lparr> cm_verified = True \<rparr>)
      else ev_meta db)"
  define idems where "idems = (case idem of None \<Rightarrow> ev_idem db
      | Some key \<Rightarrow> (ev_idem db)((chain, key) \<mapsto>
          \<lparr> id_base_seq = base, id_seqs = [base + 1 .. base + k], id_fingerprint = fp \<rparr>))"
  define seqmap where "seqmap = (ev_seq db)(chain \<mapsto> base + k)"
  define es where "es = put_entries chain (zip [base + 1 .. base + k] recs) (ev_entries db)"
  define db' where "db' = (commit_graph batch db)\<lparr> ev_meta := meta, ev_seq := seqmap, ev_entries := es,
      ev_idem := idems, ev_frontier := frontiers, ev_nodes := nodes \<rparr>"
  have res: "append_batch sha db chain entries idem fp
      = Inr (db', \<lparr> ap_base_seq = base, ap_seqs = [base + 1 .. base + k] \<rparr>)"
    using merkle run
    unfolding append_batch_def Let_def v_def [unfolded verified_chain_def, symmetric]
      recs_def [symmetric] leaves_def [symmetric] edges_def [symmetric]
      frontier_at_def [symmetric] base_def [symmetric] k_def [symmetric] meta_def [symmetric]
      idems_def [symmetric] seqmap_def [symmetric] es_def [symmetric]
    by (simp add: db'_def)
  have "appended_state sha db chain entries idem fp db'"
  proof -
    have reads: "get_seq db' chain = base + k" "\<And>c. c \<noteq> chain \<Longrightarrow> get_seq db' c = get_seq db c"
      "\<And>c. c \<noteq> chain \<Longrightarrow> get_chain_meta db' c = get_chain_meta db c"
      "\<And>c. c \<noteq> chain \<Longrightarrow> get_frontier db' c = get_frontier db c"
      "\<And>c l i. c \<noteq> chain \<Longrightarrow> ev_nodes db' (c, l, i) = ev_nodes db (c, l, i)"
      "get_chain_meta db' chain = Some \<lparr> cm_verified = v \<rparr>"
      by (auto simp: db'_def seqmap_def meta_def read_defs other v_def verified_chain_def)
    have entries: "get_entry db' c s = (if c = chain \<and> base < s \<and> s \<le> base + k
        then Some (entry_of sha v (entries ! nat (s - base - 1))) else get_entry db c s)" for c s
      using map_of_put_entries [of recs "length entries" chain base "ev_entries db" c s]
      by (auto simp: db'_def es_def k_def recs_def get_entry_def)
    have idem: "get_idem db' c key = (if c = chain \<and> idem = Some key
        then Some \<lparr> id_base_seq = base, id_seqs = [base + 1 .. base + k], id_fingerprint = fp \<rparr>
        else get_idem db c key)" for c key
      by (auto simp: db'_def idems_def get_idem_def split: option.splits)
    have graphs: "graph_inv db'" "edges_of db' = fold edge_step edges (edges_of db)"
      using graph by (simp_all add: db'_def graph_inv_def edges_of_def)
    have "frontier_at db' chain = frontier_of sha (chain_leaves db chain @ map (leaf_of sha) entries)"
      "nodes_complete sha (ev_nodes db') chain (chain_leaves db chain @ map (leaf_of sha) entries)" if v
      using tree that by (simp_all add: db'_def frontier_at_def get_frontier_def)
    moreover have "distinct (map fst (ev_entries db'))"
      using inv by (simp add: db'_def es_def evidence_inv_def distinct_put_entries)
    ultimately show ?thesis
      using reads entries idem graphs
      unfolding appended_state_def Let_def base_def [symmetric] k_def [symmetric] v_def [symmetric]
        edges [symmetric] by blast
  qed
  then show ?thesis using res by (simp add: base_def k_def)
qed


section \<open>Appends keep the invariant\<close>

lemma appended_stateD:
  assumes "appended_state sha db chain entries idem fp db'"
  defines "base \<equiv> get_seq db chain" and "k \<equiv> int (length entries)" and "v \<equiv> verified_chain db chain"
  shows "get_seq db' chain = base + k" and "\<And>c. c \<noteq> chain \<Longrightarrow> get_seq db' c = get_seq db c"
    and "get_chain_meta db' chain = Some \<lparr> cm_verified = v \<rparr>"
    and "\<And>c. c \<noteq> chain \<Longrightarrow> get_chain_meta db' c = get_chain_meta db c"
    and "\<And>c s. get_entry db' c s = (if c = chain \<and> base < s \<and> s \<le> base + k
        then Some (entry_of sha v (entries ! nat (s - base - 1))) else get_entry db c s)"
    and "\<And>c key. get_idem db' c key = (if c = chain \<and> idem = Some key
        then Some \<lparr> id_base_seq = base, id_seqs = [base + 1 .. base + k], id_fingerprint = fp \<rparr>
        else get_idem db c key)"
    and "\<And>c. c \<noteq> chain \<Longrightarrow> get_frontier db' c = get_frontier db c"
    and "\<And>c l i. c \<noteq> chain \<Longrightarrow> ev_nodes db' (c, l, i) = ev_nodes db (c, l, i)"
    and "v \<Longrightarrow> frontier_at db' chain = frontier_of sha (chain_leaves db chain @ map (leaf_of sha) entries)"
    and "v \<Longrightarrow> nodes_complete sha (ev_nodes db') chain (chain_leaves db chain @ map (leaf_of sha) entries)"
    and "graph_inv db'" and "edges_of db' = fold edge_step (concat (map ei_edges entries)) (edges_of db)"
    and "distinct (map fst (ev_entries db'))"
  using assms(1) unfolding appended_state_def Let_def base_def k_def v_def by metis+

lemma appended_other:
  assumes "appended_state sha db chain entries idem fp db'" and "c \<noteq> chain"
  shows "chain_leaves db' c = chain_leaves db c" and "chain_inv sha db' c = chain_inv sha db c"
    and "verified_chain db' c = verified_chain db c"
  using appended_stateD [OF assms(1)] assms(2) chain_inv_cong [of db' c db]
  by (simp_all add: verified_chain_def)

lemma appended_leaves:
  assumes inv: "chain_inv sha db chain" and app: "appended_state sha db chain entries idem fp db'"
    and v: "verified_chain db chain"
  shows "chain_leaves db' chain = chain_leaves db chain @ map (leaf_of sha) entries"
proof (rule nth_equalityI)
  define base where "base = get_seq db chain"
  note a = appended_stateD [OF app, folded base_def]
  have base: "0 \<le> base" using inv by (simp add: chain_inv_def base_def)
  have len: "length (chain_leaves db chain) = nat base" by (simp add: base_def)
  show l: "length (chain_leaves db' chain) = length (chain_leaves db chain @ map (leaf_of sha) entries)"
    using a(1) base len by (simp add: nat_add_distrib)
  fix i
  assume "i < length (chain_leaves db' chain)"
  then have i: "i < nat (get_seq db' chain)" "int i < base + int (length entries)"
    using a(1) by simp_all
  show "chain_leaves db' chain ! i = (chain_leaves db chain @ map (leaf_of sha) entries) ! i"
  proof (cases "int i < base")
    case True
    then have "i < nat base" by linarith
    moreover have "leaf_at db' chain (int i + 1) = leaf_at db chain (int i + 1)"
      using True by (simp add: leaf_at_def a(5))
    ultimately show ?thesis
      using nth_chain_leaves [OF i(1)] len by (simp add: nth_append nth_chain_leaves base_def)
  next
    case False
    then have j: "nat (int i + 1 - base - 1) = i - nat base" "i - nat base < length entries"
      "\<not> i < nat base" "base < int i + 1" "int i + 1 \<le> base + int (length entries)"
      using base i(2) by linarith+
    then have "leaf_at db' chain (int i + 1) = leaf_of sha (entries ! (i - nat base))"
      using v by (simp add: leaf_at_def a(5))
    then show ?thesis
      using nth_chain_leaves [OF i(1)] len j by (simp add: nth_append)
  qed
qed

lemma appended_chain_inv:
  assumes inv: "chain_inv sha db chain" and app: "appended_state sha db chain entries idem fp db'"
    and ne: "entries \<noteq> []"
  shows "chain_inv sha db' chain"
proof -
  define base where "base = get_seq db chain"
  define k where "k = int (length entries)"
  note a = appended_stateD [OF app, folded base_def k_def]
  have base: "0 \<le> base" and k: "0 < k" using inv ne by (simp_all add: chain_inv_def base_def k_def)
  have bounds: "1 \<le> s \<and> s \<le> base" if "get_entry db chain s \<noteq> None" for s
    using inv that by (simp add: chain_inv_def base_def)
  have entries: "1 \<le> s \<and> s \<le> base + k" if "get_entry db' chain s \<noteq> None" for s
    using that bounds [of s] base k by (auto simp: a(5) split: if_splits)
  have idem: "idem_ok db' chain rec" if "get_idem db' chain key = Some rec" for key rec
  proof (cases "idem = Some key")
    case True
    then have "rec = \<lparr> id_base_seq = base, id_seqs = [base + 1 .. base + k], id_fingerprint = fp \<rparr>"
      using that by (simp add: a(6))
    then show ?thesis using base k a(1) by (simp add: idem_ok_def)
  next
    case False
    then have "idem_ok db chain rec" using that inv by (auto simp: a(6) chain_inv_def)
    then show ?thesis using a(1) k by (auto simp: idem_ok_def Let_def base_def)
  qed
  have vv: "verified_chain db' chain = verified_chain db chain" by (simp add: verified_chain_def a(3))
  have tree: "holds_tree sha db' chain (chain_leaves db' chain)
      \<and> frontier_at db' chain = frontier_of sha (chain_leaves db' chain)" if v: "verified_chain db chain"
  proof -
    note lv = appended_leaves [OF inv app v]
    have old: "\<forall>i < nat base. Option.bind (get_entry db chain (int i + 1)) en_leaf_hash \<noteq> None"
      using inv v by (simp add: chain_inv_def holds_tree_leaves base_def)
    have "Option.bind (get_entry db' chain (int i + 1)) en_leaf_hash \<noteq> None"
      if "i < nat (get_seq db' chain)" for i
    proof (cases "int i < base")
      case True
      then have "i < nat base" by linarith
      then show ?thesis using True old by (simp add: a(5))
    next
      case False
      then have "base < int i + 1" "int i + 1 \<le> base + k" using that a(1) by linarith+
      then show ?thesis using v by (simp add: a(5))
    qed
    then have "holds_tree sha db' chain (chain_leaves db' chain)"
      unfolding holds_tree_leaves using a(10) v by (simp add: lv del: not_None_eq)
    then show ?thesis using a(9) v lv by simp
  qed
  show ?thesis unfolding chain_inv_def using base k a(1,3) entries idem tree vv by auto
qed


lemma appended_inv:
  assumes inv: "evidence_inv sha db" and app: "appended_state sha db chain entries idem fp db'"
    and ne: "entries \<noteq> []"
  shows "evidence_inv sha db'"
proof -
  have "chain_inv sha db c" for c using inv by (simp add: evidence_inv_def)
  then have "chain_inv sha db' c" for c
    using appended_chain_inv [OF _ app ne] appended_other(2) [OF app, of c] by (cases "c = chain") auto
  then show ?thesis using appended_stateD(11,13) [OF app] by (simp add: evidence_inv_def)
qed

section \<open>Runs of the handle\<close>

text \<open>The step relation of the writer: one successful operation that changes the store. The names of
  a dropped graph's neighbours must have lengths that fit their 32-bit length prefix.\<close>

inductive evidence_step :: "hasher \<Rightarrow> evidence_db \<Rightarrow> evidence_db \<Rightarrow> bool" for sha where
  step_create: "create_chain True db chain verified = Inr db' \<Longrightarrow> evidence_step sha db db'"
| step_append: "append_entries sha True db chain entries idem = Inr (db', res) \<Longrightarrow> evidence_step sha db db'"
| step_redact: "redact True db chain seq = Inr db' \<Longrightarrow> evidence_step sha db db'"
| step_hard_delete: "hard_delete True db chain seq retract = Inr db' \<Longrightarrow> evidence_step sha db db'"
| step_upsert: "graph_upsert True db graph edges merge = Inr (db', n) \<Longrightarrow> evidence_step sha db db'"
| step_delete: "graph_delete True db graph refs = Inr (db', n) \<Longrightarrow> evidence_step sha db db'"
| step_mutate: "graph_mutate True db graph edges refs merge = Inr (db', n, m) \<Longrightarrow> evidence_step sha db db'"
| step_drop: "drop_graph True ks db graph = Inr (db', n) \<Longrightarrow> graph_short db \<Longrightarrow> short graph \<Longrightarrow>
    evidence_step sha db db'"

text \<open>What every operation keeps: the mode of a chain, its idempotency records, and the leaves of a verified chain as a
  prefix of the leaves afterwards.\<close>

definition extends :: "evidence_db \<Rightarrow> evidence_db \<Rightarrow> bool" where
  "extends db db' \<longleftrightarrow> (\<forall>c. get_seq db c \<le> get_seq db' c
     \<and> (get_chain_meta db c \<noteq> None \<longrightarrow> get_chain_meta db' c = get_chain_meta db c)
     \<and> (\<forall>k rec. get_idem db c k = Some rec \<longrightarrow> get_idem db' c k = Some rec)
     \<and> (verified_chain db c \<and> get_chain_meta db c \<noteq> None \<longrightarrow> prefix (chain_leaves db c) (chain_leaves db' c)))"

lemma extends_refl [simp]: "extends db db"
  by (simp add: extends_def)

lemma extends_trans: "extends a b \<Longrightarrow> extends b c \<Longrightarrow> extends a c"
  unfolding extends_def verified_chain_def by (smt (verit) order_trans prefix_order.order_trans)

lemma same_reads_step:
  assumes "evidence_inv sha db" and "graph_inv db'" and "graph_db.more db' = graph_db.more db"
  shows "evidence_inv sha db' \<and> extends db db'"
proof -
  note f = evidence_fields_eq [OF assms(3)]
  have reads: "get_seq db' c = get_seq db c" "get_chain_meta db' c = get_chain_meta db c"
    "get_entry db' c s = get_entry db c s" "get_idem db' c k = get_idem db c k"
    "get_frontier db' c = get_frontier db c" "ev_nodes db' (c, l, i) = ev_nodes db (c, l, i)" for c s k l i
    by (simp_all add: read_defs f)
  have "chain_leaves db' c = chain_leaves db c" "chain_inv sha db' c = chain_inv sha db c" for c
    using chain_inv_cong [of db' c db] reads by simp_all
  then show ?thesis using assms f reads by (simp add: evidence_inv_def extends_def)
qed

lemma append_step:
  assumes inv: "evidence_inv sha db" and run: "append_entries sha True db chain entries idem = Inr (db', res)"
  shows "evidence_inv sha db' \<and> extends db db'"
proof -
  consider "db' = db" | "entries \<noteq> []" "append_batch sha db chain entries idem (fingerprint sha entries) = Inr (db', res)"
      "\<forall>k. idem = Some k \<longrightarrow> get_idem db chain k = None"
    using run by (auto simp: append_entries_def Let_def split: if_splits option.splits)
  then show ?thesis
  proof cases
    case 1
    then show ?thesis using inv by simp
  next
    case 2
    then have app: "appended_state sha db chain entries idem (fingerprint sha entries) db'"
      using append_batch_spec [OF inv, of chain entries idem "fingerprint sha entries"] by auto
    have "prefix (chain_leaves db c) (chain_leaves db' c)" if "verified_chain db c" for c
      using that appended_leaves [OF _ app] appended_other(1) [OF app, of c] inv
      by (cases "c = chain") (auto simp: evidence_inv_def)
    moreover have "get_chain_meta db' c = get_chain_meta db c" if "get_chain_meta db c \<noteq> None" for c
      using that appended_stateD(3,4) [OF app] by (cases "c = chain") (auto simp: verified_chain_def)
    moreover have "get_seq db c \<le> get_seq db' c" for c
      using appended_stateD(1,2) [OF app] by (cases "c = chain") auto
    moreover have "get_idem db' c k = Some rec" if "get_idem db c k = Some rec" for c k rec
      using that 2(3) appended_stateD(6) [OF app, of c k] by auto
    ultimately show ?thesis using appended_inv [OF inv app 2(1)] by (simp add: extends_def)
  qed
qed


lemma create_step:
  assumes inv: "evidence_inv sha db" and run: "create_chain True db chain verified = Inr db'"
  shows "evidence_inv sha db' \<and> extends db db'"
proof (cases "get_chain_meta db chain")
  case (Some m)
  then show ?thesis using assms by (auto simp: create_chain_def split: if_splits)
next
  case None
  define m where "m = (ev_meta db)(chain \<mapsto> \<lparr> cm_verified = verified \<rparr>)"
  have db': "db' = db\<lparr> ev_meta := m \<rparr>" using run None by (simp add: create_chain_def m_def)
  have reads: "get_seq db' c = get_seq db c" "get_entry db' c s = get_entry db c s"
    "get_idem db' c k = get_idem db c k" "get_frontier db' c = get_frontier db c"
    "ev_nodes db' = ev_nodes db" "get_chain_meta db' c = m c" for c s k
    by (simp_all add: db' read_defs)
  have lv: "chain_leaves db' c = chain_leaves db c" for c
    by (simp add: chain_leaves_def leaf_at_def reads)
  have m: "m c = get_chain_meta db c" if "c \<noteq> chain" for c
    using that by (simp add: m_def get_chain_meta_def)
  have ci: "chain_inv sha db c" for c using inv by (simp add: evidence_inv_def)
  have "verified_chain db chain" using None by (simp add: verified_chain_def)
  then have "chain_inv sha db' c" for c
    using m [of c] None ci [of c]
    unfolding chain_inv_def holds_tree_def idem_ok_def frontier_at_def verified_chain_def lv reads
    by (cases "c = chain") (auto simp: m_def)
  moreover have "graph_inv db' = graph_inv db" "ev_entries db' = ev_entries db"
    by (simp_all add: db' graph_inv_def edges_of_def)
  moreover have "get_chain_meta db' c = get_chain_meta db c" if "get_chain_meta db c \<noteq> None" for c
    using that None m [of c] reads(6) by (cases "c = chain") auto
  ultimately show ?thesis using inv lv reads(1,3) by (simp add: evidence_inv_def extends_def)
qed

lemma redact_step:
  assumes inv: "evidence_inv sha db" and run: "redact True db chain seq = Inr db'"
  shows "evidence_inv sha db' \<and> extends db db'"
proof -
  obtain rec where rec: "get_entry db chain seq = Some rec"
    using run by (cases "get_entry db chain seq") (auto simp: redact_def)
  define rec' where "rec' = rec\<lparr> en_payload := [], en_redacted := True \<rparr>"
  define es where "es = put_assoc (chain, seq) rec' (ev_entries db)"
  have db': "db' = db\<lparr> ev_entries := es \<rparr>" using run rec by (simp add: redact_def rec'_def es_def)
  have reads: "get_seq db' c = get_seq db c" "get_chain_meta db' c = get_chain_meta db c"
    "get_idem db' c k = get_idem db c k" "get_frontier db' c = get_frontier db c"
    "ev_nodes db' = ev_nodes db" "verified_chain db' c = verified_chain db c" for c k
    by (simp_all add: db' read_defs verified_chain_def)
  have entry: "get_entry db' c s = (if (c, s) = (chain, seq) then Some rec' else get_entry db c s)" for c s
    by (auto simp: db' get_entry_def es_def)
  have dom: "get_entry db' c s = None \<longleftrightarrow> get_entry db c s = None"
    and leaf: "Option.bind (get_entry db' c s) en_leaf_hash = Option.bind (get_entry db c s) en_leaf_hash" for c s
    using rec by (auto simp: entry rec'_def)
  have lv: "chain_leaves db' c = chain_leaves db c" for c
    by (simp add: chain_leaves_def leaf_at_def reads leaf)
  have "chain_inv sha db' c = chain_inv sha db c" for c
    by (intro chain_inv_cong(2) reads leaf dom) (simp add: reads)
  moreover have "chain_inv sha db c" for c using inv by (simp add: evidence_inv_def)
  moreover have "graph_inv db' = graph_inv db" "distinct (map fst (ev_entries db'))"
    using inv by (simp_all add: db' graph_inv_def edges_of_def es_def evidence_inv_def)
  ultimately show ?thesis using inv lv reads by (simp add: evidence_inv_def extends_def)
qed

lemma hard_delete_step:
  assumes inv: "evidence_inv sha db" and run: "hard_delete True db chain seq retract = Inr db'"
  shows "evidence_inv sha db' \<and> extends db db'"
proof -
  have plain: "\<not> verified_chain db chain"
    using run by (auto simp: hard_delete_def verified_chain_def Let_def split: if_splits)
  obtain batch where db': "db' = (commit_graph batch db)\<lparr> ev_entries := del_assoc (chain, seq) (ev_entries db) \<rparr>"
    and graph: "graph_inv (commit_graph batch db)"
  proof -
    have g: "graph_inv (commit_graph (fst (snd (apply_edge_deltas db ds ([], Map.empty)))) db)" for ds
      using apply_from_empty(1) [of db ds] inv
      by (cases "apply_edge_deltas db ds ([], Map.empty)") (auto simp: evidence_inv_def)
    have "graph_inv (commit_graph [] db)" using inv by (simp add: evidence_inv_def)
    with g run that [of "[]"] that plain show thesis
      by (cases "get_entry db chain seq")
        (auto simp: hard_delete_def verified_chain_def Let_def split: if_splits)
  qed
  have reads: "get_seq db' c = get_seq db c" "get_chain_meta db' c = get_chain_meta db c"
    "get_idem db' c k = get_idem db c k" "get_frontier db' c = get_frontier db c"
    "ev_nodes db' = ev_nodes db" for c k
    by (simp_all add: db' read_defs)
  have entry: "get_entry db' c s = (if (c, s) = (chain, seq) then None else get_entry db c s)" for c s
    by (auto simp: db' get_entry_def)
  have other: "chain_leaves db' c = chain_leaves db c" "chain_inv sha db' c = chain_inv sha db c" if "c \<noteq> chain" for c
    using chain_inv_cong [of db' c db] reads entry that by simp_all
  have ci: "chain_inv sha db c" for c using inv by (simp add: evidence_inv_def)
  have "chain_inv sha db' chain"
    using ci [of chain] plain unfolding chain_inv_def idem_ok_def verified_chain_def reads entry by auto
  then have "chain_inv sha db' c" for c using other(2) ci by (cases "c = chain") auto
  moreover have "graph_inv db'" "distinct (map fst (ev_entries db'))"
    using inv graph by (simp_all add: db' graph_inv_def edges_of_def evidence_inv_def)
  moreover have "prefix (chain_leaves db c) (chain_leaves db' c)" if "verified_chain db c" for c
    using that plain other(1) by (cases "c = chain") auto
  ultimately show ?thesis using reads by (simp add: evidence_inv_def extends_def)
qed


lemma graph_step:
  assumes inv: "evidence_inv sha db" and graph: "graph_inv db'"
    and db': "db' = db \<or> db' = commit_graph batch db"
  shows "evidence_inv sha db' \<and> extends db db'"
  using same_reads_step [OF inv graph] db' by auto

lemma evidence_step_inv:
  assumes "evidence_step sha db db'" and inv: "evidence_inv sha db"
  shows "evidence_inv sha db' \<and> extends db db'"
  using assms(1)
proof cases
  case (step_create chain verified)
  then show ?thesis by (rule create_step [OF inv])
next
  case (step_append chain entries idem res)
  then show ?thesis by (rule append_step [OF inv])
next
  case (step_redact chain seq)
  then show ?thesis by (rule redact_step [OF inv])
next
  case (step_hard_delete chain seq retract)
  then show ?thesis by (rule hard_delete_step [OF inv])
next
  case (step_upsert graph edges merge n)
  have g: "graph_inv db" using inv by (simp add: evidence_inv_def)
  have "graph_inv db'" using graph_upsert_spec [OF g refl, of graph edges merge] step_upsert by auto
  then show ?thesis
    using step_upsert graph_step [OF inv]
    by (auto simp: graph_upsert_def split: if_splits prod.splits)
next
  case (step_delete graph refs n)
  have g: "graph_inv db" using inv by (simp add: evidence_inv_def)
  have "graph_inv db'" using graph_delete_spec [OF g refl, of graph refs] step_delete by auto
  then show ?thesis
    using step_delete graph_step [OF inv]
    by (auto simp: graph_delete_def split: if_splits prod.splits)
next
  case (step_mutate graph edges refs merge n m)
  have g: "graph_inv db" using inv by (simp add: evidence_inv_def)
  have "graph_inv db'" using graph_mutate_spec [OF g refl refl, of graph edges refs merge] step_mutate by auto
  then show ?thesis
    using step_mutate graph_step [OF inv]
    by (auto simp: graph_mutate_def split: if_splits prod.splits)
next
  case (step_drop ks graph n)
  have g: "graph_inv db" using inv by (simp add: evidence_inv_def)
  have "graph_inv db'" using drop_graph_spec [OF g step_drop(2,3), of ks] step_drop by auto
  then show ?thesis
    using step_drop graph_step [OF inv] by (auto simp: drop_graph_def Let_def split: if_splits)
qed

text \<open>Runs, newest state last.\<close>

lemma run_extends:
  assumes "(evidence_step sha)\<^sup>*\<^sup>* db db'" and "evidence_inv sha db"
  shows "evidence_inv sha db' \<and> extends db db'"
  using assms
proof (induction rule: rtranclp_induct)
  case base
  then show ?case by simp
next
  case (step b c)
  then show ?case using evidence_step_inv [OF step(2)] extends_trans by blast
qed

definition evidence_reachable :: "hasher \<Rightarrow> evidence_db \<Rightarrow> bool" where
  "evidence_reachable sha db \<longleftrightarrow> (evidence_step sha)\<^sup>*\<^sup>* empty_evidence db"

lemma evidence_reachable_inv: "evidence_reachable sha db \<Longrightarrow> evidence_inv sha db"
  using run_extends [OF _ evidence_inv_empty] by (simp add: evidence_reachable_def)

section \<open>Digest and proofs of a chain\<close>

lemma digest_correct:
  assumes "evidence_inv sha db" and "verified_chain db chain"
  shows "digest sha db chain = Inr \<lparr> dg_size = nat (get_seq db chain),
    dg_root = merkle_root sha (chain_leaves db chain) \<rparr>"
proof -
  have fr: "frontier_at db chain = frontier_of sha (chain_leaves db chain)"
    using assms by (simp add: evidence_inv_def chain_inv_def)
  have req: "require_verified db chain = Inr ()"
    using assms(2) by (auto simp: require_verified_def verified_chain_def split: option.splits)
  show ?thesis
  proof (cases "get_frontier db chain")
    case None
    then have "frontier_of sha (chain_leaves db chain) = frontier_default"
      using fr by (simp add: frontier_at_def)
    then have "length (chain_leaves db chain) = 0"
      by (simp add: frontier_of_def frontier_default_def)
    then have "chain_leaves db chain = []" "nat (get_seq db chain) = 0"
      by (metis length_0_conv, metis length_chain_leaves)
    then show ?thesis using None req by (simp add: digest_def merkle_root.simps)
  next
    case (Some f)
    then have "f = frontier_of sha (chain_leaves db chain)" using fr by (simp add: frontier_at_def)
    then show ?thesis
      using Some req by (simp add: digest_def frontier_root_of) (simp add: frontier_of_def)
  qed
qed

lemma inclusion_correct:
  assumes inv: "evidence_inv sha db" and v: "verified_chain db chain"
    and "1 \<le> seq" "seq \<le> n" "n \<le> get_seq db chain"
  shows "\<exists>p. inclusion sha db chain seq (Some n) = Inr \<lparr> ip_seq = seq, ip_size = n, ip_audit_path = p \<rparr>
    \<and> inclusion_proof sha (take (nat n) (chain_leaves db chain)) (nat (seq - 1)) = Some p"
proof -
  have tree: "holds_tree sha db chain (chain_leaves db chain)"
    using inv v by (simp add: evidence_inv_def chain_inv_def)
  have req: "require_verified db chain = Inr ()"
    using v by (auto simp: require_verified_def verified_chain_def split: option.splits)
  obtain p where "incl sha db chain 0 (nat n) (nat (seq - 1)) = Inr p"
    "inclusion_proof sha (take (nat n) (chain_leaves db chain)) (nat (seq - 1)) = Some p"
    using incl_correct [OF tree, of 0 "nat (seq - 1)" "nat n"] assms(3-5) by (auto simp: nat_mono)
  then show ?thesis
    using req assms(3-5) by (simp add: inclusion_def proof_inclusion_def chain_head_def)
qed

lemma consistency_correct:
  assumes inv: "evidence_inv sha db" and v: "verified_chain db chain"
    and "1 \<le> first" "first \<le> n" "n \<le> get_seq db chain"
  shows "consistency sha db chain first (Some n) = Inr \<lparr> cp_first = first, cp_second = n,
    cp_proof = consistency_proof sha (take (nat n) (chain_leaves db chain)) (nat first) \<rparr>"
proof -
  have tree: "holds_tree sha db chain (chain_leaves db chain)"
    using inv v by (simp add: evidence_inv_def chain_inv_def)
  have req: "require_verified db chain = Inr ()"
    using v by (auto simp: require_verified_def verified_chain_def split: option.splits)
  show ?thesis
    using subproof_correct [OF tree, of "nat first" "nat n" 0 True] req assms(3-5)
    by (simp add: consistency_def proof_consistency_def consistency_proof_def chain_head_def nat_mono)
qed

end
