(* ===== verification/Evidence_Scan.thy ===== *)
theory Evidence_Scan
  imports Evidence_Log
begin

text \<open>
  Range scans. Keys of one family are a self-delimiting prefix followed by a tail, and the range that
  starts inside a prefix and ends at its upper bound selects the rows of that prefix from a tail
  on, in the order of the tails. The interface is stated once and provided by the entry keys and by
  both adjacency key families; the range reads of a chain are proved over it.
\<close>

section \<open>The interface of a key family\<close>

lemma in_range_from:
  "in_range (p @ s) (prefix_upper_bound p) k \<longleftrightarrow> (\<exists>x. k = p @ x \<and> s \<le> x)"
proof -
  have "p \<le> k" if "p @ s \<le> k"
    using that prefix_le [of p "p @ s"] by (auto simp: prefix_def)
  then have "in_range (p @ s) (prefix_upper_bound p) k \<longleftrightarrow> p @ s \<le> k \<and> in_range p (prefix_upper_bound p) k"
    by (auto simp: in_range_def)
  also have "\<dots> \<longleftrightarrow> p @ s \<le> k \<and> prefix p k" by (simp add: in_range_prefix_upper_bound)
  also have "\<dots> \<longleftrightarrow> (\<exists>x. k = p @ x \<and> s \<le> x)"
    by (auto simp: prefix_def order_le_less)
  finally show ?thesis .
qed

lemma in_range_between:
  "in_range (p @ s) (Some (p @ e)) k \<longleftrightarrow> (\<exists>x. k = p @ x \<and> s \<le> x \<and> x < e)"
proof
  assume k: "in_range (p @ s) (Some (p @ e)) k"
  have "in_range p (prefix_upper_bound p) (p @ e)" by (simp add: in_range_prefix_upper_bound)
  then have "in_range (p @ s) (prefix_upper_bound p) k"
    using k by (auto simp: in_range_def split: option.splits)
  then obtain x where "k = p @ x" "s \<le> x" unfolding in_range_from by blast
  then show "\<exists>x. k = p @ x \<and> s \<le> x \<and> x < e" using k by (simp add: in_range_def)
qed (auto simp: in_range_def order_le_less)

locale key_family =
  fixes pre :: "'p \<Rightarrow> bytes" and tail :: "'a \<Rightarrow> bytes" and okp :: "'p \<Rightarrow> bool" and oka :: "'a \<Rightarrow> bool"
  assumes pre_free: "okp p \<Longrightarrow> okp q \<Longrightarrow> pre p @ x = pre q @ y \<Longrightarrow> p = q \<and> x = y"
    and tail_inj: "oka a \<Longrightarrow> oka b \<Longrightarrow> tail a = tail b \<Longrightarrow> a = b"
begin

lemma key_inj:
  "okp p \<Longrightarrow> okp q \<Longrightarrow> oka a \<Longrightarrow> oka b \<Longrightarrow> pre p @ tail a = pre q @ tail b \<Longrightarrow> p = q \<and> a = b"
  using pre_free tail_inj by blast

lemma scan_iff:
  assumes "okp p" and "okp q"
  shows "in_range (pre p @ s) (prefix_upper_bound (pre p)) (pre q @ tail a) \<longleftrightarrow> q = p \<and> s \<le> tail a"
  unfolding in_range_from using pre_free [OF assms(2,1)] by blast

lemma scan_between_iff:
  assumes "okp p" and "okp q"
  shows "in_range (pre p @ s) (Some (pre p @ e)) (pre q @ tail a) \<longleftrightarrow> q = p \<and> s \<le> tail a \<and> tail a < e"
  unfolding in_range_between using pre_free [OF assms(2,1)] by blast

lemma key_less_iff: "pre p @ tail a < pre p @ tail b \<longleftrightarrow> tail a < tail b"
  by simp

text \<open>The scan of a prefix: the rows of the prefix from the start tail on, and their tails ascend.\<close>

lemma scan_rows:
  assumes "okp p" and "\<forall>r \<in> set rows. okp (f r) \<and> key r = pre (f r) @ tail (g r)"
  shows "filter (\<lambda>r. in_range (pre p @ s) (prefix_upper_bound (pre p)) (key r)) rows
      = filter (\<lambda>r. f r = p \<and> s \<le> tail (g r)) rows"
    and "sorted (map (tail \<circ> g) (sort_key key (filter (\<lambda>r. f r = p \<and> s \<le> tail (g r)) rows)))"
proof -
  show "filter (\<lambda>r. in_range (pre p @ s) (prefix_upper_bound (pre p)) (key r)) rows
      = filter (\<lambda>r. f r = p \<and> s \<le> tail (g r)) rows"
    using assms scan_iff by (intro filter_cong refl) auto
  let ?rs = "sort_key key (filter (\<lambda>r. f r = p \<and> s \<le> tail (g r)) rows)"
  have "sorted_wrt (\<lambda>x y. key x \<le> key y) ?rs"
    using sorted_sort_key [of key] by (simp add: sorted_map)
  then have "sorted_wrt (\<lambda>x y. tail (g x) \<le> tail (g y)) ?rs"
    using assms(2) by (elim sorted_wrt_mono_rel [rotated]) (auto simp: order_le_less)
  then show "sorted (map (tail \<circ> g) ?rs)" by (simp add: sorted_map)
qed

end

section \<open>The key families of the store\<close>

definition i64_range :: "int \<Rightarrow> bool" where
  "i64_range s \<longleftrightarrow> - (2 ^ 63) \<le> s \<and> s < 2 ^ 63"

lemma i64_be_inj_range: "i64_range s \<Longrightarrow> i64_range t \<Longrightarrow> i64_be s = i64_be t \<Longrightarrow> s = t"
  using i64_be_inj [of s t] by (simp add: i64_range_def)

lemma entry_key_split: "entry_key ks chain seq = entry_prefix ks chain @ i64_be seq"
  by (simp add: entry_key_def entry_prefix_def)

interpretation entry_keys: key_family "entry_prefix ks" i64_be short i64_range for ks
proof
  fix p q x y
  assume "short p" "short q" "entry_prefix ks p @ x = entry_prefix ks q @ y"
  then show "p = q \<and> x = y"
    using seg_prefix_free [of p x q y] by (simp add: entry_prefix_def chain_suffix_seg short_def)
qed (rule i64_be_inj_range)

definition adj_tail :: "i64 \<times> bytes \<times> bytes \<Rightarrow> bytes" where
  "adj_tail = (\<lambda>(w, n, t). weight_obe w @ seg n @ seg t)"

definition adj_ok :: "i64 \<times> bytes \<times> bytes \<Rightarrow> bool" where
  "adj_ok = (\<lambda>(w, n, t). short n \<and> short t)"

definition node_ok :: "bytes \<times> bytes \<Rightarrow> bool" where
  "node_ok = (\<lambda>(g, n). short g \<and> short n)"

lemma adj_tail_inj: "adj_ok a \<Longrightarrow> adj_ok b \<Longrightarrow> adj_tail a = adj_tail b \<Longrightarrow> a = b"
proof -
  assume ok: "adj_ok a" "adj_ok b" and eq: "adj_tail a = adj_tail b"
  obtain w n t w' n' t' where ab: "a = (w, n, t)" "b = (w', n', t')" by (cases a; cases b) auto
  from eq have "weight_obe w = weight_obe w' \<and> seg n @ seg t = seg n' @ seg t'"
    by (simp add: ab adj_tail_def append_eq_append_conv)
  then have "w = w'" "n = n'" "seg t = seg t'"
    using seg_prefix_free [of n "seg t" n' "seg t'"] ok by (auto simp: ab adj_ok_def short_def)
  then show "a = b"
    using seg_prefix_free [of t "[]" t' "[]"] ok by (auto simp: ab adj_ok_def short_def)
qed

lemma node_prefix_free:
  assumes "node_ok p" and "node_ok q"
    and "(case p of (g, n) \<Rightarrow> seg g @ seg n) @ x = (case q of (g, n) \<Rightarrow> seg g @ seg n) @ y"
  shows "p = q \<and> x = y"
proof -
  obtain g n g' n' where pq: "p = (g, n)" "q = (g', n')" by (cases p; cases q) auto
  then have "g = g' \<and> seg n @ x = seg n' @ y"
    using assms seg_prefix_free [of g "seg n @ x" g' "seg n' @ y"] by (simp add: node_ok_def short_def)
  then show ?thesis
    using assms pq seg_prefix_free [of n x n' y] by (simp add: node_ok_def short_def)
qed

interpretation out_keys: key_family "\<lambda>(g, s). graph_out_prefix ks g s" adj_tail node_ok adj_ok for ks
proof
  fix p q x y
  assume "node_ok p" "node_ok q"
    "(case p of (g, s) \<Rightarrow> graph_out_prefix ks g s) @ x = (case q of (g, s) \<Rightarrow> graph_out_prefix ks g s) @ y"
  then show "p = q \<and> x = y"
    using node_prefix_free [of p q x y] by (simp add: graph_out_prefix_def push_lp_seg split: prod.splits)
qed (rule adj_tail_inj)

interpretation in_keys: key_family "\<lambda>(g, d). graph_in_prefix ks g d" adj_tail node_ok adj_ok for ks
proof
  fix p q x y
  assume "node_ok p" "node_ok q"
    "(case p of (g, d) \<Rightarrow> graph_in_prefix ks g d) @ x = (case q of (g, d) \<Rightarrow> graph_in_prefix ks g d) @ y"
  then show "p = q \<and> x = y"
    using node_prefix_free [of p q x y] by (simp add: graph_in_prefix_def push_lp_seg split: prod.splits)
qed (rule adj_tail_inj)

lemma adj_key_split:
  "graph_out_key ks g s w d t = graph_out_prefix ks g s @ adj_tail (w, d, t)"
  "graph_in_key ks g d w s t = graph_in_prefix ks g d @ adj_tail (w, s, t)"
  by (simp_all add: graph_out_key_def graph_in_key_def graph_out_prefix_def graph_in_prefix_def
      adj_tail_def push_lp_seg)


section \<open>Reading a chain\<close>

text \<open>Chain names fit their length prefix and heads fit \<open>i64\<close>.\<close>

definition chains_fit :: "evidence_db \<Rightarrow> bool" where
  "chains_fit db \<longleftrightarrow> (\<forall>row \<in> set (ev_entries db). short (fst (fst row))) \<and> (\<forall>c. get_seq db c \<le> I64_MAX)"

definition entries_between :: "evidence_db \<Rightarrow> bytes \<Rightarrow> int \<Rightarrow> int \<Rightarrow> (int \<times> entry_record) list" where
  "entries_between db chain lo hi = map (\<lambda>s. (s, the (get_entry db chain s)))
     (sorted_list_of_set {s. lo \<le> s \<and> s \<le> hi \<and> get_entry db chain s \<noteq> None})"

lemma append_le_append_iff: "p @ a \<le> p @ b \<longleftrightarrow> a \<le> (b :: bytes)"
  by (auto simp: order_le_less)

lemma i64_roundtrip: "i64_range s \<Longrightarrow> i64_from_be (i64_be s) = s"
  unfolding i64_range_def i64_from_be_def i64_be_def from_be_u64_be
  by (simp add: int_word_sint)

lemma i64_be_le_iff:
  "0 \<le> s \<Longrightarrow> s \<le> I64_MAX \<Longrightarrow> 0 \<le> t \<Longrightarrow> t \<le> I64_MAX \<Longrightarrow> i64_be s \<le> i64_be t \<longleftrightarrow> s \<le> t"
  using i64_be_less_iff [of t s] by (simp add: I64_MAX_def not_less [symmetric])

lemma entry_bounds:
  assumes "evidence_inv sha db" and "chains_fit db" and "((c, s), rec) \<in> set (ev_entries db)"
  shows "get_entry db c s = Some rec" and "1 \<le> s" and "s \<le> I64_MAX" and "short c"
proof -
  show e: "get_entry db c s = Some rec"
    using assms(1,3) by (simp add: get_entry_def evidence_inv_def map_of_eq_Some_iff)
  have "1 \<le> s \<and> s \<le> get_seq db c"
    using assms(1) e unfolding evidence_inv_def chain_inv_def by blast
  moreover have "get_seq db c \<le> I64_MAX" using assms(2) by (simp add: chains_fit_def)
  ultimately show "1 \<le> s" "s \<le> I64_MAX" by linarith+
  show "short c" using assms(2,3) by (fastforce simp: chains_fit_def)
qed

lemma scan_entries_rows:
  assumes inv: "evidence_inv sha db" and fit: "chains_fit db" and "0 \<le> lo"
    and rows: "\<And>c s rec. ((c, s), rec) \<in> set (ev_entries db) \<Longrightarrow>
      in_range start (Some stop) (entry_key ks c s) \<longleftrightarrow> c = chain \<and> lo \<le> s \<and> s \<le> hi"
  shows "scan_entries ks db start stop cap = take cap (entries_between db chain lo hi)"
proof -
  define rs where "rs = sort_key (entry_row_key ks)
      (filter (\<lambda>row. in_range start (Some stop) (entry_row_key ks row)) (ev_entries db))"
  define f where "f = (\<lambda>row :: (bytes \<times> int) \<times> entry_record. (snd (fst row), snd row))"
  have set: "((c, s), rec) \<in> set rs \<longleftrightarrow>
      ((c, s), rec) \<in> set (ev_entries db) \<and> c = chain \<and> lo \<le> s \<and> s \<le> hi" for c s rec
    using rows by (auto simp: rs_def)
  have row: "get_entry db chain s = Some rec" "0 \<le> s" "s \<le> I64_MAX" "c = chain"
    if "((c, s), rec) \<in> set rs" for c s rec
    using entry_bounds [OF inv fit, of c s rec] that set by auto
  have keys: "(let key = entry_row_key ks r in (i64_from_be (drop (length key - 8) key), snd r)) = f r"
    if "r \<in> set rs" for r
  proof -
    obtain c s rec where r: "r = ((c, s), rec)" by (cases r) auto
    have "i64_range s" using row [of c s rec] that r by (simp add: i64_range_def I64_MAX_def)
    then show ?thesis by (simp add: r f_def entry_key_split i64_roundtrip)
  qed
  have sorted: "sorted (map (fst \<circ> f) rs)"
  proof -
    have "sorted_wrt (\<lambda>x y. entry_row_key ks x \<le> entry_row_key ks y) rs"
      using sorted_sort_key [of "entry_row_key ks"] by (simp add: sorted_map rs_def)
    then have "sorted_wrt (\<lambda>x y. fst (f x) \<le> fst (f y)) rs"
    proof (rule sorted_wrt_mono_rel [rotated])
      fix x y
      assume xy: "x \<in> set rs" "y \<in> set rs" and le: "entry_row_key ks x \<le> entry_row_key ks y"
      obtain c s r where x: "x = ((c, s), r)" by (cases x) auto
      obtain d t q where y: "y = ((d, t), q)" by (cases y) auto
      have "i64_be s \<le> i64_be t"
        using le row(4) [of c s r] row(4) [of d t q] xy x y by (simp add: entry_key_split append_le_append_iff)
      then show "fst (f x) \<le> fst (f y)"
        using row [of c s r] row [of d t q] xy x y by (simp add: f_def i64_be_le_iff)
    qed
    then show ?thesis by (simp add: sorted_map)
  qed
  have "distinct (map fst rs)"
    using inv by (simp add: rs_def evidence_inv_def distinct_map inj_on_subset [of _ "set (ev_entries db)"])
  moreover have "map fst rs = map (Pair chain) (map (fst \<circ> f) rs)" using row(4) by (auto simp: f_def)
  ultimately have distinct: "distinct (map (fst \<circ> f) rs)" by (metis distinct_map)
  have range: "set (map (fst \<circ> f) rs) = {s. lo \<le> s \<and> s \<le> hi \<and> get_entry db chain s \<noteq> None}" (is "?A = ?S")
  proof (intro set_eqI iffI)
    fix s
    assume "s \<in> ?A"
    then obtain c rec where "((c, s), rec) \<in> set rs" by (auto simp: f_def)
    then show "s \<in> ?S" using set [of c s rec] row(1) [of c s rec] by auto
  next
    fix s
    assume s: "s \<in> ?S"
    then obtain rec where "((chain, s), rec) \<in> set (ev_entries db)"
      by (auto simp: get_entry_def dest: map_of_SomeD)
    then have "((chain, s), rec) \<in> set rs" using set [of chain s rec] s by simp
    then show "s \<in> ?A" by (force simp: f_def)
  qed
  have "map (fst \<circ> f) rs = sorted_list_of_set ?S"
    unfolding range [symmetric]
    by (rule sorted_list_of_set.idem_if_sorted_distinct [OF sorted distinct, symmetric])
  moreover have "map f rs = map (\<lambda>s. (s, the (get_entry db chain s))) (map (fst \<circ> f) rs)"
    using row(1) by (auto simp: f_def)
  ultimately have "map f rs = entries_between db chain lo hi" by (simp add: entries_between_def)
  moreover have "scan_entries ks db start stop cap = take cap (map f rs)"
    unfolding scan_entries_def rs_def [symmetric] take_map [symmetric]
    using keys by (intro arg_cong [where f = "take cap"] map_cong refl)
  ultimately show ?thesis by simp
qed


lemma entry_prefix_end_Some: "entry_prefix_end ks chain = Some e \<Longrightarrow> Some e = prefix_upper_bound (entry_prefix ks chain)"
  by (simp add: entry_prefix_end_def)

lemma upper_bound_rev_Some: "\<exists>b \<in> set xs. b < 0xFF \<Longrightarrow> \<exists>e. upper_bound_rev xs = Some e"
  by (induction xs) auto

lemma entry_prefix_end_total: "\<exists>e. entry_prefix_end ks chain = Some e"
  unfolding entry_prefix_end_def prefix_upper_bound_def entry_prefix_def tagged_def
  by (rule upper_bound_rev_Some) (auto simp: evidence_tag_defs word_less_nat_alt)

lemma entries_between_short:
  assumes "evidence_inv sha db" and "chains_fit db"
  shows "take USIZE_MAX (entries_between db chain lo hi) = entries_between db chain lo hi"
proof -
  have seq: "1 \<le> s \<and> s \<le> I64_MAX" if "get_entry db chain s \<noteq> None" for s
  proof -
    have "1 \<le> s \<and> s \<le> get_seq db chain" using assms(1) that unfolding evidence_inv_def chain_inv_def by blast
    moreover have "get_seq db chain \<le> I64_MAX" using assms(2) by (simp add: chains_fit_def)
    ultimately show ?thesis by linarith
  qed
  let ?S = "{s. lo \<le> s \<and> s \<le> hi \<and> get_entry db chain s \<noteq> None}"
  have "?S \<subseteq> {1 .. I64_MAX}" using seq by auto
  then have "card ?S \<le> card {1 .. I64_MAX}" by (intro card_mono) auto
  then have "length (entries_between db chain lo hi) \<le> USIZE_MAX"
    by (simp add: entries_between_def I64_MAX_def USIZE_MAX_def)
  then show ?thesis by simp
qed

lemma read_range_spec:
  assumes inv: "evidence_inv sha db" and fit: "chains_fit db" "short chain"
    and "0 \<le> lo" and "hi \<le> I64_MAX"
  shows "read_range ks db chain lo hi = Inr (entries_between db chain lo hi)"
proof (cases "hi < lo")
  case True
  then have "{s. lo \<le> s \<and> s \<le> hi \<and> get_entry db chain s \<noteq> None} = {}" by auto
  then have "entries_between db chain lo hi = []" unfolding entries_between_def by (elim ssubst) simp
  then show ?thesis using True by (simp add: read_range_def)
next
  case False
  have all: "scan_entries ks db (entry_key ks chain lo) stop USIZE_MAX = entries_between db chain lo hi"
    if "\<And>c s rec. ((c, s), rec) \<in> set (ev_entries db) \<Longrightarrow>
      in_range (entry_key ks chain lo) (Some stop) (entry_key ks c s) \<longleftrightarrow> c = chain \<and> lo \<le> s \<and> s \<le> hi" for stop
    using scan_entries_rows [OF inv fit(1) assms(4) that] entries_between_short [OF inv fit(1)] by simp
  show ?thesis
  proof (cases "hi < I64_MAX")
    case True
    have "in_range (entry_key ks chain lo) (Some (entry_key ks chain (hi + 1))) (entry_key ks c s)
        \<longleftrightarrow> c = chain \<and> lo \<le> s \<and> s \<le> hi" if "((c, s), rec) \<in> set (ev_entries db)" for c s rec
      using entry_bounds [OF inv fit(1) that] assms(4) True False
        entry_keys.scan_between_iff [OF fit(2), of c ks "i64_be lo" "i64_be (hi + 1)" s]
      by (auto simp: entry_key_split i64_be_le_iff not_le [symmetric])
    then show ?thesis using True False all by (simp add: read_range_def)
  next
    case top: False
    obtain e where e: "entry_prefix_end ks chain = Some e" using entry_prefix_end_total by blast
    have "in_range (entry_key ks chain lo) (Some e) (entry_key ks c s) \<longleftrightarrow> c = chain \<and> lo \<le> s \<and> s \<le> hi"
      if "((c, s), rec) \<in> set (ev_entries db)" for c s rec
      using entry_bounds [OF inv fit(1) that] assms(4,5) top False
        entry_keys.scan_iff [OF fit(2), of c ks "i64_be lo" s] entry_prefix_end_Some [OF e]
      by (auto simp: entry_key_split i64_be_le_iff)
    then show ?thesis using top False all e by (simp add: read_range_def)
  qed
qed

lemma read_from_spec:
  assumes inv: "evidence_inv sha db" and fit: "chains_fit db" "short chain"
    and "- 1 \<le> after" and "after < I64_MAX"
  shows "read_from ks db chain after limit
    = Inr (take (min (case limit of None \<Rightarrow> MAX_PAGE | Some l \<Rightarrow> l) MAX_PAGE)
        (entries_between db chain (after + 1) I64_MAX))"
proof -
  obtain e where e: "entry_prefix_end ks chain = Some e" using entry_prefix_end_total by blast
  have "in_range (entry_key ks chain (after + 1)) (Some e) (entry_key ks c s)
      \<longleftrightarrow> c = chain \<and> after + 1 \<le> s \<and> s \<le> I64_MAX" if "((c, s), rec) \<in> set (ev_entries db)" for c s rec
    using entry_bounds [OF inv fit(1) that] assms(4,5)
      entry_keys.scan_iff [OF fit(2), of c ks "i64_be (after + 1)" s] entry_prefix_end_Some [OF e]
    by (auto simp: entry_key_split i64_be_le_iff)
  from scan_entries_rows [OF inv fit(1) _ this, of _ "min (case limit of None \<Rightarrow> MAX_PAGE | Some l \<Rightarrow> l) MAX_PAGE"]
  show ?thesis using assms(4,5) e by (simp add: read_from_def Let_def min_def)
qed


text \<open>A negative lower bound encodes above every non-negative one, so the range is empty.\<close>

lemma i64_be_negative:
  assumes "- (2 ^ 63) \<le> lo" "lo < 0" "0 \<le> t" "t < 2 ^ 63"
  shows "i64_be t < i64_be lo"
proof -
  have "uint (word_of_int lo :: 64 word) = lo + 2 ^ 64"
    using assms(1,2) mod_add_self2 [of lo "2 ^ 64"] mod_pos_pos_trivial [of "lo + 2 ^ 64" "2 ^ 64"]
    by (simp add: uint_word_of_int_eq take_bit_eq_mod)
  moreover have "uint (word_of_int t :: 64 word) = t"
    using assms(3,4) by (simp add: uint_word_of_int_eq take_bit_int_eq_self)
  ultimately show ?thesis
    using assms by (simp add: i64_be_def u64_be_less_iff word_less_def)
qed

lemma read_range_negative_spec:
  assumes "- (2 ^ 63) \<le> lo" and "lo < 0" and "0 \<le> hi" and "hi < I64_MAX"
  shows "read_range ks db chain lo hi = Inr []"
proof -
  have "i64_be (hi + 1) < i64_be lo" using assms by (intro i64_be_negative) (simp_all add: I64_MAX_def)
  then have "\<not> in_range (entry_key ks chain lo) (Some (entry_key ks chain (hi + 1))) k" for k
    by (auto simp: entry_key_split in_range_between)
  then show ?thesis using assms by (simp add: read_range_def scan_entries_def)
qed

end
