(* ===== verification/Evidence_Traverse.thy ===== *)
theory Evidence_Traverse
  imports Evidence_Scan
begin

text \<open>
  Graph traversal, \<open>bluedb-evidence/src/traverse.rs\<close>: the adjacency scan with the decoder of its
  keys, breadth-first reachability and the widest path. The two search loops are partial functions
  whose value is \<open>None\<close> when they do not end; that they end is part of the theorems. The tasks of
  one BFS level finish in an unspecified order, which is a parameter \<open>sched\<close>.
\<close>

section \<open>Decoding adjacency keys\<close>

definition cont :: "u8 \<Rightarrow> bool" where
  "cont b \<longleftrightarrow> 0x80 \<le> b \<and> b \<le> 0xBF"

text \<open>\<open>String::from_utf8\<close>: well-formed UTF-8.\<close>

fun utf8_valid :: "bytes \<Rightarrow> bool" where
  "utf8_valid [] \<longleftrightarrow> True"
| "utf8_valid (b # bs) \<longleftrightarrow>
     (if b < 0x80 then utf8_valid bs
      else case bs of
        [] \<Rightarrow> False
      | c # cs \<Rightarrow>
          (if 0xC2 \<le> b \<and> b \<le> 0xDF then cont c \<and> utf8_valid cs
           else case cs of
             [] \<Rightarrow> False
           | d # ds \<Rightarrow>
               (if 0xE0 \<le> b \<and> b \<le> 0xEF then
                  (if b = 0xE0 then 0xA0 \<le> c \<and> c \<le> 0xBF
                   else if b = 0xED then 0x80 \<le> c \<and> c \<le> 0x9F else cont c)
                  \<and> cont d \<and> utf8_valid ds
                else case ds of
                  [] \<Rightarrow> False
                | e # es \<Rightarrow>
                    0xF0 \<le> b \<and> b \<le> 0xF4 \<and>
                    (if b = 0xF0 then 0x90 \<le> c \<and> c \<le> 0xBF
                     else if b = 0xF4 then 0x80 \<le> c \<and> c \<le> 0x8F else cont c)
                    \<and> cont d \<and> cont e \<and> utf8_valid es)))"

definition read_lp :: "bytes \<Rightarrow> nat \<Rightarrow> evidence_error + bytes \<times> nat" where
  "read_lp buf pos =
     (if length buf < pos + 4 then Inl Storage
      else
        let len = from_be_bytes (take 4 (drop pos buf)); pos1 = pos + 4
        in if length buf < pos1 + len then Inl Storage
           else let bs = take len (drop pos1 buf)
                in if utf8_valid bs then Inr (bs, pos1 + len) else Inl Storage)"

definition parse_adjacency :: "nat \<Rightarrow> bytes \<Rightarrow> evidence_error + bytes \<times> i64 \<times> bytes" where
  "parse_adjacency plen key =
     (let tail = drop plen key
      in if length tail < 8 then Inl Storage
         else let w = weight_from_obe (take 8 tail)
              in and_then (read_lp tail 8) (\<lambda>(neighbor, p).
                 and_then (read_lp tail p) (\<lambda>(etype, p').
                 Inr (neighbor, w, etype))))"

fun map_results :: "('a \<Rightarrow> 'e + 'b) \<Rightarrow> 'a list \<Rightarrow> 'e + 'b list" where
  "map_results f [] = Inr []"
| "map_results f (x # xs) = and_then (f x) (\<lambda>y. and_then (map_results f xs) (\<lambda>ys. Inr (y # ys)))"

text \<open>The keys of the table that the view holds, scanned in byte order.\<close>

definition scan_adjacency :: "bytes list \<Rightarrow> bytes \<Rightarrow> i64 \<Rightarrow> evidence_error + (bytes \<times> i64 \<times> bytes) list" where
  "scan_adjacency keys pre floor =
     (let start = pre @ weight_obe floor; stop = prefix_upper_bound pre
      in map_results (parse_adjacency (length pre)) (sort (filter (in_range start stop) keys)))"

definition out_neighbors ::
  "keyspace \<Rightarrow> 'a graph_db_scheme \<Rightarrow> bytes \<Rightarrow> bytes \<Rightarrow> i64 \<Rightarrow> evidence_error + (bytes \<times> i64 \<times> bytes) list" where
  "out_neighbors ks db graph src floor =
     scan_adjacency (map (out_row_key ks) (gr_out db)) (graph_out_prefix ks graph src) floor"

definition in_neighbors ::
  "keyspace \<Rightarrow> 'a graph_db_scheme \<Rightarrow> bytes \<Rightarrow> bytes \<Rightarrow> i64 \<Rightarrow> evidence_error + (bytes \<times> i64 \<times> bytes) list" where
  "in_neighbors ks db graph dst floor =
     scan_adjacency (map (in_row_key ks) (gr_in db)) (graph_in_prefix ks graph dst) floor"

section \<open>Reachability\<close>

text \<open>The task that scans one node of a level.\<close>

definition scan_node ::
  "keyspace \<Rightarrow> 'a graph_db_scheme \<Rightarrow> bytes \<Rightarrow> i64 \<Rightarrow> bool \<Rightarrow> bytes \<Rightarrow> evidence_error + bytes list" where
  "scan_node ks db graph floor directed node =
     and_then (out_neighbors ks db graph node floor) (\<lambda>os.
       if directed then Inr (map fst os)
       else and_then (in_neighbors ks db graph node floor) (\<lambda>ins. Inr (map fst os @ map fst ins)))"

definition expand_level ::
  "((evidence_error + bytes list) list \<Rightarrow> (evidence_error + bytes list) list) \<Rightarrow>
   keyspace \<Rightarrow> 'a graph_db_scheme \<Rightarrow> bytes \<Rightarrow> i64 \<Rightarrow> bool \<Rightarrow> bytes list \<Rightarrow> evidence_error + bytes list" where
  "expand_level sched ks db graph floor directed nodes =
     and_then (map_results (\<lambda>r. r) (sched (map (scan_node ks db graph floor directed) nodes)))
       (\<lambda>nss. Inr (concat nss))"

text \<open>Insert the unseen nodes: the visited set and the nodes new to it.\<close>

fun visit :: "bytes list \<Rightarrow> bytes list \<times> bytes list \<Rightarrow> bytes list \<times> bytes list" where
  "visit [] st = st"
| "visit (v # vs) (visited, new) =
     (if v \<in> set visited then visit vs (visited, new) else visit vs (v # visited, new @ [v]))"

partial_function (option) bfs ::
  "(bytes list \<Rightarrow> evidence_error + bytes list) \<Rightarrow> bytes list \<Rightarrow> bytes list
   \<Rightarrow> (evidence_error + bytes list) option" where
  [code]: "bfs expand visited front =
     (if front = [] then Some (Inr visited)
      else case expand front of
             Inl e \<Rightarrow> Some (Inl e)
           | Inr neighbors \<Rightarrow>
               bfs expand (fst (visit neighbors (visited, []))) (snd (visit neighbors (visited, []))))"

definition reachable ::
  "((evidence_error + bytes list) list \<Rightarrow> (evidence_error + bytes list) list) \<Rightarrow>
   keyspace \<Rightarrow> 'a graph_db_scheme \<Rightarrow> bytes \<Rightarrow> bytes list \<Rightarrow> i64 \<Rightarrow> bool
   \<Rightarrow> (evidence_error + bytes list) option" where
  "reachable sched ks db graph from floor directed =
     (let (visited, front) = visit from ([], [])
      in map_option (\<lambda>r. and_then r (\<lambda>vs. Inr (sort vs)))
           (bfs (expand_level sched ks db graph floor directed) visited front))"

section \<open>Widest path\<close>

record widest =
  wp_connected :: bool
  wp_bottleneck :: "i64 option"

definition I64_MIN_W :: i64 where "I64_MIN_W = push_bit 63 1"
definition I64_MAX_W :: i64 where "I64_MAX_W = push_bit 63 1 - 1"

definition i64_min :: "i64 \<Rightarrow> i64 \<Rightarrow> i64" where
  "i64_min a b = (if sint a \<le> sint b then a else b)"

text \<open>The heap: the greatest (bottleneck, node) pair, by weight and then by the bytes of the node.\<close>

definition heap_le :: "i64 \<times> bytes \<Rightarrow> i64 \<times> bytes \<Rightarrow> bool" where
  "heap_le a b \<longleftrightarrow> sint (fst a) < sint (fst b) \<or> fst a = fst b \<and> snd a \<le> snd b"

fun heap_max :: "(i64 \<times> bytes) \<Rightarrow> (i64 \<times> bytes) list \<Rightarrow> i64 \<times> bytes" where
  "heap_max m [] = m"
| "heap_max m (x # xs) = heap_max (if heap_le m x then x else m) xs"

type_synonym search = "(bytes \<rightharpoonup> i64) \<times> (i64 \<times> bytes) list"

fun relax :: "i64 \<Rightarrow> (bytes \<times> i64 \<times> bytes) list \<Rightarrow> search \<Rightarrow> search" where
  "relax bw [] st = st"
| "relax bw ((v, w, t) # es) (best, heap) =
     (let nb = i64_min bw w
      in if sint (case best v of Some b \<Rightarrow> b | None \<Rightarrow> I64_MIN_W) < sint nb
         then relax bw es (best(v \<mapsto> nb), (nb, v) # heap)
         else relax bw es (best, heap))"

partial_function (option) widest_loop ::
  "(bytes \<Rightarrow> evidence_error + (bytes \<times> i64 \<times> bytes) list) \<Rightarrow> bytes \<Rightarrow> (bytes \<rightharpoonup> i64)
   \<Rightarrow> (i64 \<times> bytes) list \<Rightarrow> (evidence_error + widest) option" where
  [code]: "widest_loop edges_from to best heap =
     (case heap of
        [] \<Rightarrow> Some (Inr \<lparr> wp_connected = False, wp_bottleneck = None \<rparr>)
      | x # xs \<Rightarrow>
          (let m = heap_max x xs; bw = fst m; u = snd m; rest = remove1 m heap
           in if best u \<noteq> Some bw then widest_loop edges_from to best rest
              else if u = to then Some (Inr \<lparr> wp_connected = True, wp_bottleneck = Some bw \<rparr>)
              else case edges_from u of
                     Inl e \<Rightarrow> Some (Inl e)
                   | Inr edges \<Rightarrow>
                       widest_loop edges_from to (fst (relax bw edges (best, rest)))
                         (snd (relax bw edges (best, rest)))))"

definition node_edges ::
  "keyspace \<Rightarrow> 'a graph_db_scheme \<Rightarrow> bytes \<Rightarrow> bool \<Rightarrow> bytes \<Rightarrow> evidence_error + (bytes \<times> i64 \<times> bytes) list" where
  "node_edges ks db graph directed u =
     and_then (out_neighbors ks db graph u I64_MIN_W) (\<lambda>os.
       if directed then Inr os
       else and_then (in_neighbors ks db graph u I64_MIN_W) (\<lambda>ins. Inr (os @ ins)))"

definition widest_path ::
  "keyspace \<Rightarrow> 'a graph_db_scheme \<Rightarrow> bytes \<Rightarrow> bytes \<Rightarrow> bytes \<Rightarrow> bool \<Rightarrow> (evidence_error + widest) option" where
  "widest_path ks db graph from to directed =
     (if from = to then Some (Inr \<lparr> wp_connected = True, wp_bottleneck = None \<rparr>)
      else widest_loop (node_edges ks db graph directed) to [from \<mapsto> I64_MAX_W] [(I64_MAX_W, from)])"

end
