(* ===== verification/Evidence_Neighbors.thy ===== *)
theory Evidence_Neighbors
  imports Evidence_Traverse "HOL-Library.Multiset"
begin

text \<open>
  What the adjacency scans return: the decoder inverts the key encoding, and the scan of a node
  yields exactly the edges of the node with at least the floor weight, in ascending order of
  weight.
\<close>

section \<open>The decoder\<close>

lemma from_be_u32_be [simp]: "from_be_bytes (u32_be x) = unat x"
  unfolding u32_be_def by (rule from_be_bytes_be_bytes) (rule unat_less_256)

lemma read_lp_seg:
  assumes "short n" and "utf8_valid n"
  shows "read_lp (xs @ seg n @ ys) (length xs) = Inr (n, length xs + 4 + length n)"
  using assms by (simp add: read_lp_def seg_def short_def unsigned_of_nat take_bit_nat_eq_self Let_def)

lemma parse_adjacency_key:
  assumes "short n" "utf8_valid n" "short t" "utf8_valid t"
  shows "parse_adjacency (length p) (p @ adj_tail (w, n, t)) = Inr (n, w, t)"
proof -
  have "read_lp (weight_obe w @ seg n @ seg t) 8 = Inr (n, 12 + length n)"
    using read_lp_seg [OF assms(1,2), of "weight_obe w" "seg t"] by simp
  moreover have "read_lp (weight_obe w @ seg n @ seg t) (12 + length n) = Inr (t, 16 + length n + length t)"
    using read_lp_seg [OF assms(3,4), of "weight_obe w @ seg n" "[]"] by (simp add: seg_def ac_simps)
  ultimately show ?thesis by (simp add: parse_adjacency_def adj_tail_def)
qed

lemma map_results_Inr: "(\<And>x. x \<in> set xs \<Longrightarrow> f x = Inr (g x)) \<Longrightarrow> map_results f xs = Inr (map g xs)"
  by (induction xs) auto

lemma map_results_map: "map_results f (map g xs) = map_results (f \<circ> g) xs"
  by (induction xs) simp_all

lemma sort_map_key: "sort (map key xs) = map key (sort_key key xs)"
  by (rule properties_for_sort) simp_all

section \<open>Rows of a node\<close>

definition row_ok :: "adjacency \<Rightarrow> bool" where
  "row_ok = (\<lambda>(g, a, w, b, t). short g \<and> short a \<and> short b \<and> short t \<and> utf8_valid b \<and> utf8_valid t)"

definition graph_names_ok :: "'a graph_db_scheme \<Rightarrow> bool" where
  "graph_names_ok db \<longleftrightarrow> (\<forall>r \<in> set (gr_out db) \<union> set (gr_in db). row_ok r)"

definition row_node :: "adjacency \<Rightarrow> bytes \<times> bytes" where
  "row_node = (\<lambda>(g, a, w, b, t). (g, a))"

definition row_adj :: "adjacency \<Rightarrow> i64 \<times> bytes \<times> bytes" where
  "row_adj = (\<lambda>(g, a, w, b, t). (w, b, t))"

definition row_result :: "adjacency \<Rightarrow> bytes \<times> i64 \<times> bytes" where
  "row_result = (\<lambda>(g, a, w, b, t). (b, w, t))"

lemma floor_le_iff: "weight_obe floor \<le> adj_tail (w, n, t) \<longleftrightarrow> sint floor \<le> sint w"
proof -
  have "weight_obe floor \<le> weight_obe w @ x \<longleftrightarrow> \<not> weight_obe w < weight_obe floor" for x
    using append_less_append_same_length [of "weight_obe w" "weight_obe floor" x "[]"]
    by (auto simp: not_less [symmetric])
  then show ?thesis by (simp add: adj_tail_def weight_obe_less_iff not_less)
qed

lemma tail_le_weight: "adj_tail a \<le> adj_tail b \<Longrightarrow> sint (fst a) \<le> sint (fst b)"
proof -
  assume le: "adj_tail a \<le> adj_tail b"
  obtain w n t w' n' t' where ab: "a = (w, n, t)" "b = (w', n', t')" by (cases a; cases b) auto
  have "\<not> weight_obe w' < weight_obe w"
    using le append_less_append_same_length [of "weight_obe w'" "weight_obe w"]
    by (auto simp: ab adj_tail_def not_less [symmetric])
  then show "sint (fst a) \<le> sint (fst b)" by (simp add: ab weight_obe_less_iff)
qed

text \<open>The scan over a key family whose rows carry their node and adjacency data.\<close>

lemma scan_adjacency_rows:
  assumes fam: "key_family pre adj_tail node_ok adj_ok" and ok: "\<forall>r \<in> set rows. row_ok r"
    and key: "\<And>r. key r = pre (row_node r) @ adj_tail (row_adj r)" and p: "node_ok p"
  shows "\<exists>rs. scan_adjacency (map key rows) (pre p) floor = Inr (map row_result rs)
    \<and> mset rs = mset (filter (\<lambda>r. row_node r = p \<and> sint floor \<le> sint (fst (row_adj r))) rows)
    \<and> sorted (map (\<lambda>r. sint (fst (row_adj r))) rs)"
proof -
  have rows: "\<forall>r \<in> set rows. node_ok (row_node r) \<and> key r = pre (row_node r) @ adj_tail (row_adj r)"
    using ok key by (auto simp: row_ok_def row_node_def node_ok_def)
  define sel where "sel = filter (\<lambda>r. row_node r = p \<and> weight_obe floor \<le> adj_tail (row_adj r)) rows"
  note scan = key_family.scan_rows [OF fam p rows, of "weight_obe floor", folded sel_def]
  define rs where "rs = sort_key key sel"
  have mem: "r \<in> set rows \<and> row_node r = p" if "r \<in> set rs" for r
    using that by (simp add: rs_def sel_def)
  have parse: "parse_adjacency (length (pre p)) (key r) = Inr (row_result r)" if "r \<in> set rs" for r
  proof -
    obtain g a w b t where r: "r = (g, a, w, b, t)" by (cases r) auto
    then show ?thesis
      using mem [OF that] ok key [of r] parse_adjacency_key [of b t "pre p" w]
      by (auto simp: row_ok_def row_node_def row_adj_def row_result_def)
  qed
  have "filter (in_range (pre p @ weight_obe floor) (prefix_upper_bound (pre p))) (map key rows) = map key sel"
    unfolding filter_map o_def scan(1) ..
  then have "scan_adjacency (map key rows) (pre p) floor
      = map_results (parse_adjacency (length (pre p)) \<circ> key) rs"
    by (simp add: scan_adjacency_def sort_map_key rs_def map_results_map)
  also have "\<dots> = Inr (map row_result rs)" using parse by (intro map_results_Inr) simp
  finally have "scan_adjacency (map key rows) (pre p) floor = Inr (map row_result rs)" .
  moreover have "sel = filter (\<lambda>r. row_node r = p \<and> sint floor \<le> sint (fst (row_adj r))) rows"
    unfolding sel_def by (intro filter_cong refl) (auto simp: row_adj_def floor_le_iff split: prod.splits)
  then have "mset rs = mset (filter (\<lambda>r. row_node r = p \<and> sint floor \<le> sint (fst (row_adj r))) rows)"
    by (simp add: rs_def)
  moreover have "sorted (map (\<lambda>r. sint (fst (row_adj r))) rs)"
    using scan(2) by (auto simp: rs_def sorted_map intro: sorted_wrt_mono_rel [rotated] tail_le_weight)
  ultimately show ?thesis by blast
qed

section \<open>Neighbours\<close>

text \<open>The edges of the graph seen from a node: outgoing, and also incoming when undirected.\<close>

definition out_edges :: "'a graph_db_scheme \<Rightarrow> bytes \<Rightarrow> bytes \<Rightarrow> (bytes \<times> i64 \<times> bytes) set" where
  "out_edges db graph src = {(d, w, t). edges_of db (graph, src, d, t) = Some w}"

definition in_edges :: "'a graph_db_scheme \<Rightarrow> bytes \<Rightarrow> bytes \<Rightarrow> (bytes \<times> i64 \<times> bytes) set" where
  "in_edges db graph dst = {(s, w, t). edges_of db (graph, s, dst, t) = Some w}"

lemma row_key_family:
  "out_row_key ks r = (case row_node r of (g, s) \<Rightarrow> graph_out_prefix ks g s) @ adj_tail (row_adj r)"
  "in_row_key ks r = (case row_node r of (g, d) \<Rightarrow> graph_in_prefix ks g d) @ adj_tail (row_adj r)"
  by (cases r; simp add: row_node_def row_adj_def adj_key_split)+

lemma neighbor_list:
  assumes rs: "mset rs = mset (filter (\<lambda>r. row_node r = (graph, n) \<and> sint floor \<le> sint (fst (row_adj r))) rows)"
    and "sorted (map (\<lambda>r. sint (fst (row_adj r))) rs)" and d: "distinct rows"
  shows "set (map row_result rs) = {(b, w, t). (graph, n, w, b, t) \<in> set rows \<and> sint floor \<le> sint w}"
    and "distinct (map row_result rs)" and "sorted (map (\<lambda>(b, w, t). sint w) (map row_result rs))"
proof -
  have set: "set rs = {r \<in> set rows. row_node r = (graph, n) \<and> sint floor \<le> sint (fst (row_adj r))}"
    using mset_eq_setD [OF rs] by auto
  then show "set (map row_result rs) = {(b, w, t). (graph, n, w, b, t) \<in> set rows \<and> sint floor \<le> sint w}"
    by (force simp: row_result_def row_node_def row_adj_def image_iff)
  have "distinct rs" using mset_eq_imp_distinct_iff [OF rs] d by simp
  moreover have "inj_on row_result (set rs)"
    unfolding set by (auto simp: inj_on_def row_result_def row_node_def)
  ultimately show "distinct (map row_result rs)" by (simp add: distinct_map)
  show "sorted (map (\<lambda>(b, w, t). sint w) (map row_result rs))"
    using assms(2) by (simp add: row_result_def row_adj_def case_prod_unfold o_def)
qed

lemma out_neighbors_spec:
  assumes inv: "graph_inv db" and ok: "graph_names_ok db" and "short graph" "short src"
  shows "\<exists>ns. out_neighbors ks db graph src floor = Inr ns
    \<and> set ns = {(d, w, t) \<in> out_edges db graph src. sint floor \<le> sint w}
    \<and> distinct ns \<and> sorted (map (\<lambda>(d, w, t). sint w) ns)"
proof -
  have p: "node_ok (graph, src)" using assms by (simp add: node_ok_def)
  have rows: "\<forall>r \<in> set (gr_out db). row_ok r" using ok by (simp add: graph_names_ok_def)
  obtain rs where scan: "out_neighbors ks db graph src floor = Inr (map row_result rs)"
    and ms: "mset rs = mset (filter (\<lambda>r. row_node r = (graph, src) \<and> sint floor \<le> sint (fst (row_adj r))) (gr_out db))"
    and so: "sorted (map (\<lambda>r. sint (fst (row_adj r))) rs)"
    using scan_adjacency_rows [OF out_keys.key_family_axioms rows row_key_family(1) p]
    by (auto simp: out_neighbors_def)
  have d: "distinct (gr_out db)"
    and io: "\<And>g s w d t. (g, s, w, d, t) \<in> set (gr_out db) \<longleftrightarrow> edges_of db (g, s, d, t) = Some w"
    using inv by (simp_all add: graph_inv_def)
  show ?thesis
    using scan neighbor_list [OF ms so d] by (auto simp: out_edges_def io)
qed

lemma in_neighbors_spec:
  assumes inv: "graph_inv db" and ok: "graph_names_ok db" and "short graph" "short dst"
  shows "\<exists>ns. in_neighbors ks db graph dst floor = Inr ns
    \<and> set ns = {(s, w, t) \<in> in_edges db graph dst. sint floor \<le> sint w}
    \<and> distinct ns \<and> sorted (map (\<lambda>(s, w, t). sint w) ns)"
proof -
  have p: "node_ok (graph, dst)" using assms by (simp add: node_ok_def)
  have rows: "\<forall>r \<in> set (gr_in db). row_ok r" using ok by (simp add: graph_names_ok_def)
  obtain rs where scan: "in_neighbors ks db graph dst floor = Inr (map row_result rs)"
    and ms: "mset rs = mset (filter (\<lambda>r. row_node r = (graph, dst) \<and> sint floor \<le> sint (fst (row_adj r))) (gr_in db))"
    and so: "sorted (map (\<lambda>r. sint (fst (row_adj r))) rs)"
    using scan_adjacency_rows [OF in_keys.key_family_axioms rows row_key_family(2) p]
    by (auto simp: in_neighbors_def)
  have d: "distinct (gr_in db)"
    and io: "\<And>g s w d t. (g, d, w, s, t) \<in> set (gr_in db) \<longleftrightarrow> edges_of db (g, s, d, t) = Some w"
    using inv by (simp_all add: graph_inv_def)
  show ?thesis
    using scan neighbor_list [OF ms so d] by (auto simp: in_edges_def io)
qed

end
