(* ===== verification/Evidence_Search.thy ===== *)
theory Evidence_Search
  imports Evidence_Neighbors
begin

text \<open>
  Correctness of the two searches: breadth-first reachability ends with exactly the reachable nodes
  whatever the completion order of the tasks of a level, and the widest-path search ends with the
  greatest bottleneck.
\<close>

section \<open>Breadth-first search\<close>

lemma visit_spec:
  assumes "visit vs (visited, new) = (visited', new')"
  shows "set visited' = set visited \<union> set vs" and "set new' = set new \<union> (set vs - set visited)"
    and "distinct visited \<Longrightarrow> distinct visited'"
proof -
  have "set visited' = set visited \<union> set vs \<and> set new' = set new \<union> (set vs - set visited)
      \<and> (distinct visited \<longrightarrow> distinct visited')"
    using assms by (induction vs "(visited, new)" arbitrary: visited new rule: visit.induct)
      (auto split: if_splits)
  then show "set visited' = set visited \<union> set vs" "set new' = set new \<union> (set vs - set visited)"
    "distinct visited \<Longrightarrow> distinct visited'" by auto
qed

definition reach :: "(bytes \<Rightarrow> bytes set) \<Rightarrow> bytes set \<Rightarrow> bytes set" where
  "reach succ S = {v. \<exists>s \<in> S. (s, v) \<in> {(x, y). y \<in> succ x}\<^sup>*}"

lemma reach_closed:
  assumes "\<And>x. x \<in> T \<Longrightarrow> succ x \<subseteq> T" and "S \<subseteq> T"
  shows "reach succ S \<subseteq> T"
proof
  fix v
  assume "v \<in> reach succ S"
  then obtain s where "s \<in> S" "(s, v) \<in> {(x, y). y \<in> succ x}\<^sup>*" by (auto simp: reach_def)
  then show "v \<in> T"
  proof (induction rule: rtrancl_induct [consumes 1, OF \<open>(s, v) \<in> {(x, y). y \<in> succ x}\<^sup>*\<close>])
    case 1
    then show ?case using assms(2) \<open>s \<in> S\<close> by auto
  next
    case (2 y z)
    then show ?case using assms(1) by auto
  qed
qed

lemma reach_refl: "S \<subseteq> reach succ S"
  by (auto simp: reach_def)

lemma reach_step: "u \<in> reach succ S \<Longrightarrow> succ u \<subseteq> reach succ S"
  by (auto simp: reach_def intro: rtrancl_into_rtrancl)

lemma bfs_correct:
  assumes fin: "finite R" and closed: "\<And>u. u \<in> R \<Longrightarrow> succ u \<subseteq> R"
    and expand: "\<And>front. set front \<subseteq> R \<Longrightarrow> \<exists>ns. expand front = Inr ns \<and> set ns = (\<Union>u \<in> set front. succ u)"
  shows "set visited \<subseteq> R \<Longrightarrow> set front \<subseteq> set visited \<Longrightarrow> distinct visited \<Longrightarrow>
    (\<And>u. u \<in> set visited - set front \<Longrightarrow> succ u \<subseteq> set visited) \<Longrightarrow>
    \<exists>vs. bfs expand visited front = Some (Inr vs) \<and> distinct vs \<and> set vs = reach succ (set visited)"
proof (induction "card (R - set visited)" arbitrary: visited front rule: less_induct)
  case less
  show ?case
  proof (cases "front = []")
    case True
    then have "reach succ (set visited) = set visited"
      using less.prems(4) by (intro equalityI reach_closed reach_refl) auto
    then show ?thesis using True less.prems(3) by (simp add: bfs.simps)
  next
    case False
    obtain ns where ns: "expand front = Inr ns" "set ns = (\<Union>u \<in> set front. succ u)"
      using expand [of front] less.prems(1,2) by auto
    obtain visited' new where v: "visit ns (visited, []) = (visited', new)" by (cases "visit ns (visited, [])")
    note vs = visit_spec [OF v]
    have step: "bfs expand visited front = bfs expand visited' new"
      using False ns(1) v by (simp add: bfs.simps [of expand visited front])
    have sub: "set visited' \<subseteq> R" "set new \<subseteq> set visited'" "distinct visited'"
      using less.prems(1-3) closed ns(2) vs by auto
    have exp: "succ u \<subseteq> set visited'" if "u \<in> set visited' - set new" for u
      using that less.prems(4) [of u] vs(1,2) ns(2) by auto
    have same: "reach succ (set visited') = reach succ (set visited)"
    proof
      have "set ns \<subseteq> reach succ (set visited)"
        unfolding ns(2) using less.prems(2) reach_step [of _ succ "set visited"]
          reach_refl [of "set visited" succ] by blast
      then have "set visited' \<subseteq> reach succ (set visited)" using vs(1) reach_refl [of "set visited" succ] by auto
      then show "reach succ (set visited') \<subseteq> reach succ (set visited)"
        using reach_step by (intro reach_closed) auto
      show "reach succ (set visited) \<subseteq> reach succ (set visited')"
        using vs(1) by (auto simp: reach_def)
    qed
    show ?thesis
    proof (cases "new = []")
      case True
      then have "reach succ (set visited') = set visited'"
        using exp by (intro equalityI reach_closed reach_refl) auto
      then show ?thesis using True step sub(3) same by (simp add: bfs.simps)
    next
      case False
      then have "set visited \<subset> set visited'" using vs(1,2) by (auto simp: neq_Nil_conv)
      then have "card (R - set visited') < card (R - set visited)"
        using sub(1) fin by (intro psubset_card_mono) auto
      from less.hyps [OF this sub exp] show ?thesis using step same by simp
    qed
  qed
qed

section \<open>Reachability over the store\<close>

text \<open>The nodes one step away over edges of at least the floor weight.\<close>

definition neighbors_of :: "'a graph_db_scheme \<Rightarrow> bytes \<Rightarrow> i64 \<Rightarrow> bool \<Rightarrow> bytes \<Rightarrow> bytes set" where
  "neighbors_of db graph floor directed u =
     {v. \<exists>w t. sint floor \<le> sint w \<and>
        ((v, w, t) \<in> out_edges db graph u \<or> \<not> directed \<and> (v, w, t) \<in> in_edges db graph u)}"

definition fair :: "((evidence_error + bytes list) list \<Rightarrow> (evidence_error + bytes list) list) \<Rightarrow> bool" where
  "fair sched \<longleftrightarrow> (\<forall>xs. mset (sched xs) = mset xs)"

definition graph_nodes :: "'a graph_db_scheme \<Rightarrow> bytes set" where
  "graph_nodes db = (\<lambda>(g, s, w, d, t). d) ` (set (gr_out db) \<union> set (gr_in db))"

lemma edge_nodes:
  assumes "graph_inv db" and "(v, w, t) \<in> out_edges db graph u \<or> (v, w, t) \<in> in_edges db graph u"
  shows "v \<in> graph_nodes db"
proof -
  have "(graph, u, w, v, t) \<in> set (gr_out db) \<union> set (gr_in db)"
    using assms by (auto simp: graph_inv_def out_edges_def in_edges_def)
  then show ?thesis by (force simp: graph_nodes_def)
qed

lemma graph_nodes_short: "graph_names_ok db \<Longrightarrow> v \<in> graph_nodes db \<Longrightarrow> short v"
  by (fastforce simp: graph_nodes_def graph_names_ok_def row_ok_def)

lemma scan_node_spec:
  assumes "graph_inv db" and "graph_names_ok db" and "short graph" "short u"
  shows "\<exists>ns. scan_node ks db graph floor directed u = Inr ns \<and> set ns = neighbors_of db graph floor directed u"
proof -
  obtain os where os: "out_neighbors ks db graph u floor = Inr os"
    "set os = {(d, w, t) \<in> out_edges db graph u. sint floor \<le> sint w}"
    using out_neighbors_spec [OF assms] by blast
  obtain ins where ins: "in_neighbors ks db graph u floor = Inr ins"
    "set ins = {(s, w, t) \<in> in_edges db graph u. sint floor \<le> sint w}"
    using in_neighbors_spec [OF assms] by blast
  show ?thesis
  proof (cases directed)
    case True
    then show ?thesis using os by (auto simp: scan_node_def neighbors_of_def image_iff) force+
  next
    case False
    then show ?thesis using os ins by (auto simp: scan_node_def neighbors_of_def image_iff) force+
  qed
qed

lemma expand_level_spec:
  assumes "graph_inv db" and "graph_names_ok db" and "short graph" and "\<forall>u \<in> set nodes. short u"
    and "fair sched"
  shows "\<exists>ns. expand_level sched ks db graph floor directed nodes = Inr ns
    \<and> set ns = (\<Union>u \<in> set nodes. neighbors_of db graph floor directed u)"
proof -
  define f where "f = (\<lambda>u. projr (scan_node ks db graph floor directed u))"
  have f: "scan_node ks db graph floor directed u = Inr (f u) \<and> set (f u) = neighbors_of db graph floor directed u"
    if "u \<in> set nodes" for u
    using scan_node_spec [OF assms(1-3), of u ks floor directed] assms(4) that by (auto simp: f_def)
  define rs where "rs = sched (map (scan_node ks db graph floor directed) nodes)"
  have "set rs = set (map (scan_node ks db graph floor directed) nodes)"
    using assms(5) unfolding fair_def rs_def by (metis set_mset_mset)
  also have "\<dots> = Inr ` f ` set nodes" using f by (auto simp: image_iff)
  finally have rs: "set rs = Inr ` f ` set nodes" .
  have "map_results (\<lambda>r. r) rs = Inr (map projr rs)"
    using rs by (intro map_results_Inr) auto
  moreover have "set (concat (map projr rs)) = (\<Union>u \<in> set nodes. neighbors_of db graph floor directed u)"
    using rs f by auto
  ultimately show ?thesis by (auto simp: expand_level_def rs_def)
qed

lemma reachable_spec:
  assumes "graph_inv db" and "graph_names_ok db" and "short graph" and seeds: "\<forall>u \<in> set from. short u"
    and "fair sched"
  shows "reachable sched ks db graph from floor directed
    = Some (Inr (sorted_list_of_set (reach (neighbors_of db graph floor directed) (set from))))"
proof -
  let ?succ = "neighbors_of db graph floor directed"
  define R where "R = set from \<union> graph_nodes db"
  have fin: "finite R" by (simp add: R_def graph_nodes_def)
  have closed: "?succ u \<subseteq> R" for u by (auto simp: R_def neighbors_of_def intro: edge_nodes [OF assms(1)])
  have exp: "\<exists>ns. expand_level sched ks db graph floor directed nodes = Inr ns
      \<and> set ns = (\<Union>u \<in> set nodes. ?succ u)" if "set nodes \<subseteq> R" for nodes
    using that seeds graph_nodes_short [OF assms(2)]
    by (intro expand_level_spec assms) (auto simp: R_def)
  obtain visited front where v: "visit from ([], []) = (visited, front)" by (cases "visit from ([], [])")
  note vs = visit_spec [OF v]
  have "\<exists>vs. bfs (expand_level sched ks db graph floor directed) visited front = Some (Inr vs)
      \<and> distinct vs \<and> set vs = reach ?succ (set visited)"
    using vs by (intro bfs_correct [OF fin closed exp]) (auto simp: R_def)
  then obtain vs where b: "bfs (expand_level sched ks db graph floor directed) visited front = Some (Inr vs)"
    "distinct vs" "set vs = reach ?succ (set from)" using vs(1) by auto
  have "sort vs = sorted_list_of_set (set vs)"
    using b(2) by (simp add: sorted_list_of_set_sort_remdups distinct_remdups_id)
  then show ?thesis using b v by (simp add: reachable_def)
qed


section \<open>Widest path\<close>

text \<open>A path whose edges all weigh at least \<open>k\<close>.\<close>

definition wide :: "(bytes \<Rightarrow> (bytes \<times> i64 \<times> bytes) list) \<Rightarrow> int \<Rightarrow> bytes \<Rightarrow> bytes \<Rightarrow> bool" where
  "wide es k u v \<longleftrightarrow> (u, v) \<in> {(x, y). \<exists>w t. (y, w, t) \<in> set (es x) \<and> k \<le> sint w}\<^sup>*"

definition best_val :: "(bytes \<rightharpoonup> i64) \<Rightarrow> bytes \<Rightarrow> int" where
  "best_val best v = sint (case best v of Some b \<Rightarrow> b | None \<Rightarrow> I64_MIN_W)"

lemma sint_bounds: "- (2 ^ 63) \<le> sint (w :: i64)" "sint (w :: i64) < 2 ^ 63"
  using sint_ge [of w] sint_lt [of w] by simp_all

lemma sint_extremes: "sint I64_MIN_W = - (2 ^ 63)" "sint I64_MAX_W = 2 ^ 63 - 1"
  unfolding I64_MIN_W_def I64_MAX_W_def by (simp_all add: push_bit_eq_mult)

lemma sint_i64_min: "sint (i64_min a b) = min (sint a) (sint b)"
  by (simp add: i64_min_def)

lemma sint_eq_imp: "sint a = sint b \<Longrightarrow> a = (b :: i64)"
  by (rule signed_word_eqI)

lemma heap_max_in: "heap_max m xs \<in> set (m # xs)"
  by (induction m xs rule: heap_max.induct) auto

lemma heap_max_ge: "y \<in> set (m # xs) \<Longrightarrow> sint (fst y) \<le> sint (fst (heap_max m xs))"
proof (induction m xs arbitrary: y rule: heap_max.induct)
  case (2 m x xs)
  show ?case
  proof (cases "heap_le m x")
    case True
    then have "sint (fst m) \<le> sint (fst x)" by (auto simp: heap_le_def)
    then show ?thesis using 2(1) [of x] 2(1) [of y] 2(2) True by (fastforce intro: order_trans)
  next
    case False
    then have "sint (fst x) \<le> sint (fst m)" by (auto simp: heap_le_def)
    then show ?thesis using 2(1) [of m] 2(1) [of y] 2(2) False by (fastforce intro: order_trans)
  qed
qed simp

text \<open>What one round of relaxation does.\<close>

definition potential :: "bytes set \<Rightarrow> (bytes \<rightharpoonup> i64) \<Rightarrow> nat" where
  "potential R best = (\<Sum>v \<in> R. nat (2 ^ 63 - best_val best v))"

lemma potential_decreases:
  assumes "finite R" and "v \<in> R" and "best_val best v < sint nb"
  shows "potential R (best(v \<mapsto> nb)) < potential R best"
  unfolding potential_def
proof (rule sum_strict_mono_ex1 [OF assms(1)])
  show "\<forall>x \<in> R. nat (2 ^ 63 - best_val (best(v \<mapsto> nb)) x) \<le> nat (2 ^ 63 - best_val best x)"
    using assms(3) by (auto simp: best_val_def)
  show "\<exists>x \<in> R. nat (2 ^ 63 - best_val (best(v \<mapsto> nb)) x) < nat (2 ^ 63 - best_val best x)"
    using assms(2,3) sint_bounds(2) [of nb] by (intro bexI [of _ v]) (auto simp: best_val_def)
qed

lemma relax_Cons:
  "relax bw ((v, w, t) # es) (best, heap) =
     (if best_val best v < sint (i64_min bw w)
      then relax bw es (best(v \<mapsto> i64_min bw w), (i64_min bw w, v) # heap)
      else relax bw es (best, heap))"
  by (simp add: best_val_def Let_def)

lemma best_val_upd: "best_val (best(v \<mapsto> b)) x = (if x = v then sint b else best_val best x)"
  by (simp add: best_val_def)

lemma relax_mono:
  "relax bw es (best, heap) = (best', heap') \<Longrightarrow> best_val best v \<le> best_val best' v \<and> set heap \<subseteq> set heap'"
proof (induction es arbitrary: best heap)
  case (Cons e es)
  obtain x w t where e: "e = (x, w, t)" by (cases e)
  define best1 where "best1 = (if best_val best x < sint (i64_min bw w) then best(x \<mapsto> i64_min bw w) else best)"
  define heap1 where "heap1 = (if best_val best x < sint (i64_min bw w) then (i64_min bw w, x) # heap else heap)"
  have "relax bw es (best1, heap1) = (best', heap')"
    using Cons.prems unfolding e relax_Cons best1_def heap1_def by (simp split: if_splits)
  moreover have "best_val best v \<le> best_val best1 v" by (auto simp: best1_def best_val_upd)
  moreover have "set heap \<subseteq> set heap1" by (auto simp: heap1_def)
  ultimately show ?case using Cons.IH [of best1 heap1] by auto
qed simp

lemma relax_covers:
  "relax bw es (best, heap) = (best', heap') \<Longrightarrow> (v, w, t) \<in> set es \<Longrightarrow>
     min (sint bw) (sint w) \<le> best_val best' v"
proof (induction es arbitrary: best heap)
  case (Cons e es)
  obtain x w' t' where e: "e = (x, w', t')" by (cases e)
  define best1 where "best1 = (if best_val best x < sint (i64_min bw w') then best(x \<mapsto> i64_min bw w') else best)"
  define heap1 where "heap1 = (if best_val best x < sint (i64_min bw w') then (i64_min bw w', x) # heap else heap)"
  have run: "relax bw es (best1, heap1) = (best', heap')"
    using Cons.prems(1) unfolding e relax_Cons best1_def heap1_def by (simp split: if_splits)
  show ?case
  proof (cases "(v, w, t) \<in> set es")
    case True
    then show ?thesis by (rule Cons.IH [OF run])
  next
    case False
    then have "x = v" "w' = w" using Cons.prems(2) e by auto
    then have "min (sint bw) (sint w) \<le> best_val best1 v"
      by (auto simp: best1_def best_val_upd sint_i64_min)
    then show ?thesis using relax_mono [OF run, of v] by simp
  qed
qed simp

lemma relax_changed:
  "relax bw es (best, heap) = (best', heap') \<Longrightarrow> best' v \<noteq> best v \<Longrightarrow>
     \<exists>w t. (v, w, t) \<in> set es \<and> best' v = Some (i64_min bw w) \<and> (i64_min bw w, v) \<in> set heap'
       \<and> - (2 ^ 63) < sint (i64_min bw w)"
proof (induction es arbitrary: best heap)
  case (Cons e es)
  obtain x w t where e: "e = (x, w, t)" by (cases e)
  show ?case
  proof (cases "best_val best x < sint (i64_min bw w)")
    case True
    define best1 where "best1 = best(x \<mapsto> i64_min bw w)"
    have run: "relax bw es (best1, (i64_min bw w, x) # heap) = (best', heap')"
      using Cons.prems(1) True unfolding e relax_Cons by (simp add: best1_def)
    show ?thesis
    proof (cases "best' v = best1 v")
      case same: True
      then have x: "v = x" using Cons.prems(2) by (auto simp: best1_def split: if_splits)
      have "- (2 ^ 63) < sint (i64_min bw w)"
        using True sint_bounds(1) [of "case best x of Some b \<Rightarrow> b | None \<Rightarrow> I64_MIN_W"]
        by (simp add: best_val_def)
      then show ?thesis
        using same x relax_mono [OF run, of v] e by (auto simp: best1_def)
    next
      case False
      then show ?thesis using Cons.IH [OF run] e by auto
    qed
  next
    case False
    then have "relax bw es (best, heap) = (best', heap')" using Cons.prems(1) unfolding e relax_Cons by simp
    from Cons.IH [OF this Cons.prems(2)] show ?thesis by auto
  qed
qed simp

lemma relax_potential:
  assumes "finite R"
  shows "relax bw es (best, heap) = (best', heap') \<Longrightarrow> fst ` set es \<subseteq> R \<Longrightarrow>
    2 * potential R best' + length heap' \<le> 2 * potential R best + length heap"
proof (induction es arbitrary: best heap)
  case (Cons e es)
  obtain x w t where e: "e = (x, w, t)" by (cases e)
  show ?case
  proof (cases "best_val best x < sint (i64_min bw w)")
    case True
    then have "relax bw es (best(x \<mapsto> i64_min bw w), (i64_min bw w, x) # heap) = (best', heap')"
      using Cons.prems(1) unfolding e relax_Cons by simp
    from Cons.IH [OF this] Cons.prems(2) potential_decreases [OF assms _ True] e show ?thesis by fastforce
  next
    case False
    then have "relax bw es (best, heap) = (best', heap')" using Cons.prems(1) unfolding e relax_Cons by simp
    then show ?thesis using Cons.IH Cons.prems(2) by auto
  qed
qed simp

text \<open>The invariant of the search: recorded bottlenecks are attained, stale heap entries are worse than
  the record, and a record that is not on the heap has been expanded.\<close>

definition search_inv ::
  "(bytes \<Rightarrow> (bytes \<times> i64 \<times> bytes) list) \<Rightarrow> bytes \<Rightarrow> bytes \<Rightarrow> (bytes \<rightharpoonup> i64) \<Rightarrow> (i64 \<times> bytes) list \<Rightarrow> bool" where
  "search_inv es start to best heap \<longleftrightarrow>
     best_val best start = 2 ^ 63 - 1 \<and>
     (\<forall>v b. best v = Some b \<longrightarrow> wide es (sint b) start v \<and> - (2 ^ 63) < sint b) \<and>
     (\<forall>v b. best v = Some b \<and> (b, v) \<notin> set heap \<longrightarrow>
        v \<noteq> to \<and> (\<forall>(x, w, t) \<in> set (es v). min (sint b) (sint w) \<le> best_val best x))"

text \<open>Every node of a path of width \<open>k\<close> is recorded with at least \<open>k\<close>, once no heap entry is as
  wide as \<open>k\<close>.\<close>

lemma search_closed:
  assumes inv: "search_inv es start to best heap" and heap: "\<forall>(b, v) \<in> set heap. sint b < k"
    and k: "- (2 ^ 63) < k" "k < 2 ^ 63" and path: "wide es k start v"
  shows "k \<le> best_val best v"
  using path unfolding wide_def
proof (induction rule: rtrancl_induct)
  case base
  then show ?case using inv k(2) by (simp add: search_inv_def)
next
  case (step x y)
  then obtain w t where e: "(y, w, t) \<in> set (es x)" "k \<le> sint w" by auto
  obtain b where b: "best x = Some b" "k \<le> sint b"
    using step(3) k(1) by (cases "best x") (auto simp: best_val_def sint_extremes)
  then have "(b, x) \<notin> set heap" using heap by auto
  then have "min (sint b) (sint w) \<le> best_val best y"
    using inv b(1) e(1) unfolding search_inv_def by fast
  then show ?case using b(2) e(2) by simp
qed


lemma wide_mono: "wide es k u v \<Longrightarrow> j \<le> k \<Longrightarrow> wide es j u v"
  unfolding wide_def by (elim rtrancl_mono [THEN subsetD, rotated]) force

lemma wide_step: "wide es k u v \<Longrightarrow> (x, w, t) \<in> set (es v) \<Longrightarrow> k \<le> sint w \<Longrightarrow> wide es k u x"
  unfolding wide_def by (elim rtrancl_into_rtrancl) blast

lemma search_expand:
  assumes inv: "search_inv es start to best heap" and m: "(bw, u) \<in> set heap" and b: "best u = Some bw"
    and "u \<noteq> to" and run: "relax bw (es u) (best, remove1 (bw, u) heap) = (best', heap')"
  shows "search_inv es start to best' heap'"
proof -
  have mono: "best_val best v \<le> best_val best' v" and sub: "set (remove1 (bw, u) heap) \<subseteq> set heap'" for v
    using relax_mono [OF run] by auto
  have start: "best_val best' start = 2 ^ 63 - 1"
  proof -
    have "best_val best' start < 2 ^ 63" unfolding best_val_def by (rule sint_bounds(2))
    moreover have "best_val best start = 2 ^ 63 - 1" using inv by (simp only: search_inv_def)
    ultimately show ?thesis using mono [of start] by linarith
  qed
  have sound: "wide es (sint b') start v \<and> - (2 ^ 63) < sint b'" if bv: "best' v = Some b'" for v b'
  proof (cases "best' v = best v")
    case True
    then show ?thesis using bv inv by (simp add: search_inv_def)
  next
    case False
    then obtain w t where w: "(v, w, t) \<in> set (es u)" "b' = i64_min bw w" "- (2 ^ 63) < sint b'"
      using relax_changed [OF run, of v] bv by auto
    have "wide es (sint bw) start u" using inv b by (simp add: search_inv_def)
    then have "wide es (sint b') start u" by (rule wide_mono) (simp add: w sint_i64_min)
    then show ?thesis using wide_step [of es "sint b'" start u v w t] w by (simp add: sint_i64_min)
  qed
  have expanded: "v \<noteq> to \<and> (\<forall>(x, w, t) \<in> set (es v). min (sint b') (sint w) \<le> best_val best' x)"
    if v: "best' v = Some b'" "(b', v) \<notin> set heap'" for v b'
  proof (cases "(b', v) = (bw, u)")
    case True
    then show ?thesis using assms(4) relax_covers [OF run] by auto
  next
    case False
    have "best v = Some b'"
    proof (rule ccontr)
      assume "best v \<noteq> Some b'"
      then have "best' v \<noteq> best v" using v(1) by auto
      then show False using relax_changed [OF run] v by fastforce
    qed
    moreover have "(b', v) \<notin> set heap" using v(2) sub in_set_remove1 [OF False, of heap] by blast
    ultimately show ?thesis using inv mono unfolding search_inv_def by (fastforce intro: order_trans)
  qed
  show ?thesis unfolding search_inv_def using start sound expanded by blast
qed

definition widest_ok :: "(bytes \<Rightarrow> (bytes \<times> i64 \<times> bytes) list) \<Rightarrow> bytes \<Rightarrow> bytes \<Rightarrow> widest \<Rightarrow> bool" where
  "widest_ok es start to r \<longleftrightarrow>
     (case wp_bottleneck r of
        Some b \<Rightarrow> wp_connected r \<and> wide es (sint b) start to \<and> (\<forall>k. wide es k start to \<longrightarrow> k \<le> sint b)
      | None \<Rightarrow> \<not> wp_connected r \<and> (\<forall>k. - (2 ^ 63) < k \<longrightarrow> \<not> wide es k start to))"

lemma wide_bound:
  assumes "wide es k u v" and "u \<noteq> v"
  shows "k < 2 ^ 63"
  using assms unfolding wide_def
proof (cases rule: rtranclE)
  case (step y)
  then obtain w :: i64 where "k \<le> sint w" by auto
  then show ?thesis using sint_bounds(2) [of w] by simp
qed auto

lemma widest_loop_step:
  assumes "heap = x # xs" and "heap_max x xs = (bw, u)"
  shows "widest_loop edges_from to best heap =
    (if best u \<noteq> Some bw then widest_loop edges_from to best (remove1 (bw, u) heap)
     else if u = to then Some (Inr \<lparr> wp_connected = True, wp_bottleneck = Some bw \<rparr>)
     else case edges_from u of
            Inl e \<Rightarrow> Some (Inl e)
          | Inr edges \<Rightarrow>
              widest_loop edges_from to (fst (relax bw edges (best, remove1 (bw, u) heap)))
                (snd (relax bw edges (best, remove1 (bw, u) heap))))"
  by (subst widest_loop.simps) (simp add: assms Let_def del: remove1.simps split: sum.split)

lemma widest_loop_correct:
  assumes fin: "finite R" and edges: "\<And>u. u \<in> R \<Longrightarrow> edges_from u = Inr (es u) \<and> fst ` set (es u) \<subseteq> R"
    and ne: "start \<noteq> to"
  shows "search_inv es start to best heap \<Longrightarrow> dom best \<subseteq> R \<Longrightarrow>
    \<exists>r. widest_loop edges_from to best heap = Some (Inr r) \<and> widest_ok es start to r"
proof (induction "2 * potential R best + length heap" arbitrary: best heap rule: less_induct)
  case less
  note inv = less.prems(1)
  show ?case
  proof (cases heap)
    case Nil
    have "\<not> wide es k start to" if k: "- (2 ^ 63) < k" for k
    proof
      assume path: "wide es k start to"
      then have "k \<le> best_val best to"
        using search_closed [OF inv _ k _ path] wide_bound [OF path ne] Nil by simp
      then obtain b where "best to = Some b"
        using k by (cases "best to") (auto simp: best_val_def sint_extremes)
      then show False using inv Nil by (auto simp: search_inv_def)
    qed
    then show ?thesis using Nil by (simp add: widest_loop.simps widest_ok_def)
  next
    case (Cons x xs)
    obtain bw u where m: "heap_max x xs = (bw, u)" by (cases "heap_max x xs")
    have mem: "(bw, u) \<in> set heap" using heap_max_in [of x xs] m Cons by simp
    have top: "sint b \<le> sint bw" if "(b, v) \<in> set heap" for b v
      using heap_max_ge [of "(b, v)" x xs] that m Cons by simp
    note loop = widest_loop_step [OF Cons m, of edges_from to best]
    have len: "length (remove1 (bw, u) heap) < length heap"
      using mem Cons by (simp add: length_remove1 del: remove1.simps)
    consider (stale) "best u \<noteq> Some bw" | (found) "best u = Some bw" "u = to" | (expand) "best u = Some bw" "u \<noteq> to"
      by blast
    then show ?thesis
    proof cases
      case stale
      have "search_inv es start to best (remove1 (bw, u) heap)"
        using inv stale unfolding search_inv_def by (metis in_set_remove1 prod.inject)
      then show ?thesis
        using less.hyps [OF _ _ less.prems(2)] len stale loop by simp
    next
      case found
      have "wide es (sint bw) start to" "- (2 ^ 63) < sint bw" using inv found by (auto simp: search_inv_def)
      moreover have "k \<le> sint bw" if path: "wide es k start to" for k
      proof (rule ccontr)
        assume "\<not> k \<le> sint bw"
        then have k: "sint bw < k" by simp
        then have "k \<le> best_val best to"
          using search_closed [OF inv _ _ wide_bound [OF path ne] path] top sint_bounds(1) [of bw] by fastforce
        then show False using found k by (simp add: best_val_def)
      qed
      ultimately show ?thesis using found loop by (simp add: widest_ok_def)
    next
      case expand
      obtain best' heap' where run: "relax bw (es u) (best, remove1 (bw, u) heap) = (best', heap')"
        by (cases "relax bw (es u) (best, remove1 (bw, u) heap)")
      have u: "u \<in> R" using less.prems(2) expand by auto
      have inv': "search_inv es start to best' heap'" by (rule search_expand [OF inv mem expand run])
      have dom': "dom best' \<subseteq> R"
      proof
        fix v
        assume "v \<in> dom best'"
        then show "v \<in> R"
          using relax_changed [OF run, of v] edges [OF u] less.prems(2) by (cases "best' v = best v") force+
      qed
      have "2 * potential R best' + length heap' < 2 * potential R best + length heap"
        using relax_potential [OF fin run] edges [OF u] len by linarith
      from less.hyps [OF this inv' dom'] show ?thesis
        using expand run edges [OF u] loop by simp
    qed
  qed
qed


section \<open>Widest path over the store\<close>

definition node_adj :: "'a graph_db_scheme \<Rightarrow> bytes \<Rightarrow> bool \<Rightarrow> bytes \<Rightarrow> (bytes \<times> i64 \<times> bytes) set" where
  "node_adj db graph directed u = out_edges db graph u \<union> (if directed then {} else in_edges db graph u)"

text \<open>A path of the store whose edges all weigh at least \<open>k\<close>.\<close>

definition wide_path :: "'a graph_db_scheme \<Rightarrow> bytes \<Rightarrow> bool \<Rightarrow> int \<Rightarrow> bytes \<Rightarrow> bytes \<Rightarrow> bool" where
  "wide_path db graph directed k u v \<longleftrightarrow>
     (u, v) \<in> {(x, y). \<exists>w t. (y, w, t) \<in> node_adj db graph directed x \<and> k \<le> sint w}\<^sup>*"

lemma node_edges_spec:
  assumes "graph_inv db" and "graph_names_ok db" and "short graph" "short u"
  shows "\<exists>es. node_edges ks db graph directed u = Inr es \<and> set es = node_adj db graph directed u"
proof -
  have all: "sint I64_MIN_W \<le> sint w" for w :: i64 using sint_bounds(1) [of w] by (simp add: sint_extremes)
  obtain os where os: "out_neighbors ks db graph u I64_MIN_W = Inr os" "set os = out_edges db graph u"
    using out_neighbors_spec [OF assms, of ks I64_MIN_W] all by auto
  obtain ins where ins: "in_neighbors ks db graph u I64_MIN_W = Inr ins" "set ins = in_edges db graph u"
    using in_neighbors_spec [OF assms, of ks I64_MIN_W] all by auto
  show ?thesis using os ins by (simp add: node_edges_def node_adj_def)
qed

lemma node_adj_short:
  assumes "graph_inv db" and "graph_names_ok db" and "e \<in> node_adj db graph directed u"
  shows "short u"
proof -
  obtain v w t where e: "e = (v, w, t)" by (cases e)
  have "(graph, u, w, v, t) \<in> set (gr_out db) \<union> set (gr_in db)"
    using assms(1,3) e by (auto simp: node_adj_def graph_inv_def out_edges_def in_edges_def split: if_splits)
  then show ?thesis using assms(2) by (fastforce simp: graph_names_ok_def row_ok_def)
qed

definition widest_result :: "'a graph_db_scheme \<Rightarrow> bytes \<Rightarrow> bool \<Rightarrow> bytes \<Rightarrow> bytes \<Rightarrow> widest \<Rightarrow> bool" where
  "widest_result db graph directed start to r \<longleftrightarrow>
     (case wp_bottleneck r of
        Some b \<Rightarrow> wp_connected r \<and> wide_path db graph directed (sint b) start to
          \<and> (\<forall>k. wide_path db graph directed k start to \<longrightarrow> k \<le> sint b)
      | None \<Rightarrow> \<not> wp_connected r \<and> (\<forall>k. - (2 ^ 63) < k \<longrightarrow> \<not> wide_path db graph directed k start to))"

lemma widest_path_spec:
  assumes inv: "graph_inv db" and ok: "graph_names_ok db" and "short graph" "short start" and ne: "start \<noteq> to"
  shows "\<exists>r. widest_path ks db graph start to directed = Some (Inr r) \<and> widest_result db graph directed start to r"
proof -
  define es where "es = (\<lambda>u. if short u then projr (node_edges ks db graph directed u) else [])"
  have es: "set (es u) = node_adj db graph directed u" for u
  proof (cases "short u")
    case True
    then obtain l where "node_edges ks db graph directed u = Inr l" "set l = node_adj db graph directed u"
      using node_edges_spec [OF inv ok assms(3)] by blast
    then show ?thesis using True by (simp add: es_def)
  next
    case False
    then have "node_adj db graph directed u = {}" using node_adj_short [OF inv ok] by blast
    then show ?thesis using False by (simp add: es_def)
  qed
  have wide: "wide es k u v = wide_path db graph directed k u v" for k u v
    by (simp add: wide_def wide_path_def es)
  define R where "R = insert start (graph_nodes db)"
  have fin: "finite R" by (simp add: R_def graph_nodes_def)
  have edges: "node_edges ks db graph directed u = Inr (es u) \<and> fst ` set (es u) \<subseteq> R" if "u \<in> R" for u
  proof
    have "short u" using that assms(4) graph_nodes_short [OF ok] by (auto simp: R_def)
    moreover from this obtain l where "node_edges ks db graph directed u = Inr l"
      using node_edges_spec [OF inv ok assms(3)] by blast
    ultimately show "node_edges ks db graph directed u = Inr (es u)" by (simp add: es_def)
    show "fst ` set (es u) \<subseteq> R"
      unfolding es R_def by (auto simp: node_adj_def intro: edge_nodes [OF inv] split: if_splits)
  qed
  have "search_inv es start to [start \<mapsto> I64_MAX_W] [(I64_MAX_W, start)]"
    by (auto simp: search_inv_def best_val_def sint_extremes wide_def split: if_splits)
  moreover have "dom [start \<mapsto> I64_MAX_W] \<subseteq> R" by (simp add: R_def)
  ultimately have "\<exists>r. widest_loop (node_edges ks db graph directed) to [start \<mapsto> I64_MAX_W] [(I64_MAX_W, start)]
      = Some (Inr r) \<and> widest_ok es start to r"
    using edges by (intro widest_loop_correct [where R = R and es = es, OF fin _ ne])
  moreover have "widest_ok es start to r = widest_result db graph directed start to r" for r
    by (simp add: widest_ok_def widest_result_def wide split: option.split)
  ultimately show ?thesis using ne by (simp add: widest_path_def)
qed

end
