(* ===== verification/Evidence_Verify.thy ===== *)
theory Evidence_Verify
  imports Evidence_Proof
begin

text \<open>
  The verifier's side of the proofs: the root that an audit path reconstructs for a claimed leaf, and
  the pair of roots that a consistency proof reconstructs. The reference proofs are accepted, and an
  accepted proof binds: as long as the hash has no collision among the inputs that the two parties
  hash in the exchange, the claimed leaf is the leaf of the tree, and the smaller tree is a prefix
  of the larger. The inputs are listed explicitly, since a hash with 32-byte digests has collisions
  somewhere.
\<close>

section \<open>Reconstruction\<close>

function path_root :: "hasher \<Rightarrow> nat \<Rightarrow> nat \<Rightarrow> bytes \<Rightarrow> bytes list \<Rightarrow> bytes option" where
  "path_root sha n i h path =
     (if n = 0 then None
      else if n = 1 then (if path = [] then Some h else None)
      else if path = [] then None
      else let k = largest_pow2_lt n; r = last path in
        if i < k then map_option (\<lambda>l. node_hash sha l r) (path_root sha k i h (butlast path))
        else map_option (\<lambda>q. node_hash sha r q) (path_root sha (n - k) (i - k) h (butlast path)))"
  by pat_completeness auto
termination
proof (relation "measure (\<lambda>(sha, n, i, h, path). n)", goal_cases)
  case (2 sha n i h path k r)
  then have "2 \<le> n" by linarith
  from largest_pow2_lt_bounds [OF this] 2 show ?case by simp
next
  case (3 sha n i h path k r)
  then have "2 \<le> n" by linarith
  from largest_pow2_lt_bounds [OF this] 3 show ?case by simp
qed simp

declare path_root.simps [simp del]

function cons_roots ::
  "hasher \<Rightarrow> nat \<Rightarrow> nat \<Rightarrow> bool \<Rightarrow> bytes \<Rightarrow> bytes list \<Rightarrow> (bytes \<times> bytes) option" where
  "cons_roots sha m n b old path =
     (if m = n then
        (if b then (if path = [] then Some (old, old) else None)
         else (case path of [r] \<Rightarrow> Some (r, r) | _ \<Rightarrow> None))
      else if \<not> (0 < m \<and> m < n) \<or> path = [] then None
      else let k = largest_pow2_lt n; r = last path in
        if m \<le> k
        then map_option (\<lambda>(o', w). (o', node_hash sha w r)) (cons_roots sha m k b old (butlast path))
        else map_option (\<lambda>(o', w). (node_hash sha r o', node_hash sha r w))
               (cons_roots sha (m - k) (n - k) False old (butlast path)))"
  by pat_completeness auto
termination
proof (relation "measure (\<lambda>(sha, m, n, b, old, path). n)", goal_cases)
  case (2 sha m n b old path k r)
  then have "2 \<le> n" by linarith
  from largest_pow2_lt_bounds [OF this] 2 show ?case by simp
next
  case (3 sha m n b old path k r)
  then have "2 \<le> n" by linarith
  from largest_pow2_lt_bounds [OF this] 3 show ?case by simp
qed simp

declare cons_roots.simps [simp del]

lemma path_root_step:
  assumes "2 \<le> n" and "k = largest_pow2_lt n"
  shows "path_root sha n i h (p @ [r]) =
    (if i < k then map_option (\<lambda>l. node_hash sha l r) (path_root sha k i h p)
     else map_option (\<lambda>q. node_hash sha r q) (path_root sha (n - k) (i - k) h p))"
  using assms by (simp add: path_root.simps [of sha n] Let_def)

lemma path_root_Nil: "2 \<le> n \<Longrightarrow> path_root sha n i h [] = None"
  by (simp add: path_root.simps)

lemma cons_roots_Nil: "0 < m \<Longrightarrow> m < n \<Longrightarrow> cons_roots sha m n b old [] = None"
  by (simp add: cons_roots.simps)

lemma cons_roots_step:
  assumes "0 < m" and "m < n" and "k = largest_pow2_lt n"
  shows "cons_roots sha m n b old (p @ [r]) =
    (if m \<le> k then map_option (\<lambda>(o', w). (o', node_hash sha w r)) (cons_roots sha m k b old p)
     else map_option (\<lambda>(o', w). (node_hash sha r o', node_hash sha r w))
            (cons_roots sha (m - k) (n - k) False old p))"
  using assms by (simp add: cons_roots.simps [of sha m n] Let_def)

section \<open>Completeness\<close>

lemma path_root_complete:
  "i < length xs \<Longrightarrow> \<exists>p. inclusion_proof sha xs i = Some p
     \<and> path_root sha (length xs) i (xs ! i) p = Some (merkle_root sha xs)"
proof (induction "length xs" arbitrary: xs i rule: less_induct)
  case less
  show ?case
  proof (cases "length xs = 1")
    case True
    then obtain x where "xs = [x]" by (auto simp: length_Suc_conv)
    then show ?thesis
      using less.prems by (simp add: inclusion_proof.simps [of sha "[x]"] path_root.simps)
  next
    case False
    then have n2: "2 \<le> length xs" using less.prems by linarith
    define k where "k = largest_pow2_lt (length xs)"
    have k: "0 < k" "k < length xs" using largest_pow2_lt_bounds [OF n2] by (simp_all add: k_def)
    have root: "merkle_root sha xs
        = node_hash sha (merkle_root sha (take k xs)) (merkle_root sha (drop k xs))"
      using merkle_root_step [OF n2] by (simp add: k_def)
    show ?thesis
    proof (cases "i < k")
      case True
      then obtain p where "inclusion_proof sha (take k xs) i = Some p"
        "path_root sha k i (xs ! i) p = Some (merkle_root sha (take k xs))"
        using less.hyps [of "take k xs" i] k by auto
      then show ?thesis
        using True False less.prems root path_root_step [OF n2 k_def]
        by (simp add: inclusion_proof.simps [of sha xs] Let_def k_def [symmetric])
    next
      case right: False
      have "length (drop k xs) < length xs" "i - k < length (drop k xs)" "drop k xs ! (i - k) = xs ! i"
        using right k less.prems by (simp_all add: diff_less_mono)
      then obtain p where "inclusion_proof sha (drop k xs) (i - k) = Some p"
        "path_root sha (length xs - k) (i - k) (xs ! i) p = Some (merkle_root sha (drop k xs))"
        using less.hyps [of "drop k xs" "i - k"] by auto
      then show ?thesis
        using right False less.prems root path_root_step [OF n2 k_def]
        by (simp add: inclusion_proof.simps [of sha xs] Let_def k_def [symmetric])
    qed
  qed
qed

lemma prefix_split:
  assumes "k = largest_pow2_lt (length xs)" and "k < m" and "m \<le> length xs" and "2 \<le> length xs"
  shows "merkle_root sha (take m xs)
    = node_hash sha (merkle_root sha (take k xs)) (merkle_root sha (take (m - k) (drop k xs)))"
proof -
  obtain j where j: "k = 2 ^ j" "length xs \<le> 2 * 2 ^ j"
    using largest_pow2_lt_spec [OF assms(4)] assms(1) by metis
  have "2 ^ j < length (take m xs)" "length (take m xs) \<le> 2 * 2 ^ j" using assms(2,3) j by simp_all
  from merkle_root_split [OF this, of sha] j assms(2) show ?thesis by (simp add: min_def drop_take)
qed

lemma cons_roots_complete:
  "0 < m \<Longrightarrow> m \<le> length xs \<Longrightarrow> b \<longrightarrow> old = merkle_root sha (take m xs) \<Longrightarrow>
     cons_roots sha m (length xs) b old (ref_subproof sha m xs b)
       = Some (merkle_root sha (take m xs), merkle_root sha xs)"
proof (induction "length xs" arbitrary: m xs b rule: less_induct)
  case less
  show ?case
  proof (cases "m = length xs")
    case True
    then show ?thesis using less.prems
      by (simp add: cons_roots.simps [of _ "length xs"] ref_subproof.simps [of _ "length xs"])
  next
    case False
    then have m: "m < length xs" and n2: "2 \<le> length xs" using less.prems by linarith+
    define k where "k = largest_pow2_lt (length xs)"
    have k: "0 < k" "k < length xs" using largest_pow2_lt_bounds [OF n2] by (simp_all add: k_def)
    have root: "merkle_root sha xs
        = node_hash sha (merkle_root sha (take k xs)) (merkle_root sha (drop k xs))"
      using merkle_root_step [OF n2] by (simp add: k_def)
    show ?thesis
    proof (cases "m \<le> k")
      case True
      then have "cons_roots sha m k b old (ref_subproof sha m (take k xs) b)
          = Some (merkle_root sha (take m xs), merkle_root sha (take k xs))"
        using less.hyps [of "take k xs" m b] k less.prems by (simp add: min_def)
      then show ?thesis
        using True False m root less.prems cons_roots_step [OF _ m k_def]
        by (simp add: ref_subproof.simps [of _ m xs] Let_def k_def [symmetric])
    next
      case right: False
      then have "cons_roots sha (m - k) (length xs - k) False old (ref_subproof sha (m - k) (drop k xs) False)
          = Some (merkle_root sha (take (m - k) (drop k xs)), merkle_root sha (drop k xs))"
        using less.hyps [of "drop k xs" "m - k" False] k m by simp
      then show ?thesis
        using right False m root prefix_split [OF k_def, of m sha] n2 cons_roots_step [OF _ m k_def]
        by (simp add: ref_subproof.simps [of _ m xs] Let_def k_def [symmetric])
    qed
  qed
qed


section \<open>Inputs of the hash\<close>

function tree_inputs :: "hasher \<Rightarrow> bytes list \<Rightarrow> bytes list" where
  "tree_inputs sha xs =
     (if length xs \<le> 1 then []
      else let k = largest_pow2_lt (length xs)
           in ([0x01] @ merkle_root sha (take k xs) @ merkle_root sha (drop k xs))
              # tree_inputs sha (take k xs) @ tree_inputs sha (drop k xs))"
  by pat_completeness auto
termination
proof (relation "measure (\<lambda>(sha, xs). length xs)", goal_cases)
  case (2 sha xs k)
  then have "2 \<le> length xs" by linarith
  from largest_pow2_lt_bounds [OF this] 2 show ?case by simp
next
  case (3 sha xs k)
  then have "2 \<le> length xs" by linarith
  from largest_pow2_lt_bounds [OF this] 3 show ?case by simp
qed simp

declare tree_inputs.simps [simp del]

function path_inputs :: "hasher \<Rightarrow> nat \<Rightarrow> nat \<Rightarrow> bytes \<Rightarrow> bytes list \<Rightarrow> bytes list" where
  "path_inputs sha n i h path =
     (if n \<le> 1 \<or> path = [] then []
      else let k = largest_pow2_lt n; r = last path in
        if i < k
        then (case path_root sha k i h (butlast path) of None \<Rightarrow> [] | Some l \<Rightarrow> [[0x01] @ l @ r])
             @ path_inputs sha k i h (butlast path)
        else (case path_root sha (n - k) (i - k) h (butlast path) of None \<Rightarrow> [] | Some q \<Rightarrow> [[0x01] @ r @ q])
             @ path_inputs sha (n - k) (i - k) h (butlast path))"
  by pat_completeness auto
termination
proof (relation "measure (\<lambda>(sha, n, i, h, path). n)", goal_cases)
  case (2 sha n i h path k r)
  then have "2 \<le> n" by linarith
  from largest_pow2_lt_bounds [OF this] 2 show ?case by simp
next
  case (3 sha n i h path k r)
  then have "2 \<le> n" by linarith
  from largest_pow2_lt_bounds [OF this] 3 show ?case by simp
qed simp

declare path_inputs.simps [simp del]

function cons_inputs :: "hasher \<Rightarrow> nat \<Rightarrow> nat \<Rightarrow> bool \<Rightarrow> bytes \<Rightarrow> bytes list \<Rightarrow> bytes list" where
  "cons_inputs sha m n b old path =
     (if m = n \<or> \<not> (0 < m \<and> m < n) \<or> path = [] then []
      else let k = largest_pow2_lt n; r = last path in
        if m \<le> k
        then (case cons_roots sha m k b old (butlast path) of None \<Rightarrow> [] | Some (o', w) \<Rightarrow> [[0x01] @ w @ r])
             @ cons_inputs sha m k b old (butlast path)
        else (case cons_roots sha (m - k) (n - k) False old (butlast path) of
                None \<Rightarrow> [] | Some (o', w) \<Rightarrow> [[0x01] @ r @ o', [0x01] @ r @ w])
             @ cons_inputs sha (m - k) (n - k) False old (butlast path))"
  by pat_completeness auto
termination
proof (relation "measure (\<lambda>(sha, m, n, b, old, path). n)", goal_cases)
  case (2 sha m n b old path k r)
  then have "2 \<le> n" by linarith
  from largest_pow2_lt_bounds [OF this] 2 show ?case by simp
next
  case (3 sha m n b old path k r)
  then have "2 \<le> n" by linarith
  from largest_pow2_lt_bounds [OF this] 3 show ?case by simp
qed simp

declare cons_inputs.simps [simp del]

section \<open>Binding\<close>

definition digest32 :: "bytes \<Rightarrow> bool" where
  "digest32 x \<longleftrightarrow> length x = 32"

lemma node_hash_inj:
  assumes "node_hash sha a b = node_hash sha c d" and "inj_on sha S"
    and "[0x01] @ a @ b \<in> S" and "[0x01] @ c @ d \<in> S" and "length a = length c"
  shows "a = c \<and> b = d"
proof -
  have "[0x01] @ a @ b = [0x01] @ c @ d"
    using assms(1-4) by (auto simp: node_hash_def dest: inj_onD)
  then show ?thesis using assms(5) by simp
qed

lemma merkle_root_digest:
  assumes "\<And>x. digest32 (sha x)" and "\<forall>x \<in> set xs. digest32 x"
  shows "digest32 (merkle_root sha xs)"
proof -
  consider "length xs = 0" | x where "xs = [x]" | "2 \<le> length xs"
    by (cases xs; cases "tl xs"; force)
  then show ?thesis
  proof cases
    case 1
    then show ?thesis using assms(1) by (simp add: merkle_root.simps empty_root_def)
  next
    case 2
    then show ?thesis using assms(2) by simp
  next
    case 3
    from merkle_root_step [OF this, of sha] show ?thesis using assms(1) by (simp add: node_hash_def)
  qed
qed

lemma tree_inputs_step:
  assumes "2 \<le> length xs" and "k = largest_pow2_lt (length xs)"
  shows "tree_inputs sha xs = ([0x01] @ merkle_root sha (take k xs) @ merkle_root sha (drop k xs))
    # tree_inputs sha (take k xs) @ tree_inputs sha (drop k xs)"
  using assms by (simp add: tree_inputs.simps [of sha xs] Let_def)

lemma merkle_root_inj:
  assumes sha: "\<And>x. digest32 (sha x)"
  shows "length xs = length ys \<Longrightarrow> \<forall>x \<in> set xs. digest32 x \<Longrightarrow> \<forall>y \<in> set ys. digest32 y \<Longrightarrow>
    inj_on sha S \<Longrightarrow> set (tree_inputs sha xs) \<subseteq> S \<Longrightarrow> set (tree_inputs sha ys) \<subseteq> S \<Longrightarrow>
    merkle_root sha xs = merkle_root sha ys \<Longrightarrow> xs = ys"
proof (induction "length xs" arbitrary: xs ys rule: less_induct)
  case less
  show ?case
  proof (cases "length xs \<le> 1")
    case True
    then show ?thesis
      using less.prems(1,7) by (cases xs; cases ys) auto
  next
    case False
    then have x2: "2 \<le> length xs" and y2: "2 \<le> length ys" using less.prems(1) by linarith+
    define k where "k = largest_pow2_lt (length xs)"
    have k: "0 < k" "k < length xs" using largest_pow2_lt_bounds [OF x2] by (simp_all add: k_def)
    have ky: "k = largest_pow2_lt (length ys)" using less.prems(1) by (simp add: k_def)
    note ix = tree_inputs_step [OF x2 k_def, of sha] and iy = tree_inputs_step [OF y2 ky, of sha]
    have dig: "digest32 (merkle_root sha (take k xs))" "digest32 (merkle_root sha (take k ys))"
      using less.prems(2,3) by (auto intro!: merkle_root_digest sha dest: in_set_takeD)
    have "node_hash sha (merkle_root sha (take k xs)) (merkle_root sha (drop k xs))
        = node_hash sha (merkle_root sha (take k ys)) (merkle_root sha (drop k ys))"
      using less.prems(7) merkle_root_step [OF x2, of sha] merkle_root_step [OF y2, of sha]
      by (simp add: k_def [symmetric] ky [symmetric])
    then have eq: "merkle_root sha (take k xs) = merkle_root sha (take k ys)
        \<and> merkle_root sha (drop k xs) = merkle_root sha (drop k ys)"
      using less.prems(5,6) ix iy dig
      by (intro node_hash_inj [OF _ less.prems(4)]) (auto simp: digest32_def)
    have "take k xs = take k ys"
      using less.prems k ix iy eq
      by (intro less.hyps [of "take k xs" "take k ys"]) (auto dest: in_set_takeD)
    moreover have "drop k xs = drop k ys"
      using less.prems k ix iy eq
      by (intro less.hyps [of "drop k xs" "drop k ys"]) (auto dest: in_set_dropD)
    ultimately show ?thesis by (metis append_take_drop_id)
  qed
qed


lemma path_root_digest:
  assumes "\<And>x. digest32 (sha x)" and "digest32 h" and "path_root sha n i h path = Some r"
  shows "digest32 r"
  using assms(2,3)
  by (subst (asm) path_root.simps) (auto simp: Let_def node_hash_def assms(1) split: if_splits)

lemma path_root_sound:
  assumes sha: "\<And>x. digest32 (sha x)" and h: "digest32 h"
  shows "i < length xs \<Longrightarrow> \<forall>x \<in> set xs. digest32 x \<Longrightarrow> inj_on sha S \<Longrightarrow>
    set (tree_inputs sha xs) \<subseteq> S \<Longrightarrow> set (path_inputs sha (length xs) i h path) \<subseteq> S \<Longrightarrow>
    path_root sha (length xs) i h path = Some (merkle_root sha xs) \<Longrightarrow> h = xs ! i"
proof (induction "length xs" arbitrary: xs i path rule: less_induct)
  case less
  show ?case
  proof (cases "length xs = 1")
    case True
    then obtain x where "xs = [x]" by (auto simp: length_Suc_conv)
    then show ?thesis
      using less.prems(1,6) by (simp add: path_root.simps [of sha "Suc 0"] split: if_splits)
  next
    case False
    then have n2: "2 \<le> length xs" using less.prems(1) by linarith
    define k where "k = largest_pow2_lt (length xs)"
    have k: "0 < k" "k < length xs" using largest_pow2_lt_bounds [OF n2] by (simp_all add: k_def)
    have ne: "path \<noteq> []" using less.prems(6) path_root_Nil [OF n2] by auto
    then obtain p r where path: "path = p @ [r]" by (metis rev_exhaust)
    note step = less.prems(6) [unfolded path path_root_step [OF n2 k_def]]
    note root = merkle_root_step [OF n2, of sha, folded k_def]
    note ix = tree_inputs_step [OF n2 k_def, of sha]
    have dig: "digest32 (merkle_root sha (take k xs))" "digest32 (merkle_root sha (drop k xs))"
      using less.prems(2) by (auto intro!: merkle_root_digest sha dest: in_set_takeD in_set_dropD)
    show ?thesis
    proof (cases "i < k")
      case True
      then obtain l where l: "path_root sha k i h p = Some l"
        and eq: "node_hash sha l r = node_hash sha (merkle_root sha (take k xs)) (merkle_root sha (drop k xs))"
        using step root by auto
      have ip: "path_inputs sha (length xs) i h path = ([0x01] @ l @ r) # path_inputs sha k i h p"
        using n2 True l by (simp add: path_inputs.simps [of sha "length xs"] Let_def path k_def [symmetric])
      have "l = merkle_root sha (take k xs)"
        using node_hash_inj [OF eq less.prems(3)] less.prems(4,5) ix ip dig
          path_root_digest [OF sha h l] by (auto simp: digest32_def)
      then have "h = take k xs ! i"
        using less.prems k l ix ip True
        by (intro less.hyps [of "take k xs" i p]) (auto dest: in_set_takeD)
      then show ?thesis using True by simp
    next
      case right: False
      then obtain q where q: "path_root sha (length xs - k) (i - k) h p = Some q"
        and eq: "node_hash sha r q = node_hash sha (merkle_root sha (take k xs)) (merkle_root sha (drop k xs))"
        using step root by auto
      have ip: "path_inputs sha (length xs) i h path
          = ([0x01] @ r @ q) # path_inputs sha (length xs - k) (i - k) h p"
        using n2 right q by (simp add: path_inputs.simps [of sha "length xs"] Let_def path k_def [symmetric])
      have "[0x01] @ r @ q = [0x01] @ merkle_root sha (take k xs) @ merkle_root sha (drop k xs)"
        using eq less.prems(3-5) ix ip by (auto simp: node_hash_def dest: inj_onD)
      then have "q = merkle_root sha (drop k xs)"
        using dig path_root_digest [OF sha h q] by (auto simp: digest32_def append_eq_append_conv)
      moreover have "i - k < length (drop k xs)" using right less.prems(1) by (simp add: diff_less_mono)
      ultimately have "h = drop k xs ! (i - k)"
        using less.prems k q ix ip
        by (intro less.hyps [of "drop k xs" "i - k" p]) (auto dest: in_set_dropD)
      then show ?thesis using right less.prems(1) by simp
    qed
  qed
qed


lemma cons_roots_cases:
  assumes "cons_roots sha m n b old path = Some (u, v)" and "0 < m" and "m < n" and "k = largest_pow2_lt n"
  obtains (left) p r w where "path = p @ [r]" "m \<le> k" "cons_roots sha m k b old p = Some (u, w)"
      "v = node_hash sha w r"
      "cons_inputs sha m n b old path = ([0x01] @ w @ r) # cons_inputs sha m k b old p"
  | (right) p r o' w where "path = p @ [r]" "k < m"
      "cons_roots sha (m - k) (n - k) False old p = Some (o', w)"
      "u = node_hash sha r o'" "v = node_hash sha r w"
      "cons_inputs sha m n b old path = ([0x01] @ r @ o') # ([0x01] @ r @ w)
         # cons_inputs sha (m - k) (n - k) False old p"
proof -
  have "path \<noteq> []" using assms(1) cons_roots_Nil [OF assms(2,3)] by auto
  then obtain p r where path: "path = p @ [r]" by (metis rev_exhaust)
  note step = assms(1) [unfolded path cons_roots_step [OF assms(2-4)]]
  show thesis
  proof (cases "m \<le> k")
    case True
    then obtain w where w: "cons_roots sha m k b old p = Some (u, w)" "v = node_hash sha w r"
      using step by auto
    moreover have "cons_inputs sha m n b old path = ([0x01] @ w @ r) # cons_inputs sha m k b old p"
      using assms(2-4) True w by (simp add: cons_inputs.simps [of sha m n] path Let_def)
    ultimately show thesis using left path True by blast
  next
    case False
    then obtain o' w where w: "cons_roots sha (m - k) (n - k) False old p = Some (o', w)"
      "u = node_hash sha r o'" "v = node_hash sha r w"
      using step by auto
    moreover have "cons_inputs sha m n b old path = ([0x01] @ r @ o') # ([0x01] @ r @ w)
         # cons_inputs sha (m - k) (n - k) False old p"
      using assms(2-4) False w by (simp add: cons_inputs.simps [of sha m n] path Let_def)
    ultimately show thesis using right [OF path _ w] False by (simp add: not_le)
  qed
qed

lemma cons_roots_digest:
  assumes "\<And>x. digest32 (sha x)" and "digest32 old" and "\<forall>x \<in> set path. digest32 x"
    and "cons_roots sha m n b old path = Some (u, v)"
  shows "digest32 v"
proof (cases "m = n")
  case True
  then show ?thesis
    using assms(2-4) by (auto simp: cons_roots.simps [of sha n n] split: if_splits list.splits)
next
  case False
  then have m: "0 < m" "m < n" using assms(4) by (auto simp: cons_roots.simps [of sha m n] split: if_splits)
  show ?thesis
    using assms(4) m refl by (rule cons_roots_cases) (simp_all add: node_hash_def assms(1))
qed

lemma cons_roots_sound:
  assumes sha: "\<And>x. digest32 (sha x)" and old: "digest32 old"
  shows "0 < length xs \<Longrightarrow> length xs \<le> length ys \<Longrightarrow>
    \<forall>x \<in> set xs. digest32 x \<Longrightarrow> \<forall>y \<in> set ys. digest32 y \<Longrightarrow> \<forall>z \<in> set path. digest32 z \<Longrightarrow>
    inj_on sha S \<Longrightarrow> set (tree_inputs sha xs) \<subseteq> S \<Longrightarrow> set (tree_inputs sha ys) \<subseteq> S \<Longrightarrow>
    set (cons_inputs sha (length xs) (length ys) b old path) \<subseteq> S \<Longrightarrow>
    cons_roots sha (length xs) (length ys) b old path = Some (merkle_root sha xs, merkle_root sha ys) \<Longrightarrow>
    xs = take (length xs) ys"
proof (induction "length ys" arbitrary: xs ys b path rule: less_induct)
  case less
  show ?case
  proof (cases "length xs = length ys")
    case True
    then have "merkle_root sha xs = merkle_root sha ys"
      using less.prems(10) by (auto simp: cons_roots.simps [of sha "length ys"] split: if_splits list.splits)
    then show ?thesis
      using merkle_root_inj [OF sha True less.prems(3,4,6-8)] by simp
  next
    case False
    then have m: "length xs < length ys" and y2: "2 \<le> length ys" using less.prems(1,2) by linarith+
    define k where "k = largest_pow2_lt (length ys)"
    have k: "0 < k" "k < length ys" using largest_pow2_lt_bounds [OF y2] by (simp_all add: k_def)
    note rooty = merkle_root_step [OF y2, of sha, folded k_def]
    note iy = tree_inputs_step [OF y2 k_def, of sha]
    have dig: "digest32 (merkle_root sha (take k ys))" "digest32 (merkle_root sha (take k xs))"
      using less.prems(3,4) by (auto intro!: merkle_root_digest sha dest: in_set_takeD)
    show ?thesis
      using less.prems(10,1) m k_def
    proof (cases rule: cons_roots_cases)
      case (left p r w)
      have "digest32 w" using cons_roots_digest [OF sha old _ left(3)] less.prems(5) left(1) by simp
      then have "w = merkle_root sha (take k ys)"
        using node_hash_inj [OF left(4) [symmetric, unfolded rooty] less.prems(6)]
          less.prems(8,9) iy left(5) dig by (auto simp: digest32_def)
      then have "xs = take (length xs) (take k ys)"
        using less.prems k left iy
        by (intro less.hyps [of "take k ys" xs p b]) (auto dest: in_set_takeD)
      then show ?thesis using left(2) by (simp add: min_def)
    next
      case (right p r o' w)
      have x2: "2 \<le> length xs" using right(2) k by linarith
      obtain j where j: "k = 2 ^ j" "length ys \<le> 2 * 2 ^ j"
        using largest_pow2_lt_spec [OF y2] k_def by metis
      have kx: "k = largest_pow2_lt (length xs)"
        using largest_pow2_lt_eq [of j "length xs"] j right(2) m by simp
      note rootx = merkle_root_step [OF x2, of sha, folded kx]
      note ix = tree_inputs_step [OF x2 kx, of sha]
      have r32: "digest32 r" using less.prems(5) right(1) by simp
      have "r = merkle_root sha (take k xs) \<and> o' = merkle_root sha (drop k xs)"
        using node_hash_inj [OF right(4) [symmetric, unfolded rootx] less.prems(6)]
          less.prems(7,9) ix right(6) dig r32 by (auto simp: digest32_def)
      moreover have "r = merkle_root sha (take k ys) \<and> w = merkle_root sha (drop k ys)"
        using node_hash_inj [OF right(5) [symmetric, unfolded rooty] less.prems(6)]
          less.prems(8,9) iy right(6) dig r32 by (auto simp: digest32_def)
      ultimately have eqs: "merkle_root sha (take k xs) = merkle_root sha (take k ys)"
        "o' = merkle_root sha (drop k xs)" "w = merkle_root sha (drop k ys)" by auto
      have "take k xs = take k ys"
        using eqs(1) less.prems right(2) m ix iy
        by (intro merkle_root_inj [OF sha _ _ _ less.prems(6)]) (auto dest: in_set_takeD)
      moreover have "drop k xs = take (length (drop k xs)) (drop k ys)"
        using less.prems k right ix iy eqs
        by (intro less.hyps [of "drop k ys" "drop k xs" p False]) (auto dest: in_set_dropD)
      ultimately show ?thesis
        using right(2) m append_take_drop_id [of k xs] take_add [of k "length xs - k" ys] by simp
    qed
  qed
qed

end
