(* ===== verification/Evidence_Properties.thy ===== *)
theory Evidence_Properties
  imports Evidence_Search Evidence_Verify
begin

text \<open>
  The properties of the evidence store, each with an instance on a small chain of four entries and
  a graph of two edges. The instance hashes with an 8-bit polynomial checksum padded to 32 bytes.
\<close>

section \<open>Evaluation\<close>

text \<open>Code equations of the byte encodings over \<open>int\<close>.\<close>

primrec int_bytes :: "nat \<Rightarrow> int \<Rightarrow> bytes" where
  "int_bytes 0 v = []"
| "int_bytes (Suc n) v = word_of_int (v div 256 ^ n) # int_bytes n (v mod 256 ^ n)"

lemma be_bytes_int: "be_bytes n v = int_bytes n (int v)"
proof (induction n arbitrary: v)
  case (Suc n)
  have "(word_of_int (int v div 256 ^ n) :: u8) = word_of_int (int (v div 256 ^ n))" by (simp add: zdiv_int)
  moreover have "int v mod 256 ^ n = int (v mod 256 ^ n)" by (simp add: zmod_int)
  ultimately show ?case using Suc [of "v mod 256 ^ n"] by simp
qed simp

lemma word_be_code [code]:
  "u32_be x = int_bytes 4 (uint x)"
  "u64_be y = int_bytes 8 (uint y)"
  by (simp_all add: u32_be_def u64_be_def be_bytes_int)

definition int_of_bytes :: "bytes \<Rightarrow> int" where
  "int_of_bytes bs = foldl (\<lambda>acc b. acc * 256 + uint b) 0 bs"

lemma int_from_be_bytes: "int (from_be_bytes bs) = int_of_bytes bs"
proof -
  have "int (foldl (\<lambda>acc b. acc * 256 + unat b) a bs) = foldl (\<lambda>acc b. acc * 256 + uint b) (int a) bs" for a
    by (induction bs arbitrary: a) simp_all
  from this [of 0] show ?thesis by (simp add: from_be_bytes_def int_of_bytes_def)
qed

lemma from_be_code [code]:
  "weight_from_obe b = (word_of_int (int_of_bytes b) :: u64) XOR push_bit 63 1"
  "i64_from_be b = sint (word_of_int (int_of_bytes b) :: 64 word)"
  by (simp_all add: weight_from_obe_def i64_from_be_def flip: int_from_be_bytes)

section \<open>A small evidence store\<close>

definition toy_sha :: hasher where
  "toy_sha bs = foldl (\<lambda>h b. h * 3 + b + 1) 1 bs # replicate 31 0"

definition demo_edge :: "bytes \<Rightarrow> bytes \<Rightarrow> i64 \<Rightarrow> edge_delta" where
  "demo_edge s d w = \<lparr> ed_graph = [103], ed_src = s, ed_dst = d, ed_weight = w, ed_etype = [116],
     ed_op = Upsert Merge_Max \<rparr>"

definition demo_entry :: "u8 \<Rightarrow> edge_delta list \<Rightarrow> entry_input" where
  "demo_entry p es = \<lparr> ei_etype = [101], ei_payload = [p], ei_at = [48], ei_edges = es \<rparr>"

definition demo_batch :: "entry_input list" where
  "demo_batch = [demo_entry 1 [demo_edge [97] [98] 5], demo_entry 2 [demo_edge [98] [99] 3], demo_entry 3 []]"

definition demo_chain :: bytes where "demo_chain = [99]"

definition demo1 :: evidence_db where
  "demo1 = fst (projr (append_entries toy_sha True empty_evidence demo_chain demo_batch (Some [107])))"

definition demo2 :: evidence_db where
  "demo2 = fst (projr (append_entries toy_sha True demo1 demo_chain [demo_entry 4 []] None))"

lemma toy_sha_digest: "digest32 (toy_sha x)"
  by (simp add: toy_sha_def digest32_def)

lemma projr_prod: "isl x = False \<Longrightarrow> x = Inr (fst (projr x), snd (projr x))"
  by (cases x) simp_all

lemma demo1_step: "evidence_step toy_sha empty_evidence demo1"
proof -
  have "isl (append_entries toy_sha True empty_evidence demo_chain demo_batch (Some [107])) = False"
    by code_simp
  from projr_prod [OF this] show ?thesis unfolding demo1_def by (rule step_append)
qed

lemma demo2_step: "evidence_step toy_sha demo1 demo2"
proof -
  have "isl (append_entries toy_sha True demo1 demo_chain [demo_entry 4 []] None) = False"
    by code_simp
  from projr_prod [OF this] show ?thesis unfolding demo2_def by (rule step_append)
qed

lemma demo_evidence_reachable: "evidence_reachable toy_sha demo1" "evidence_reachable toy_sha demo2"
  "(evidence_step toy_sha)\<^sup>*\<^sup>* demo1 demo2"
  using demo1_step demo2_step unfolding evidence_reachable_def
  by (blast intro: rtranclp.rtrancl_into_rtrancl)+

lemma demo_seq: "get_seq demo1 demo_chain = 3" "get_seq demo2 demo_chain = 4"
  by code_simp+

lemma demo_verified: "verified_chain demo1 demo_chain" "verified_chain demo2 demo_chain"
  by code_simp+

lemma demo_meta: "get_chain_meta demo1 demo_chain \<noteq> None"
  by code_simp

section \<open>Digest and proofs\<close>

text \<open>C14. The digest that the handle folds from the stored frontier of a verified chain is, in every
  reachable state, the RFC 6962 root over the leaf hashes of its entries, with their number.\<close>

theorem digest_is_merkle_root:
  assumes "evidence_reachable sha db" and "verified_chain db chain"
  shows "digest sha db chain
    = Inr \<lparr> dg_size = length (chain_leaves db chain), dg_root = merkle_root sha (chain_leaves db chain) \<rparr>"
  using digest_correct [OF evidence_reachable_inv [OF assms(1)] assms(2)] by simp

theorem digest_is_merkle_root_witness:
  "digest toy_sha demo1 demo_chain
    = Inr \<lparr> dg_size = 3, dg_root = merkle_root toy_sha (chain_leaves demo1 demo_chain) \<rparr>"
  using digest_is_merkle_root [OF demo_evidence_reachable(1) demo_verified(1)] demo_seq(1) by simp

text \<open>C13. History is append-only and provable: for a verified chain that exists, after any further
  operations, the consistency proof from the old size to the current head is produced and takes the
  old digest to the current one.\<close>

theorem history_consistent:
  assumes run: "evidence_reachable sha db" "(evidence_step sha)\<^sup>*\<^sup>* db db'"
    and chain: "get_chain_meta db chain \<noteq> None" "verified_chain db chain" "1 \<le> get_seq db chain"
  shows "\<exists>res old new. consistency sha db' chain (get_seq db chain) None = Inr res
    \<and> digest sha db chain = Inr old \<and> digest sha db' chain = Inr new
    \<and> prefix (chain_leaves db chain) (chain_leaves db' chain)
    \<and> cons_roots sha (dg_size old) (dg_size new) True (dg_root old) (cp_proof res)
        = Some (dg_root old, dg_root new)"
proof -
  have inv: "evidence_inv sha db" by (rule evidence_reachable_inv [OF run(1)])
  have inv': "evidence_inv sha db'" and ext: "extends db db'" using run_extends [OF run(2) inv] by simp_all
  have v': "verified_chain db' chain" and le: "get_seq db chain \<le> get_seq db' chain"
    and pre: "prefix (chain_leaves db chain) (chain_leaves db' chain)"
    using ext chain unfolding extends_def verified_chain_def by metis+
  define m where "m = nat (get_seq db chain)"
  have old: "take m (chain_leaves db' chain) = chain_leaves db chain"
    using pre by (auto simp: m_def prefix_def)
  have "consistency sha db' chain (get_seq db chain) None = consistency sha db' chain (get_seq db chain) (Some (get_seq db' chain))"
    by (simp add: consistency_def chain_head_def)
  also have "\<dots> = Inr \<lparr> cp_first = get_seq db chain, cp_second = get_seq db' chain,
      cp_proof = consistency_proof sha (chain_leaves db' chain) m \<rparr>"
    using consistency_correct [OF inv' v' chain(3) le] by (simp add: m_def)
  moreover have "cons_roots sha m (length (chain_leaves db' chain)) True (merkle_root sha (chain_leaves db chain))
      (ref_subproof sha m (chain_leaves db' chain) True)
      = Some (merkle_root sha (chain_leaves db chain), merkle_root sha (chain_leaves db' chain))"
    using cons_roots_complete [of m "chain_leaves db' chain" True "merkle_root sha (chain_leaves db chain)" sha]
      chain(3) le old by (simp add: m_def nat_mono)
  moreover have "consistency_proof sha (chain_leaves db' chain) m = ref_subproof sha m (chain_leaves db' chain) True"
    using chain(3) by (simp add: consistency_proof_def m_def)
  ultimately show ?thesis
    using digest_correct [OF inv chain(2)] digest_correct [OF inv' v'] pre by (simp add: m_def)
qed

theorem history_consistent_witness:
  "\<exists>res old new. consistency toy_sha demo2 demo_chain (get_seq demo1 demo_chain) None = Inr res
    \<and> digest toy_sha demo1 demo_chain = Inr old \<and> digest toy_sha demo2 demo_chain = Inr new
    \<and> prefix (chain_leaves demo1 demo_chain) (chain_leaves demo2 demo_chain)
    \<and> cons_roots toy_sha (dg_size old) (dg_size new) True (dg_root old) (cp_proof res)
        = Some (dg_root old, dg_root new)"
  by (rule history_consistent [OF demo_evidence_reachable(1,3) demo_meta demo_verified(1)])
    (simp add: demo_seq)

text \<open>C15. Every entry of a verified chain is provable: in every reachable state the inclusion proof of a
  sequence number against a size up to the head is produced, and reconstructs from the entry's
  leaf hash the root of the chain at that size.\<close>

theorem inclusion_verifies:
  assumes "evidence_reachable sha db" and "verified_chain db chain"
    and "1 \<le> seq" "seq \<le> n" "n \<le> get_seq db chain"
  shows "\<exists>res. inclusion sha db chain seq (Some n) = Inr res
    \<and> path_root sha (nat n) (nat (seq - 1)) (leaf_at db chain seq) (ip_audit_path res)
        = Some (merkle_root sha (take (nat n) (chain_leaves db chain)))"
proof -
  let ?ls = "take (nat n) (chain_leaves db chain)"
  obtain p where p: "inclusion sha db chain seq (Some n) = Inr \<lparr> ip_seq = seq, ip_size = n, ip_audit_path = p \<rparr>"
    "inclusion_proof sha ?ls (nat (seq - 1)) = Some p"
    using inclusion_correct [OF evidence_reachable_inv [OF assms(1)] assms(2-5)] by blast
  have len: "length ?ls = nat n" using assms(3-5) by (simp add: nat_mono)
  have i: "nat (seq - 1) < nat n" "int (nat (seq - 1)) + 1 = seq" "nat (seq - 1) < nat (get_seq db chain)"
    using assms(3-5) by linarith+
  then have "?ls ! nat (seq - 1) = leaf_at db chain seq" by (simp add: nth_chain_leaves)
  then have "path_root sha (nat n) (nat (seq - 1)) (leaf_at db chain seq) p = Some (merkle_root sha ?ls)"
    using path_root_complete [of "nat (seq - 1)" ?ls sha] p(2) i(1) len assms(3-5) by auto
  then show ?thesis using p(1) by simp
qed

theorem inclusion_verifies_witness:
  "\<exists>res. inclusion toy_sha demo2 demo_chain 2 (Some 3) = Inr res
    \<and> path_root toy_sha (nat 3) (nat (2 - 1)) (leaf_at demo2 demo_chain 2) (ip_audit_path res)
        = Some (merkle_root toy_sha (take (nat 3) (chain_leaves demo2 demo_chain)))"
  by (rule inclusion_verifies [OF demo_evidence_reachable(2) demo_verified(2)]) (simp_all add: demo_seq)



definition demo_leaves :: "bytes list" where
  "demo_leaves = map (\<lambda>b. b # replicate 31 0) [1, 2, 3]"


lemma demo_leaves_digest: "\<forall>x \<in> set demo_leaves. digest32 x"
  by (simp add: demo_leaves_def digest32_def)


text \<open>A consistency proof cannot be forged: with 32-byte digests and no collision among the hashed
  inputs, a proof that reconstructs the roots of two trees proves that the leaves of the smaller
  are a prefix of the leaves of the larger.\<close>

theorem consistency_binds:
  assumes "\<And>x. digest32 (sha x)" and "\<forall>x \<in> set xs. digest32 x" and "\<forall>y \<in> set ys. digest32 y"
    and "\<forall>z \<in> set path. digest32 z" and "0 < length xs" and "length xs \<le> length ys"
    and "inj_on sha (set (tree_inputs sha xs) \<union> set (tree_inputs sha ys)
      \<union> set (cons_inputs sha (length xs) (length ys) True (merkle_root sha xs) path))"
    and "cons_roots sha (length xs) (length ys) True (merkle_root sha xs) path
      = Some (merkle_root sha xs, merkle_root sha ys)"
  shows "prefix xs ys"
proof -
  have "digest32 (merkle_root sha xs)" by (rule merkle_root_digest [OF assms(1,2)])
  then have "xs = take (length xs) ys"
    using cons_roots_sound [OF assms(1) _ assms(5,6,2-4,7)] assms(8) by blast
  then show ?thesis by (metis take_is_prefix)
qed

definition demo_cons_path :: "bytes list" where
  "demo_cons_path = consistency_proof toy_sha demo_leaves 2"

theorem consistency_binds_witness: "prefix (take 2 demo_leaves) demo_leaves"
proof (rule consistency_binds [OF toy_sha_digest _ demo_leaves_digest])
  show "\<forall>x \<in> set (take 2 demo_leaves). digest32 x" "0 < length (take 2 demo_leaves)"
    "length (take 2 demo_leaves) \<le> length demo_leaves"
    by (simp_all add: demo_leaves_def digest32_def)
  show "\<forall>z \<in> set demo_cons_path. digest32 z" by code_simp
  have "set (tree_inputs toy_sha (take 2 demo_leaves))
      \<union> set (cons_inputs toy_sha (length (take 2 demo_leaves)) (length demo_leaves) True
          (merkle_root toy_sha (take 2 demo_leaves)) demo_cons_path) \<subseteq> set (tree_inputs toy_sha demo_leaves)"
    by code_simp
  moreover have "inj_on toy_sha (set (tree_inputs toy_sha demo_leaves))" by code_simp
  ultimately show "inj_on toy_sha (set (tree_inputs toy_sha (take 2 demo_leaves)) \<union> set (tree_inputs toy_sha demo_leaves)
      \<union> set (cons_inputs toy_sha (length (take 2 demo_leaves)) (length demo_leaves) True
          (merkle_root toy_sha (take 2 demo_leaves)) demo_cons_path))"
    by (auto intro: inj_on_subset)
  show "cons_roots toy_sha (length (take 2 demo_leaves)) (length demo_leaves) True
      (merkle_root toy_sha (take 2 demo_leaves)) demo_cons_path
      = Some (merkle_root toy_sha (take 2 demo_leaves), merkle_root toy_sha demo_leaves)"
    by code_simp
qed

text \<open>The storage-backed proofs are byte-identical to the reference proofs over the leaves: on a
  store that holds the tree of a chain, the inclusion path and the consistency proof at any size
  equal those computed from scratch.\<close>

theorem stored_proofs_match_reference:
  assumes "holds_tree sha db chain leaves" and "n \<le> length leaves" and "i < n" and "0 < m" and "m \<le> n"
  shows "(\<exists>p. proof_inclusion sha db chain i n = Inr p \<and> inclusion_proof sha (take n leaves) i = Some p)
    \<and> proof_consistency sha db chain m n = Inr (consistency_proof sha (take n leaves) m)"
  using incl_correct [OF assms(1), of 0 i n] subproof_correct [OF assms(1), of m n 0 True] assms(2-5)
  by (simp_all add: proof_inclusion_def proof_consistency_def consistency_proof_def)

lemma demo_tree: "holds_tree toy_sha demo2 demo_chain (chain_leaves demo2 demo_chain)"
  using evidence_reachable_inv [OF demo_evidence_reachable(2)] demo_verified(2) by (simp add: evidence_inv_def chain_inv_def)

theorem stored_proofs_match_reference_witness:
  "(\<exists>p. proof_inclusion toy_sha demo2 demo_chain 1 4 = Inr p
      \<and> inclusion_proof toy_sha (take 4 (chain_leaves demo2 demo_chain)) 1 = Some p)
   \<and> proof_consistency toy_sha demo2 demo_chain 2 4
     = Inr (consistency_proof toy_sha (take 4 (chain_leaves demo2 demo_chain)) 2)"
  by (rule stored_proofs_match_reference [OF demo_tree]) (simp_all add: demo_seq)


section \<open>Appends and erasure\<close>

text \<open>A fresh append succeeds in every reachable state and assigns the next sequence numbers without a
  gap; exactly these entries become readable, with their content, the leaf hashes of a verified
  chain grow by the hashes of the entries, and the edges of the entries are applied to the graph in
  order.\<close>

theorem append_assigns_dense_seqs:
  assumes "evidence_reachable sha db" and "entries \<noteq> []"
    and "idem = None \<or> get_idem db chain (the idem) = None"
  shows "\<exists>db'. append_entries sha True db chain entries idem
      = Inr (db', \<lparr> ap_base_seq = get_seq db chain,
                   ap_seqs = [get_seq db chain + 1 .. get_seq db chain + int (length entries)] \<rparr>)
    \<and> (\<forall>c s. get_entry db' c s =
         (if c = chain \<and> get_seq db chain < s \<and> s \<le> get_seq db chain + int (length entries)
          then Some (entry_of sha (verified_chain db chain) (entries ! nat (s - get_seq db chain - 1)))
          else get_entry db c s))
    \<and> (verified_chain db chain \<longrightarrow>
         chain_leaves db' chain = chain_leaves db chain @ map (leaf_of sha) entries)
    \<and> edges_of db' = fold edge_step (concat (map ei_edges entries)) (edges_of db)"
proof -
  have inv: "evidence_inv sha db" by (rule evidence_reachable_inv [OF assms(1)])
  have "append_entries sha True db chain entries idem = append_batch sha db chain entries idem (fingerprint sha entries)"
    using assms(2,3) by (auto simp: append_entries_def split: option.splits)
  moreover obtain db' where "append_batch sha db chain entries idem (fingerprint sha entries)
      = Inr (db', \<lparr> ap_base_seq = get_seq db chain,
                   ap_seqs = [get_seq db chain + 1 .. get_seq db chain + int (length entries)] \<rparr>)"
    and app: "appended_state sha db chain entries idem (fingerprint sha entries) db'"
    using append_batch_spec [OF inv] by blast
  ultimately show ?thesis
    using appended_stateD(5,12) [OF app] appended_leaves [OF _ app] inv
    by (auto simp: evidence_inv_def)
qed

theorem append_assigns_dense_seqs_witness:
  "\<exists>db'. append_entries toy_sha True demo1 demo_chain [demo_entry 9 []] None
      = Inr (db', \<lparr> ap_base_seq = 3, ap_seqs = [4] \<rparr>)"
  using append_assigns_dense_seqs [OF demo_evidence_reachable(1), of "[demo_entry 9 []]" None demo_chain] demo_seq(1)
  by auto



text \<open>Redaction erases content and nothing else: it blanks the payload of the entry, marks it, and
  keeps its type, time, edges and leaf hash, so that the leaves, the digest and every inclusion proof of
  every chain are unchanged.\<close>

theorem redact_keeps_proofs:
  assumes "evidence_reachable sha db" and "redact True db chain seq = Inr db'"
  shows "(\<exists>rec. get_entry db chain seq = Some rec
      \<and> get_entry db' chain seq = Some (rec\<lparr> en_payload := [], en_redacted := True \<rparr>))
    \<and> (\<forall>c s. (c, s) \<noteq> (chain, seq) \<longrightarrow> get_entry db' c s = get_entry db c s)
    \<and> (\<forall>c. chain_leaves db' c = chain_leaves db c \<and> digest sha db' c = digest sha db c)
    \<and> (\<forall>c s n. s \<in> {1 .. n} \<and> n \<le> get_seq db c \<and> verified_chain db c \<longrightarrow>
         inclusion sha db' c s (Some n) = inclusion sha db c s (Some n))"
proof -
  have inv: "evidence_inv sha db" by (rule evidence_reachable_inv [OF assms(1)])
  have inv': "evidence_inv sha db'" using redact_step [OF inv assms(2)] by simp
  obtain rec where rec: "get_entry db chain seq = Some rec"
    using assms(2) by (cases "get_entry db chain seq") (auto simp: redact_def)
  have db': "db' = db\<lparr> ev_entries := put_assoc (chain, seq) (rec\<lparr> en_payload := [], en_redacted := True \<rparr>) (ev_entries db) \<rparr>"
    using assms(2) rec by (simp add: redact_def)
  have entry: "get_entry db' c s = (if (c, s) = (chain, seq) then Some (rec\<lparr> en_payload := [], en_redacted := True \<rparr>)
      else get_entry db c s)" for c s
    by (auto simp: db' get_entry_def)
  have reads: "get_seq db' c = get_seq db c" "verified_chain db' c = verified_chain db c"
    "digest sha db' c = digest sha db c" for c
    by (simp_all add: db' get_seq_def verified_chain_def get_chain_meta_def digest_def require_verified_def
        get_frontier_def)
  have leaves: "chain_leaves db' c = chain_leaves db c" for c
    using rec by (auto simp: chain_leaves_def leaf_at_def reads entry)
  have "inclusion sha db' c s (Some n) = inclusion sha db c s (Some n)"
    if "s \<in> {1 .. n}" "n \<le> get_seq db c" "verified_chain db c" for c s n
    using inclusion_correct [OF inv that(3), of s n] inclusion_correct [OF inv', of c s n] that reads leaves
    by auto
  then show ?thesis using rec entry reads leaves by simp
qed

theorem redact_keeps_proofs_witness:
  "\<exists>db'. redact True demo1 demo_chain 2 = Inr db' \<and> digest toy_sha db' demo_chain = digest toy_sha demo1 demo_chain"
proof -
  have "isl (redact True demo1 demo_chain 2) = False" by code_simp
  then obtain db' where "redact True demo1 demo_chain 2 = Inr db'" by (cases "redact True demo1 demo_chain 2") auto
  then show ?thesis using redact_keeps_proofs [OF demo_evidence_reachable(1), of demo_chain 2 db'] by auto
qed


text \<open>Erasure and writes respect the mode and role: on a verified chain a hard delete is always
  rejected, a chain cannot change its mode, and a node that is not the writer rejects every
  non-empty write.\<close>

theorem writes_guarded:
  "(verified_chain db chain \<longrightarrow> hard_delete True db chain seq retract = Inl (VerifiedNoDelete chain))
   \<and> (get_chain_meta db chain = Some m \<and> cm_verified m \<noteq> v \<longrightarrow>
        create_chain True db chain v = Inl (ChainModeConflict chain))
   \<and> (entries \<noteq> [] \<longrightarrow> append_entries sha False db chain entries idem = Inl NotWriter)
   \<and> create_chain False db chain v = Inl NotWriter \<and> redact False db chain seq = Inl NotWriter
   \<and> hard_delete False db chain seq retract = Inl NotWriter
   \<and> (edges \<noteq> [] \<longrightarrow> graph_upsert False db graph edges merge = Inl NotWriter)
   \<and> (refs \<noteq> [] \<longrightarrow> graph_delete False db graph refs = Inl NotWriter)
   \<and> (edges \<noteq> [] \<longrightarrow> graph_mutate False db graph edges refs merge = Inl NotWriter)
   \<and> drop_graph False ks db graph = Inl NotWriter"
  by (auto simp: hard_delete_def verified_chain_def create_chain_def append_entries_def redact_def
      graph_upsert_def graph_delete_def graph_mutate_def drop_graph_def Let_def)

theorem writes_guarded_witness:
  "hard_delete True demo1 demo_chain 1 True = Inl (VerifiedNoDelete demo_chain)"
  using writes_guarded [of demo1 demo_chain 1 True] demo_verified(1) by blast

section \<open>Range reads\<close>






text \<open>A range read whose lower bound is negative returns nothing, even when entries lie between the
  bounds: the key bytes of a negative number sort above those of every sequence number.\<close>

theorem read_range_negative_is_empty:
  assumes "- (2 ^ 63) \<le> lo" and "lo < 0" and "0 \<le> hi" and "hi < I64_MAX"
  shows "read_range ks db chain lo hi = Inr []"
  by (rule read_range_negative_spec [OF assms])

theorem read_range_negative_is_empty_witness:
  "read_range (keyspace_new []) demo1 demo_chain (- 1) 3 = Inr [] \<and> get_seq demo1 demo_chain = 3"
  using read_range_negative_is_empty [of "- 1" 3] demo_seq(1) by (simp add: I64_MAX_def)

section \<open>The graph\<close>

text \<open>C19. In every reachable state the three tables of the graph agree: an adjacency row is in the outgoing
  index, and in the incoming index, exactly when the canonical table holds the edge with that
  weight.\<close>

theorem graph_indexes_agree:
  assumes "evidence_reachable sha db"
  shows "((g, s, w, d, t) \<in> set (gr_out db) \<longleftrightarrow> get_edge_weight db g s d t = Some w)
    \<and> ((g, d, w, s, t) \<in> set (gr_in db) \<longleftrightarrow> get_edge_weight db g s d t = Some w)"
  using evidence_reachable_inv [OF assms] by (simp add: evidence_inv_def graph_inv_def edges_of_def get_edge_weight_def)

theorem graph_indexes_agree_witness:
  "([103], [97], 5, [98], [116]) \<in> set (gr_out demo1) \<and> get_edge_weight demo1 [103] [97] [98] [116] = Some 5"
proof -
  have "get_edge_weight demo1 [103] [97] [98] [116] = Some 5" by code_simp
  then show ?thesis using graph_indexes_agree [OF demo_evidence_reachable(1)] by blast
qed

text \<open>C20. An atomic rewire has the effect of its deltas one after the other, upserts before deletes, each
  reading the weights the earlier ones of the same batch wrote, and reports the number of upserts
  that changed a weight and of deletes that removed an edge.\<close>

theorem mutate_is_sequential:
  assumes "graph_inv db"
  shows "\<exists>db'. graph_mutate True db graph upserts deletes merge
      = Inr (db', edge_changes (map (upsert_delta graph merge) upserts) (edges_of db),
          edge_changes (map (delete_delta graph) deletes)
            (fold edge_step (map (upsert_delta graph merge) upserts) (edges_of db)))
    \<and> graph_inv db'
    \<and> edges_of db' = fold edge_step (map (upsert_delta graph merge) upserts @ map (delete_delta graph) deletes) (edges_of db)"
  by (rule graph_mutate_spec [OF assms refl refl])

definition demo_graph :: "unit graph_db_scheme" where
  "demo_graph = \<lparr> gr_edge = [(([103], [97], [98], [116]), 5)], gr_out = [([103], [97], 5, [98], [116])],
     gr_in = [([103], [98], 5, [97], [116])] \<rparr>"

lemma demo_graph_inv: "graph_inv demo_graph"
  by (auto simp: graph_inv_def demo_graph_def edges_of_def split: if_splits)

theorem mutate_is_sequential_witness:
  "\<exists>db'. graph_mutate True demo_graph [103] [\<lparr> eu_src = [97], eu_dst = [99], eu_weight = 7, eu_etype = [116] \<rparr>]
      [\<lparr> er_src = [97], er_dst = [98], er_etype = [116] \<rparr>] Merge_Set = Inr (db', 1, 1) \<and> graph_inv db'"
  using mutate_is_sequential [OF demo_graph_inv, of "[103]"
      "[\<lparr> eu_src = [97], eu_dst = [99], eu_weight = 7, eu_etype = [116] \<rparr>]"
      "[\<lparr> er_src = [97], er_dst = [98], er_etype = [116] \<rparr>]" Merge_Set]
  by (auto simp: edge_step_def upsert_delta_def delete_delta_def ed_id_def edges_of_def demo_graph_def)


text \<open>Dropping a graph removes exactly the edges of that graph from all three tables, whatever other
  graph names share its prefix, and reports their number.\<close>

theorem drop_graph_exact:
  assumes "graph_inv db" and "graph_short db" and "short graph"
  shows "\<exists>db'. drop_graph True ks db graph = Inr (db', card {e \<in> dom (edges_of db). fst e = graph})
    \<and> graph_inv db' \<and> edges_of db' = (\<lambda>e. if fst e = graph then None else edges_of db e)"
  by (rule drop_graph_spec [OF assms])

lemma demo_graph_short: "graph_short demo_graph" "short [103]"
  by (simp_all add: graph_short_def demo_graph_def short_def)

theorem drop_graph_exact_witness:
  "\<exists>db'. drop_graph True (keyspace_new []) demo_graph [103]
      = Inr (db', card {e \<in> dom (edges_of demo_graph). fst e = [103]})
    \<and> graph_inv db' \<and> edges_of db' = (\<lambda>e. if fst e = [103] then None else edges_of demo_graph e)"
  by (rule drop_graph_exact [OF demo_graph_inv demo_graph_short])

text \<open>C21. The adjacency scan of a node decodes to exactly its outgoing edges of at least the floor weight,
  each once, in ascending order of weight, although it works on key bytes only.\<close>

theorem out_neighbors_exact:
  assumes "graph_inv db" and "graph_names_ok db" and "short graph" and "short src"
  shows "\<exists>ns. out_neighbors ks db graph src floor = Inr ns
    \<and> set ns = {(d, w, t) \<in> out_edges db graph src. sint floor \<le> sint w}
    \<and> distinct ns \<and> sorted (map (\<lambda>(d, w, t). sint w) ns)"
  by (rule out_neighbors_spec [OF assms])

lemma demo_graph_names: "graph_names_ok demo_graph" "short [97]" "short [98]"
  by (simp_all add: graph_names_ok_def demo_graph_def row_ok_def short_def)

theorem out_neighbors_exact_witness:
  "\<exists>ns. out_neighbors (keyspace_new []) demo_graph [103] [97] 5 = Inr ns
    \<and> set ns = {(d, w, t) \<in> out_edges demo_graph [103] [97]. sint (5 :: i64) \<le> sint w}
    \<and> distinct ns \<and> sorted (map (\<lambda>(d, w, t). sint w) ns)"
  by (rule out_neighbors_exact [OF demo_graph_inv demo_graph_names(1) demo_graph_short(2) demo_graph_names(2)])

text \<open>C22. Reachability ends and returns, sorted, exactly the nodes reachable from the seeds over edges of at
  least the floor weight, in whatever order the concurrent scans of a level finish.\<close>

theorem reachable_exact:
  assumes "graph_inv db" and "graph_names_ok db" and "short graph" and "\<forall>u \<in> set from. short u"
    and "fair sched"
  shows "reachable sched ks db graph from floor directed
    = Some (Inr (sorted_list_of_set (reach (neighbors_of db graph floor directed) (set from))))"
  by (rule reachable_spec [OF assms])

theorem reachable_exact_witness:
  "reachable rev (keyspace_new []) demo_graph [103] [[97]] 5 True
    = Some (Inr (sorted_list_of_set (reach (neighbors_of demo_graph [103] 5 True) (set [[97]]))))"
  by (rule reachable_exact [OF demo_graph_inv demo_graph_names(1) demo_graph_short(2)])
    (simp_all add: demo_graph_names fair_def)



definition min_graph :: "unit graph_db_scheme" where
  "min_graph = \<lparr> gr_edge = [(([103], [97], [98], [116]), I64_MIN_W)], gr_out = [([103], [97], I64_MIN_W, [98], [116])],
     gr_in = [([103], [98], I64_MIN_W, [97], [116])] \<rparr>"

text \<open>An edge of the least weight is invisible to the widest-path search: with a single edge of weight
  \<open>i64::MIN\<close> the target is reachable, yet the search reports the nodes unconnected.\<close>

theorem widest_path_misses_min_weight:
  "reachable (\<lambda>rs. rs) (keyspace_new []) min_graph [103] [[97]] I64_MIN_W True = Some (Inr [[97], [98]])
   \<and> widest_path (keyspace_new []) min_graph [103] [97] [98] True
       = Some (Inr \<lparr> wp_connected = False, wp_bottleneck = None \<rparr>)"
  by code_simp

end
