(* ===== verification/Ha_Lease.thy ===== *)
theory Ha_Lease
  imports Bluedb_Prelude
begin

text \<open>
  Writer leases, \<open>bluedb-ha/src/lease.rs\<close> and \<open>postgres.rs\<close>: the lease, the operations of the
  trait \<open>LeaseProvider\<close> as a record of functions over the state of a store, what the users of the
  trait rely on as the locale \<open>lease_provider\<close>, and the in-memory and the Postgres store, which
  provide it. Times are epoch milliseconds: integers, with the wrap-around of \<open>i64\<close> arithmetic
  written out. A duration is its number of milliseconds.
\<close>

section \<open>Milliseconds\<close>

definition ttl_millis :: "nat \<Rightarrow> int" where
  "ttl_millis ttl = i64_wrap (int ttl)"

section \<open>The trait\<close>

record lease =
  l_holder :: string
  l_epoch :: u64
  l_expires_at_millis :: int

text \<open>The methods of a provider. A call fails, or returns a lease or a denial and the new state of
  the store.\<close>

record 's lease_provider_ops =
  p_current :: "'s \<Rightarrow> int \<Rightarrow> lease option"
  p_try_acquire :: "'s \<Rightarrow> string \<Rightarrow> nat \<Rightarrow> int \<Rightarrow> string + lease option \<times> 's"
  p_renew :: "'s \<Rightarrow> string \<Rightarrow> u64 \<Rightarrow> nat \<Rightarrow> int \<Rightarrow> string + lease option \<times> 's"
  p_release :: "'s \<Rightarrow> string \<Rightarrow> u64 \<Rightarrow> string + 's"

text \<open>The lease that a store holds, as far as it is live at some time.\<close>

definition live_until :: "lease \<Rightarrow> int \<Rightarrow> lease option" where
  "live_until l t = (if t < l_expires_at_millis l then Some l else None)"

locale lease_provider =
  fixes ops :: "'s lease_provider_ops"
    and store_inv :: "'s \<Rightarrow> bool"
    and issued :: "'s \<Rightarrow> u64"
    and ttl_of :: "nat \<Rightarrow> int"
  assumes acquire_granted:
    "\<lbrakk>store_inv s; h \<noteq> []; p_try_acquire ops s h ttl now = Inr (Some l, s')\<rbrakk> \<Longrightarrow>
       store_inv s' \<and> l_holder l = h \<and> l_expires_at_millis l = i64_wrap (now + ttl_of ttl)
       \<and> p_current ops s' = live_until l
       \<and> (\<forall>c. p_current ops s now = Some c \<longrightarrow> l_holder c = h)"
  and acquire_epoch:
    "\<lbrakk>store_inv s; h \<noteq> []; issued s \<noteq> - 1; p_try_acquire ops s h ttl now = Inr (Some l, s')\<rbrakk> \<Longrightarrow>
       issued s' = l_epoch l \<and>
       l_epoch l = (if p_current ops s now = None then issued s + 1 else issued s)"
  and acquire_denied:
    "\<lbrakk>store_inv s; h \<noteq> []; p_try_acquire ops s h ttl now = Inr (None, s')\<rbrakk> \<Longrightarrow>
       s' = s \<and> ((\<exists>c. p_current ops s now = Some c \<and> l_holder c \<noteq> h) \<or> issued s = - 1)"
  and renew_granted:
    "\<lbrakk>store_inv s; h \<noteq> []; p_renew ops s h e ttl now = Inr (Some l, s')\<rbrakk> \<Longrightarrow>
       store_inv s' \<and> l_holder l = h \<and> l_epoch l = e
       \<and> l_expires_at_millis l = i64_wrap (now + ttl_of ttl)
       \<and> p_current ops s' = live_until l \<and> issued s' = issued s
       \<and> (\<exists>c. p_current ops s now = Some c \<and> l_holder c = h \<and> l_epoch c = e)"
  and renew_lost:
    "\<lbrakk>store_inv s; h \<noteq> []; p_renew ops s h e ttl now = Inr (None, s')\<rbrakk> \<Longrightarrow>
       s' = s \<and> (\<forall>c. p_current ops s now = Some c \<longrightarrow> l_holder c = h \<longrightarrow> l_epoch c \<noteq> e)"
  and released:
    "\<lbrakk>store_inv s; h \<noteq> []; p_release ops s h e = Inr s'\<rbrakk> \<Longrightarrow>
       store_inv s' \<and> issued s' = issued s
       \<and> (\<forall>t \<ge> 0. p_current ops s' t =
            (case p_current ops s t of
               Some c \<Rightarrow> if l_holder c = h \<and> l_epoch c = e then None else Some c
             | None \<Rightarrow> None))"
  and ttl_bounds: "int ttl < 2 ^ 61 \<Longrightarrow> 0 \<le> ttl_of ttl \<and> ttl_of ttl < 2 ^ 62"
begin

text \<open>The holder of a live lease is the only one that can be granted one.\<close>

lemma granted_excludes:
  assumes "store_inv s" "h \<noteq> []" "p_current ops s now = Some c" "l_holder c \<noteq> h"
  shows "p_try_acquire ops s h ttl now \<noteq> Inr (Some l, s')" "p_renew ops s h e ttl now \<noteq> Inr (Some l, s')"
  using acquire_granted [of s h ttl now l s'] renew_granted [of s h e ttl now l s'] assms
  by (auto split: option.splits)

text \<open>A change of hands advances the fencing token; no call makes it smaller.\<close>

lemma issued_monotone:
  assumes "store_inv s" "h \<noteq> []" "issued s \<noteq> - 1"
  shows "p_try_acquire ops s h ttl now = Inr (r, s') \<Longrightarrow> issued s \<le> issued s'"
    and "p_renew ops s h e ttl now = Inr (r, s') \<Longrightarrow> issued s \<le> issued s'"
    and "p_release ops s h e = Inr s' \<Longrightarrow> issued s \<le> issued s'"
proof -
  have inc: "issued s < issued s + 1" by (rule word_less_succ [OF assms(3)])
  show "issued s \<le> issued s'" if "p_try_acquire ops s h ttl now = Inr (r, s')"
    using acquire_epoch [of s h ttl now _ s'] acquire_denied [of s h ttl now s'] that assms inc
    by (cases r) (auto split: if_splits)
  show "issued s \<le> issued s'" if "p_renew ops s h e ttl now = Inr (r, s')"
    using renew_granted [of s h e ttl now _ s'] renew_lost [of s h e ttl now s'] that assms
    by (cases r) auto
  show "issued s \<le> issued s'" if "p_release ops s h e = Inr s'"
    using released [of s h e s'] that assms by auto
qed

end

section \<open>The in-memory provider\<close>

record inner =
  i_lease :: "lease option"
  i_last_epoch :: u64

definition local_new :: inner where
  "local_new = \<lparr> i_lease = None, i_last_epoch = 0 \<rparr>"

definition local_current :: "inner \<Rightarrow> int \<Rightarrow> lease option" where
  "local_current s now =
     (case i_lease s of
        Some l \<Rightarrow> if l_expires_at_millis l > now then Some l else None
      | None \<Rightarrow> None)"

definition local_try_acquire ::
  "inner \<Rightarrow> string \<Rightarrow> nat \<Rightarrow> int \<Rightarrow> string + lease option \<times> inner" where
  "local_try_acquire s holder ttl now =
     (if (case i_lease s of
            Some c \<Rightarrow> l_holder c \<noteq> holder \<and> l_expires_at_millis c > now
          | None \<Rightarrow> False)
      then Inr (None, s)
      else
        let epoch = (case i_lease s of
              Some c \<Rightarrow> if l_holder c = holder \<and> l_expires_at_millis c > now then l_epoch c
                        else i_last_epoch s + 1
            | None \<Rightarrow> i_last_epoch s + 1);
          l = \<lparr> l_holder = holder, l_epoch = epoch,
                l_expires_at_millis = i64_wrap (now + ttl_millis ttl) \<rparr>
        in Inr (Some l, \<lparr> i_lease = Some l, i_last_epoch = max (i_last_epoch s) epoch \<rparr>))"

definition local_renew ::
  "inner \<Rightarrow> string \<Rightarrow> u64 \<Rightarrow> nat \<Rightarrow> int \<Rightarrow> string + lease option \<times> inner" where
  "local_renew s holder epoch ttl now =
     (case i_lease s of
        Some c \<Rightarrow>
          if l_holder c = holder \<and> l_epoch c = epoch \<and> l_expires_at_millis c > now then
            let l = \<lparr> l_holder = holder, l_epoch = epoch,
                      l_expires_at_millis = i64_wrap (now + ttl_millis ttl) \<rparr>
            in Inr (Some l, s\<lparr> i_lease := Some l \<rparr>)
          else Inr (None, s)
      | None \<Rightarrow> Inr (None, s))"

definition local_release :: "inner \<Rightarrow> string \<Rightarrow> u64 \<Rightarrow> string + inner" where
  "local_release s holder epoch =
     (case i_lease s of
        Some c \<Rightarrow> Inr (if l_holder c = holder \<and> l_epoch c = epoch then s\<lparr> i_lease := None \<rparr> else s)
      | None \<Rightarrow> Inr s)"

definition local_ops :: "inner lease_provider_ops" where
  "local_ops = \<lparr> p_current = local_current, p_try_acquire = local_try_acquire,
     p_renew = local_renew, p_release = local_release \<rparr>"

text \<open>The token of the stored lease is the last one issued.\<close>

definition local_inv :: "inner \<Rightarrow> bool" where
  "local_inv s = (case i_lease s of
     Some l \<Rightarrow> l_epoch l = i_last_epoch s \<or> i_last_epoch s = - 1 | None \<Rightarrow> True)"

lemmas local_defs = local_ops_def local_current_def local_try_acquire_def local_renew_def
  local_release_def local_inv_def live_until_def

lemma i64_wrap_nat: "int n < 2 ^ 63 \<Longrightarrow> ttl_millis n = int n"
  by (simp add: ttl_millis_def)

interpretation local: lease_provider local_ops local_inv i_last_epoch ttl_millis
proof (unfold_locales, goal_cases)
  case (1 s h ttl now l s')
  then show ?case
    using word_less_succ [of "i_last_epoch s"]
    by (auto simp: local_defs Let_def fun_eq_iff max_def split: option.splits if_splits)
next
  case (2 s h ttl now l s')
  then show ?case
    using word_less_succ [of "i_last_epoch s"]
    by (auto simp: local_defs Let_def max_def split: option.splits if_splits)
next
  case (6 s h e s')
  then show ?case by (auto simp: local_defs split: option.splits if_splits)
qed (auto simp: local_defs Let_def fun_eq_iff i64_wrap_nat split: option.splits if_splits)

section \<open>The Postgres provider\<close>

text \<open>The row of the leased resource. Each operation is one SQL statement on it; \<open>epoch\<close> and
  \<open>expires_at_millis\<close> are \<open>BIGINT\<close> columns, whose arithmetic fails when it overflows. A statement
  that fails (or a connection that cannot be re-established) leaves the row as it is.\<close>

record lease_row =
  r_holder :: string
  r_epoch :: int
  r_expires :: int

type_synonym lease_table = "lease_row option"

definition u64_of_i64 :: "int \<Rightarrow> u64" where
  "u64_of_i64 x = word_of_int x"

definition i64_of_u64 :: "u64 \<Rightarrow> int" where
  "i64_of_u64 w = sint w"

definition row_to_lease :: "lease_row \<Rightarrow> lease" where
  "row_to_lease r = \<lparr> l_holder = r_holder r, l_epoch = u64_of_i64 (r_epoch r),
     l_expires_at_millis = r_expires r \<rparr>"

definition pg_current :: "lease_table \<Rightarrow> int \<Rightarrow> lease option" where
  "pg_current tbl now =
     (case tbl of
        Some r \<Rightarrow> if r_expires r > now then Some (row_to_lease r) else None
      | None \<Rightarrow> None)"

definition pg_try_acquire ::
  "lease_table \<Rightarrow> string \<Rightarrow> nat \<Rightarrow> int \<Rightarrow> string + lease option \<times> lease_table" where
  "pg_try_acquire tbl holder ttl now =
     (let expires = i64_wrap (now + ttl_millis ttl) in
      case tbl of
        None \<Rightarrow>
          let r = \<lparr> r_holder = holder, r_epoch = 1, r_expires = expires \<rparr>
          in Inr (Some (row_to_lease r), Some r)
      | Some row \<Rightarrow>
          if r_holder row = holder \<or> r_expires row \<le> now then
            let epoch = (if r_holder row = holder \<and> r_expires row > now then r_epoch row
                         else r_epoch row + 1);
              r = \<lparr> r_holder = holder, r_epoch = epoch, r_expires = expires \<rparr>
            in if epoch < 2 ^ 63 then Inr (Some (row_to_lease r), Some r)
               else Inl ''lease try_acquire''
          else Inr (None, tbl))"

definition pg_renew ::
  "lease_table \<Rightarrow> string \<Rightarrow> u64 \<Rightarrow> nat \<Rightarrow> int \<Rightarrow> string + lease option \<times> lease_table" where
  "pg_renew tbl holder epoch ttl now =
     (let expires = i64_wrap (now + ttl_millis ttl) in
      case tbl of
        None \<Rightarrow> Inr (None, tbl)
      | Some row \<Rightarrow>
          if r_holder row = holder \<and> r_epoch row = i64_of_u64 epoch \<and> r_expires row > now then
            let r = row\<lparr> r_expires := expires \<rparr> in Inr (Some (row_to_lease r), Some r)
          else Inr (None, tbl))"

definition pg_release :: "lease_table \<Rightarrow> string \<Rightarrow> u64 \<Rightarrow> string + lease_table" where
  "pg_release tbl holder epoch =
     (case tbl of
        None \<Rightarrow> Inr tbl
      | Some row \<Rightarrow>
          Inr (if r_holder row = holder \<and> r_epoch row = i64_of_u64 epoch
               then Some (row\<lparr> r_expires := 0 \<rparr>) else tbl))"

definition pg_ops :: "lease_table lease_provider_ops" where
  "pg_ops = \<lparr> p_current = pg_current, p_try_acquire = pg_try_acquire,
     p_renew = pg_renew, p_release = pg_release \<rparr>"

definition pg_inv :: "lease_table \<Rightarrow> bool" where
  "pg_inv tbl = (case tbl of Some r \<Rightarrow> 1 \<le> r_epoch r \<and> r_epoch r < 2 ^ 63 | None \<Rightarrow> True)"

definition pg_issued :: "lease_table \<Rightarrow> u64" where
  "pg_issued tbl = (case tbl of Some r \<Rightarrow> u64_of_i64 (r_epoch r) | None \<Rightarrow> 0)"

lemma i64_u64: "i64_of_u64 e = x \<Longrightarrow> u64_of_i64 x = e"
  by (auto simp: i64_of_u64_def u64_of_i64_def)

lemma u64_i64: "1 \<le> x \<Longrightarrow> x < 2 ^ 63 \<Longrightarrow> i64_of_u64 (u64_of_i64 x) = x"
  by (simp add: i64_of_u64_def u64_of_i64_def int_word_sint)

lemma u64_of_i64_succ: "u64_of_i64 (x + 1) = u64_of_i64 x + 1"
  by (simp add: u64_of_i64_def)

lemma u64_of_i64_1: "u64_of_i64 1 = 1"
  by (simp add: u64_of_i64_def)

lemmas pg_defs = pg_ops_def pg_current_def pg_try_acquire_def pg_renew_def pg_release_def
  pg_inv_def pg_issued_def row_to_lease_def live_until_def

interpretation pg: lease_provider pg_ops pg_inv pg_issued ttl_millis
proof (unfold_locales, goal_cases)
  case (2 s h ttl now l s')
  then show ?case
    by (auto simp: pg_defs Let_def u64_of_i64_succ u64_of_i64_1 split: option.splits if_splits)
next
  case (6 s h e s')
  then show ?case
    using i64_u64 [of e] u64_i64 by (auto simp: pg_defs split: option.splits if_splits)
next
  case (4 s h e ttl now l s')
  then show ?case
    using i64_u64 [of e] by (auto simp: pg_defs Let_def fun_eq_iff split: option.splits if_splits)
next
  case (5 s h e ttl now s')
  then show ?case
    using u64_i64 by (auto simp: pg_defs Let_def split: option.splits if_splits)
qed (auto simp: pg_defs Let_def fun_eq_iff i64_wrap_nat split: option.splits if_splits)

end
