(* ===== verification/Text.thy ===== *)
theory Text
  imports Bluedb_Prelude "HOL-Library.Char_ord"
begin

text \<open>
  The operations on text that the sources take from the standard library of Rust: decimal numbers,
  splitting, joining, trimming, prefixes. A string is the list of its UTF-8 bytes, so that \<open>trim\<close>
  removes the encodings of the Unicode white-space characters.
\<close>

section \<open>Decimal numbers\<close>

fun show_nat :: "nat \<Rightarrow> string" where
  "show_nat n = (if n < 10 then [char_of (48 + n)] else show_nat (n div 10) @ [char_of (48 + n mod 10)])"

declare show_nat.simps [simp del]

fun parse_digits :: "nat \<Rightarrow> string \<Rightarrow> nat option" where
  "parse_digits acc [] = Some acc"
| "parse_digits acc (c # cs) =
     (let d = of_char c :: nat in
      if 48 \<le> d \<and> d < 58 then parse_digits (acc * 10 + (d - 48)) cs else None)"

text \<open>\<open>str::parse::<u64>\<close> accepts a leading plus sign and rejects values of more than 64 bits.\<close>

definition parse_u64 :: "string \<Rightarrow> u64 option" where
  "parse_u64 s =
     (let ds = (case s of c # cs \<Rightarrow> if c = CHR ''+'' then cs else s | [] \<Rightarrow> []) in
      if ds = [] then None
      else case parse_digits 0 ds of
        Some n \<Rightarrow> if n < 2 ^ 64 then Some (word_of_nat n) else None
      | None \<Rightarrow> None)"

definition show_u64 :: "u64 \<Rightarrow> string" where
  "show_u64 w = show_nat (unat w)"

definition parse_i64 :: "string \<Rightarrow> int option" where
  "parse_i64 s =
     (let neg = (case s of c # cs \<Rightarrow> c = CHR ''-'' | [] \<Rightarrow> False);
        ds = (case s of c # cs \<Rightarrow> if c = CHR ''+'' \<or> c = CHR ''-'' then cs else s | [] \<Rightarrow> []) in
      if ds = [] then None
      else case parse_digits 0 ds of
        Some n \<Rightarrow>
          if neg then (if int n \<le> 2 ^ 63 then Some (- int n) else None)
          else if int n < 2 ^ 63 then Some (int n) else None
      | None \<Rightarrow> None)"

lemma parse_digits_append:
  "parse_digits acc (xs @ ys) = Option.bind (parse_digits acc xs) (\<lambda>a. parse_digits a ys)"
  by (induction xs arbitrary: acc) (auto simp: Let_def)

lemma parse_show_nat: "parse_digits 0 (show_nat n) = Some n"
proof (induction n rule: show_nat.induct)
  case (1 n)
  then show ?case
    by (subst show_nat.simps) (auto simp: parse_digits_append Let_def)
qed

lemma show_nat_head: "\<exists>c cs. show_nat n = c # cs \<and> c \<noteq> CHR ''+''"
proof (induction n rule: show_nat.induct)
  case (1 n)
  have "char_of (48 + n) \<noteq> CHR ''+''" if "n < 10"
  proof
    assume "char_of (48 + n) = CHR ''+''"
    then have "of_char (char_of (48 + n) :: char) = (43 :: nat)" by simp
    then show False using that by simp
  qed
  then show ?case using 1 by (subst show_nat.simps) (auto split: if_splits)
qed

lemma parse_show_u64 [simp]: "parse_u64 (show_u64 w) = Some w"
proof -
  obtain c cs where c: "show_nat (unat w) = c # cs" "c \<noteq> CHR ''+''" using show_nat_head by blast
  then have "parse_digits 0 (c # cs) = Some (unat w)" using parse_show_nat [of "unat w"] by simp
  then show ?thesis
    using c unsigned_less [where w = w and 'a = nat] by (simp add: parse_u64_def show_u64_def)
qed

section \<open>Splitting and joining\<close>

text \<open>\<open>str::split\<close> on a character, and \<open>str::replace\<close> of a character by a string.\<close>

fun split_char :: "char \<Rightarrow> string \<Rightarrow> string list" where
  "split_char c [] = [[]]"
| "split_char c (x # xs) =
     (if x = c then [] # split_char c xs
      else case split_char c xs of [] \<Rightarrow> [[x]] | s # ss \<Rightarrow> (x # s) # ss)"

fun join_str :: "string \<Rightarrow> string list \<Rightarrow> string" where
  "join_str sep [] = []"
| "join_str sep [s] = s"
| "join_str sep (s # ss) = s @ sep @ join_str sep ss"

definition replace_char :: "char \<Rightarrow> string \<Rightarrow> string \<Rightarrow> string" where
  "replace_char c r s = concat (map (\<lambda>x. if x = c then r else [x]) s)"

definition starts_with :: "string \<Rightarrow> string \<Rightarrow> bool" where
  "starts_with p s = (take (length p) s = p)"

lemma split_char_ne [simp]: "split_char c s \<noteq> []"
  by (induction s) (auto split: list.splits)

lemma split_char_single: "c \<notin> set s \<Longrightarrow> split_char c s = [s]"
  by (induction s) auto

lemma split_join: "join_str [c] (split_char c s) = s"
proof (induction s)
  case (Cons x xs)
  obtain t ts where "split_char c xs = t # ts" by (cases "split_char c xs") auto
  then show ?case using Cons by (cases ts) auto
qed simp

lemma replace_char_id: "c \<notin> set s \<Longrightarrow> replace_char c r s = s"
  unfolding replace_char_def by (induction s) auto

text \<open>\<open>split_once\<close> and \<open>rsplit_once\<close>, \<open>strip_prefix\<close> and \<open>strip_suffix\<close>.\<close>

definition strip_prefix :: "string \<Rightarrow> string \<Rightarrow> string option" where
  "strip_prefix p s = (if take (length p) s = p then Some (drop (length p) s) else None)"

definition strip_suffix :: "string \<Rightarrow> string \<Rightarrow> string option" where
  "strip_suffix p s = map_option rev (strip_prefix (rev p) (rev s))"

fun split_once :: "string \<Rightarrow> string \<Rightarrow> (string \<times> string) option" where
  "split_once p s =
     (case strip_prefix p s of
        Some r \<Rightarrow> Some ([], r)
      | None \<Rightarrow>
          (case s of
             [] \<Rightarrow> None
           | c # cs \<Rightarrow> map_option (\<lambda>(a, b). (c # a, b)) (split_once p cs)))"

declare split_once.simps [simp del]

definition rsplit_once :: "string \<Rightarrow> string \<Rightarrow> (string \<times> string) option" where
  "rsplit_once p s = map_option (\<lambda>(a, b). (rev b, rev a)) (split_once (rev p) (rev s))"

definition to_ascii_lowercase :: "string \<Rightarrow> string" where
  "to_ascii_lowercase = map (\<lambda>c. let n = of_char c :: nat in if 65 \<le> n \<and> n \<le> 90 then char_of (n + 32) else c)"

definition is_ascii_alphabetic :: "char \<Rightarrow> bool" where
  "is_ascii_alphabetic c = (let n = of_char c :: nat in (65 \<le> n \<and> n \<le> 90) \<or> (97 \<le> n \<and> n \<le> 122))"

definition is_ascii_digit :: "char \<Rightarrow> bool" where
  "is_ascii_digit c = (let n = of_char c :: nat in 48 \<le> n \<and> n \<le> 57)"

definition is_ascii_alphanumeric :: "char \<Rightarrow> bool" where
  "is_ascii_alphanumeric c \<longleftrightarrow> is_ascii_alphabetic c \<or> is_ascii_digit c"

section \<open>White space\<close>

definition ws_chars :: "string list" where
  "ws_chars = [
     [CHR 0x09], [CHR 0x0A], [CHR 0x0B], [CHR 0x0C], [CHR 0x0D], [CHR 0x20], [CHR 0xC2, CHR 0x85],
     [CHR 0xC2, CHR 0xA0], [CHR 0xE1, CHR 0x9A, CHR 0x80], [CHR 0xE2, CHR 0x80, CHR 0x80],
     [CHR 0xE2, CHR 0x80, CHR 0x81], [CHR 0xE2, CHR 0x80, CHR 0x82],
     [CHR 0xE2, CHR 0x80, CHR 0x83], [CHR 0xE2, CHR 0x80, CHR 0x84],
     [CHR 0xE2, CHR 0x80, CHR 0x85], [CHR 0xE2, CHR 0x80, CHR 0x86],
     [CHR 0xE2, CHR 0x80, CHR 0x87], [CHR 0xE2, CHR 0x80, CHR 0x88],
     [CHR 0xE2, CHR 0x80, CHR 0x89], [CHR 0xE2, CHR 0x80, CHR 0x8A],
     [CHR 0xE2, CHR 0x80, CHR 0xA8], [CHR 0xE2, CHR 0x80, CHR 0xA9],
     [CHR 0xE2, CHR 0x80, CHR 0xAF], [CHR 0xE2, CHR 0x81, CHR 0x9F], [CHR 0xE3, CHR 0x80, CHR 0x80]
   ]"

definition strip_ws :: "string list \<Rightarrow> string \<Rightarrow> string option" where
  "strip_ws ws s = (case find (\<lambda>w. strip_prefix w s \<noteq> None) ws of Some w \<Rightarrow> strip_prefix w s | None \<Rightarrow> None)"

lemma strip_prefix_length: "strip_prefix w s = Some r \<Longrightarrow> w \<noteq> [] \<Longrightarrow> length r < length s"
  by (cases w; cases s) (auto simp: strip_prefix_def split: if_splits)

lemma strip_ws_length: "[] \<notin> set ws \<Longrightarrow> strip_ws ws s = Some r \<Longrightarrow> length r < length s"
  using strip_prefix_length by (fastforce simp: strip_ws_def find_Some_iff split: option.splits dest: nth_mem)

function trim_ws :: "string list \<Rightarrow> string \<Rightarrow> string" where
  "trim_ws ws s = (if [] \<in> set ws then s else case strip_ws ws s of Some r \<Rightarrow> trim_ws ws r | None \<Rightarrow> s)"
  by pat_completeness auto
termination
  by (relation "measure (\<lambda>(ws, s). length s)") (auto dest: strip_ws_length)

declare trim_ws.simps [simp del]

definition trim :: "string \<Rightarrow> string" where
  "trim s = rev (trim_ws (map rev ws_chars) (rev (trim_ws ws_chars s)))"

end
