(* ===== verification/Ha_Kubernetes.thy ===== *)
theory Ha_Kubernetes
  imports Ha_Lease Text
begin

text \<open>
  The Kubernetes provider, \<open>bluedb-ha/src/lease_k8s.rs\<close>: the transitions of a \<open>Lease\<close> object and the
  read-modify-write loops around them. The object has the fields that the code reads or writes. The
  API server is a parameter: a record of the three calls over a world that other clients change too.
  What the code relies on, the optimistic concurrency of \<open>resourceVersion\<close>, is the hypothesis
  \<open>optimistic_api\<close>. The transitions provide the interface of a lease provider, and a loop that
  succeeds is shown to be one such transition of the stored object.
\<close>

section \<open>The Lease object\<close>

record lease_spec =
  s_acquire_time :: "int option"
  s_holder_identity :: "string option"
  s_lease_duration_seconds :: "int option"
  s_lease_transitions :: "int option"
  s_renew_time :: "int option"

record k8s_lease =
  k_name :: "string option"
  k_namespace :: "string option"
  k_resource_version :: "string option"
  k_annotations :: "(string \<rightharpoonup> string) option"
  k_spec :: "lease_spec option"

definition lease_spec_default :: lease_spec where
  "lease_spec_default = \<lparr> s_acquire_time = None, s_holder_identity = None,
     s_lease_duration_seconds = None, s_lease_transitions = None, s_renew_time = None \<rparr>"

definition EPOCH_ANNOTATION :: string where
  "EPOCH_ANNOTATION = ''bluedb.io/lease-epoch''"

definition MAX_UPDATE_ATTEMPTS :: nat where
  "MAX_UPDATE_ATTEMPTS = 8"

definition I32_MAX :: int where
  "I32_MAX = 2147483647"

definition object_epoch :: "k8s_lease \<Rightarrow> u64" where
  "object_epoch obj =
     (case Option.bind (Option.bind (k_annotations obj) (\<lambda>a. a EPOCH_ANNOTATION)) parse_u64 of
        Some e \<Rightarrow> e
      | None \<Rightarrow>
          (case Option.bind (k_spec obj) s_lease_transitions of
             Some v \<Rightarrow> word_of_int (max v 0)
           | None \<Rightarrow> 0))"

definition set_epoch :: "k8s_lease \<Rightarrow> u64 \<Rightarrow> k8s_lease" where
  "set_epoch obj epoch =
     (let spec = (case k_spec obj of Some s \<Rightarrow> s | None \<Rightarrow> lease_spec_default);
        annotations = (case k_annotations obj of Some a \<Rightarrow> a | None \<Rightarrow> Map.empty)
      in obj\<lparr> k_spec := Some (spec\<lparr> s_lease_transitions := Some (min (uint epoch) I32_MAX) \<rparr>),
              k_annotations := Some (annotations(EPOCH_ANNOTATION \<mapsto> show_u64 epoch)) \<rparr>)"

definition ttl_seconds :: "nat \<Rightarrow> int" where
  "ttl_seconds ttl = (let millis = max (int ttl) 1 in min ((millis + 999) div 1000) I32_MAX)"

definition k8s_ttl_millis :: "nat \<Rightarrow> int" where
  "k8s_ttl_millis ttl = ttl_seconds ttl * 1000"

definition expires_at_spec_millis :: "lease_spec \<Rightarrow> int" where
  "expires_at_spec_millis spec =
     (case s_renew_time spec of
        None \<Rightarrow> 0
      | Some renew \<Rightarrow>
          let d = (case s_lease_duration_seconds spec of Some v \<Rightarrow> v | None \<Rightarrow> 0)
          in i64_wrap (renew + max d 0 * 1000))"

definition expires_at_millis :: "k8s_lease \<Rightarrow> int" where
  "expires_at_millis obj = (case k_spec obj of Some s \<Rightarrow> expires_at_spec_millis s | None \<Rightarrow> 0)"

definition lease_to_grant :: "k8s_lease \<Rightarrow> lease option" where
  "lease_to_grant obj =
     (case k_spec obj of
        None \<Rightarrow> None
      | Some spec \<Rightarrow>
          (case s_holder_identity spec of
             None \<Rightarrow> None
           | Some h \<Rightarrow> Some \<lparr> l_holder = h, l_epoch = object_epoch obj,
               l_expires_at_millis = expires_at_spec_millis spec \<rparr>))"

definition new_lease_object :: "string \<Rightarrow> string \<Rightarrow> string \<Rightarrow> nat \<Rightarrow> int \<Rightarrow> k8s_lease" where
  "new_lease_object namespace name holder ttl now =
     set_epoch \<lparr> k_name = Some name, k_namespace = Some namespace, k_resource_version = None,
       k_annotations = None,
       k_spec = Some \<lparr> s_acquire_time = Some now, s_holder_identity = Some holder,
         s_lease_duration_seconds = Some (ttl_seconds ttl), s_lease_transitions = Some 1,
         s_renew_time = Some now \<rparr> \<rparr> 1"

definition apply_acquire ::
  "k8s_lease \<Rightarrow> string \<Rightarrow> nat \<Rightarrow> int \<Rightarrow> (lease \<times> k8s_lease) option" where
  "apply_acquire obj holder ttl now =
     (let current_epoch = object_epoch obj;
        existing_holder = (case Option.bind (k_spec obj) s_holder_identity of
          Some h \<Rightarrow> if h = [] then None else Some h | None \<Rightarrow> None);
        existing_expiry = expires_at_millis obj;
        held_by_self_live = (existing_holder = Some holder \<and> existing_expiry > now)
      in if (case existing_holder of Some h \<Rightarrow> h \<noteq> holder | None \<Rightarrow> False) \<and> existing_expiry > now
         then None
         else case (if held_by_self_live then Some (max current_epoch 1)
                    else if current_epoch = 0 then Some 1
                    else checked_add current_epoch 1) of
           None \<Rightarrow> None
         | Some next_epoch \<Rightarrow>
             let spec = (case k_spec obj of Some s \<Rightarrow> s | None \<Rightarrow> lease_spec_default);
               acquire_time = (if \<not> held_by_self_live \<or> s_acquire_time spec = None then Some now
                               else s_acquire_time spec);
               spec' = spec\<lparr> s_acquire_time := acquire_time, s_holder_identity := Some holder,
                 s_lease_duration_seconds := Some (ttl_seconds ttl), s_renew_time := Some now \<rparr>
             in Some (\<lparr> l_holder = holder, l_epoch = next_epoch,
                        l_expires_at_millis = i64_wrap (now + k8s_ttl_millis ttl) \<rparr>,
                      set_epoch (obj\<lparr> k_spec := Some spec' \<rparr>) next_epoch))"

definition apply_renew ::
  "k8s_lease \<Rightarrow> string \<Rightarrow> u64 \<Rightarrow> nat \<Rightarrow> int \<Rightarrow> (lease \<times> k8s_lease) option" where
  "apply_renew obj holder epoch ttl now =
     (case k_spec obj of
        None \<Rightarrow> None
      | Some spec \<Rightarrow>
          (case s_holder_identity spec of
             None \<Rightarrow> None
           | Some current_holder \<Rightarrow>
               if current_holder \<noteq> holder \<or> object_epoch obj \<noteq> epoch
                  \<or> expires_at_spec_millis spec \<le> now
               then None
               else Some (\<lparr> l_holder = holder, l_epoch = epoch,
                            l_expires_at_millis = i64_wrap (now + k8s_ttl_millis ttl) \<rparr>,
                          set_epoch (obj\<lparr> k_spec := Some (spec\<lparr>
                            s_lease_duration_seconds := Some (ttl_seconds ttl),
                            s_renew_time := Some now \<rparr>) \<rparr>) epoch)))"

definition apply_release :: "k8s_lease \<Rightarrow> string \<Rightarrow> u64 \<Rightarrow> k8s_lease option" where
  "apply_release obj holder epoch =
     (if object_epoch obj \<noteq> epoch then None
      else case k_spec obj of
        None \<Rightarrow> None
      | Some spec \<Rightarrow>
          if s_holder_identity spec \<noteq> Some holder then None
          else Some (set_epoch (obj\<lparr> k_spec := Some (spec\<lparr>
                 s_lease_duration_seconds := Some 0, s_renew_time := Some 0 \<rparr>) \<rparr>) epoch))"

lemma object_epoch_set [simp]: "object_epoch (set_epoch obj e) = e"
  by (simp add: object_epoch_def set_epoch_def Let_def)

lemma set_epoch_spec:
  "k_spec obj = Some s \<Longrightarrow>
     k_spec (set_epoch obj e) = Some (s\<lparr> s_lease_transitions := Some (min (uint e) I32_MAX) \<rparr>)"
  by (simp add: set_epoch_def Let_def)

lemma ttl_seconds_range: "1 \<le> ttl_seconds ttl \<and> ttl_seconds ttl \<le> 2147483647"
  by (simp add: ttl_seconds_def Let_def I32_MAX_def)

section \<open>One attempt without interference\<close>

text \<open>The operations as transitions of the stored object.\<close>

definition k8s_current :: "k8s_lease option \<Rightarrow> int \<Rightarrow> lease option" where
  "k8s_current s now =
     (case s of
        None \<Rightarrow> None
      | Some obj \<Rightarrow>
          (case lease_to_grant obj of
             Some grant \<Rightarrow> if l_expires_at_millis grant > now then Some grant else None
           | None \<Rightarrow> None))"

definition attempt_acquire ::
  "string \<Rightarrow> string \<Rightarrow> k8s_lease option \<Rightarrow> string \<Rightarrow> nat \<Rightarrow> int \<Rightarrow> (lease \<times> k8s_lease) option" where
  "attempt_acquire namespace name s holder ttl now =
     (case s of
        None \<Rightarrow>
          let obj = new_lease_object namespace name holder ttl now
          in map_option (\<lambda>grant. (grant, obj)) (lease_to_grant obj)
      | Some obj \<Rightarrow> apply_acquire obj holder ttl now)"

definition attempt_renew ::
  "k8s_lease option \<Rightarrow> string \<Rightarrow> u64 \<Rightarrow> nat \<Rightarrow> int \<Rightarrow> (lease \<times> k8s_lease) option" where
  "attempt_renew s holder epoch ttl now =
     (case s of None \<Rightarrow> None | Some obj \<Rightarrow> apply_renew obj holder epoch ttl now)"

definition attempt_release :: "k8s_lease option \<Rightarrow> string \<Rightarrow> u64 \<Rightarrow> k8s_lease option" where
  "attempt_release s holder epoch =
     (case s of None \<Rightarrow> None | Some obj \<Rightarrow> apply_release obj holder epoch)"

definition written :: "k8s_lease option \<Rightarrow> (lease \<times> k8s_lease) option \<Rightarrow> string + lease option \<times> k8s_lease option" where
  "written s r = (case r of None \<Rightarrow> Inr (None, s) | Some (grant, obj) \<Rightarrow> Inr (Some grant, Some obj))"

definition k8s_ops :: "string \<Rightarrow> string \<Rightarrow> k8s_lease option lease_provider_ops" where
  "k8s_ops namespace name = \<lparr> p_current = k8s_current,
     p_try_acquire = (\<lambda>s h ttl now. written s (attempt_acquire namespace name s h ttl now)),
     p_renew = (\<lambda>s h e ttl now. written s (attempt_renew s h e ttl now)),
     p_release = (\<lambda>s h e. Inr (case attempt_release s h e of Some obj \<Rightarrow> Some obj | None \<Rightarrow> s)) \<rparr>"

text \<open>What the provider's own writes keep: a holder has a name and a token. Objects that another
  program wrote need not satisfy it.\<close>

definition k8s_inv :: "k8s_lease option \<Rightarrow> bool" where
  "k8s_inv s = (case s of None \<Rightarrow> True
     | Some obj \<Rightarrow> (\<exists>spec h. k_spec obj = Some spec \<and> s_holder_identity spec = Some h \<and> h \<noteq> [])
         \<and> object_epoch obj \<noteq> 0)"

definition k8s_issued :: "k8s_lease option \<Rightarrow> u64" where
  "k8s_issued s = (case s of None \<Rightarrow> 0 | Some obj \<Rightarrow> object_epoch obj)"

lemma max_1_epoch: "(e :: u64) \<noteq> 0 \<Longrightarrow> max e 1 = e"
  using word_less_1 [of e] by (auto simp: max_def not_le [symmetric])

lemma checked_succ: "checked_add (e :: u64) 1 = (if e = - 1 then None else Some (e + 1))"
proof (cases "e = - 1")
  case False
  then have "unat e < unat (e + 1)" using word_less_succ [of e] by (simp add: word_less_nat_alt)
  then have "unat e + 1 < 2 ^ 64" using unsigned_less [where w = e and 'a = nat]
    by (simp add: unat_word_ariths split: if_splits) 
  then show ?thesis using False by (simp add: checked_add_def)
qed (simp add: checked_add_def unsigned_minus_1_eq_mask mask_eq_exp_minus_1)

lemmas k8s_defs = k8s_ops_def k8s_current_def written_def k8s_inv_def k8s_issued_def
  attempt_renew_def attempt_release_def lease_to_grant_def live_until_def

text \<open>An object with a holder grants a lease until the end of its duration.\<close>

lemma granted_object:
  assumes "k_spec obj = Some spec" "s_holder_identity spec = Some h" "s_renew_time spec = Some now"
    and "s_lease_duration_seconds spec = Some (ttl_seconds ttl)"
  shows "k8s_current (Some (set_epoch obj e)) = live_until \<lparr> l_holder = h, l_epoch = e,
    l_expires_at_millis = i64_wrap (now + k8s_ttl_millis ttl) \<rparr>"
  using assms ttl_seconds_range [of ttl]
  by (auto simp: fun_eq_iff k8s_current_def lease_to_grant_def live_until_def set_epoch_spec
      expires_at_spec_millis_def k8s_ttl_millis_def)

lemma new_object_granted:
  "attempt_acquire ns nm None h ttl now =
     Some (\<lparr> l_holder = h, l_epoch = 1, l_expires_at_millis = i64_wrap (now + k8s_ttl_millis ttl) \<rparr>,
           new_lease_object ns nm h ttl now)"
  using ttl_seconds_range [of ttl]
  by (simp add: attempt_acquire_def new_lease_object_def Let_def lease_to_grant_def set_epoch_spec
      expires_at_spec_millis_def k8s_ttl_millis_def)

lemma apply_acquire_granted:
  assumes "k_spec obj = Some spec" "s_holder_identity spec = Some g" "g \<noteq> []" "object_epoch obj \<noteq> 0"
  shows "\<exists>at. apply_acquire obj h ttl now =
     (if now < expires_at_spec_millis spec \<and> g \<noteq> h then None
      else if now \<ge> expires_at_spec_millis spec \<and> object_epoch obj = - 1 then None
      else let e = object_epoch obj + (if now < expires_at_spec_millis spec then 0 else 1);
             spec' = spec\<lparr> s_acquire_time := at, s_holder_identity := Some h,
               s_lease_duration_seconds := Some (ttl_seconds ttl), s_renew_time := Some now \<rparr>
           in Some (\<lparr> l_holder = h, l_epoch = e, l_expires_at_millis = i64_wrap (now + k8s_ttl_millis ttl) \<rparr>,
                set_epoch (obj\<lparr> k_spec := Some spec' \<rparr>) e))"
  using assms
  by (intro exI [of _ "if now < expires_at_spec_millis spec \<and> s_acquire_time spec \<noteq> None
        then s_acquire_time spec else Some now"])
    (simp add: apply_acquire_def Let_def expires_at_millis_def max_1_epoch checked_succ)

lemma k8s_acquire_cases:
  assumes "k8s_inv s" "p_try_acquire (k8s_ops ns nm) s h ttl now = Inr (r, s')"
  obtains c where "r = None" "s' = s" "k8s_current s now = Some c" "l_holder c \<noteq> h"
  | "r = None" "s' = s" "k8s_issued s = - 1"
  | obj spec e where "r = Some \<lparr> l_holder = h, l_epoch = e, l_expires_at_millis = i64_wrap (now + k8s_ttl_millis ttl) \<rparr>"
    "s' = Some (set_epoch obj e)" "k_spec obj = Some spec" "s_holder_identity spec = Some h"
    "s_renew_time spec = Some now" "s_lease_duration_seconds spec = Some (ttl_seconds ttl)"
    "\<forall>c. k8s_current s now = Some c \<longrightarrow> l_holder c = h"
    "e = (if k8s_current s now = None then k8s_issued s + 1 else k8s_issued s)"
    "e \<noteq> 0"
proof (cases s)
  case None
  let ?spec = "\<lparr> s_acquire_time = Some now, s_holder_identity = Some h,
         s_lease_duration_seconds = Some (ttl_seconds ttl), s_lease_transitions = Some 1,
         s_renew_time = Some now \<rparr>"
  show ?thesis
    by (rule that(3) [where spec = ?spec and e = 1])
      (use assms None in \<open>auto simp: k8s_defs new_object_granted new_lease_object_def\<close>)
next
  case (Some obj)
  then obtain spec g where g: "k_spec obj = Some spec" "s_holder_identity spec = Some g" "g \<noteq> []"
    "object_epoch obj \<noteq> 0" using assms(1) by (auto simp: k8s_inv_def)
  have cur: "k8s_current s now = (if now < expires_at_spec_millis spec
      then Some \<lparr> l_holder = g, l_epoch = object_epoch obj, l_expires_at_millis = expires_at_spec_millis spec \<rparr>
      else None)"
    using g Some by (simp add: k8s_current_def lease_to_grant_def)
  have iss: "k8s_issued s = object_epoch obj" using Some by (simp add: k8s_issued_def)
  have step: "Inr (r, s') = written s (apply_acquire obj h ttl now)"
    using assms(2) Some by (simp add: k8s_ops_def attempt_acquire_def)
  obtain at where app: "apply_acquire obj h ttl now =
     (if now < expires_at_spec_millis spec \<and> g \<noteq> h then None
      else if now \<ge> expires_at_spec_millis spec \<and> object_epoch obj = - 1 then None
      else let e = object_epoch obj + (if now < expires_at_spec_millis spec then 0 else 1);
             spec' = spec\<lparr> s_acquire_time := at, s_holder_identity := Some h,
               s_lease_duration_seconds := Some (ttl_seconds ttl), s_renew_time := Some now \<rparr>
           in Some (\<lparr> l_holder = h, l_epoch = e, l_expires_at_millis = i64_wrap (now + k8s_ttl_millis ttl) \<rparr>,
                set_epoch (obj\<lparr> k_spec := Some spec' \<rparr>) e))"
    using apply_acquire_granted [OF g] by blast
  consider "now < expires_at_spec_millis spec \<and> g \<noteq> h" | "now \<ge> expires_at_spec_millis spec" "object_epoch obj = - 1"
    | "\<not> (now < expires_at_spec_millis spec \<and> g \<noteq> h)" "\<not> (now \<ge> expires_at_spec_millis spec \<and> object_epoch obj = - 1)"
    by blast
  then show ?thesis
  proof cases
    case 1
    then show ?thesis using that(1) step cur by (auto simp: app written_def)
  next
    case 2
    then show ?thesis using that(2) step iss by (auto simp: app written_def)
  next
    case 3
    let ?spec = "spec\<lparr> s_acquire_time := at, s_holder_identity := Some h,
               s_lease_duration_seconds := Some (ttl_seconds ttl), s_renew_time := Some now \<rparr>"
    show ?thesis
      by (rule that(3) [where obj = "obj\<lparr> k_spec := Some ?spec \<rparr>" and spec = ?spec
            and e = "object_epoch obj + (if now < expires_at_spec_millis spec then 0 else 1)"])
        (use 3 step cur iss g(4) in \<open>auto dest: max_word_wrap simp: app written_def Let_def\<close>)
  qed
qed

interpretation k8s: lease_provider "k8s_ops ns nm" k8s_inv k8s_issued k8s_ttl_millis for ns nm
proof (unfold_locales, goal_cases)
  case (1 s h ttl now l s')
  from 1(1,3) show ?case
    by (rule k8s_acquire_cases) (use 1(2) in \<open>auto simp: granted_object k8s_ops_def k8s_inv_def set_epoch_spec\<close>)
next
  case (2 s h ttl now l s')
  from 2(1,4) show ?case
    by (rule k8s_acquire_cases) (use 2(3) in \<open>auto simp: k8s_ops_def k8s_issued_def\<close>)
next
  case (3 s h ttl now s')
  from 3(1,3) show ?case
    by (rule k8s_acquire_cases) (auto simp: k8s_ops_def)
next
  case (4 s h e ttl now l s')
  then obtain obj spec where g: "s = Some obj" "k_spec obj = Some spec" "s_holder_identity spec = Some h"
    "object_epoch obj = e" "now < expires_at_spec_millis spec" "e \<noteq> 0"
    "l = \<lparr> l_holder = h, l_epoch = e, l_expires_at_millis = i64_wrap (now + k8s_ttl_millis ttl) \<rparr>"
    "s' = Some (set_epoch (obj\<lparr> k_spec := Some (spec\<lparr> s_lease_duration_seconds := Some (ttl_seconds ttl),
       s_renew_time := Some now \<rparr>) \<rparr>) e)"
    by (auto simp: k8s_defs apply_renew_def split: option.splits if_splits)
  have "p_current (k8s_ops ns nm) s' = live_until l"
    unfolding g(7,8) by (simp add: k8s_ops_def granted_object g(3))
  moreover have "k8s_inv s'" "k8s_issued s' = k8s_issued s"
    using g 4(2) by (auto simp: k8s_inv_def k8s_issued_def set_epoch_spec)
  ultimately show ?case
    using g by (auto simp: k8s_ops_def k8s_current_def lease_to_grant_def)
next
  case (5 s h e ttl now s')
  then show ?case by (auto simp: k8s_defs apply_renew_def split: option.splits if_splits)
next
  case (6 s h e s')
  show ?case
  proof (cases "attempt_release s h e")
    case None
    then show ?thesis
      using 6 by (auto simp: k8s_defs apply_release_def split: option.splits if_splits)
  next
    case (Some obj')
    then obtain obj spec where g: "s = Some obj" "k_spec obj = Some spec" "s_holder_identity spec = Some h"
      "object_epoch obj = e" "s' = Some (set_epoch (obj\<lparr> k_spec := Some (spec\<lparr>
                 s_lease_duration_seconds := Some 0, s_renew_time := Some 0 \<rparr>) \<rparr>) e)"
      using 6(3) by (auto simp: k8s_ops_def attempt_release_def apply_release_def split: option.splits if_splits)
    have "k8s_current s' t = None" if "0 \<le> t" for t
      using that by (simp add: g(3,5) k8s_current_def lease_to_grant_def set_epoch_spec expires_at_spec_millis_def)
    then show ?thesis
      using g 6(1,2) by (auto simp: k8s_ops_def k8s_inv_def k8s_issued_def set_epoch_spec k8s_current_def lease_to_grant_def)
  qed
next
  case (7 ttl)
  then show ?case using ttl_seconds_range [of ttl] by (simp add: k8s_ttl_millis_def)
qed

section \<open>The loops over the API\<close>

datatype kube_error = Api nat string | Transport

fun is_not_found :: "kube_error \<Rightarrow> bool" where
  "is_not_found (Api code reason) \<longleftrightarrow> code = 404 \<or> reason = ''NotFound''"
| "is_not_found Transport \<longleftrightarrow> False"

fun is_conflict :: "kube_error \<Rightarrow> bool" where
  "is_conflict (Api code reason) \<longleftrightarrow> code = 409 \<or> reason = ''Conflict''"
| "is_conflict Transport \<longleftrightarrow> False"

record 'w kube_api =
  k_get :: "'w \<Rightarrow> (kube_error + k8s_lease) \<times> 'w"
  k_create :: "'w \<Rightarrow> k8s_lease \<Rightarrow> (kube_error + k8s_lease) \<times> 'w"
  k_replace :: "'w \<Rightarrow> k8s_lease \<Rightarrow> (kube_error + k8s_lease) \<times> 'w"

definition get_lease :: "'w kube_api \<Rightarrow> 'w \<Rightarrow> (string + k8s_lease option) \<times> 'w" where
  "get_lease api w =
     (case k_get api w of
        (Inr obj, w') \<Rightarrow> (Inr (Some obj), w')
      | (Inl err, w') \<Rightarrow>
          if is_not_found err then (Inr None, w') else (Inl ''get kubernetes Lease'', w'))"

fun acquire_loop ::
  "nat \<Rightarrow> 'w kube_api \<Rightarrow> string \<Rightarrow> string \<Rightarrow> string \<Rightarrow> nat \<Rightarrow> int \<Rightarrow> 'w
   \<Rightarrow> (string + lease option) \<times> 'w" where
  "acquire_loop 0 api namespace name holder ttl now w =
     (Inl ''kubernetes Lease acquire conflicted'', w)"
| "acquire_loop (Suc n) api namespace name holder ttl now w =
     (case get_lease api w of
        (Inl err, w1) \<Rightarrow> (Inl err, w1)
      | (Inr None, w1) \<Rightarrow>
          let obj = new_lease_object namespace name holder ttl now in
          (case lease_to_grant obj of
             None \<Rightarrow> (Inl ''new kubernetes Lease did not produce a grant'', w1)
           | Some grant \<Rightarrow>
               (case k_create api w1 obj of
                  (Inr _, w2) \<Rightarrow> (Inr (Some grant), w2)
                | (Inl err, w2) \<Rightarrow>
                    if is_conflict err then acquire_loop n api namespace name holder ttl now w2
                    else (Inl ''create kubernetes Lease'', w2)))
      | (Inr (Some obj), w1) \<Rightarrow>
          (case apply_acquire obj holder ttl now of
             None \<Rightarrow> (Inr None, w1)
           | Some (grant, obj') \<Rightarrow>
               (case k_replace api w1 obj' of
                  (Inr _, w2) \<Rightarrow> (Inr (Some grant), w2)
                | (Inl err, w2) \<Rightarrow>
                    if is_conflict err then acquire_loop n api namespace name holder ttl now w2
                    else (Inl ''update kubernetes Lease for acquire'', w2))))"

fun renew_loop ::
  "nat \<Rightarrow> 'w kube_api \<Rightarrow> string \<Rightarrow> u64 \<Rightarrow> nat \<Rightarrow> int \<Rightarrow> 'w \<Rightarrow> (string + lease option) \<times> 'w" where
  "renew_loop 0 api holder epoch ttl now w = (Inl ''kubernetes Lease renew conflicted'', w)"
| "renew_loop (Suc n) api holder epoch ttl now w =
     (case get_lease api w of
        (Inl err, w1) \<Rightarrow> (Inl err, w1)
      | (Inr None, w1) \<Rightarrow> (Inr None, w1)
      | (Inr (Some obj), w1) \<Rightarrow>
          (case apply_renew obj holder epoch ttl now of
             None \<Rightarrow> (Inr None, w1)
           | Some (grant, obj') \<Rightarrow>
               (case k_replace api w1 obj' of
                  (Inr _, w2) \<Rightarrow> (Inr (Some grant), w2)
                | (Inl err, w2) \<Rightarrow>
                    if is_conflict err then renew_loop n api holder epoch ttl now w2
                    else (Inl ''update kubernetes Lease for renew'', w2))))"

fun release_loop ::
  "nat \<Rightarrow> 'w kube_api \<Rightarrow> string \<Rightarrow> u64 \<Rightarrow> 'w \<Rightarrow> (string + unit) \<times> 'w" where
  "release_loop 0 api holder epoch w = (Inl ''kubernetes Lease release conflicted'', w)"
| "release_loop (Suc n) api holder epoch w =
     (case get_lease api w of
        (Inl err, w1) \<Rightarrow> (Inl err, w1)
      | (Inr None, w1) \<Rightarrow> (Inr (), w1)
      | (Inr (Some obj), w1) \<Rightarrow>
          (case apply_release obj holder epoch of
             None \<Rightarrow> (Inr (), w1)
           | Some obj' \<Rightarrow>
               (case k_replace api w1 obj' of
                  (Inr _, w2) \<Rightarrow> (Inr (), w2)
                | (Inl err, w2) \<Rightarrow>
                    if is_conflict err then release_loop n api holder epoch w2
                    else (Inl ''update kubernetes Lease for release'', w2))))"

definition k8s_try_acquire ::
  "'w kube_api \<Rightarrow> string \<Rightarrow> string \<Rightarrow> string \<Rightarrow> nat \<Rightarrow> int \<Rightarrow> 'w \<Rightarrow> (string + lease option) \<times> 'w" where
  "k8s_try_acquire = acquire_loop MAX_UPDATE_ATTEMPTS"

definition k8s_renew ::
  "'w kube_api \<Rightarrow> string \<Rightarrow> u64 \<Rightarrow> nat \<Rightarrow> int \<Rightarrow> 'w \<Rightarrow> (string + lease option) \<times> 'w" where
  "k8s_renew = renew_loop MAX_UPDATE_ATTEMPTS"

definition k8s_release :: "'w kube_api \<Rightarrow> string \<Rightarrow> u64 \<Rightarrow> 'w \<Rightarrow> (string + unit) \<times> 'w" where
  "k8s_release = release_loop MAX_UPDATE_ATTEMPTS"

text \<open>The documented behaviour of the API server. \<open>hist w\<close> is the sequence of values of the stored
  object, the newest last; a call may find that others wrote since the last one. A read returns the
  newest value; a creation succeeds only when there is no object, a replacement only when the
  submitted \<open>resourceVersion\<close> is that of the stored object, and then appends its object under a new
  version; no two stored objects share a version.\<close>

definition optimistic_api :: "'w kube_api \<Rightarrow> ('w \<Rightarrow> k8s_lease option list) \<Rightarrow> bool" where
  "optimistic_api api hist \<longleftrightarrow>
     (\<forall>w r w'. k_get api w = (r, w') \<longrightarrow> (\<exists>ys. hist w' = hist w @ ys) \<and>
        (case r of Inr obj \<Rightarrow> last (hist w') = Some obj
         | Inl err \<Rightarrow> is_not_found err \<longrightarrow> last (hist w') = None)) \<and>
     (\<forall>w obj r w'. k_create api w obj = (r, w') \<longrightarrow> (\<exists>ys. hist w' = hist w @ ys) \<and>
        (\<forall>o'. r = Inr o' \<longrightarrow> (\<exists>ys v. hist w' = hist w @ ys @ [Some (obj\<lparr> k_resource_version := v \<rparr>)]
           \<and> last (hist w @ ys) = None))) \<and>
     (\<forall>w obj r w'. k_replace api w obj = (r, w') \<longrightarrow> (\<exists>ys. hist w' = hist w @ ys) \<and>
        (\<forall>o'. r = Inr o' \<longrightarrow> (\<exists>ys v cur. hist w' = hist w @ ys @ [Some (obj\<lparr> k_resource_version := v \<rparr>)]
           \<and> last (hist w @ ys) = Some cur \<and> k_resource_version cur = k_resource_version obj))) \<and>
     (\<forall>w a b. Some a \<in> set (hist w) \<longrightarrow> Some b \<in> set (hist w) \<longrightarrow>
        k_resource_version a = k_resource_version b \<longrightarrow> a = b) \<and>
     (\<forall>w. hist w \<noteq> [])"

lemma get_spec:
  assumes "optimistic_api api hist" "k_get api w = (r, w')"
  shows "\<exists>ys. hist w' = hist w @ ys" and "r = Inr obj \<Longrightarrow> last (hist w') = Some obj"
    and "r = Inl err \<Longrightarrow> is_not_found err \<Longrightarrow> last (hist w') = None"
proof -
  have "(\<exists>ys. hist w' = hist w @ ys) \<and> (case r of Inr obj \<Rightarrow> last (hist w') = Some obj
      | Inl err \<Rightarrow> is_not_found err \<longrightarrow> last (hist w') = None)"
    using assms unfolding optimistic_api_def by blast
  then show "\<exists>ys. hist w' = hist w @ ys" "r = Inr obj \<Longrightarrow> last (hist w') = Some obj"
    "r = Inl err \<Longrightarrow> is_not_found err \<Longrightarrow> last (hist w') = None" by auto
qed

lemma create_spec:
  assumes "optimistic_api api hist" "k_create api w obj = (r, w')"
  shows "\<exists>ys. hist w' = hist w @ ys"
    and "r = Inr o' \<Longrightarrow> \<exists>ys v. hist w' = hist w @ ys @ [Some (obj\<lparr> k_resource_version := v \<rparr>)]
           \<and> last (hist w @ ys) = None"
  using assms unfolding optimistic_api_def by blast+

lemma replace_spec:
  assumes "optimistic_api api hist" "k_replace api w obj = (r, w')"
  shows "\<exists>ys. hist w' = hist w @ ys"
    and "r = Inr o' \<Longrightarrow> \<exists>ys v cur. hist w' = hist w @ ys @ [Some (obj\<lparr> k_resource_version := v \<rparr>)]
           \<and> last (hist w @ ys) = Some cur \<and> k_resource_version cur = k_resource_version obj"
  using assms unfolding optimistic_api_def by blast+

lemma versions:
  assumes "optimistic_api api hist"
  shows "Some a \<in> set (hist w) \<Longrightarrow> Some b \<in> set (hist w) \<Longrightarrow>
      k_resource_version a = k_resource_version b \<Longrightarrow> a = b"
    and "hist w \<noteq> []"
  using assms unfolding optimistic_api_def by blast+

lemma get_lease_spec:
  assumes "optimistic_api api hist" "get_lease api w = (r, w')"
  shows "\<exists>ys. hist w' = hist w @ ys" and "r = Inr s \<Longrightarrow> last (hist w') = s"
  using assms(2) get_spec [OF assms(1), of w]
  by (auto simp: get_lease_def split: prod.splits sum.splits if_splits)

text \<open>The newest two values of the object are a transition.\<close>

definition history_step ::
  "k8s_lease option list \<Rightarrow> k8s_lease option list \<Rightarrow> (k8s_lease option \<Rightarrow> k8s_lease \<Rightarrow> bool) \<Rightarrow> bool" where
  "history_step h h' step \<longleftrightarrow>
     (\<exists>ys obj v. h' = h @ ys @ [Some (obj\<lparr> k_resource_version := v \<rparr>)] \<and> step (last (h @ ys)) obj)"

lemma history_stepI:
  "h' = h @ ys @ [Some (obj\<lparr> k_resource_version := v \<rparr>)] \<Longrightarrow> step (last (h @ ys)) obj \<Longrightarrow> history_step h h' step"
  unfolding history_step_def by blast

lemma history_step_trans:
  "h1 = h @ zs \<Longrightarrow> history_step h1 h' step \<Longrightarrow> history_step h h' step"
  unfolding history_step_def by (metis append.assoc)

text \<open>A replacement that succeeds replaces the object that was read.\<close>

lemma replace_atomic:
  assumes api: "optimistic_api api hist" and get: "get_lease api w = (Inr (Some obj), w1)"
    and rep: "k_replace api w1 obj' = (c, w2)"
    and ver: "k_resource_version obj' = k_resource_version obj"
  shows "\<exists>ys. hist w2 = hist w @ ys"
    and "c = Inr o' \<Longrightarrow> step (Some obj) obj' \<Longrightarrow> history_step (hist w) (hist w2) step"
proof -
  obtain y1 where y1: "hist w1 = hist w @ y1" using get_lease_spec(1) [OF api get] by blast
  then show "\<exists>ys. hist w2 = hist w @ ys" using replace_spec(1) [OF api rep] by auto
  assume ok: "c = Inr o'" and step: "step (Some obj) obj'"
  have newest: "last (hist w1) = Some obj" using get_lease_spec(2) [OF api get] by simp
  obtain y2 v cur where y2: "hist w2 = hist w1 @ y2 @ [Some (obj'\<lparr> k_resource_version := v \<rparr>)]"
    "last (hist w1 @ y2) = Some cur" "k_resource_version cur = k_resource_version obj'"
    using replace_spec(2) [OF api rep ok] by blast
  have sub: "set (hist w1 @ y2) \<subseteq> set (hist w2)" unfolding y2(1) by auto
  have "Some obj \<in> set (hist w1 @ y2)"
    using newest last_in_set [OF versions(2) [OF api, of w1]] by simp
  moreover have "Some cur \<in> set (hist w1 @ y2)"
    using last_in_set [of "hist w1 @ y2"] versions(2) [OF api, of w1] unfolding y2(2) by simp
  ultimately have "cur = obj" using versions(1) [OF api] sub y2(3) ver by (metis subsetD)
  then show "history_step (hist w) (hist w2) step"
    using y1 y2(1,2) step by (intro history_stepI [where ys = "y1 @ y2" and obj = obj' and v = v]) auto
qed

lemma apply_version:
  "apply_acquire obj h ttl now = Some (g, obj') \<Longrightarrow> k_resource_version obj' = k_resource_version obj"
  "apply_renew obj h e ttl now = Some (g, obj') \<Longrightarrow> k_resource_version obj' = k_resource_version obj"
  "apply_release obj h e = Some obj' \<Longrightarrow> k_resource_version obj' = k_resource_version obj"
  by (auto simp: apply_acquire_def apply_renew_def apply_release_def set_epoch_def Let_def
      split: option.splits if_splits)

lemma create_atomic:
  assumes api: "optimistic_api api hist" and get: "get_lease api w = (Inr None, w1)"
    and cre: "k_create api w1 obj = (c, w2)"
  shows "\<exists>ys. hist w2 = hist w @ ys"
    and "c = Inr o' \<Longrightarrow> step None obj \<Longrightarrow> history_step (hist w) (hist w2) step"
proof -
  obtain y1 where y1: "hist w1 = hist w @ y1" using get_lease_spec(1) [OF api get] by blast
  then show "\<exists>ys. hist w2 = hist w @ ys" using create_spec(1) [OF api cre] by auto
  assume ok: "c = Inr o'" and step: "step None obj"
  obtain ys v where ys: "hist w2 = hist w1 @ ys @ [Some (obj\<lparr> k_resource_version := v \<rparr>)]"
    "last (hist w1 @ ys) = None" using create_spec(2) [OF api cre ok] by blast
  then show "history_step (hist w) (hist w2) step"
    using y1 step by (intro history_stepI [where ys = "y1 @ ys" and obj = obj and v = v]) auto
qed

text \<open>The outcome of a loop as a transition of the stored object, at the end of its history.\<close>

definition history_outcome ::
  "(k8s_lease option \<Rightarrow> string + lease option \<times> k8s_lease option)
   \<Rightarrow> k8s_lease option list \<Rightarrow> k8s_lease option list \<Rightarrow> lease option \<Rightarrow> bool" where
  "history_outcome op h h' r \<longleftrightarrow>
     (case r of
        Some grant \<Rightarrow> history_step h h' (\<lambda>cur obj. op cur = Inr (Some grant, Some obj))
      | None \<Rightarrow> op (last h') = Inr (None, last h'))"

lemma history_outcome_trans:
  "\<exists>ys. h1 = h @ ys \<Longrightarrow> history_outcome op h1 h' r \<Longrightarrow> history_outcome op h h' r"
  using history_step_trans by (auto simp: history_outcome_def split: option.splits)

lemma acquire_loop_atomic:
  assumes api: "optimistic_api api hist"
  shows "acquire_loop n api ns nm h ttl now w = (Inr r, w') \<Longrightarrow>
    history_outcome (\<lambda>s. p_try_acquire (k8s_ops ns nm) s h ttl now) (hist w) (hist w') r"
proof (induction n arbitrary: w)
  case (Suc n)
  let ?obj = "new_lease_object ns nm h ttl now"
  obtain gr where gr: "lease_to_grant ?obj = Some gr"
    using new_object_granted [of ns nm h ttl now] by (auto simp: attempt_acquire_def Let_def)
  consider (err) e w1 where "get_lease api w = (Inl e, w1)"
    | (absent) w1 c w2 where "get_lease api w = (Inr None, w1)" "k_create api w1 ?obj = (c, w2)"
    | (denied) w1 obj where "get_lease api w = (Inr (Some obj), w1)" "apply_acquire obj h ttl now = None"
    | (present) w1 obj g obj' c w2 where "get_lease api w = (Inr (Some obj), w1)"
      "apply_acquire obj h ttl now = Some (g, obj')" "k_replace api w1 obj' = (c, w2)"
    by (metis option.exhaust sum.exhaust surj_pair)
  then show ?case
  proof cases
    case absent
    show ?thesis
    proof (cases c)
      case (Inl e)
      then have "acquire_loop n api ns nm h ttl now w2 = (Inr r, w')"
        using Suc.prems absent gr by (auto simp: Let_def split: if_splits)
      from history_outcome_trans [OF create_atomic(1) [OF api absent] Suc.IH [OF this]] show ?thesis .
    next
      case (Inr o')
      then have "r = Some gr" "w' = w2" using Suc.prems absent gr by (auto simp: Let_def)
      then show ?thesis using create_atomic(2) [OF api absent Inr] gr
        by (simp add: history_outcome_def k8s_ops_def written_def attempt_acquire_def)
    qed
  next
    case denied
    then show ?thesis
      using Suc.prems get_lease_spec(2) [OF api denied(1), of "Some obj"]
      by (auto simp: history_outcome_def k8s_ops_def written_def attempt_acquire_def)
  next
    case present
    note atomic = replace_atomic [OF api present(1,3) apply_version(1) [OF present(2)]]
    show ?thesis
    proof (cases c)
      case (Inl e)
      then have "acquire_loop n api ns nm h ttl now w2 = (Inr r, w')"
        using Suc.prems present by (auto split: if_splits)
      from history_outcome_trans [OF atomic(1) Suc.IH [OF this]] show ?thesis .
    next
      case (Inr o')
      then have "r = Some g" "w' = w2" using Suc.prems present by auto
      then show ?thesis using atomic(2) [OF Inr] present(2)
        by (simp add: history_outcome_def k8s_ops_def written_def attempt_acquire_def)
    qed
  qed (use Suc.prems in auto)
qed simp

lemma renew_loop_atomic:
  assumes api: "optimistic_api api hist"
  shows "renew_loop n api h e ttl now w = (Inr r, w') \<Longrightarrow>
    history_outcome (\<lambda>s. p_renew (k8s_ops ns nm) s h e ttl now) (hist w) (hist w') r"
proof (induction n arbitrary: w)
  case (Suc n)
  consider (err) e w1 where "get_lease api w = (Inl e, w1)"
    | (absent) w1 where "get_lease api w = (Inr None, w1)"
    | (denied) w1 obj where "get_lease api w = (Inr (Some obj), w1)" "apply_renew obj h e ttl now = None"
    | (present) w1 obj g obj' c w2 where "get_lease api w = (Inr (Some obj), w1)"
      "apply_renew obj h e ttl now = Some (g, obj')" "k_replace api w1 obj' = (c, w2)"
    by (metis option.exhaust sum.exhaust surj_pair)
  then show ?case
  proof cases
    case absent
    then show ?thesis
      using Suc.prems get_lease_spec(2) [OF api absent(1), of None]
      by (auto simp: history_outcome_def k8s_ops_def written_def attempt_renew_def)
  next
    case denied
    then show ?thesis
      using Suc.prems get_lease_spec(2) [OF api denied(1), of "Some obj"]
      by (auto simp: history_outcome_def k8s_ops_def written_def attempt_renew_def)
  next
    case present
    note atomic = replace_atomic [OF api present(1,3) apply_version(2) [OF present(2)]]
    show ?thesis
    proof (cases c)
      case (Inl e')
      then have "renew_loop n api h e ttl now w2 = (Inr r, w')"
        using Suc.prems present by (auto split: if_splits)
      from history_outcome_trans [OF atomic(1) Suc.IH [OF this]] show ?thesis .
    next
      case (Inr o')
      then have "r = Some g" "w' = w2" using Suc.prems present by auto
      then show ?thesis using atomic(2) [OF Inr] present(2)
        by (simp add: history_outcome_def k8s_ops_def written_def attempt_renew_def)
    qed
  qed (use Suc.prems in auto)
qed simp

lemma release_loop_atomic:
  assumes api: "optimistic_api api hist"
  shows "release_loop n api h e w = (Inr (), w') \<Longrightarrow>
    history_step (hist w) (hist w') (\<lambda>cur obj. attempt_release cur h e = Some obj)
    \<or> attempt_release (last (hist w')) h e = None"
proof (induction n arbitrary: w)
  case (Suc n)
  consider (err) e w1 where "get_lease api w = (Inl e, w1)"
    | (absent) w1 where "get_lease api w = (Inr None, w1)"
    | (denied) w1 obj where "get_lease api w = (Inr (Some obj), w1)" "apply_release obj h e = None"
    | (present) w1 obj obj' c w2 where "get_lease api w = (Inr (Some obj), w1)"
      "apply_release obj h e = Some obj'" "k_replace api w1 obj' = (c, w2)"
    by (metis option.exhaust sum.exhaust surj_pair)
  then show ?case
  proof cases
    case absent
    then show ?thesis
      using Suc.prems get_lease_spec(2) [OF api absent(1), of None] by (auto simp: attempt_release_def)
  next
    case denied
    then show ?thesis
      using Suc.prems get_lease_spec(2) [OF api denied(1), of "Some obj"] by (auto simp: attempt_release_def)
  next
    case present
    note atomic = replace_atomic [OF api present(1,3) apply_version(3) [OF present(2)]]
    show ?thesis
    proof (cases c)
      case (Inl e')
      then have "release_loop n api h e w2 = (Inr (), w')"
        using Suc.prems present by (auto split: if_splits)
      moreover obtain ys where "hist w2 = hist w @ ys" using atomic(1) by blast
      ultimately show ?thesis using Suc.IH [of w2] history_step_trans [of "hist w2" "hist w" ys "hist w'"] by auto
    next
      case (Inr o')
      then have "w' = w2" using Suc.prems present by auto
      then show ?thesis using atomic(2) [OF Inr] present(2) by (simp add: attempt_release_def)
    qed
  qed (use Suc.prems in auto)
qed simp

end
