(* ===== verification/Ha_Controller.thy ===== *)
theory Ha_Controller
  imports Ha_Kubernetes
begin

text \<open>
  The writer controller, \<open>bluedb-ha/src/controller.rs\<close>, and the cluster it runs in. An operation of a
  controller is three atomic parts with an await between them: it reads the clock and its own state,
  the lease store answers, and the controller records the answer. The step relation \<open>ha_step\<close>
  interleaves these parts over all nodes; each node has its own clock, which runs forward and is within
  \<open>skew\<close> of a common time. With \<open>serial\<close> a node starts an operation only when it has none in
  flight.
\<close>

section \<open>The controller\<close>

datatype role = Active | Passive

fun role_as_str :: "role \<Rightarrow> string" where
  "role_as_str Active = ''active''"
| "role_as_str Passive = ''passive''"

datatype ha_error = LeaseHeldByAnother | Provider string

record ctrl_state =
  c_role :: role
  c_epoch :: "u64 option"
  c_expires_at_millis :: int

record ha_config =
  cf_ttl :: nat
  cf_safety_margin :: nat

record ha_status =
  st_node_id :: string
  st_role :: role
  st_epoch :: "u64 option"
  st_lease_expires_at_millis :: "int option"

definition controller_new :: ctrl_state where
  "controller_new = \<lparr> c_role = Passive, c_epoch = None, c_expires_at_millis = 0 \<rparr>"

definition set_active :: "lease \<Rightarrow> ctrl_state \<Rightarrow> ctrl_state" where
  "set_active l st = \<lparr> c_role = Active, c_epoch = Some (l_epoch l),
     c_expires_at_millis = l_expires_at_millis l \<rparr>"

definition set_passive :: "ctrl_state \<Rightarrow> ctrl_state" where
  "set_passive st = \<lparr> c_role = Passive, c_epoch = None, c_expires_at_millis = 0 \<rparr>"

definition stored_active_epoch :: "ctrl_state \<Rightarrow> u64 option" where
  "stored_active_epoch st = (case c_role st of Active \<Rightarrow> c_epoch st | Passive \<Rightarrow> None)"

definition is_active :: "ha_config \<Rightarrow> int \<Rightarrow> ctrl_state \<Rightarrow> bool" where
  "is_active cfg now st \<longleftrightarrow>
     c_role st = Active \<and>
     now < i64_wrap (c_expires_at_millis st - ttl_millis (cf_safety_margin cfg))"

definition ctrl_epoch :: "ha_config \<Rightarrow> int \<Rightarrow> ctrl_state \<Rightarrow> u64 option" where
  "ctrl_epoch cfg now st = (if is_active cfg now st then c_epoch st else None)"

definition ctrl_status :: "ha_config \<Rightarrow> string \<Rightarrow> int \<Rightarrow> ctrl_state \<Rightarrow> ha_status" where
  "ctrl_status cfg node now st =
     (let active = is_active cfg now st in
      \<lparr> st_node_id = node, st_role = (if active then Active else Passive),
        st_epoch = (if active then c_epoch st else None),
        st_lease_expires_at_millis = (if active then Some (c_expires_at_millis st) else None) \<rparr>)"

text \<open>What an operation does with the answer of the store.\<close>

fun promote_done :: "string + lease option \<Rightarrow> ctrl_state \<Rightarrow> (ha_error + lease) \<times> ctrl_state" where
  "promote_done (Inl err) st = (Inl (Provider err), st)"
| "promote_done (Inr (Some l)) st = (Inr l, set_active l st)"
| "promote_done (Inr None) st = (Inl LeaseHeldByAnother, st)"

fun renew_done :: "string + lease option \<Rightarrow> ctrl_state \<Rightarrow> (ha_error + bool) \<times> ctrl_state" where
  "renew_done (Inl err) st = (Inl (Provider err), st)"
| "renew_done (Inr (Some l)) st = (Inr True, set_active l st)"
| "renew_done (Inr None) st = (Inr False, set_passive st)"

fun demote_done :: "string + unit \<Rightarrow> ctrl_state \<Rightarrow> (ha_error + unit) \<times> ctrl_state" where
  "demote_done (Inl err) st = (Inl (Provider err), st)"
| "demote_done (Inr ()) st = (Inr (), set_passive st)"

text \<open>The operations, run without interruption.\<close>

definition answer :: "string + 'r \<times> 's \<Rightarrow> 's \<Rightarrow> (string + 'r) \<times> 's" where
  "answer r s = (case r of Inl e \<Rightarrow> (Inl e, s) | Inr (x, s') \<Rightarrow> (Inr x, s'))"

definition promote ::
  "'s lease_provider_ops \<Rightarrow> ha_config \<Rightarrow> string \<Rightarrow> int \<Rightarrow> ctrl_state \<Rightarrow> 's
   \<Rightarrow> (ha_error + lease) \<times> ctrl_state \<times> 's" where
  "promote ops cfg node now st s =
     (let (r, s') = answer (p_try_acquire ops s node (cf_ttl cfg) now) s;
        (res, st') = promote_done r st
      in (res, st', s'))"

definition renew_once ::
  "'s lease_provider_ops \<Rightarrow> ha_config \<Rightarrow> string \<Rightarrow> int \<Rightarrow> ctrl_state \<Rightarrow> 's
   \<Rightarrow> (ha_error + bool) \<times> ctrl_state \<times> 's" where
  "renew_once ops cfg node now st s =
     (case stored_active_epoch st of
        None \<Rightarrow> (Inr False, st, s)
      | Some epoch \<Rightarrow>
          (let (r, s') = answer (p_renew ops s node epoch (cf_ttl cfg) now) s;
             (res, st') = renew_done r st
           in (res, st', s')))"

definition demote ::
  "'s lease_provider_ops \<Rightarrow> string \<Rightarrow> ctrl_state \<Rightarrow> 's \<Rightarrow> (ha_error + unit) \<times> ctrl_state \<times> 's" where
  "demote ops node st s =
     (case stored_active_epoch st of
        None \<Rightarrow> (Inr (), set_passive st, s)
      | Some epoch \<Rightarrow>
          (let (r, s') = answer (map_sum id (Pair ()) (p_release ops s node epoch)) s;
             (res, st') = demote_done r st
           in (res, st', s')))"

definition current_lease :: "'s lease_provider_ops \<Rightarrow> int \<Rightarrow> 's \<Rightarrow> lease option" where
  "current_lease ops now s = p_current ops s now"

section \<open>The cluster\<close>

datatype task =
    Acquiring int | Acquired "lease option"
  | Renewing u64 int | Renewed "lease option"
  | Releasing u64 | Released

record 's ha_system =
  sys_store :: 's
  sys_ctrl :: "string \<Rightarrow> ctrl_state"
  sys_tasks :: "string \<Rightarrow> task list"
  sys_clock :: "string \<Rightarrow> int"
  sys_time :: int

definition clock_ok :: "int \<Rightarrow> int \<Rightarrow> (string \<Rightarrow> int) \<Rightarrow> bool" where
  "clock_ok skew time clock \<longleftrightarrow> (\<forall>n. 0 \<le> clock n \<and> clock n < 2 ^ 62 \<and> \<bar>clock n - time\<bar> \<le> skew)"

definition system_new :: "'s \<Rightarrow> (string \<Rightarrow> int) \<Rightarrow> int \<Rightarrow> 's ha_system" where
  "system_new s clock time = \<lparr> sys_store = s, sys_ctrl = (\<lambda>_. controller_new),
     sys_tasks = (\<lambda>_. []), sys_clock = clock, sys_time = time \<rparr>"

definition set_tasks :: "string \<Rightarrow> task list \<Rightarrow> 's ha_system \<Rightarrow> 's ha_system" where
  "set_tasks n ts y = y\<lparr> sys_tasks := (sys_tasks y)(n := ts) \<rparr>"

definition set_ctrl :: "string \<Rightarrow> ctrl_state \<Rightarrow> 's ha_system \<Rightarrow> 's ha_system" where
  "set_ctrl n st y = y\<lparr> sys_ctrl := (sys_ctrl y)(n := st) \<rparr>"

definition starts :: "bool \<Rightarrow> string \<Rightarrow> 's ha_system \<Rightarrow> bool" where
  "starts serial n y \<longleftrightarrow> n \<noteq> [] \<and> (serial \<longrightarrow> sys_tasks y n = [])"

text \<open>A task of a node: what is before and after it in the list of tasks in flight.\<close>

inductive ha_step ::
  "'s lease_provider_ops \<Rightarrow> ha_config \<Rightarrow> int \<Rightarrow> bool \<Rightarrow> 's ha_system \<Rightarrow> 's ha_system \<Rightarrow> bool"
  for ops cfg skew serial where
  tick: "\<lbrakk>sys_time y \<le> time; \<forall>n. sys_clock y n \<le> clock n; clock_ok skew time clock\<rbrakk> \<Longrightarrow>
    ha_step ops cfg skew serial y (y\<lparr> sys_time := time, sys_clock := clock \<rparr>)"
| promote_start: "starts serial n y \<Longrightarrow>
    ha_step ops cfg skew serial y (set_tasks n (Acquiring (sys_clock y n) # sys_tasks y n) y)"
| acquire: "\<lbrakk>sys_tasks y n = us @ Acquiring now # vs;
      p_try_acquire ops (sys_store y) n (cf_ttl cfg) now = Inr (r, s')\<rbrakk> \<Longrightarrow>
    ha_step ops cfg skew serial y (set_tasks n (us @ Acquired r # vs) (y\<lparr> sys_store := s' \<rparr>))"
| promote_end: "sys_tasks y n = us @ Acquired r # vs \<Longrightarrow>
    ha_step ops cfg skew serial y
      (set_tasks n (us @ vs) (set_ctrl n (snd (promote_done (Inr r) (sys_ctrl y n))) y))"
| renew_start: "\<lbrakk>starts serial n y; stored_active_epoch (sys_ctrl y n) = Some e\<rbrakk> \<Longrightarrow>
    ha_step ops cfg skew serial y (set_tasks n (Renewing e (sys_clock y n) # sys_tasks y n) y)"
| renew: "\<lbrakk>sys_tasks y n = us @ Renewing e now # vs;
      p_renew ops (sys_store y) n e (cf_ttl cfg) now = Inr (r, s')\<rbrakk> \<Longrightarrow>
    ha_step ops cfg skew serial y (set_tasks n (us @ Renewed r # vs) (y\<lparr> sys_store := s' \<rparr>))"
| renew_end: "sys_tasks y n = us @ Renewed r # vs \<Longrightarrow>
    ha_step ops cfg skew serial y
      (set_tasks n (us @ vs) (set_ctrl n (snd (renew_done (Inr r) (sys_ctrl y n))) y))"
| demote_start: "\<lbrakk>starts serial n y; stored_active_epoch (sys_ctrl y n) = Some e\<rbrakk> \<Longrightarrow>
    ha_step ops cfg skew serial y (set_tasks n (Releasing e # sys_tasks y n) y)"
| demote_passive: "\<lbrakk>starts serial n y; stored_active_epoch (sys_ctrl y n) = None\<rbrakk> \<Longrightarrow>
    ha_step ops cfg skew serial y (set_ctrl n (set_passive (sys_ctrl y n)) y)"
| release: "\<lbrakk>sys_tasks y n = us @ Releasing e # vs; p_release ops (sys_store y) n e = Inr s'\<rbrakk> \<Longrightarrow>
    ha_step ops cfg skew serial y (set_tasks n (us @ Released # vs) (y\<lparr> sys_store := s' \<rparr>))"
| demote_end: "sys_tasks y n = us @ Released # vs \<Longrightarrow>
    ha_step ops cfg skew serial y
      (set_tasks n (us @ vs) (set_ctrl n (snd (demote_done (Inr ()) (sys_ctrl y n))) y))"
| call_fails: "\<lbrakk>sys_tasks y n = us @ t # vs;
      t = Acquiring now \<or> t = Renewing e now \<or> t = Releasing e\<rbrakk> \<Longrightarrow>
    ha_step ops cfg skew serial y (set_tasks n (us @ vs) y)"
| restart: "ha_step ops cfg skew serial y (set_tasks n [] (set_ctrl n controller_new y))"

inductive ha_run ::
  "'s lease_provider_ops \<Rightarrow> ha_config \<Rightarrow> int \<Rightarrow> bool \<Rightarrow> 's ha_system \<Rightarrow> 's ha_system \<Rightarrow> bool"
  for ops cfg skew serial where
  start: "ha_run ops cfg skew serial y y"
| step: "ha_run ops cfg skew serial y0 y \<Longrightarrow> ha_step ops cfg skew serial y y' \<Longrightarrow>
    ha_run ops cfg skew serial y0 y'"

definition writer :: "ha_config \<Rightarrow> 's ha_system \<Rightarrow> string \<Rightarrow> bool" where
  "writer cfg y n \<longleftrightarrow> is_active cfg (sys_clock y n) (sys_ctrl y n)"

section \<open>The invariant of serial runs\<close>

text \<open>\<open>owns\<close>: until the time \<open>x\<close> the store has a live lease of the node, or \<open>x\<close> has passed on every
  clock.\<close>

definition owns :: "'s lease_provider_ops \<Rightarrow> int \<Rightarrow> 's ha_system \<Rightarrow> string \<Rightarrow> int \<Rightarrow> bool" where
  "owns ops skew y n x \<longleftrightarrow>
     (\<forall>t. 0 \<le> t \<and> t < x \<longrightarrow> (\<exists>l. p_current ops (sys_store y) t = Some l \<and> l_holder l = n))
     \<or> x \<le> sys_time y + skew"

lemma owns_mono: "owns ops skew y n x \<Longrightarrow> x' \<le> x \<Longrightarrow> owns ops skew y n x'"
  by (auto simp: owns_def)

text \<open>The expiry a node believes in, if it is active and has not released its lease.\<close>

definition believes :: "'s ha_system \<Rightarrow> string \<Rightarrow> int \<Rightarrow> bool" where
  "believes y n x \<longleftrightarrow> c_role (sys_ctrl y n) = Active \<and> c_expires_at_millis (sys_ctrl y n) = x
     \<and> sys_tasks y n \<noteq> [Released]"

definition expiry_ok :: "'s lease_provider_ops \<Rightarrow> int \<Rightarrow> int \<Rightarrow> 's ha_system \<Rightarrow> string \<Rightarrow> int \<Rightarrow> bool" where
  "expiry_ok ops skew ttl y n x \<longleftrightarrow> owns ops skew y n x \<and> 0 \<le> x \<and> x \<le> sys_clock y n + ttl"

definition task_ok :: "'s lease_provider_ops \<Rightarrow> int \<Rightarrow> int \<Rightarrow> 's ha_system \<Rightarrow> string \<Rightarrow> task \<Rightarrow> bool" where
  "task_ok ops skew ttl y n t \<longleftrightarrow>
     (case t of
        Acquiring now \<Rightarrow> 0 \<le> now \<and> now \<le> sys_clock y n \<and> now \<le> sys_time y + skew
          \<and> (\<forall>x. believes y n x \<longrightarrow> x \<le> now + ttl)
      | Renewing e now \<Rightarrow> 0 \<le> now \<and> now \<le> sys_clock y n \<and> now \<le> sys_time y + skew
          \<and> (\<forall>x. believes y n x \<longrightarrow> x \<le> now + ttl)
      | Acquired (Some l) \<Rightarrow> expiry_ok ops skew ttl y n (l_expires_at_millis l)
      | Renewed (Some l) \<Rightarrow> expiry_ok ops skew ttl y n (l_expires_at_millis l)
      | _ \<Rightarrow> True)"

definition node_ok :: "'s lease_provider_ops \<Rightarrow> int \<Rightarrow> int \<Rightarrow> 's ha_system \<Rightarrow> string \<Rightarrow> bool" where
  "node_ok ops skew ttl y n \<longleftrightarrow>
     (sys_tasks y n = [] \<or> (\<exists>t. sys_tasks y n = [t] \<and> n \<noteq> [] \<and> task_ok ops skew ttl y n t))
     \<and> (\<forall>x. believes y n x \<longrightarrow> expiry_ok ops skew ttl y n x)"

text \<open>A step of one node that leaves the clocks alone keeps the other nodes' invariant when it keeps
  what they own.\<close>

lemma node_ok_frame:
  assumes "node_ok ops skew ttl y m" "sys_ctrl y' m = sys_ctrl y m" "sys_tasks y' m = sys_tasks y m"
    and "sys_clock y m \<le> sys_clock y' m" "sys_time y \<le> sys_time y'"
    and "\<And>x. owns ops skew y m x \<Longrightarrow> owns ops skew y' m x"
  shows "node_ok ops skew ttl y' m"
proof -
  have b: "believes y' m x = believes y m x" for x using assms(2,3) by (simp add: believes_def)
  have e: "expiry_ok ops skew ttl y m x \<Longrightarrow> expiry_ok ops skew ttl y' m x" for x
    using assms(4,6) by (auto simp: expiry_ok_def)
  have "task_ok ops skew ttl y m t \<Longrightarrow> task_ok ops skew ttl y' m t" for t
    using assms(4,5) e by (force simp: task_ok_def b split: task.splits option.splits)
  then show ?thesis using assms(1,3) e by (auto simp: node_ok_def b)
qed

lemma clock_okD:
  "clock_ok skew time clock \<Longrightarrow> 0 \<le> clock n \<and> clock n < 2 ^ 62 \<and> clock n \<le> time + skew \<and> time \<le> clock n + skew"
  unfolding clock_ok_def abs_le_iff by (drule spec [of _ n]) linarith

lemmas sys_simps = set_tasks_def set_ctrl_def

definition system_ok :: "'s lease_provider_ops \<Rightarrow> ('s \<Rightarrow> bool) \<Rightarrow> int \<Rightarrow> int \<Rightarrow> 's ha_system \<Rightarrow> bool" where
  "system_ok ops sinv skew ttl y \<longleftrightarrow> sinv (sys_store y) \<and> clock_ok skew (sys_time y) (sys_clock y)
     \<and> (\<forall>n. node_ok ops skew ttl y n)"

context lease_provider
begin

text \<open>What a grant to one node does to the others' claims.\<close>

lemma owns_after_grant:
  assumes "owns ops skew y m x" "now \<le> sys_time y + skew" "0 \<le> now"
    and "\<forall>c. p_current ops (sys_store y) now = Some c \<longrightarrow> l_holder c = n" "m \<noteq> n"
    and "sys_time y' = sys_time y"
  shows "owns ops skew y' m x"
  using assms unfolding owns_def by (metis linorder_not_le order_trans)

lemma owns_after_release:
  assumes "owns ops skew y m x" "m \<noteq> n" "n \<noteq> []" "store_inv (sys_store y)"
    and "p_release ops (sys_store y) n e = Inr (sys_store y')" "sys_time y' = sys_time y"
  shows "owns ops skew y' m x"
proof -
  have cur: "p_current ops (sys_store y') t = (case p_current ops (sys_store y) t of
      Some c \<Rightarrow> if l_holder c = n \<and> l_epoch c = e then None else Some c | None \<Rightarrow> None)"
    if "0 \<le> t" for t using released [OF assms(4,3,5)] that by blast
  show ?thesis using assms(1,2,6) by (auto simp: owns_def cur split: option.splits)
qed

lemma owns_granted: "p_current ops (sys_store y) = live_until l \<Longrightarrow> owns ops skew y (l_holder l) (l_expires_at_millis l)"
  by (auto simp: owns_def live_until_def)

text \<open>A grant, of an acquisition or of a renewal.\<close>

lemma grant_keeps_ok:
  assumes ok: "system_ok ops store_inv skew ttl y" and tasks: "sys_tasks y n = [u]"
    and u: "0 \<le> now" "now \<le> sys_clock y n" "now \<le> sys_time y + skew" "\<forall>x. believes y n x \<longrightarrow> x \<le> now + ttl"
    and n: "n \<noteq> []" and l: "l_holder l = n" "l_expires_at_millis l = i64_wrap (now + ttl)"
    and s': "store_inv s'" "p_current ops s' = live_until l"
    and excl: "\<forall>c. p_current ops (sys_store y) now = Some c \<longrightarrow> l_holder c = n"
    and t: "t = Acquired (Some l) \<or> t = Renewed (Some l)" and ttl: "0 \<le> ttl" "ttl < 2 ^ 62"
    and v: "u \<noteq> Released"
  shows "system_ok ops store_inv skew ttl (set_tasks n [t] (y\<lparr> sys_store := s' \<rparr>))"
    (is "system_ok _ _ _ _ ?y'")
proof -
  have nodes: "node_ok ops skew ttl y m" for m using ok by (simp add: system_ok_def)
  have clk: "sys_clock y n < 2 ^ 62" using ok by (simp add: system_ok_def clock_ok_def)
  have ex: "l_expires_at_millis l = now + ttl" using l(2) u(1,2) ttl clk by simp
  have own: "owns ops skew ?y' n (now + ttl)"
    using owns_granted [of ?y' l] s'(2) l(1) ex by (simp add: sys_simps)
  have "node_ok ops skew ttl ?y' n"
  proof -
    have "expiry_ok ops skew ttl ?y' n (now + ttl)"
      using own u(1,2) ttl by (simp add: expiry_ok_def sys_simps)
    moreover have "expiry_ok ops skew ttl ?y' n x" if "believes ?y' n x" for x
    proof -
      have b: "believes y n x" using that t tasks v by (auto simp: believes_def sys_simps)
      then have "expiry_ok ops skew ttl y n x" using nodes [of n] by (simp add: node_ok_def)
      then show ?thesis using owns_mono [OF own, of x] u(4) b by (auto simp: expiry_ok_def sys_simps)
    qed
    ultimately show ?thesis using t n ex by (auto simp: node_ok_def task_ok_def set_tasks_def)
  qed
  moreover have "node_ok ops skew ttl ?y' m" if "m \<noteq> n" for m
    by (rule node_ok_frame [OF nodes [of m]])
      (use that owns_after_grant [OF _ u(3,1) excl that, of _ ?y'] in \<open>auto simp: sys_simps\<close>)
  ultimately have "node_ok ops skew ttl ?y' m" for m by (cases "m = n") auto
  then show ?thesis using ok s'(1) by (simp add: system_ok_def sys_simps)
qed

text \<open>A step that changes tasks and controller of one node only.\<close>

lemma local_keeps_ok:
  assumes ok: "system_ok ops store_inv skew ttl y" and n: "node_ok ops skew ttl y' n"
    and y': "y' = set_tasks n ts (set_ctrl n st y)"
  shows "system_ok ops store_inv skew ttl y'"
proof -
  have "node_ok ops skew ttl y' m" if "m \<noteq> n" for m
    by (rule node_ok_frame [of _ _ _ y]) (use ok y' that in \<open>auto simp: system_ok_def sys_simps owns_def\<close>)
  then have "node_ok ops skew ttl y' m" for m using n by (cases "m = n") auto
  then show ?thesis using ok y' by (simp add: system_ok_def sys_simps)
qed

lemma single_task:
  "system_ok ops store_inv skew ttl y \<Longrightarrow> sys_tasks y n = us @ t # vs \<Longrightarrow>
     us = [] \<and> vs = [] \<and> n \<noteq> [] \<and> task_ok ops skew ttl y n t"
  unfolding system_ok_def node_ok_def by (metis append_is_Nil_conv append_eq_Cons_conv list.inject list.simps(3))

lemma believed:
  "system_ok ops store_inv skew ttl y \<Longrightarrow> believes y n x \<Longrightarrow> expiry_ok ops skew ttl y n x"
  by (simp add: system_ok_def node_ok_def)

text \<open>A node starts a call, or a call ends.\<close>

lemma start_ok:
  assumes ok: "system_ok ops store_inv skew ttl y" and st: "starts True n y"
    and t: "t = Acquiring (sys_clock y n) \<or> t = Renewing e (sys_clock y n) \<or> t = Releasing e"
  shows "system_ok ops store_inv skew ttl (set_tasks n (t # sys_tasks y n) y)"
proof (rule local_keeps_ok [OF ok, where n = n and st = "sys_ctrl y n"])
  have clk: "0 \<le> sys_clock y n" "sys_clock y n \<le> sys_time y + skew"
    using ok clock_okD [of skew "sys_time y" "sys_clock y" n] by (auto simp: system_ok_def)
  have idle: "sys_tasks y n = []" "n \<noteq> []" using st by (auto simp: starts_def)
  have "believes (set_tasks n [t] y) n x = believes y n x" for x
    using idle t by (auto simp: believes_def sys_simps)
  then show "node_ok ops skew ttl (set_tasks n (t # sys_tasks y n) y) n"
    using believed [OF ok, of n] idle t clk
    by (auto simp: node_ok_def task_ok_def expiry_ok_def owns_def sys_simps)
qed (simp add: sys_simps)

lemma end_ok:
  assumes ok: "system_ok ops store_inv skew ttl y" and ts: "sys_tasks y n = us @ t # vs"
    and st: "st = set_passive (sys_ctrl y n) \<or> st = sys_ctrl y n \<and> t \<noteq> Released
      \<or> (\<exists>l. st = set_active l (sys_ctrl y n) \<and> (t = Acquired (Some l) \<or> t = Renewed (Some l)))"
  shows "system_ok ops store_inv skew ttl (set_tasks n (us @ vs) (set_ctrl n st y))"
proof (rule local_keeps_ok [OF ok _ refl])
  note single = single_task [OF ok ts]
  from st show "node_ok ops skew ttl (set_tasks n (us @ vs) (set_ctrl n st y)) n"
  proof (elim disjE exE conjE)
    assume "st = sys_ctrl y n" "t \<noteq> Released"
    then have "believes (set_tasks n [] (set_ctrl n st y)) n x = believes y n x" for x
      using single ts by (auto simp: believes_def sys_simps)
    then show ?thesis
      using believed [OF ok, of n] single by (auto simp: node_ok_def expiry_ok_def owns_def sys_simps)
  qed (use single in \<open>auto simp: node_ok_def believes_def set_passive_def set_active_def sys_simps task_ok_def
        expiry_ok_def owns_def\<close>)
qed

text \<open>An answer that changes nothing in the store.\<close>

lemma denied_ok:
  assumes ok: "system_ok ops store_inv skew ttl y" and ts: "sys_tasks y n = us @ t # vs" "t \<noteq> Released"
    and u: "u = Acquired None \<or> u = Renewed None"
  shows "system_ok ops store_inv skew ttl (set_tasks n (us @ u # vs) y)"
proof (rule local_keeps_ok [OF ok, where n = n and st = "sys_ctrl y n"])
  note single = single_task [OF ok ts(1)]
  have "believes (set_tasks n [u] y) n x = believes y n x" for x
    using single ts u by (auto simp: believes_def sys_simps)
  then show "node_ok ops skew ttl (set_tasks n (us @ u # vs) y) n"
    using believed [OF ok, of n] single u
    by (auto simp: node_ok_def task_ok_def expiry_ok_def owns_def sys_simps)
qed (simp add: sys_simps)

lemma release_ok:
  assumes ok: "system_ok ops store_inv skew ttl y" and ts: "sys_tasks y n = us @ Releasing e # vs"
    and rel: "p_release ops (sys_store y) n e = Inr s'"
  shows "system_ok ops store_inv skew ttl (set_tasks n (us @ Released # vs) (y\<lparr> sys_store := s' \<rparr>))"
    (is "system_ok _ _ _ _ ?y'")
proof -
  note single = single_task [OF ok ts]
  have inv: "store_inv (sys_store y)" using ok by (simp add: system_ok_def)
  have "node_ok ops skew ttl ?y' m" for m
  proof (cases "m = n")
    case False
    have own: "owns ops skew ?y' m x" if "owns ops skew y m x" for x
      using owns_after_release [OF that False _ inv, of e ?y'] single rel by (simp add: sys_simps)
    show ?thesis
      by (rule node_ok_frame [OF _ _ _ _ _ own]) (use ok False in \<open>simp_all add: system_ok_def sys_simps\<close>)
  qed (use single in \<open>auto simp: node_ok_def task_ok_def believes_def sys_simps\<close>)
  then show ?thesis
    using ok released [OF inv _ rel] single by (simp add: system_ok_def sys_simps)
qed

lemma step_ok:
  assumes "ha_step ops cfg skew True y y'" "system_ok ops store_inv skew (ttl_of (cf_ttl cfg)) y"
    and ttl: "int (cf_ttl cfg) < 2 ^ 61"
  shows "system_ok ops store_inv skew (ttl_of (cf_ttl cfg)) y'"
  using assms(1)
proof cases
  note ok = assms(2)
  have inv: "store_inv (sys_store y)" using ok by (simp add: system_ok_def)
  have b: "0 \<le> ttl_of (cf_ttl cfg)" "ttl_of (cf_ttl cfg) < 2 ^ 62" using ttl_bounds [OF ttl] by auto
  {
    case (tick time clock)
    have "node_ok ops skew (ttl_of (cf_ttl cfg)) y' m" for m
      by (rule node_ok_frame [of _ _ _ y]) (use ok tick in \<open>auto simp: system_ok_def owns_def\<close>)
    then show ?thesis using ok tick by (simp add: system_ok_def)
  next
    case (promote_start n)
    then show ?thesis using start_ok [OF ok] by blast
  next
    case (renew_start n e)
    then show ?thesis using start_ok [OF ok] by blast
  next
    case (demote_start n e)
    then show ?thesis using start_ok [OF ok] by blast
  next
    case (acquire n us now vs r s')
    note single = single_task [OF ok acquire(2)]
    show ?thesis
    proof (cases r)
      case None
      then have "s' = sys_store y" using acquire_denied [OF inv _ acquire(3) [unfolded None]] single by simp
      then show ?thesis using denied_ok [OF ok acquire(2), of "Acquired r"] None acquire(1) by simp
    next
      case (Some l)
      from acquire_granted [OF inv _ acquire(3) [unfolded Some]] show ?thesis
        using grant_keeps_ok [OF ok, of n "Acquiring now" now l s' "Acquired (Some l)"] single acquire(1,2) Some b
        by (simp add: task_ok_def)
    qed
  next
    case (renew n us e now vs r s')
    note single = single_task [OF ok renew(2)]
    show ?thesis
    proof (cases r)
      case None
      then have "s' = sys_store y" using renew_lost [OF inv _ renew(3) [unfolded None]] single by simp
      then show ?thesis using denied_ok [OF ok renew(2), of "Renewed r"] None renew(1) by simp
    next
      case (Some l)
      from renew_granted [OF inv _ renew(3) [unfolded Some]] show ?thesis
        using grant_keeps_ok [OF ok, of n "Renewing e now" now l s' "Renewed (Some l)"] single renew(1,2) Some b
        by (auto simp: task_ok_def)
    qed
  next
    case (promote_end n us r vs)
    then show ?thesis using end_ok [OF ok promote_end(2), of "snd (promote_done (Inr r) (sys_ctrl y n))"]
      by (cases r) auto
  next
    case (renew_end n us r vs)
    then show ?thesis using end_ok [OF ok renew_end(2), of "snd (renew_done (Inr r) (sys_ctrl y n))"]
      by (cases r) auto
  next
    case (demote_end n us vs)
    then show ?thesis using end_ok [OF ok demote_end(2)] by simp
  next
    case (call_fails n us t vs now e)
    have "set_ctrl n (sys_ctrl y n) y = y" by (simp add: sys_simps)
    then show ?thesis using end_ok [OF ok call_fails(2), of "sys_ctrl y n"] call_fails(1,3) by auto
  next
    case (release n us e vs s')
    then show ?thesis using release_ok [OF ok] by blast
  next
    case (demote_passive n)
    have "node_ok ops skew (ttl_of (cf_ttl cfg)) y' n"
      using demote_passive by (simp add: starts_def node_ok_def believes_def set_passive_def sys_simps)
    moreover have "y' = set_tasks n (sys_tasks y n) (set_ctrl n (set_passive (sys_ctrl y n)) y)"
      using demote_passive(1) by (simp add: sys_simps)
    ultimately show ?thesis by (rule local_keeps_ok [OF ok])
  next
    case (restart n)
    show ?thesis unfolding restart
      by (rule local_keeps_ok [OF ok _ refl]) (auto simp: node_ok_def believes_def controller_new_def sys_simps)
  }
qed

lemma run_ok:
  assumes "ha_run ops cfg skew True (system_new s clock time) y"
    and "store_inv s" "clock_ok skew time clock" "int (cf_ttl cfg) < 2 ^ 61"
  shows "system_ok ops store_inv skew (ttl_of (cf_ttl cfg)) y"
  using assms(1)
proof (induction "system_new s clock time" y)
  case start
  then show ?case
    using assms(2,3) by (auto simp: system_ok_def node_ok_def believes_def system_new_def controller_new_def)
qed (use step_ok assms(4) in blast)

text \<open>Two nodes that both may write: one of them has released its lease and not yet stepped down.\<close>

lemma writers_agree:
  assumes run: "ha_run ops cfg skew True (system_new s clock time) y"
    and init: "store_inv s" "clock_ok skew time clock" "int (cf_ttl cfg) < 2 ^ 61"
    and margin: "2 * skew \<le> int (cf_safety_margin cfg)" "int (cf_safety_margin cfg) < 2 ^ 61"
    and wr: "writer cfg y n" "writer cfg y m"
  shows "n = m \<or> sys_tasks y n = [Released] \<or> sys_tasks y m = [Released]"
proof (rule ccontr)
  assume neg: "\<not> ?thesis"
  note ok = run_ok [OF run init]
  have clk: "0 \<le> sys_clock y k \<and> sys_clock y k \<le> sys_time y + skew \<and> sys_time y \<le> sys_clock y k + skew" for k
    using ok clock_okD [of skew "sys_time y" "sys_clock y" k] by (auto simp: system_ok_def)
  have claim: "\<forall>t. 0 \<le> t \<and> t \<le> sys_time y + skew \<longrightarrow> (\<exists>l. p_current ops (sys_store y) t = Some l \<and> l_holder l = k)"
    if "writer cfg y k" "sys_tasks y k \<noteq> [Released]" for k
  proof -
    let ?x = "c_expires_at_millis (sys_ctrl y k)"
    have e: "expiry_ok ops skew (ttl_of (cf_ttl cfg)) y k ?x"
      using believed [OF ok, of k] that by (auto simp: believes_def writer_def is_active_def)
    moreover have "?x < 2 ^ 63"
      using e ok ttl_bounds [OF init(3)] clock_okD [of skew "sys_time y" "sys_clock y" k]
      by (auto simp: expiry_ok_def system_ok_def)
    ultimately have "sys_clock y k < ?x - int (cf_safety_margin cfg)"
      using that(1) margin by (simp add: writer_def is_active_def ttl_millis_def expiry_ok_def)
    then have "sys_time y + skew < ?x" using clk [of k] margin(1) by linarith
    then show ?thesis using e by (auto simp: expiry_ok_def owns_def)
  qed
  then show False using claim [OF wr(1)] claim [OF wr(2)] neg clk [of n] by fastforce
qed

end

end
