(* ===== verification/Ha_Registry.thy ===== *)
theory Ha_Registry
  imports Ha_Controller "HOL-Library.AList"
begin

text \<open>
  Node discovery, \<open>bluedb-ha/src/registry.rs\<close>, \<open>registry_postgres.rs\<close> and \<open>registry_k8s.rs\<close>, and
  its client \<open>active_writer_url\<close> of \<open>bluedb-server/src/lib.rs\<close>. The contract of the trait, that
  \<open>url_for\<close> is a lookup in \<open>live_nodes\<close>, is the locale \<open>node_registry\<close>; the three registries
  provide it. A hash map and a table are association lists with one row per key, the endpoint slices
  of a service the fields that the code reads.
\<close>

locale node_registry =
  fixes live_nodes :: "'s \<Rightarrow> int \<Rightarrow> (string \<times> string) list"
    and url_for :: "'s \<Rightarrow> int \<Rightarrow> string \<Rightarrow> string option"
    and reg_inv :: "'s \<Rightarrow> bool"
  assumes url_for_lookup: "reg_inv s \<Longrightarrow> url_for s now n = map_of (live_nodes s now) n"
begin

lemma url_for_live: "reg_inv s \<Longrightarrow> url_for s now n = Some u \<Longrightarrow> (n, u) \<in> set (live_nodes s now)"
  using url_for_lookup map_of_SomeD by metis

lemma url_for_absent: "reg_inv s \<Longrightarrow> url_for s now n = None \<longleftrightarrow> n \<notin> fst ` set (live_nodes s now)"
  by (simp add: url_for_lookup map_of_eq_None_iff)

end

section \<open>Heartbeats in memory and in Postgres\<close>

type_synonym node_rows = "(string \<times> string \<times> int) list"

definition reg_cutoff :: "nat \<Rightarrow> int \<Rightarrow> int" where
  "reg_cutoff ttl now = i64_wrap (now - ttl_millis ttl)"

definition mem_live_nodes :: "nat \<Rightarrow> node_rows \<Rightarrow> int \<Rightarrow> (string \<times> string) list" where
  "mem_live_nodes ttl rows now =
     map (\<lambda>(n, url, seen). (n, url)) (filter (\<lambda>(n, url, seen). seen > reg_cutoff ttl now) rows)"

definition mem_url_for :: "nat \<Rightarrow> node_rows \<Rightarrow> int \<Rightarrow> string \<Rightarrow> string option" where
  "mem_url_for ttl rows now n =
     (case map_of rows n of
        Some (url, seen) \<Rightarrow> if seen > reg_cutoff ttl now then Some url else None
      | None \<Rightarrow> None)"

definition heartbeat :: "node_rows \<Rightarrow> int \<Rightarrow> string \<Rightarrow> string \<Rightarrow> node_rows" where
  "heartbeat rows now n url = AList.update n (url, now) rows"

text \<open>The statements of the Postgres registry.\<close>

definition pg_live_nodes :: "nat \<Rightarrow> node_rows \<Rightarrow> int \<Rightarrow> (string \<times> string) list" where
  "pg_live_nodes ttl rows now =
     map (\<lambda>row. (fst row, fst (snd row))) (filter (\<lambda>row. snd (snd row) > reg_cutoff ttl now) rows)"

definition pg_url_for :: "nat \<Rightarrow> node_rows \<Rightarrow> int \<Rightarrow> string \<Rightarrow> string option" where
  "pg_url_for ttl rows now n =
     (case filter (\<lambda>row. fst row = n \<and> snd (snd row) > reg_cutoff ttl now) rows of
        [] \<Rightarrow> None
      | row # _ \<Rightarrow> Some (fst (snd row)))"

definition pg_heartbeat :: "node_rows \<Rightarrow> int \<Rightarrow> string \<Rightarrow> string \<Rightarrow> node_rows" where
  "pg_heartbeat rows now n url =
     (if n \<in> set (map fst rows) then map (\<lambda>row. if fst row = n then (n, url, now) else row) rows
      else rows @ [(n, url, now)])"

definition one_row :: "node_rows \<Rightarrow> bool" where
  "one_row rows = distinct (map fst rows)"

lemma heartbeat_one_row: "one_row rows \<Longrightarrow> one_row (heartbeat rows now n url)"
  by (simp add: one_row_def heartbeat_def distinct_update)

lemma pg_heartbeat_one_row:
  assumes "one_row rows"
  shows "one_row (pg_heartbeat rows now n url)"
proof -
  have "map fst (map (\<lambda>row. if fst row = n then (n, url, now) else row) rows) = map fst rows"
    by (induction rows) auto
  then show ?thesis
    using assms unfolding one_row_def pg_heartbeat_def by (cases "n \<in> set (map fst rows)") (simp_all only: if_True if_False map_append distinct_append, simp)
qed

lemma heartbeat_lookup: "map_of (heartbeat rows now n url) = (map_of rows)(n \<mapsto> (url, now))"
  by (simp add: heartbeat_def update_conv')

lemma pg_heartbeat_lookup: "map_of (pg_heartbeat rows now n url) k = ((map_of rows)(n \<mapsto> (url, now))) k"
proof (cases "n \<in> set (map fst rows)")
  case True
  have "map_of (map (\<lambda>row. if fst row = n then (n, url, now) else row) rows) k
      = (if k = n then map_option (\<lambda>_. (url, now)) (map_of rows n) else map_of rows k)"
    by (induction rows) auto
  moreover obtain v where "map_of rows n = Some v" using True by (auto dest: weak_map_of_SomeI)
  ultimately show ?thesis using True by (simp add: pg_heartbeat_def)
next
  case False
  then have "map_of rows n = None" by (simp add: map_of_eq_None_iff)
  then show ?thesis using False by (simp add: pg_heartbeat_def map_add_def split: option.split)
qed

interpretation mem_registry: node_registry "mem_live_nodes ttl" "mem_url_for ttl" one_row for ttl
proof
  fix s :: node_rows and now n
  assume "one_row s"
  then show "mem_url_for ttl s now n = map_of (mem_live_nodes ttl s now) n"
    by (induction s) (auto simp: one_row_def mem_url_for_def mem_live_nodes_def map_of_eq_None_iff
        image_iff split: option.splits)
qed

interpretation pg_registry: node_registry "pg_live_nodes ttl" "pg_url_for ttl" one_row for ttl
proof
  fix s :: node_rows and now n
  assume "one_row s"
  then show "pg_url_for ttl s now n = map_of (pg_live_nodes ttl s now) n"
  proof (induction s)
    case (Cons row s)
    have "n \<notin> set (map fst s)" if "fst row = n" using Cons.prems that by (simp add: one_row_def)
    moreover have "filter (\<lambda>r. fst r = n \<and> snd (snd r) > reg_cutoff ttl now) s = []" if "n \<notin> set (map fst s)"
      using that by (induction s) auto
    ultimately have "filter (\<lambda>r. fst r = n \<and> snd (snd r) > reg_cutoff ttl now) s = [] \<and> n \<notin> set (map fst s)"
      if "fst row = n" using that by blast
    then show ?case
      using Cons by (cases "fst row = n") (auto simp: one_row_def pg_url_for_def pg_live_nodes_def map_of_eq_None_iff image_iff)
  qed (simp add: pg_url_for_def pg_live_nodes_def)
qed

section \<open>Endpoints of a service\<close>

record endpoint =
  ep_addresses :: "string list"
  ep_conditions :: "bool option option"
  ep_hostname :: "string option"
  ep_target_ref :: "string option option"

type_synonym endpoint_slice = "endpoint list"

definition endpoint_url :: "string \<Rightarrow> u16 \<Rightarrow> string" where
  "endpoint_url addr port = ''http://'' @ addr @ '':'' @ show_nat (unat port)"

definition endpoint_ready :: "endpoint \<Rightarrow> bool" where
  "endpoint_ready ep = (case Option.bind (ep_conditions ep) id of Some b \<Rightarrow> b | None \<Rightarrow> True)"

definition endpoint_node_id :: "endpoint \<Rightarrow> string option" where
  "endpoint_node_id ep =
     (case Option.bind (ep_target_ref ep) id of Some n \<Rightarrow> Some n | None \<Rightarrow> ep_hostname ep)"

definition endpoint_to_node :: "u16 \<Rightarrow> endpoint \<Rightarrow> (string \<times> string) list" where
  "endpoint_to_node port ep =
     (if \<not> endpoint_ready ep then []
      else case endpoint_node_id ep of
        None \<Rightarrow> []
      | Some n \<Rightarrow>
          (case ep_addresses ep of
             [] \<Rightarrow> []
           | addr # _ \<Rightarrow> [(n, endpoint_url addr port)]))"

definition endpoints_to_nodes :: "endpoint_slice list \<Rightarrow> u16 \<Rightarrow> (string \<times> string) list" where
  "endpoints_to_nodes slices port = concat (map (\<lambda>slice. concat (map (endpoint_to_node port) slice)) slices)"

definition k8s_live_nodes :: "u16 \<Rightarrow> endpoint_slice list \<Rightarrow> int \<Rightarrow> (string \<times> string) list" where
  "k8s_live_nodes port slices now = endpoints_to_nodes slices port"

definition k8s_url_for :: "u16 \<Rightarrow> endpoint_slice list \<Rightarrow> int \<Rightarrow> string \<Rightarrow> string option" where
  "k8s_url_for port slices now n =
     map_option snd (find (\<lambda>(m, url). m = n) (k8s_live_nodes port slices now))"

lemma find_fst: "map_option snd (find (\<lambda>(m, url). m = n) xs) = map_of xs n"
  by (induction xs) auto

interpretation k8s_registry: node_registry "k8s_live_nodes port" "k8s_url_for port" "\<lambda>_. True" for port
  by unfold_locales (simp add: k8s_url_for_def find_fst)

section \<open>The address of the writer\<close>

text \<open>\<open>url_for\<close> is the installed registry, if any; \<open>writer_here\<close> is \<open>is_writer\<close> of this node.\<close>

definition active_writer_url ::
  "'s lease_provider_ops \<Rightarrow> (string \<Rightarrow> string option) option \<Rightarrow> string \<Rightarrow> bool \<Rightarrow> int \<Rightarrow> 's \<Rightarrow> string option" where
  "active_writer_url ops url_for node writer_here now s =
     (case url_for of
        None \<Rightarrow> None
      | Some lookup \<Rightarrow>
          (case current_lease ops now s of
             None \<Rightarrow> None
           | Some l \<Rightarrow>
               if l_holder l = node then (if writer_here then lookup (l_holder l) else None)
               else lookup (l_holder l)))"

end
