(* ===== verification/Ha_Properties.thy ===== *)
theory Ha_Properties
  imports Ha_Registry
begin

text \<open>
  The properties of writer election, each for the in-memory, the Postgres and the Kubernetes lease
  store, with instances on a cluster of two nodes.
\<close>

section \<open>Uninterrupted operations are runs\<close>

lemma run_trans:
  assumes "ha_run ops cfg skew serial y z" "ha_run ops cfg skew serial x y"
  shows "ha_run ops cfg skew serial x z"
  using assms by (induction rule: ha_run.induct) (auto intro: ha_run.intros)

lemma run_step: "ha_step ops cfg skew serial x y \<Longrightarrow> ha_run ops cfg skew serial x y"
  using ha_run.intros by metis

lemma run_promote:
  assumes "starts serial n y" "sys_tasks y n = []"
    and "promote ops cfg n (sys_clock y n) (sys_ctrl y n) (sys_store y) = (Inr l, st, s)"
  shows "ha_run ops cfg skew serial y (set_ctrl n st (y\<lparr> sys_store := s \<rparr>))"
proof -
  obtain r where r: "p_try_acquire ops (sys_store y) n (cf_ttl cfg) (sys_clock y n) = Inr (r, s)"
    "snd (promote_done (Inr r) (sys_ctrl y n)) = st"
    using assms(3) by (auto simp: promote_def answer_def split: sum.splits prod.splits)
  let ?y1 = "set_tasks n [Acquiring (sys_clock y n)] y"
  let ?y2 = "set_tasks n [Acquired r] (?y1\<lparr> sys_store := s \<rparr>)"
  have "ha_step ops cfg skew serial y ?y1" using ha_step.promote_start [OF assms(1)] assms(2) by simp
  moreover have "ha_step ops cfg skew serial ?y1 ?y2"
    using ha_step.acquire [of ?y1 n "[]" "sys_clock y n" "[]"] r by (simp add: sys_simps)
  moreover have "ha_step ops cfg skew serial ?y2 (set_ctrl n st (y\<lparr> sys_store := s \<rparr>))"
  proof -
    have "set_tasks n [] (set_ctrl n st ?y2) = set_ctrl n st (y\<lparr> sys_store := s \<rparr>)"
      using assms(2) by (simp add: sys_simps fun_upd_idem)
    then show ?thesis using ha_step.promote_end [of ?y2 n "[]" r "[]"] r(2) by (simp add: sys_simps)
  qed
  ultimately show ?thesis by (meson ha_run.intros)
qed

section \<open>Two nodes\<close>

definition demo_cfg :: ha_config where
  "demo_cfg = \<lparr> cf_ttl = 10000, cf_safety_margin = 3000 \<rparr>"

definition demo_lease :: "string \<Rightarrow> u64 \<Rightarrow> lease" where
  "demo_lease n e = \<lparr> l_holder = n, l_epoch = e, l_expires_at_millis = 11000 \<rparr>"

definition demo_ctrl :: "u64 \<Rightarrow> ctrl_state" where
  "demo_ctrl e = \<lparr> c_role = Active, c_epoch = Some e, c_expires_at_millis = 11000 \<rparr>"

definition demo_new :: "inner ha_system" where
  "demo_new = system_new local_new (\<lambda>_. 1000) 1000"

text \<open>Node \<open>a\<close> holds the lease; node \<open>a\<close> has released it in the store; both nodes are active.\<close>

definition demo_held :: "inner ha_system" where
  "demo_held = set_ctrl ''a'' (demo_ctrl 1)
     (demo_new\<lparr> sys_store := \<lparr> i_lease = Some (demo_lease ''a'' 1), i_last_epoch = 1 \<rparr> \<rparr>)"

definition demo_taken :: "inner ha_system \<Rightarrow> inner ha_system" where
  "demo_taken y = set_ctrl ''b'' (demo_ctrl 2)
     (y\<lparr> sys_store := \<lparr> i_lease = Some (demo_lease ''b'' 2), i_last_epoch = 2 \<rparr> \<rparr>)"

definition demo_stepping_down :: "inner ha_system" where
  "demo_stepping_down = set_tasks ''a'' [Released]
     (demo_held\<lparr> sys_store := \<lparr> i_lease = None, i_last_epoch = 1 \<rparr> \<rparr>)"

definition demo_revived :: "inner ha_system" where
  "demo_revived = demo_held\<lparr> sys_store := \<lparr> i_lease = None, i_last_epoch = 1 \<rparr> \<rparr>"

lemmas demo_defs = demo_cfg_def demo_lease_def demo_ctrl_def demo_new_def system_new_def local_new_def
  demo_held_def demo_taken_def demo_stepping_down_def demo_revived_def controller_new_def starts_def
  promote_def answer_def local_ops_def local_try_acquire_def local_renew_def local_release_def
  ttl_millis_def set_active_def set_passive_def stored_active_epoch_def sys_simps Let_def

lemma demo_held_run: "ha_run local_ops demo_cfg 0 serial demo_new demo_held"
proof -
  have "ha_run local_ops demo_cfg 0 serial demo_new (set_ctrl ''a'' (demo_ctrl 1)
     (demo_new\<lparr> sys_store := \<lparr> i_lease = Some (demo_lease ''a'' 1), i_last_epoch = 1 \<rparr> \<rparr>))"
    by (rule run_promote [where l = "demo_lease ''a'' 1"]) (simp_all add: demo_defs)
  then show ?thesis by (simp add: demo_held_def)
qed

lemma demo_taken_run:
  assumes "sys_store y = \<lparr> i_lease = None, i_last_epoch = 1 \<rparr>" "sys_tasks y ''b'' = []"
    and "sys_ctrl y ''b'' = controller_new" "sys_clock y ''b'' = 1000"
  shows "ha_run local_ops demo_cfg 0 serial y (demo_taken y)"
  unfolding demo_taken_def
  by (rule run_promote [where l = "demo_lease ''b'' 2"]) (use assms in \<open>simp_all add: demo_defs\<close>)

lemma demo_stepping_down_run: "ha_run local_ops demo_cfg 0 serial demo_held demo_stepping_down"
proof -
  let ?y = "set_tasks ''a'' [Releasing 1] demo_held"
  have "ha_step local_ops demo_cfg 0 serial demo_held ?y"
    using ha_step.demote_start [of serial "''a''" demo_held 1] by (simp add: demo_defs)
  moreover have "ha_step local_ops demo_cfg 0 serial ?y demo_stepping_down"
    using ha_step.release [of ?y "''a''" "[]" 1 "[]" local_ops "\<lparr> i_lease = None, i_last_epoch = 1 \<rparr>"]
    by (simp add: demo_defs)
  ultimately show ?thesis by (meson ha_run.intros)
qed

text \<open>A renewal is in flight while the node steps down.\<close>

lemma demo_revived_run: "ha_run local_ops demo_cfg 0 False demo_held demo_revived"
proof -
  let ?l = "demo_lease ''a'' 1" and ?none = "\<lparr> i_lease = None, i_last_epoch = (1 :: u64) \<rparr>"
  let ?y1 = "set_tasks ''a'' [Renewing 1 1000] demo_held"
  let ?y2 = "set_tasks ''a'' [Releasing 1, Renewing 1 1000] demo_held"
  let ?y3 = "set_tasks ''a'' [Releasing 1, Renewed (Some ?l)] demo_held"
  let ?y4 = "set_tasks ''a'' [Released, Renewed (Some ?l)] demo_revived"
  let ?y5 = "set_tasks ''a'' [Renewed (Some ?l)] (set_ctrl ''a'' controller_new demo_revived)"
  have "ha_step local_ops demo_cfg 0 False demo_held ?y1"
    using ha_step.renew_start [of False "''a''" demo_held 1] by (simp add: demo_defs)
  moreover have "ha_step local_ops demo_cfg 0 False ?y1 ?y2"
    using ha_step.demote_start [of False "''a''" ?y1 1] by (simp add: demo_defs)
  moreover have "ha_step local_ops demo_cfg 0 False ?y2 ?y3"
    using ha_step.renew [of ?y2 "''a''" "[Releasing 1]" 1 1000 "[]" local_ops demo_cfg "Some ?l" "sys_store ?y2"]
    by (simp add: demo_defs)
  moreover have "ha_step local_ops demo_cfg 0 False ?y3 ?y4"
    using ha_step.release [of ?y3 "''a''" "[]" 1 "[Renewed (Some ?l)]" local_ops ?none]
    by (simp add: demo_defs)
  moreover have "ha_step local_ops demo_cfg 0 False ?y4 ?y5"
    using ha_step.demote_end [of ?y4 "''a''" "[]" "[Renewed (Some ?l)]"] by (simp add: demo_defs)
  moreover have "ha_step local_ops demo_cfg 0 False ?y5 demo_revived"
    using ha_step.renew_end [of ?y5 "''a''" "[]" "Some ?l" "[]"] by (simp add: demo_defs fun_upd_idem)
  ultimately show ?thesis by (meson ha_run.intros)
qed


lemma demo_writers:
  "writer demo_cfg (demo_taken demo_stepping_down) ''a''" "writer demo_cfg (demo_taken demo_stepping_down) ''b''"
  "writer demo_cfg (demo_taken demo_revived) ''a''" "writer demo_cfg (demo_taken demo_revived) ''b''"
  by (simp_all add: writer_def is_active_def demo_defs)

lemma demo_overlap_run: "ha_run local_ops demo_cfg 0 serial demo_new (demo_taken demo_stepping_down)"
proof -
  have "ha_run local_ops demo_cfg 0 serial demo_stepping_down (demo_taken demo_stepping_down)"
    by (rule demo_taken_run) (simp_all add: demo_defs)
  then show ?thesis using demo_stepping_down_run demo_held_run by (meson run_trans)
qed

lemma demo_split_run: "ha_run local_ops demo_cfg 0 False demo_new (demo_taken demo_revived)"
proof -
  have "ha_run local_ops demo_cfg 0 False demo_revived (demo_taken demo_revived)"
    by (rule demo_taken_run) (simp_all add: demo_defs)
  then show ?thesis using demo_revived_run demo_held_run by (meson run_trans)
qed

section \<open>At most one writer\<close>



text \<open>The two ways in which the gate fails. Stepping down releases the lease before it closes the
  node's own gate, so in the time between another node can take the lease and both pass the gate,
  even when every node runs one operation at a time. When a renewal is in flight while the node steps
  down, its answer reopens the gate after the step-down: both nodes are then active with no operation
  in flight. Both happen with equal clocks and the in-memory store.
\<close>
theorem step_down_overlaps:
  "(\<exists>y. ha_run local_ops demo_cfg 0 True demo_new y \<and> writer demo_cfg y ''a'' \<and> writer demo_cfg y ''b'')
   \<and> (\<exists>y. ha_run local_ops demo_cfg 0 False demo_new y \<and> writer demo_cfg y ''a'' \<and> writer demo_cfg y ''b''
        \<and> sys_tasks y ''a'' = [] \<and> sys_tasks y ''b'' = [])"
proof -
  have "sys_tasks (demo_taken demo_revived) ''a'' = []" "sys_tasks (demo_taken demo_revived) ''b'' = []"
    by (simp_all add: demo_defs)
  then show ?thesis
    using demo_overlap_run [of True] demo_split_run demo_writers by blast
qed

section \<open>Fencing tokens\<close>

text \<open>A grant carries the newest token; the token is the old one when the holder still held the lease
  and a greater one after a change of hands; renewal and release keep it.\<close>

definition fenced :: "'s lease_provider_ops \<Rightarrow> ('s \<Rightarrow> bool) \<Rightarrow> ('s \<Rightarrow> u64) \<Rightarrow> bool" where
  "fenced ops sinv issued \<longleftrightarrow>
     (\<forall>s h. sinv s \<longrightarrow> h \<noteq> [] \<longrightarrow> issued s \<noteq> - 1 \<longrightarrow>
       (\<forall>ttl now l s'. p_try_acquire ops s h ttl now = Inr (Some l, s') \<longrightarrow>
          sinv s' \<and> issued s' = l_epoch l \<and>
          (if p_current ops s now = None then issued s < l_epoch l else issued s = l_epoch l)) \<and>
       (\<forall>e ttl now r s'. p_renew ops s h e ttl now = Inr (r, s') \<longrightarrow> sinv s' \<and> issued s' = issued s) \<and>
       (\<forall>e s'. p_release ops s h e = Inr s' \<longrightarrow> sinv s' \<and> issued s' = issued s))"

context lease_provider
begin

lemma is_fenced: "fenced ops store_inv issued"
  unfolding fenced_def
proof (intro allI impI conjI)
  fix s h ttl now l s'
  assume a: "store_inv s" "h \<noteq> []" "issued s \<noteq> - 1" "p_try_acquire ops s h ttl now = Inr (Some l, s')"
  show "store_inv s'" "issued s' = l_epoch l"
    "if p_current ops s now = None then issued s < l_epoch l else issued s = l_epoch l"
    using acquire_granted [OF a(1,2,4)] acquire_epoch [OF a] word_less_succ [OF a(3)] by auto
next
  fix s h e ttl now r s'
  assume a: "store_inv s" "h \<noteq> []" "issued s \<noteq> - 1" "p_renew ops s h e ttl now = Inr (r, s')"
  show "store_inv s'" "issued s' = issued s"
  proof -
    have "store_inv s' \<and> issued s' = issued s"
    proof (cases r)
      case None
      then show ?thesis using renew_lost [OF a(1,2)] a(1,4) by blast
    next
      case (Some l)
      then show ?thesis using renew_granted [OF a(1,2)] a(4) by blast
    qed
    then show "store_inv s'" "issued s' = issued s" by auto
  qed
next
  fix s h e s'
  assume a: "store_inv s" "h \<noteq> []" "issued s \<noteq> - 1" "p_release ops s h e = Inr s'"
  show "store_inv s'" "issued s' = issued s" using released [OF a(1,2,4)] by auto
qed

end

text \<open>C25. The epoch is a fencing token in each of the three stores: as long as the 64-bit counter is not
  exhausted, an acquisition after a release or an expiry gets a token greater than every token issued
  before, a holder keeps its token while its lease is live, and no operation makes the counter go
  back, the release of a lease included.
\<close>
theorem fencing_tokens_advance:
  "fenced local_ops local_inv i_last_epoch \<and> fenced pg_ops pg_inv pg_issued
   \<and> fenced (k8s_ops ns nm) k8s_inv k8s_issued"
  using local.is_fenced pg.is_fenced k8s.is_fenced by blast

section \<open>The Kubernetes loops\<close>

text \<open>C26. Under the optimistic concurrency of the API server, an acquire, renew or release that returns
  normally from its retry loop is one transition of the stored object: with a grant, the newest two
  values in the object's history are the transition of the store that the loop computed, although
  other clients wrote in between; with a denial, the newest value denies. A loop that meets eight
  conflicts returns an error.
\<close>
theorem k8s_loops_atomic:
  assumes "optimistic_api api hist"
  shows "(k8s_try_acquire api ns nm h ttl now w = (Inr r, w1) \<longrightarrow>
            history_outcome (\<lambda>s. p_try_acquire (k8s_ops ns nm) s h ttl now) (hist w) (hist w1) r)
       \<and> (k8s_renew api h e ttl now w = (Inr r, w2) \<longrightarrow>
            history_outcome (\<lambda>s. p_renew (k8s_ops ns nm) s h e ttl now) (hist w) (hist w2) r)
       \<and> (k8s_release api h e w = (Inr (), w3) \<longrightarrow>
            history_step (hist w) (hist w3) (\<lambda>cur obj. attempt_release cur h e = Some obj)
            \<or> attempt_release (last (hist w3)) h e = None)"
  unfolding k8s_try_acquire_def k8s_renew_def k8s_release_def
  by (intro conjI impI) (erule acquire_loop_atomic [OF assms] renew_loop_atomic [OF assms] release_loop_atomic [OF assms])+

text \<open>A server with one client: the objects written so far, versioned by their position.\<close>

definition version_object :: "nat \<Rightarrow> k8s_lease \<Rightarrow> k8s_lease" where
  "version_object i obj = obj\<lparr> k_resource_version := Some (show_nat i) \<rparr>"

definition server_history :: "k8s_lease list \<Rightarrow> k8s_lease option list" where
  "server_history w = None # map (\<lambda>i. Some (version_object i (w ! i))) [0 ..< length w]"

definition server_api :: "k8s_lease list kube_api" where
  "server_api = \<lparr>
     k_get = (\<lambda>w. (case last (server_history w) of Some obj \<Rightarrow> Inr obj | None \<Rightarrow> Inl (Api 404 ''NotFound''), w)),
     k_create = (\<lambda>w obj. case last (server_history w) of
        None \<Rightarrow> (Inr obj, w @ [obj]) | Some _ \<Rightarrow> (Inl (Api 409 ''AlreadyExists''), w)),
     k_replace = (\<lambda>w obj. case last (server_history w) of
        None \<Rightarrow> (Inl (Api 404 ''NotFound''), w)
      | Some cur \<Rightarrow> if k_resource_version cur = k_resource_version obj then (Inr obj, w @ [obj])
                    else (Inl (Api 409 ''Conflict''), w)) \<rparr>"

lemma server_history_snoc: "server_history (w @ [obj]) = server_history w @ [Some (version_object (length w) obj)]"
  by (simp add: server_history_def nth_append cong: map_cong)

lemma show_nat_inject: "show_nat i = show_nat j \<Longrightarrow> i = j"
  using parse_show_nat by (metis option.inject)

lemma server_optimistic: "optimistic_api server_api server_history"
proof -
  have snoc: "server_history (w @ [obj]) = server_history w @ [Some (obj\<lparr> k_resource_version := Some (show_nat (length w)) \<rparr>)]"
    for w obj by (simp add: server_history_snoc version_object_def)
  have "a = b" if a: "Some a \<in> set (server_history w)" "Some b \<in> set (server_history w)"
    "k_resource_version a = k_resource_version b" for w a b
  proof -
    obtain i j where "a = version_object i (w ! i)" "b = version_object j (w ! j)"
      using a(1,2) by (auto simp: server_history_def)
    then show ?thesis using a(3) show_nat_inject [of i j] by (auto simp: version_object_def)
  qed
  moreover have "server_history w \<noteq> []" for w by (simp add: server_history_def)
  ultimately show ?thesis
    unfolding optimistic_api_def
    by (intro conjI allI impI) (fastforce simp: server_api_def snoc split: option.splits if_splits)+
qed

theorem k8s_loops_atomic_witness:
  "history_outcome (\<lambda>s. p_try_acquire (k8s_ops ''ns'' ''l'') s ''a'' 10000 1000)
     [None] (server_history [new_lease_object ''ns'' ''l'' ''a'' 10000 1000])
     (lease_to_grant (new_lease_object ''ns'' ''l'' ''a'' 10000 1000))"
proof -
  let ?obj = "new_lease_object ''ns'' ''l'' ''a'' 10000 1000"
  obtain g where g: "lease_to_grant ?obj = Some g"
    using new_object_granted [of "''ns''" "''l''" "''a''" 10000 1000] by (auto simp: attempt_acquire_def Let_def)
  have "k8s_try_acquire server_api ''ns'' ''l'' ''a'' 10000 1000 [] = (Inr (lease_to_grant ?obj), [?obj])"
    using g by (simp add: k8s_try_acquire_def MAX_UPDATE_ATTEMPTS_def eval_nat_numeral get_lease_def
        server_api_def server_history_def)
  then show ?thesis
    using k8s_loops_atomic [OF server_optimistic, of "''ns''" "''l''" "''a''" 10000 1000 "[]"
        "lease_to_grant ?obj" "[?obj]"]
    by (simp add: server_history_def [of "[]"])
qed

end
