(* ===== verification/Rest_Model.thy ===== *)
theory Rest_Model
  imports Text
begin

text \<open>
  The REST query language, \<open>bluedb-rest/src\<close>: the typed request model with its rendering rules
  (\<open>model.rs\<close>), the query-string parser (\<open>parse.rs\<close>) and the statements (\<open>render.rs\<close>). Rendering
  threads the list of bound parameters; an error is a value of \<open>rest_error\<close>. The conversion of text
  to a double is the parameter \<open>pf\<close> of the definitions that bind values.
\<close>

section \<open>Errors and parameters\<close>

datatype rest_error =
    InvalidIdentifier string
  | UnknownOperator string
  | MalformedValue string string
  | MalformedParam string
  | UnfilteredMutation string
  | BadColumnSet string

datatype 'f param = PNull | PBool bool | PInt int | PFloat 'f | PStr string

type_synonym 'f text_to_f64 = "string \<Rightarrow> 'f option"

definition render_param :: "'f text_to_f64 \<Rightarrow> string \<Rightarrow> 'f param" where
  "render_param pf v =
     (let lower = to_ascii_lowercase v in
      if lower = ''null'' then PNull
      else if lower = ''true'' then PBool True
      else if lower = ''false'' then PBool False
      else case parse_i64 v of
        Some i \<Rightarrow> PInt i
      | None \<Rightarrow> (case pf v of Some f \<Rightarrow> PFloat f | None \<Rightarrow> PStr v))"

definition bind_param :: "'f text_to_f64 \<Rightarrow> string \<Rightarrow> 'f param list \<Rightarrow> string \<times> 'f param list" where
  "bind_param pf v params = (CHR ''$'' # show_nat (length params + 1), params @ [render_param pf v])"

section \<open>Operators\<close>

datatype operator = OpEq | OpNeq | OpGt | OpGte | OpLt | OpLte | OpLike | OpIlike | OpIn | OpIs

definition operator_parse :: "string \<Rightarrow> rest_error + operator" where
  "operator_parse token =
     (if token = ''eq'' then Inr OpEq
      else if token = ''neq'' then Inr OpNeq
      else if token = ''gt'' then Inr OpGt
      else if token = ''gte'' then Inr OpGte
      else if token = ''lt'' then Inr OpLt
      else if token = ''lte'' then Inr OpLte
      else if token = ''like'' then Inr OpLike
      else if token = ''ilike'' then Inr OpIlike
      else if token = ''in'' then Inr OpIn
      else if token = ''is'' then Inr OpIs
      else Inl (UnknownOperator token))"

fun operator_token :: "operator \<Rightarrow> string" where
  "operator_token OpEq = ''eq''"
| "operator_token OpNeq = ''neq''"
| "operator_token OpGt = ''gt''"
| "operator_token OpGte = ''gte''"
| "operator_token OpLt = ''lt''"
| "operator_token OpLte = ''lte''"
| "operator_token OpLike = ''like''"
| "operator_token OpIlike = ''ilike''"
| "operator_token OpIn = ''in''"
| "operator_token OpIs = ''is''"

section \<open>Requests\<close>

datatype direction = Asc | Desc

record order_key =
  ok_column :: string
  ok_direction :: direction

record rest_filter =
  rf_column :: string
  rf_op :: operator
  rf_negated :: bool
  rf_value :: string

record rest_query =
  rq_table :: string
  rq_select :: "string list"
  rq_filters :: "rest_filter list"
  rq_order :: "order_key list"
  rq_limit :: "u64 option"
  rq_offset :: "u64 option"

record insert_request =
  ir_table :: string
  ir_columns :: "string list"
  ir_rows :: "string list list"

record update_request =
  ur_table :: string
  ur_assignments :: "(string \<times> string) list"
  ur_filters :: "rest_filter list"

record delete_request =
  dr_table :: string
  dr_filters :: "rest_filter list"

definition rest_filter_new :: "string \<Rightarrow> operator \<Rightarrow> string \<Rightarrow> rest_filter" where
  "rest_filter_new column op v = \<lparr> rf_column = column, rf_op = op, rf_negated = False, rf_value = v \<rparr>"

section \<open>Identifiers\<close>

definition ident_ok :: "string \<Rightarrow> bool" where
  "ident_ok name \<longleftrightarrow>
     (case name of
        [] \<Rightarrow> False
      | c # cs \<Rightarrow> (is_ascii_alphabetic c \<or> c = CHR ''_'') \<and>
                  list_all (\<lambda>x. is_ascii_alphanumeric x \<or> x = CHR ''_'') cs)"

definition validate_ident :: "string \<Rightarrow> rest_error + string" where
  "validate_ident name = (if ident_ok name then Inr name else Inl (InvalidIdentifier name))"

definition is_json_path :: "string \<Rightarrow> bool" where
  "is_json_path col \<longleftrightarrow> split_once ''->'' col \<noteq> None"

definition json_accessor :: "string \<Rightarrow> string \<Rightarrow> string \<Rightarrow> rest_error + string" where
  "json_accessor f base key =
     and_then (validate_ident base) (\<lambda>b.
     and_then (validate_ident key) (\<lambda>k.
       Inr (f @ ''('' @ b @ '', '' @ [CHR 0x27] @ k @ [CHR 0x27] @ '')'')))"

definition render_column_ref :: "string \<Rightarrow> rest_error + string" where
  "render_column_ref col =
     (case split_once ''->>'' col of
        Some (base, key) \<Rightarrow> json_accessor ''json_get_str'' base key
      | None \<Rightarrow>
          (case split_once ''->'' col of
             Some (base, key) \<Rightarrow> json_accessor ''json_get'' base key
           | None \<Rightarrow> validate_ident col))"

definition has_json_path :: "rest_query \<Rightarrow> bool" where
  "has_json_path q \<longleftrightarrow>
     list_ex (\<lambda>f. is_json_path (rf_column f)) (rq_filters q) \<or>
     list_ex (\<lambda>k. is_json_path (ok_column k)) (rq_order q) \<or>
     list_ex is_json_path (rq_select q)"

section \<open>Predicates\<close>

fun bind_all :: "'f text_to_f64 \<Rightarrow> string list \<Rightarrow> 'f param list \<Rightarrow> string list \<times> 'f param list" where
  "bind_all pf [] params = ([], params)"
| "bind_all pf (v # vs) params =
     (let (p, params1) = bind_param pf v params; (ps, params2) = bind_all pf vs params1
      in (p # ps, params2))"

definition in_list_elems :: "string \<Rightarrow> string list" where
  "in_list_elems v =
     (let trimmed = trim v;
        body = (case Option.bind (strip_prefix ''('' trimmed) (strip_suffix '')'') of
          Some b \<Rightarrow> b | None \<Rightarrow> trimmed)
      in filter (\<lambda>s. s \<noteq> []) (map trim (split_char (CHR '','') body)))"

definition render_in_list_params ::
  "'f text_to_f64 \<Rightarrow> string \<Rightarrow> 'f param list \<Rightarrow> rest_error + string \<times> 'f param list" where
  "render_in_list_params pf v params =
     (let (placeholders, params') = bind_all pf (in_list_elems v) params in
      if placeholders = [] then Inl (MalformedValue ''in'' v)
      else Inr (join_str '', '' placeholders, params'))"

fun op_sql :: "operator \<Rightarrow> string" where
  "op_sql OpEq = '' = ''"
| "op_sql OpNeq = '' <> ''"
| "op_sql OpGt = '' > ''"
| "op_sql OpGte = '' >= ''"
| "op_sql OpLt = '' < ''"
| "op_sql OpLte = '' <= ''"
| "op_sql OpLike = '' LIKE ''"
| "op_sql OpIlike = '' ILIKE ''"
| "op_sql OpIn = '' IN ''"
| "op_sql OpIs = '' IS ''"

definition is_predicate :: "bool \<Rightarrow> string \<Rightarrow> rest_error + string" where
  "is_predicate negated v =
     (let l = to_ascii_lowercase v in
      if l = ''null'' then Inr (if negated then ''IS NOT NULL'' else ''IS NULL'')
      else if l = ''true'' then Inr (if negated then ''IS NOT TRUE'' else ''IS TRUE'')
      else if l = ''false'' then Inr (if negated then ''IS NOT FALSE'' else ''IS FALSE'')
      else Inl (MalformedValue ''is'' v))"

definition filter_to_sql ::
  "'f text_to_f64 \<Rightarrow> rest_filter \<Rightarrow> 'f param list \<Rightarrow> rest_error + string \<times> 'f param list" where
  "filter_to_sql pf f params =
     and_then (render_column_ref (rf_column f)) (\<lambda>col.
       if rf_op f = OpIs then
         and_then (is_predicate (rf_negated f) (rf_value f)) (\<lambda>p. Inr (col @ '' '' @ p, params))
       else
         and_then (if rf_op f = OpIn then
             and_then (render_in_list_params pf (rf_value f) params) (\<lambda>(list, params').
               Inr (col @ '' IN ('' @ list @ '')'', params'))
           else (let (p, params') = bind_param pf (rf_value f) params
                 in Inr (col @ op_sql (rf_op f) @ p, params')))
           (\<lambda>(inner, params'). Inr (if rf_negated f then ''NOT ('' @ inner @ '')'' else inner, params')))"

section \<open>Statements\<close>

fun render_all ::
  "('a \<Rightarrow> 'p list \<Rightarrow> rest_error + string \<times> 'p list) \<Rightarrow> 'a list \<Rightarrow> 'p list
   \<Rightarrow> rest_error + string list \<times> 'p list" where
  "render_all f [] params = Inr ([], params)"
| "render_all f (x # xs) params =
     and_then (f x params) (\<lambda>(s, params1).
     and_then (render_all f xs params1) (\<lambda>(ss, params2). Inr (s # ss, params2)))"

fun collect_results :: "('a \<Rightarrow> rest_error + 'b) \<Rightarrow> 'a list \<Rightarrow> rest_error + 'b list" where
  "collect_results f [] = Inr []"
| "collect_results f (x # xs) =
     and_then (f x) (\<lambda>y. and_then (collect_results f xs) (\<lambda>ys. Inr (y # ys)))"

definition render_where_params ::
  "'f text_to_f64 \<Rightarrow> rest_filter list \<Rightarrow> 'f param list \<Rightarrow> rest_error + string \<times> 'f param list" where
  "render_where_params pf filters params =
     (if filters = [] then Inr ([], params)
      else and_then (render_all (filter_to_sql pf) filters params) (\<lambda>(parts, params').
        Inr ('' WHERE '' @ join_str '' AND '' parts, params')))"

fun direction_sql :: "direction \<Rightarrow> string" where
  "direction_sql Asc = ''ASC''"
| "direction_sql Desc = ''DESC''"

definition render_order_key :: "order_key \<Rightarrow> rest_error + string" where
  "render_order_key k =
     and_then (render_column_ref (ok_column k)) (\<lambda>col. Inr (col @ '' '' @ direction_sql (ok_direction k)))"

definition opt_clause :: "string \<Rightarrow> u64 option \<Rightarrow> string" where
  "opt_clause kw v = (case v of Some n \<Rightarrow> kw @ show_u64 n | None \<Rightarrow> [])"

definition query_to_sql :: "'f text_to_f64 \<Rightarrow> rest_query \<Rightarrow> rest_error + string \<times> 'f param list" where
  "query_to_sql pf q =
     and_then (validate_ident (rq_table q)) (\<lambda>table.
     and_then (if rq_select q = [] then Inr ''*''
               else and_then (collect_results render_column_ref (rq_select q)) (\<lambda>cols. Inr (join_str '', '' cols)))
       (\<lambda>projection.
     and_then (render_where_params pf (rq_filters q) []) (\<lambda>(where_sql, params).
     and_then (if rq_order q = [] then Inr []
               else and_then (collect_results render_order_key (rq_order q)) (\<lambda>keys. Inr ('' ORDER BY '' @ join_str '', '' keys)))
       (\<lambda>order_sql.
     Inr (''SELECT '' @ projection @ '' FROM '' @ table @ where_sql @ order_sql
            @ opt_clause '' LIMIT '' (rq_limit q) @ opt_clause '' OFFSET '' (rq_offset q) @ '';'', params)))))"

definition query_to_count_sql :: "'f text_to_f64 \<Rightarrow> rest_query \<Rightarrow> rest_error + string \<times> 'f param list" where
  "query_to_count_sql pf q =
     and_then (validate_ident (rq_table q)) (\<lambda>table.
     and_then (render_where_params pf (rq_filters q) []) (\<lambda>(where_sql, params).
     Inr (''SELECT COUNT(*) FROM '' @ table @ where_sql @ '';'', params)))"

definition row_statement ::
  "'f text_to_f64 \<Rightarrow> string \<Rightarrow> string list \<Rightarrow> string list \<Rightarrow> 'f param list \<Rightarrow> rest_error + string \<times> 'f param list" where
  "row_statement pf table cols row params =
     (if length row \<noteq> length cols then
        Inl (BadColumnSet (''row has '' @ show_nat (length row) @ '' values but there are ''
          @ show_nat (length cols) @ '' columns''))
      else let (placeholders, params') = bind_all pf row params in
        Inr (''INSERT INTO '' @ table @ '' ('' @ join_str '', '' cols @ '') VALUES (''
          @ join_str '', '' placeholders @ '')'', params'))"

definition row_statements ::
  "'f text_to_f64 \<Rightarrow> insert_request \<Rightarrow> rest_error + string list \<times> 'f param list" where
  "row_statements pf r =
     and_then (validate_ident (ir_table r)) (\<lambda>table.
       if ir_columns r = [] then Inl (BadColumnSet ''INSERT has no columns'')
       else if ir_rows r = [] then Inl (BadColumnSet ''INSERT has no rows'')
       else and_then (collect_results validate_ident (ir_columns r)) (\<lambda>cols.
         render_all (row_statement pf table cols) (ir_rows r) []))"

definition assignment_to_sql ::
  "'f text_to_f64 \<Rightarrow> string \<times> string \<Rightarrow> 'f param list \<Rightarrow> rest_error + string \<times> 'f param list" where
  "assignment_to_sql pf a params =
     and_then (validate_ident (fst a)) (\<lambda>col.
       let (p, params') = bind_param pf (snd a) params in Inr (col @ '' = '' @ p, params'))"

definition update_to_sql :: "'f text_to_f64 \<Rightarrow> update_request \<Rightarrow> rest_error + string \<times> 'f param list" where
  "update_to_sql pf r =
     and_then (validate_ident (ur_table r)) (\<lambda>table.
       if ur_assignments r = [] then Inl (BadColumnSet ''UPDATE has no assignments'')
       else if ur_filters r = [] then Inl (UnfilteredMutation ''UPDATE'')
       else
         and_then (render_all (assignment_to_sql pf) (ur_assignments r) []) (\<lambda>(sets, params).
         and_then (render_where_params pf (ur_filters r) params) (\<lambda>(where_sql, params').
           Inr (''UPDATE '' @ table @ '' SET '' @ join_str '', '' sets @ where_sql @ '';'', params'))))"

definition delete_to_sql :: "'f text_to_f64 \<Rightarrow> delete_request \<Rightarrow> rest_error + string \<times> 'f param list" where
  "delete_to_sql pf r =
     and_then (validate_ident (dr_table r)) (\<lambda>table.
       if dr_filters r = [] then Inl (UnfilteredMutation ''DELETE'')
       else and_then (render_where_params pf (dr_filters r) []) (\<lambda>(where_sql, params).
         Inr (''DELETE FROM '' @ table @ where_sql @ '';'', params)))"

section \<open>Query strings\<close>

fun split_raw_pairs :: "string list \<Rightarrow> rest_error + (string \<times> string) list" where
  "split_raw_pairs [] = Inr []"
| "split_raw_pairs (raw # rest) =
     (if raw = [] then split_raw_pairs rest
      else case split_once ''='' raw of
        None \<Rightarrow> Inl (MalformedParam raw)
      | Some kv \<Rightarrow> and_then (split_raw_pairs rest) (\<lambda>kvs. Inr (kv # kvs)))"

definition split_pairs :: "string \<Rightarrow> rest_error + (string \<times> string) list" where
  "split_pairs query = split_raw_pairs (split_char (CHR ''&'') query)"

definition parse_rest_filter :: "string \<Rightarrow> string \<Rightarrow> rest_error + rest_filter" where
  "parse_rest_filter column v =
     (let (negated, rest) = (case strip_prefix ''not.'' v of Some r \<Rightarrow> (True, r) | None \<Rightarrow> (False, v)) in
      case split_once ''.'' rest of
        None \<Rightarrow> Inl (MalformedValue rest v)
      | Some (token, operand) \<Rightarrow>
          and_then (operator_parse token) (\<lambda>op.
            Inr \<lparr> rf_column = column, rf_op = op, rf_negated = negated, rf_value = operand \<rparr>))"

definition reserved :: "string \<Rightarrow> bool" where
  "reserved k \<longleftrightarrow> k = ''select'' \<or> k = ''order'' \<or> k = ''limit'' \<or> k = ''offset''"

definition parse_filters :: "string \<Rightarrow> rest_error + rest_filter list" where
  "parse_filters query =
     and_then (split_pairs query) (\<lambda>kvs.
       collect_results (\<lambda>(k, v). parse_rest_filter k v) (filter (\<lambda>(k, v). \<not> reserved k) kvs))"

definition parse_order_part :: "string \<Rightarrow> order_key" where
  "parse_order_part part =
     (case rsplit_once ''.'' part of
        Some (col, dir) \<Rightarrow>
          if dir = ''asc'' then \<lparr> ok_column = col, ok_direction = Asc \<rparr>
          else if dir = ''desc'' then \<lparr> ok_column = col, ok_direction = Desc \<rparr>
          else \<lparr> ok_column = part, ok_direction = Asc \<rparr>
      | None \<Rightarrow> \<lparr> ok_column = part, ok_direction = Asc \<rparr>)"

definition nonempty_parts :: "string \<Rightarrow> string list" where
  "nonempty_parts v = filter (\<lambda>s. s \<noteq> []) (map trim (split_char (CHR '','') v))"

definition parse_order :: "string \<Rightarrow> order_key list" where
  "parse_order v = map parse_order_part (nonempty_parts v)"

definition parse_count :: "string \<Rightarrow> string \<Rightarrow> rest_error + u64" where
  "parse_count key v = ok_or (MalformedParam (key @ ''='' @ v)) (parse_u64 v)"

definition parse_pair :: "string \<times> string \<Rightarrow> rest_query \<Rightarrow> rest_error + rest_query" where
  "parse_pair kv q =
     (let (key, v) = kv in
      if key = ''select'' then Inr (q\<lparr> rq_select := nonempty_parts v \<rparr>)
      else if key = ''order'' then Inr (q\<lparr> rq_order := parse_order v \<rparr>)
      else if key = ''limit'' then and_then (parse_count key v) (\<lambda>n. Inr (q\<lparr> rq_limit := Some n \<rparr>))
      else if key = ''offset'' then and_then (parse_count key v) (\<lambda>n. Inr (q\<lparr> rq_offset := Some n \<rparr>))
      else and_then (parse_rest_filter key v) (\<lambda>f. Inr (q\<lparr> rq_filters := rq_filters q @ [f] \<rparr>)))"

fun parse_pairs :: "(string \<times> string) list \<Rightarrow> rest_query \<Rightarrow> rest_error + rest_query" where
  "parse_pairs [] q = Inr q"
| "parse_pairs (kv # kvs) q = and_then (parse_pair kv q) (parse_pairs kvs)"

definition parse_query :: "string \<Rightarrow> string \<Rightarrow> rest_error + rest_query" where
  "parse_query table query =
     and_then (split_pairs query) (\<lambda>kvs.
       parse_pairs kvs \<lparr> rq_table = table, rq_select = [], rq_filters = [], rq_order = [],
         rq_limit = None, rq_offset = None \<rparr>)"

end
