(* ===== verification/Rest_Properties.thy ===== *)
theory Rest_Properties
  imports Rest_Model
begin

text \<open>
  What the rendering guarantees: the text of a statement is a function of the shape of the request
  (names, operators, numbers of values) and never of a value, its characters are those of
  identifiers and of the fixed tokens, and the bound parameters are the values in the order of the
  placeholders. The parser inverts the printer of query strings.
\<close>

section \<open>Normal form\<close>

text \<open>The values of a predicate, and its text as a function of the number of parameters before it.\<close>

definition filter_values :: "rest_filter \<Rightarrow> string list" where
  "filter_values f =
     (if rf_op f = OpIs then [] else if rf_op f = OpIn then in_list_elems (rf_value f) else [rf_value f])"

definition placeholder :: "nat \<Rightarrow> string" where
  "placeholder i = CHR ''$'' # show_nat (i + 1)"

definition inner_text :: "rest_filter \<Rightarrow> string \<Rightarrow> nat \<Rightarrow> string" where
  "inner_text f col n =
     (if rf_op f = OpIn
      then col @ '' IN ('' @ join_str '', '' (map placeholder [n ..< n + length (filter_values f)]) @ '')''
      else col @ op_sql (rf_op f) @ placeholder n)"

definition filter_text :: "rest_filter \<Rightarrow> string \<Rightarrow> string \<Rightarrow> nat \<Rightarrow> string" where
  "filter_text f col p n =
     (if rf_op f = OpIs then col @ '' '' @ p
      else if rf_negated f then ''NOT ('' @ inner_text f col n @ '')'' else inner_text f col n)"

lemma bind_all_eq:
  "bind_all pf vs params =
     (map placeholder [length params ..< length params + length vs], params @ map (render_param pf) vs)"
proof (induction vs arbitrary: params)
  case (Cons v vs)
  have "[length params ..< length params + length (v # vs)] =
      length params # [Suc (length params) ..< Suc (length params) + length vs]"
    by (subst upt_conv_Cons) (simp_all del: upt_Suc)
  then show ?case using Cons by (simp add: bind_param_def placeholder_def del: upt_Suc)
qed simp

lemma filter_to_sql_iff:
  "filter_to_sql pf f params = Inr (sql, params') \<longleftrightarrow>
     (\<exists>col p. render_column_ref (rf_column f) = Inr col \<and>
        (if rf_op f = OpIs then is_predicate (rf_negated f) (rf_value f) = Inr p else p = []) \<and>
        (rf_op f = OpIn \<longrightarrow> filter_values f \<noteq> []) \<and>
        sql = filter_text f col p (length params) \<and>
        params' = params @ map (render_param pf) (filter_values f))"
proof -
  have "render_in_list_params pf (rf_value f) params = Inr (list, ps) \<longleftrightarrow>
      in_list_elems (rf_value f) \<noteq> [] \<and>
      list = join_str '', '' (map placeholder [length params ..< length params + length (in_list_elems (rf_value f))]) \<and>
      ps = params @ map (render_param pf) (in_list_elems (rf_value f))" for list ps
    by (auto simp: render_in_list_params_def bind_all_eq)
  then show ?thesis
    by (auto simp: filter_to_sql_def and_then_Inr_iff filter_text_def inner_text_def filter_values_def
        bind_param_def placeholder_def split: if_splits)
qed

section \<open>Characters of a statement\<close>

definition sql_char :: "char \<Rightarrow> bool" where
  "sql_char c \<longleftrightarrow> is_ascii_alphanumeric c \<or> c \<in> set ''_ ,()=<>*;$'' \<or> c = CHR 0x27"

definition sql_safe :: "string \<Rightarrow> bool" where
  "sql_safe s = list_all sql_char s"

lemma sql_safe_simps [simp]:
  "sql_safe []" "sql_safe (s @ t) \<longleftrightarrow> sql_safe s \<and> sql_safe t"
  "sql_safe (c # s) \<longleftrightarrow> sql_char c \<and> sql_safe s"
  by (simp_all add: sql_safe_def)

lemma sql_char_tokens [simp]:
  "sql_char (CHR ''a'')" "sql_char (CHR ''b'')" "sql_char (CHR ''c'')" "sql_char (CHR ''d'')"
  "sql_char (CHR ''e'')" "sql_char (CHR ''f'')" "sql_char (CHR ''g'')" "sql_char (CHR ''h'')"
  "sql_char (CHR ''i'')" "sql_char (CHR ''j'')" "sql_char (CHR ''k'')" "sql_char (CHR ''l'')"
  "sql_char (CHR ''m'')" "sql_char (CHR ''n'')" "sql_char (CHR ''o'')" "sql_char (CHR ''p'')"
  "sql_char (CHR ''q'')" "sql_char (CHR ''r'')" "sql_char (CHR ''s'')" "sql_char (CHR ''t'')"
  "sql_char (CHR ''u'')" "sql_char (CHR ''v'')" "sql_char (CHR ''w'')" "sql_char (CHR ''x'')"
  "sql_char (CHR ''y'')" "sql_char (CHR ''z'')" "sql_char (CHR ''A'')" "sql_char (CHR ''B'')"
  "sql_char (CHR ''C'')" "sql_char (CHR ''D'')" "sql_char (CHR ''E'')" "sql_char (CHR ''F'')"
  "sql_char (CHR ''G'')" "sql_char (CHR ''H'')" "sql_char (CHR ''I'')" "sql_char (CHR ''J'')"
  "sql_char (CHR ''K'')" "sql_char (CHR ''L'')" "sql_char (CHR ''M'')" "sql_char (CHR ''N'')"
  "sql_char (CHR ''O'')" "sql_char (CHR ''P'')" "sql_char (CHR ''Q'')" "sql_char (CHR ''R'')"
  "sql_char (CHR ''S'')" "sql_char (CHR ''T'')" "sql_char (CHR ''U'')" "sql_char (CHR ''V'')"
  "sql_char (CHR ''W'')" "sql_char (CHR ''X'')" "sql_char (CHR ''Y'')" "sql_char (CHR ''Z'')"
  "sql_char (CHR ''0'')" "sql_char (CHR ''1'')" "sql_char (CHR ''2'')" "sql_char (CHR ''3'')"
  "sql_char (CHR ''4'')" "sql_char (CHR ''5'')" "sql_char (CHR ''6'')" "sql_char (CHR ''7'')"
  "sql_char (CHR ''8'')" "sql_char (CHR ''9'')" "sql_char (CHR ''_'')" "sql_char (CHR '' '')"
  "sql_char (CHR '','')" "sql_char (CHR ''('')" "sql_char (CHR '')'')" "sql_char (CHR ''='')"
  "sql_char (CHR ''<'')" "sql_char (CHR ''>'')" "sql_char (CHR ''*'')" "sql_char (CHR '';'')"
  "sql_char (CHR ''$'')" "sql_char (CHR 0x27)"
  by code_simp+

lemma sql_safe_tokens [simp]: "sql_safe (op_sql op)" "sql_safe (direction_sql d)"
  by (cases op; simp) (cases d; simp)

lemma sql_safe_join: "sql_safe sep \<Longrightarrow> list_all sql_safe xs \<Longrightarrow> sql_safe (join_str sep xs)"
  by (induction sep xs rule: join_str.induct) auto

lemma sql_safe_digit: "(n :: nat) < 10 \<Longrightarrow> sql_char (char_of (48 + n))"
  by (simp add: sql_char_def is_ascii_alphanumeric_def is_ascii_digit_def Let_def)

lemma sql_safe_show_nat [simp]: "sql_safe (show_nat n)"
proof (induction n rule: show_nat.induct)
  case (1 n)
  then show ?case using sql_safe_digit by (subst show_nat.simps) auto
qed

lemma sql_safe_placeholder [simp]: "sql_safe (placeholder i)"
  by (simp add: placeholder_def)

lemma sql_safe_placeholders [simp]: "sql_safe (join_str '', '' (map placeholder is))"
  by (rule sql_safe_join) (auto simp: list_all_iff)

lemma sql_safe_ident: "ident_ok s \<Longrightarrow> sql_safe s"
  by (auto simp: ident_ok_def sql_safe_def sql_char_def is_ascii_alphanumeric_def list_all_iff split: list.splits)

lemma validate_ident_iff [simp]: "validate_ident s = Inr t \<longleftrightarrow> ident_ok s \<and> t = s"
  by (auto simp: validate_ident_def)

lemma sql_safe_accessor: "sql_safe f \<Longrightarrow> json_accessor f b k = Inr t \<Longrightarrow> sql_safe t"
  by (auto simp: json_accessor_def and_then_Inr_iff sql_safe_ident)

lemma sql_safe_column: "render_column_ref c = Inr t \<Longrightarrow> sql_safe t"
  by (auto simp: render_column_ref_def sql_safe_ident dest: sql_safe_accessor [rotated]
      split: option.splits prod.splits)

lemma sql_safe_predicate: "is_predicate b v = Inr p \<Longrightarrow> sql_safe p"
  by (auto simp: is_predicate_def Let_def split: if_splits)

section \<open>Renderers\<close>

text \<open>The contract of everything that renders values: it binds exactly the values of its item, in
  order, and its text depends on the shape of the item and on the number of parameters before it.\<close>

locale value_renderer =
  fixes render :: "'a \<Rightarrow> 'f param list \<Rightarrow> rest_error + string \<times> 'f param list"
    and pf :: "'f text_to_f64"
    and vals :: "'a \<Rightarrow> string list"
    and same_shape :: "'a \<Rightarrow> 'a \<Rightarrow> bool"
  assumes binds: "render x ps = Inr (s, ps') \<Longrightarrow> ps' = ps @ map (render_param pf) (vals x)"
    and shape_text: "\<lbrakk>render x ps = Inr (s, ps'); same_shape x y; length qs = length ps\<rbrakk> \<Longrightarrow>
      \<exists>qs'. render y qs = Inr (s, qs')"
    and shape_length: "same_shape x y \<Longrightarrow> length (vals x) = length (vals y)"
begin

lemma all_binds: "render_all render xs ps = Inr (ss, ps') \<Longrightarrow> ps' = ps @ map (render_param pf) (concat (map vals xs))"
proof (induction xs arbitrary: ps ss)
  case (Cons x xs)
  then obtain s ps1 ss' where "render x ps = Inr (s, ps1)" "render_all render xs ps1 = Inr (ss', ps')"
    by (auto simp: and_then_Inr_iff)
  then show ?case using Cons.IH [of ps1 ss'] binds [of x ps s ps1] by simp
qed simp

lemma all_shape_text:
  "render_all render xs ps = Inr (ss, ps') \<Longrightarrow> list_all2 same_shape xs ys \<Longrightarrow> length qs = length ps \<Longrightarrow>
     \<exists>qs'. render_all render ys qs = Inr (ss, qs') \<and> length qs' = length ps'"
proof (induction xs arbitrary: ps ss ys qs)
  case (Cons x xs)
  then obtain y ys' where y: "ys = y # ys'" "same_shape x y" "list_all2 same_shape xs ys'"
    by (cases ys) auto
  obtain s ps1 ss' where r: "render x ps = Inr (s, ps1)" "render_all render xs ps1 = Inr (ss', ps')" "ss = s # ss'"
    using Cons.prems(1) by (auto simp: and_then_Inr_iff)
  obtain qs1 where q: "render y qs = Inr (s, qs1)" using shape_text [OF r(1) y(2) Cons.prems(3)] by blast
  have "length qs1 = length ps1"
    using binds [OF r(1)] binds [OF q] shape_length [OF y(2)] Cons.prems(3) by simp
  from Cons.IH [OF r(2) y(3) this] show ?case using y q r(3) by auto
qed simp

end

text \<open>A renderer of clauses writes only characters of the fixed tokens and of identifiers.\<close>

locale safe_renderer = value_renderer +
  assumes safe_text: "render x ps = Inr (s, ps') \<Longrightarrow> sql_safe s"
begin

lemma all_safe: "render_all render xs ps = Inr (ss, ps') \<Longrightarrow> list_all sql_safe ss"
  by (induction xs arbitrary: ps ss) (auto simp: and_then_Inr_iff dest: safe_text)

end

definition same_filter :: "rest_filter \<Rightarrow> rest_filter \<Rightarrow> bool" where
  "same_filter f g \<longleftrightarrow> rf_column g = rf_column f \<and> rf_op g = rf_op f \<and> rf_negated g = rf_negated f \<and>
     length (filter_values g) = length (filter_values f) \<and>
     (rf_op f = OpIs \<longrightarrow> to_ascii_lowercase (rf_value g) = to_ascii_lowercase (rf_value f))"

lemma same_predicate:
  "to_ascii_lowercase w = to_ascii_lowercase v \<Longrightarrow> is_predicate b v = Inr p \<Longrightarrow> is_predicate b w = Inr p"
  by (auto simp: is_predicate_def Let_def split: if_splits)

lemma filter_text_safe:
  "sql_safe col \<Longrightarrow> sql_safe p \<Longrightarrow> sql_safe (filter_text f col p n)"
  by (simp add: filter_text_def inner_text_def)

lemma filter_text_same:
  "same_filter f g \<Longrightarrow> filter_text g col p n = filter_text f col p n"
  by (simp add: same_filter_def filter_text_def inner_text_def)

interpretation filter_renderer: safe_renderer "filter_to_sql pf" pf filter_values same_filter for pf
proof
  fix x y :: rest_filter and ps qs ps' :: "'a param list" and s
  assume r: "filter_to_sql pf x ps = Inr (s, ps')"
  then show "ps' = ps @ map (render_param pf) (filter_values x)" by (auto simp: filter_to_sql_iff)
  show "sql_safe s"
    using r sql_safe_column sql_safe_predicate
    by (auto simp: filter_to_sql_iff intro!: filter_text_safe split: if_splits)
  assume sm: "same_filter x y" and len: "length qs = length ps"
  from r obtain col p where c: "render_column_ref (rf_column x) = Inr col"
    "if rf_op x = OpIs then is_predicate (rf_negated x) (rf_value x) = Inr p else p = []"
    "rf_op x = OpIn \<longrightarrow> filter_values x \<noteq> []" "s = filter_text x col p (length ps)"
    by (auto simp: filter_to_sql_iff)
  have "if rf_op y = OpIs then is_predicate (rf_negated y) (rf_value y) = Inr p else p = []"
    using c(2) sm same_predicate by (simp add: same_filter_def split: if_splits)
  moreover have "rf_op y = OpIn \<longrightarrow> filter_values y \<noteq> []"
    using c(3) sm by (auto simp: same_filter_def)
  ultimately show "\<exists>qs'. filter_to_sql pf y qs = Inr (s, qs')"
    using c(1,4) sm len filter_text_same [OF sm] by (auto simp: filter_to_sql_iff same_filter_def)
qed (simp add: same_filter_def)

definition same_assignment :: "string \<times> string \<Rightarrow> string \<times> string \<Rightarrow> bool" where
  "same_assignment a b \<longleftrightarrow> fst b = fst a"

interpretation assignment_renderer:
  safe_renderer "assignment_to_sql pf" pf "\<lambda>a. [snd a]" same_assignment for pf
  by unfold_locales
    (auto simp: assignment_to_sql_def and_then_Inr_iff bind_param_def same_assignment_def sql_safe_ident)

interpretation row_renderer:
  value_renderer "row_statement pf table cols" pf id "\<lambda>r r'. length r' = length r" for pf table cols
  by unfold_locales (auto simp: row_statement_def bind_all_eq split: if_splits)

lemma row_statement_safe:
  assumes "ident_ok table" "list_all ident_ok cols" "row_statement pf table cols row ps = Inr (s, ps')"
  shows "sql_safe s"
proof -
  have "list_all sql_safe cols" using assms(2) sql_safe_ident by (auto simp: list_all_iff)
  then have "sql_safe (join_str '', '' cols)" using sql_safe_join by simp
  then show ?thesis
    using assms(1,3) sql_safe_ident by (auto simp: row_statement_def bind_all_eq split: if_splits)
qed

section \<open>Clauses\<close>

lemma where_binds:
  "render_where_params pf fs ps = Inr (s, ps') \<Longrightarrow> ps' = ps @ map (render_param pf) (concat (map filter_values fs))"
  by (auto simp: render_where_params_def and_then_Inr_iff dest: filter_renderer.all_binds split: if_splits)

lemma where_safe: "render_where_params pf fs ps = Inr (s, ps') \<Longrightarrow> sql_safe s"
  by (auto simp: render_where_params_def and_then_Inr_iff intro!: sql_safe_join dest: filter_renderer.all_safe
      split: if_splits)

lemma where_shape:
  assumes "render_where_params pf fs ps = Inr (s, ps')" "list_all2 same_filter fs gs" "length qs = length ps"
  shows "\<exists>qs'. render_where_params pf gs qs = Inr (s, qs')"
proof (cases "fs = []")
  case False
  then obtain parts where p: "render_all (filter_to_sql pf) fs ps = Inr (parts, ps')"
    "s = '' WHERE '' @ join_str '' AND '' parts"
    using assms(1) by (auto simp: render_where_params_def and_then_Inr_iff)
  have "gs \<noteq> []" using assms(2) False by auto
  then show ?thesis
    using filter_renderer.all_shape_text [OF p(1) assms(2,3)] p(2) by (auto simp: render_where_params_def)
qed (use assms in \<open>auto simp: render_where_params_def\<close>)

lemma collect_all: "collect_results f xs = Inr ys \<Longrightarrow> (\<And>x y. f x = Inr y \<Longrightarrow> P y) \<Longrightarrow> list_all P ys"
  by (induction xs arbitrary: ys) (auto simp: and_then_Inr_iff)

lemma opt_clause_safe [simp]: "sql_safe kw \<Longrightarrow> sql_safe (opt_clause kw v)"
  by (simp add: opt_clause_def show_u64_def split: option.split)

lemma columns_safe: "collect_results render_column_ref cs = Inr ts \<Longrightarrow> sql_safe (join_str '', '' ts)"
  by (rule sql_safe_join) (auto intro: collect_all sql_safe_column)

lemma order_keys_safe:
  assumes "collect_results render_order_key ks = Inr ts"
  shows "sql_safe (join_str '', '' ts)"
proof (rule sql_safe_join)
  have "sql_safe t" if "render_order_key k = Inr t" for k t
    using that sql_safe_column [of "ok_column k"] by (auto simp: render_order_key_def and_then_Inr_iff)
  then show "list_all sql_safe ts" using collect_all [OF assms, of sql_safe] by blast
qed simp

section \<open>Statements\<close>

lemma query_safe: "query_to_sql pf q = Inr (sql, ps) \<Longrightarrow> sql_safe sql"
  using columns_safe order_keys_safe where_safe sql_safe_ident
  by (fastforce simp: query_to_sql_def and_then_Inr_iff split: if_splits)

lemma query_binds:
  "query_to_sql pf q = Inr (sql, ps) \<Longrightarrow> ps = map (render_param pf) (concat (map filter_values (rq_filters q)))"
  by (auto simp: query_to_sql_def and_then_Inr_iff dest: where_binds)

lemma query_shape:
  assumes "query_to_sql pf q = Inr (sql, ps)" "list_all2 same_filter (rq_filters q) gs"
  shows "\<exists>ps'. query_to_sql pf (q\<lparr> rq_filters := gs \<rparr>) = Inr (sql, ps')"
proof -
  obtain w where w: "render_where_params pf (rq_filters q) [] = Inr (w, ps)"
    using assms(1) by (auto simp: query_to_sql_def and_then_Inr_iff)
  obtain ps' where "render_where_params pf gs [] = Inr (w, ps')" using where_shape [OF w assms(2), of "[]"] by auto
  then show ?thesis using assms(1) w by (auto simp: query_to_sql_def and_then_Inr_iff)
qed

lemma update_parts:
  "update_to_sql pf r = Inr (sql, ps) \<longleftrightarrow>
     (\<exists>sets ps1 w. ident_ok (ur_table r) \<and> ur_assignments r \<noteq> [] \<and> ur_filters r \<noteq> [] \<and>
        render_all (assignment_to_sql pf) (ur_assignments r) [] = Inr (sets, ps1) \<and>
        render_where_params pf (ur_filters r) ps1 = Inr (w, ps) \<and>
        sql = ''UPDATE '' @ ur_table r @ '' SET '' @ join_str '', '' sets @ w @ '';'')"
  by (auto simp: update_to_sql_def and_then_Inr_iff)

lemma update_shape:
  assumes "update_to_sql pf r = Inr (sql, ps)" "list_all2 same_assignment (ur_assignments r) as"
    and "list_all2 same_filter (ur_filters r) gs"
  shows "\<exists>ps'. update_to_sql pf (r\<lparr> ur_assignments := as, ur_filters := gs \<rparr>) = Inr (sql, ps')"
proof -
  obtain sets ps1 w where u: "ident_ok (ur_table r)" "ur_assignments r \<noteq> []" "ur_filters r \<noteq> []"
    "render_all (assignment_to_sql pf) (ur_assignments r) [] = Inr (sets, ps1)"
    "render_where_params pf (ur_filters r) ps1 = Inr (w, ps)"
    "sql = ''UPDATE '' @ ur_table r @ '' SET '' @ join_str '', '' sets @ w @ '';''"
    using assms(1) by (auto simp: update_parts)
  obtain qs1 where q: "render_all (assignment_to_sql pf) as [] = Inr (sets, qs1)" "length qs1 = length ps1"
    using assignment_renderer.all_shape_text [OF u(4) assms(2), of "[]"] by auto
  obtain qs where "render_where_params pf gs qs1 = Inr (w, qs)" using where_shape [OF u(5) assms(3) q(2)] by auto
  moreover have "as \<noteq> []" "gs \<noteq> []" using assms(2,3) u(2,3) by auto
  ultimately show ?thesis using u(1,6) q(1) by (auto simp: update_parts)
qed

lemma delete_parts:
  "delete_to_sql pf r = Inr (sql, ps) \<longleftrightarrow>
     (\<exists>w. ident_ok (dr_table r) \<and> dr_filters r \<noteq> [] \<and> render_where_params pf (dr_filters r) [] = Inr (w, ps) \<and>
        sql = ''DELETE FROM '' @ dr_table r @ w @ '';'')"
  by (auto simp: delete_to_sql_def and_then_Inr_iff)

lemma insert_parts:
  "row_statements pf r = Inr (sqls, ps) \<longleftrightarrow>
     ident_ok (ir_table r) \<and> ir_columns r \<noteq> [] \<and> ir_rows r \<noteq> [] \<and> list_all ident_ok (ir_columns r) \<and>
     render_all (row_statement pf (ir_table r) (ir_columns r)) (ir_rows r) [] = Inr (sqls, ps)"
proof -
  have "collect_results validate_ident cs = Inr ds \<longleftrightarrow> list_all ident_ok cs \<and> ds = cs" for cs ds
    by (induction cs arbitrary: ds) (auto simp: and_then_Inr_iff)
  then show ?thesis by (auto simp: row_statements_def and_then_Inr_iff)
qed

lemma rows_safe:
  assumes "ident_ok table" "list_all ident_ok cols"
  shows "render_all (row_statement pf table cols) rows ps = Inr (ss, ps') \<Longrightarrow> list_all sql_safe ss"
  using assms by (induction rows arbitrary: ps ss) (auto simp: and_then_Inr_iff dest: row_statement_safe)

section \<open>Query strings\<close>

text \<open>Printing of a query as the query string that describes it.\<close>

definition filter_pair :: "rest_filter \<Rightarrow> string \<times> string" where
  "filter_pair f =
     (rf_column f, (if rf_negated f then ''not.'' else []) @ operator_token (rf_op f) @ ''.'' @ rf_value f)"

definition pair_text :: "string \<times> string \<Rightarrow> string" where
  "pair_text kv = fst kv @ ''='' @ snd kv"

definition print_order_key :: "order_key \<Rightarrow> string" where
  "print_order_key k = ok_column k @ ''.'' @ (case ok_direction k of Asc \<Rightarrow> ''asc'' | Desc \<Rightarrow> ''desc'')"

definition list_pair :: "string \<Rightarrow> string list \<Rightarrow> (string \<times> string) list" where
  "list_pair key xs = (if xs = [] then [] else [(key, join_str '','' xs)])"

definition count_pair :: "string \<Rightarrow> u64 option \<Rightarrow> (string \<times> string) list" where
  "count_pair key v = (case v of Some n \<Rightarrow> [(key, show_u64 n)] | None \<Rightarrow> [])"

definition query_pairs :: "rest_query \<Rightarrow> (string \<times> string) list" where
  "query_pairs q = list_pair ''select'' (rq_select q) @ map filter_pair (rq_filters q)
     @ list_pair ''order'' (map print_order_key (rq_order q))
     @ count_pair ''limit'' (rq_limit q) @ count_pair ''offset'' (rq_offset q)"

definition print_query :: "rest_query \<Rightarrow> string" where
  "print_query q = join_str ''&'' (map pair_text (query_pairs q))"

text \<open>Names of visible ASCII characters without separators; values of any characters but the
  separator of pairs.\<close>

definition name_ok :: "string \<Rightarrow> bool" where
  "name_ok s \<longleftrightarrow> s \<noteq> [] \<and> (\<forall>c \<in> set s. 33 \<le> (of_char c :: nat) \<and> (of_char c :: nat) \<le> 126
     \<and> c \<noteq> CHR '','' \<and> c \<noteq> CHR ''&'' \<and> c \<noteq> CHR ''='')"

definition query_ok :: "rest_query \<Rightarrow> bool" where
  "query_ok q \<longleftrightarrow> list_all name_ok (rq_select q) \<and> list_all (\<lambda>k. name_ok (ok_column k)) (rq_order q) \<and>
     list_all (\<lambda>f. name_ok (rf_column f) \<and> \<not> reserved (rf_column f) \<and> CHR ''&'' \<notin> set (rf_value f)) (rq_filters q)"

lemma split_join_str: "xs \<noteq> [] \<Longrightarrow> \<forall>x \<in> set xs. c \<notin> set x \<Longrightarrow> split_char c (join_str [c] xs) = xs"
proof (induction xs)
  case (Cons x xs)
  have app: "c \<notin> set a \<Longrightarrow> split_char c (a @ c # b) = a # split_char c b" for a b
    by (induction a) auto
  show ?case
    using Cons app [of x] by (cases xs) (auto simp: split_char_single)
qed simp

lemma split_once_char: "c \<notin> set a \<Longrightarrow> split_once [c] (a @ c # b) = Some (a, b)"
  by (induction a) (auto simp: split_once.simps [of "[c]"] strip_prefix_def)

lemma rsplit_once_char: "c \<notin> set b \<Longrightarrow> rsplit_once [c] (a @ c # b) = Some (a, b)"
  using split_once_char [of c "rev b" "rev a"] by (simp add: rsplit_once_def)

lemma strip_ws_None:
  assumes "list_all (\<lambda>w. w \<noteq> [] \<and> \<not> (33 \<le> (of_char (hd w) :: nat) \<and> (of_char (hd w) :: nat) \<le> 126)) ws"
    and "\<forall>c \<in> set s. 33 \<le> (of_char c :: nat) \<and> (of_char c :: nat) \<le> 126"
  shows "strip_ws ws s = None"
proof -
  have "strip_prefix w s = None" if "w \<in> set ws" for w
    using assms that by (cases w; cases s) (fastforce simp: strip_prefix_def list_all_iff)+
  then have "find (\<lambda>w. strip_prefix w s \<noteq> None) ws = None" by (auto simp: find_None_iff)
  then show ?thesis by (simp add: strip_ws_def)
qed

lemma ws_bytes:
  "list_all (\<lambda>w. w \<noteq> [] \<and> \<not> (33 \<le> (of_char (hd w) :: nat) \<and> (of_char (hd w) :: nat) \<le> 126)) ws_chars"
  "list_all (\<lambda>w. w \<noteq> [] \<and> \<not> (33 \<le> (of_char (hd w) :: nat) \<and> (of_char (hd w) :: nat) \<le> 126)) (map rev ws_chars)"
  by (code_simp, code_simp)

lemma trim_visible:
  assumes "\<forall>c \<in> set s. 33 \<le> (of_char c :: nat) \<and> (of_char c :: nat) \<le> 126"
  shows "trim s = s"
  using strip_ws_None [OF ws_bytes(1) assms] strip_ws_None [OF ws_bytes(2), of "rev s"] assms
  by (simp add: trim_def trim_ws.simps)

lemma name_okD: "name_ok s \<Longrightarrow> trim s = s" "name_ok s \<Longrightarrow> CHR '','' \<notin> set s"
  "name_ok s \<Longrightarrow> CHR ''&'' \<notin> set s" "name_ok s \<Longrightarrow> CHR ''='' \<notin> set s" "name_ok s \<Longrightarrow> s \<noteq> []"
  by (auto simp: name_ok_def intro: trim_visible)

lemma nonempty_parts_join:
  assumes "xs \<noteq> []" "list_all name_ok xs"
  shows "nonempty_parts (join_str '','' xs) = xs"
proof -
  have "split_char (CHR '','') (join_str '','' xs) = xs"
    by (rule split_join_str) (use assms name_okD(2) in \<open>auto simp: list_all_iff\<close>)
  moreover have "map trim xs = xs" using assms(2) name_okD(1) by (simp add: map_idI list_all_iff)
  moreover have "filter (\<lambda>s. s \<noteq> []) xs = xs" using assms(2) name_okD(5) by (simp add: filter_id_conv list_all_iff)
  ultimately show ?thesis by (simp add: nonempty_parts_def)
qed

lemma name_ok_order: "name_ok (ok_column k) \<Longrightarrow> name_ok (print_order_key k)"
  by (cases "ok_direction k") (auto simp: name_ok_def print_order_key_def)

lemma parse_order_part_print: "parse_order_part (print_order_key k) = k"
proof -
  have "CHR ''.'' \<notin> set ''asc''" "CHR ''.'' \<notin> set ''desc''" by simp_all
  then show ?thesis
    by (cases k; cases "ok_direction k")
      (simp_all add: parse_order_part_def print_order_key_def rsplit_once_char del: list.set)
qed

lemma parse_rest_filter_print: "parse_rest_filter (fst (filter_pair f)) (snd (filter_pair f)) = Inr f"
proof -
  have "CHR ''.'' \<notin> set (operator_token (rf_op f))" by (cases "rf_op f") auto
  then have "split_once ''.'' (operator_token (rf_op f) @ ''.'' @ rf_value f) = Some (operator_token (rf_op f), rf_value f)"
    using split_once_char by simp
  moreover have "strip_prefix ''not.'' (operator_token (rf_op f) @ ''.'' @ rf_value f) = None"
    by (cases "rf_op f") (auto simp: strip_prefix_def)
  moreover have "operator_parse (operator_token (rf_op f)) = Inr (rf_op f)"
    by (cases "rf_op f") (simp_all add: operator_parse_def)
  ultimately show ?thesis by (auto simp: parse_rest_filter_def filter_pair_def strip_prefix_def)
qed

lemma parse_pairs_append: "parse_pairs (xs @ ys) q = and_then (parse_pairs xs q) (parse_pairs ys)"
proof (induction xs arbitrary: q)
  case (Cons x xs)
  then show ?case by (cases "parse_pair x q") auto
qed simp

lemma join_str_set: "set (join_str sep xs) \<subseteq> set sep \<union> \<Union> (set ` set xs)"
  by (induction sep xs rule: join_str.induct) auto

lemma show_nat_digits: "c \<in> set (show_nat n) \<Longrightarrow> 48 \<le> (of_char c :: nat) \<and> (of_char c :: nat) < 58"
proof (induction n rule: show_nat.induct)
  case (1 n)
  then show ?case by (subst (asm) (2) show_nat.simps) (auto split: if_splits)
qed

lemma query_pairs_ok:
  assumes "query_ok q" "kv \<in> set (query_pairs q)"
  shows "CHR ''='' \<notin> set (fst kv)" "CHR ''&'' \<notin> set (pair_text kv)" "pair_text kv \<noteq> []"
proof -
  have amp: "CHR ''&'' \<notin> set (join_str '','' xs)" if "list_all name_ok xs" for xs
    using that join_str_set [of "'',''" xs] name_okD(3) by (fastforce simp: list_all_iff)
  have keys: "list_all name_ok (map print_order_key (rq_order q))"
    using assms(1) name_ok_order by (auto simp: query_ok_def list_all_iff)
  have num: "CHR ''&'' \<notin> set (show_u64 n)" for n
    using show_nat_digits [of "CHR ''&''" "unat n"] by (auto simp: show_u64_def)
  have tok: "CHR ''&'' \<notin> set (operator_token op)" for op by (cases op) auto
  show "pair_text kv \<noteq> []" by (simp add: pair_text_def)
  show "CHR ''='' \<notin> set (fst kv)"
    using assms name_okD(4) by (auto simp: query_pairs_def list_pair_def count_pair_def filter_pair_def query_ok_def list_all_iff split: if_splits option.splits)
  show "CHR ''&'' \<notin> set (pair_text kv)"
    using assms amp [of "rq_select q"] amp [OF keys] num tok name_okD(3)
    by (auto simp: query_pairs_def list_pair_def count_pair_def filter_pair_def query_ok_def pair_text_def list_all_iff split: if_splits option.splits)
qed

lemma split_pairs_print:
  assumes "query_ok q"
  shows "split_pairs (print_query q) = Inr (query_pairs q)"
proof (cases "query_pairs q = []")
  case True
  then show ?thesis by (simp add: print_query_def split_pairs_def)
next
  case False
  have "split_char (CHR ''&'') (print_query q) = map pair_text (query_pairs q)"
    unfolding print_query_def by (rule split_join_str) (use False query_pairs_ok(2) [OF assms] in auto)
  moreover have "split_raw_pairs (map pair_text kvs) = Inr kvs"
    if "\<forall>kv \<in> set kvs. CHR ''='' \<notin> set (fst kv) \<and> pair_text kv \<noteq> []" for kvs
    using that by (induction kvs) (auto simp: pair_text_def split_once_char)
  ultimately show ?thesis using query_pairs_ok [OF assms] by (simp add: split_pairs_def)
qed

lemma parse_filter_pairs:
  "list_all (\<lambda>f. \<not> reserved (rf_column f)) fs \<Longrightarrow>
   parse_pairs (map filter_pair fs) q = Inr (q\<lparr> rq_filters := rq_filters q @ fs \<rparr>)"
proof (induction fs arbitrary: q)
  case (Cons f fs)
  then show ?case
    using parse_rest_filter_print [of f] by (simp add: parse_pair_def reserved_def filter_pair_def)
qed simp

lemma parse_query_print_spec:
  assumes "query_ok q"
  shows "parse_query (rq_table q) (print_query q) = Inr q"
proof -
  let ?q0 = "\<lparr> rq_table = rq_table q, rq_select = [], rq_filters = [], rq_order = [], rq_limit = None, rq_offset = None \<rparr>"
  have sel: "rq_select q \<noteq> [] \<Longrightarrow> nonempty_parts (join_str '','' (rq_select q)) = rq_select q"
    using assms by (simp add: query_ok_def nonempty_parts_join)
  have ord: "rq_order q \<noteq> [] \<Longrightarrow> parse_order (join_str '','' (map print_order_key (rq_order q))) = rq_order q"
    using assms name_ok_order
    by (simp add: query_ok_def parse_order_def nonempty_parts_join list_all_iff comp_def parse_order_part_print)
  have flt: "list_all (\<lambda>f. \<not> reserved (rf_column f)) (rq_filters q)" using assms by (auto simp: query_ok_def list_all_iff)
  have "parse_pairs (query_pairs q) ?q0 = Inr q"
    unfolding query_pairs_def parse_pairs_append
    using sel ord parse_filter_pairs [OF flt]
    by (cases q) (auto simp: parse_pair_def parse_count_def list_pair_def count_pair_def split: option.splits)
  then show ?thesis by (simp add: parse_query_def split_pairs_print [OF assms])
qed

section \<open>Properties\<close>

definition demo_query :: rest_query where
  "demo_query = \<lparr> rq_table = ''users'', rq_select = [''id'', ''doc->>name''],
     rq_filters = [\<lparr> rf_column = ''age'', rf_op = OpGt, rf_negated = True, rf_value = ''20'' \<rparr>,
       \<lparr> rf_column = ''city'', rf_op = OpIn, rf_negated = False, rf_value = ''(rome, oslo)'' \<rparr>],
     rq_order = [\<lparr> ok_column = ''id'', ok_direction = Desc \<rparr>], rq_limit = Some 5, rq_offset = None \<rparr>"

definition demo_filters :: "rest_filter list" where
  "demo_filters = [\<lparr> rf_column = ''age'', rf_op = OpGt, rf_negated = True, rf_value = ''0; DROP TABLE users'' \<rparr>,
     \<lparr> rf_column = ''city'', rf_op = OpIn, rf_negated = False, rf_value = ''(a), b'' \<rparr>]"

definition demo_sql :: string where
  "demo_sql = ''SELECT id, json_get_str(doc, '' @ [CHR 0x27] @ ''name'' @ [CHR 0x27] @ '') FROM users WHERE NOT (age > $1) AND city IN ($2, $3) ORDER BY id DESC LIMIT 5;''"

definition no_f64 :: "unit text_to_f64" where
  "no_f64 s = None"

lemma demo_query_sql: "query_to_sql no_f64 demo_query = Inr (demo_sql, [PInt 20, PStr ''rome'', PStr ''oslo''])"
  by code_simp

lemma demo_shape: "list_all2 same_filter (rq_filters demo_query) demo_filters"
  by code_simp

text \<open>C27. No value reaches the text of a statement. Whenever a query, an update, a delete or an insert
  renders, its text consists of characters of identifiers and fixed tokens only, and every request
  that differs from it in the values alone (with as many elements in an \<open>in\<close> list and as many
  values in a row) renders to the same text.\<close>
theorem rest_values_never_in_sql:
  "(query_to_sql pf q = Inr (s1, p1) \<and> list_all2 same_filter (rq_filters q) fs \<longrightarrow>
      sql_safe s1 \<and> (\<exists>p. query_to_sql pf (q\<lparr> rq_filters := fs \<rparr>) = Inr (s1, p)))
   \<and> (update_to_sql pf u = Inr (s2, p2) \<and> list_all2 same_assignment (ur_assignments u) as
      \<and> list_all2 same_filter (ur_filters u) fs \<longrightarrow>
      sql_safe s2 \<and> (\<exists>p. update_to_sql pf (u\<lparr> ur_assignments := as, ur_filters := fs \<rparr>) = Inr (s2, p)))
   \<and> (delete_to_sql pf d = Inr (s3, p3) \<and> list_all2 same_filter (dr_filters d) fs \<longrightarrow>
      sql_safe s3 \<and> (\<exists>p. delete_to_sql pf (d\<lparr> dr_filters := fs \<rparr>) = Inr (s3, p)))
   \<and> (row_statements pf r = Inr (s4, p4) \<and> list_all2 (\<lambda>x y. length y = length x) (ir_rows r) rows \<longrightarrow>
      list_all sql_safe s4 \<and> (\<exists>p. row_statements pf (r\<lparr> ir_rows := rows \<rparr>) = Inr (s4, p)))"
proof (intro conjI impI; elim conjE)
  assume "query_to_sql pf q = Inr (s1, p1)" "list_all2 same_filter (rq_filters q) fs"
  then show "sql_safe s1" "\<exists>p. query_to_sql pf (q\<lparr> rq_filters := fs \<rparr>) = Inr (s1, p)"
    by (blast intro: query_safe query_shape)+
next
  assume a: "update_to_sql pf u = Inr (s2, p2)" "list_all2 same_assignment (ur_assignments u) as"
    "list_all2 same_filter (ur_filters u) fs"
  then show "sql_safe s2"
    by (auto simp: update_parts sql_safe_ident intro!: sql_safe_join dest: assignment_renderer.all_safe where_safe)
  show "\<exists>p. update_to_sql pf (u\<lparr> ur_assignments := as, ur_filters := fs \<rparr>) = Inr (s2, p)"
    by (rule update_shape [OF a])
next
  assume a: "delete_to_sql pf d = Inr (s3, p3)" "list_all2 same_filter (dr_filters d) fs"
  then obtain w where w: "ident_ok (dr_table d)" "dr_filters d \<noteq> []" "render_where_params pf (dr_filters d) [] = Inr (w, p3)"
    "s3 = ''DELETE FROM '' @ dr_table d @ w @ '';''" by (auto simp: delete_parts)
  then show "sql_safe s3" by (auto simp: sql_safe_ident dest: where_safe)
  have "fs \<noteq> []" using a(2) w(2) by auto
  then show "\<exists>p. delete_to_sql pf (d\<lparr> dr_filters := fs \<rparr>) = Inr (s3, p)"
    using where_shape [OF w(3) a(2), of "[]"] w(1,4) by (auto simp: delete_parts)
next
  assume a: "row_statements pf r = Inr (s4, p4)" "list_all2 (\<lambda>x y. length y = length x) (ir_rows r) rows"
  then have p: "ident_ok (ir_table r)" "ir_columns r \<noteq> []" "ir_rows r \<noteq> []" "list_all ident_ok (ir_columns r)"
    "render_all (row_statement pf (ir_table r) (ir_columns r)) (ir_rows r) [] = Inr (s4, p4)"
    by (simp_all add: insert_parts)
  show "list_all sql_safe s4" by (rule rows_safe [OF p(1,4,5)])
  have "rows \<noteq> []" using a(2) p(3) by auto
  then show "\<exists>p. row_statements pf (r\<lparr> ir_rows := rows \<rparr>) = Inr (s4, p)"
    using row_renderer.all_shape_text [OF p(5) a(2), of "[]"] p by (auto simp: insert_parts)
qed

theorem rest_values_never_in_sql_witness:
  "sql_safe demo_sql \<and> (\<exists>p. query_to_sql no_f64 (demo_query\<lparr> rq_filters := demo_filters \<rparr>) = Inr (demo_sql, p))"
  using rest_values_never_in_sql [of no_f64 demo_query demo_sql] demo_query_sql demo_shape by blast

text \<open>The parameters of a statement are the typed values of the request in the order of its
  placeholders: for a query and a delete those of the filters, for an update those of the
  assignments and then those of the filters, for an insert those of all rows, numbered across
  the statements.\<close>
theorem rest_params_in_order:
  "(query_to_sql pf q = Inr (s1, p1) \<longrightarrow> p1 = map (render_param pf) (concat (map filter_values (rq_filters q))))
   \<and> (update_to_sql pf u = Inr (s2, p2) \<longrightarrow>
      p2 = map (render_param pf) (map snd (ur_assignments u) @ concat (map filter_values (ur_filters u))))
   \<and> (delete_to_sql pf d = Inr (s3, p3) \<longrightarrow> p3 = map (render_param pf) (concat (map filter_values (dr_filters d))))
   \<and> (row_statements pf r = Inr (s4, p4) \<longrightarrow> p4 = map (render_param pf) (concat (ir_rows r)))
   \<and> (filter_to_sql pf f ps = Inr (s5, p5) \<longrightarrow>
      (\<exists>col p. s5 = filter_text f col p (length ps)) \<and> p5 = ps @ map (render_param pf) (filter_values f))"
proof -
  have "concat (map (\<lambda>a. [snd a]) as) = map snd as" for as :: "(string \<times> string) list" by (induction as) auto
  then show ?thesis
    by (auto simp: update_parts delete_parts insert_parts filter_to_sql_iff
        dest!: query_binds where_binds assignment_renderer.all_binds row_renderer.all_binds)
qed

theorem rest_params_in_order_witness:
  "[PInt 20, PStr ''rome'', PStr ''oslo''] = map (render_param no_f64) (concat (map filter_values (rq_filters demo_query)))"
  using rest_params_in_order [of no_f64 demo_query demo_sql] demo_query_sql by blast

text \<open>C28. Parsing the query string printed for a query gives the query back, for every query whose
  names consist of visible characters without separators, whose filter columns are not reserved
  words and whose values contain no separator of pairs; the values may be any other text.\<close>
theorem rest_query_roundtrip:
  assumes "query_ok q"
  shows "parse_query (rq_table q) (print_query q) = Inr q"
  by (rule parse_query_print_spec [OF assms])

theorem rest_query_roundtrip_witness:
  "parse_query ''users'' (print_query demo_query) = Inr demo_query"
proof -
  have "query_ok demo_query" by code_simp
  from rest_query_roundtrip [OF this] show ?thesis by (simp add: demo_query_def)
qed

end
