(* ===== verification/Json.thy ===== *)
theory Json
  imports Complex_Main Text
begin

text \<open>
  JSON values as \<open>serde_json\<close> holds them: a number is an unsigned or a negative 64-bit integer or a
  finite double, an object is a map with its keys in order (the crate is built without
  \<open>preserve_order\<close>). A double is its rational value; the sign of zero is not represented. Strings
  are their UTF-8 bytes. The theory also has the conversions between integers and doubles that the
  sources use, with the rounding of the double format.
\<close>

section \<open>Doubles\<close>

text \<open>Rounding of an integer to 53 significant bits, to the nearest and to even on a tie.\<close>

function excess_bits :: "nat \<Rightarrow> nat" where
  "excess_bits n = (if n < 2 ^ 53 then 0 else Suc (excess_bits (n div 2)))"
  by pat_completeness auto
termination
  by (relation "measure id") (auto intro: div_less_dividend)

declare excess_bits.simps [simp del]

definition round53_nat :: "nat \<Rightarrow> nat" where
  "round53_nat n =
     (let u = 2 ^ excess_bits n; q = n div u; r = n mod u in
      if 2 * r < u \<or> (2 * r = u \<and> even q) then q * u else (q + 1) * u)"

definition round53 :: "int \<Rightarrow> int" where
  "round53 i = (if i < 0 then - int (round53_nat (nat (- i))) else int (round53_nat (nat i)))"

lemma round53_exact [simp]: "\<bar>i\<bar> < 2 ^ 53 \<Longrightarrow> round53 i = i"
  by (auto simp: round53_def round53_nat_def excess_bits.simps nat_less_iff)

text \<open>\<open>as f64\<close> of an integer, and the sum of two doubles, whose values have a power of two as
  denominator; \<open>None\<close> is an infinite result.\<close>

definition f64_of_int :: "int \<Rightarrow> rat" where
  "f64_of_int i = of_int (round53 i)"

definition f64_finite :: "rat \<Rightarrow> rat option" where
  "f64_finite q = (if \<bar>q\<bar> < 2 ^ 1024 then Some q else None)"

definition f64_add :: "rat \<Rightarrow> rat \<Rightarrow> rat option" where
  "f64_add x y = (case quotient_of (x + y) of (n, d) \<Rightarrow> f64_finite (of_int (round53 n) / of_int d))"

definition f64_whole :: "rat \<Rightarrow> bool" where
  "f64_whole q \<longleftrightarrow> of_int \<lfloor>q\<rfloor> = q"

text \<open>\<open>f as i64\<close> truncates and saturates.\<close>

definition f64_as_i64 :: "rat \<Rightarrow> int" where
  "f64_as_i64 q = max (- (2 ^ 63)) (min (2 ^ 63 - 1) (if q < 0 then \<lceil>q\<rceil> else \<lfloor>q\<rfloor>))"

text \<open>The range test \<open>f >= i64::MIN as f64 && f <= i64::MAX as f64\<close>; as a double,
  \<open>i64::MAX\<close> is \<open>2^63\<close>.\<close>

definition f64_in_i64 :: "rat \<Rightarrow> bool" where
  "f64_in_i64 q \<longleftrightarrow> - (2 ^ 63) \<le> q \<and> q \<le> 2 ^ 63"

section \<open>Values\<close>

datatype jnum = PosInt nat | NegInt int | Float rat

datatype json =
    JNull
  | JBool bool
  | JNumber jnum
  | JString string
  | JArray "json list"
  | JObject "(string \<times> json) list"

text \<open>A number from an \<open>i64\<close>.\<close>

definition jint :: "int \<Rightarrow> json" where
  "jint i = JNumber (if 0 \<le> i then PosInt (nat i) else NegInt i)"

fun jnum_as_i64 :: "jnum \<Rightarrow> int option" where
  "jnum_as_i64 (PosInt n) = (if int n < 2 ^ 63 then Some (int n) else None)"
| "jnum_as_i64 (NegInt i) = Some i"
| "jnum_as_i64 (Float q) = None"

fun jnum_as_f64 :: "jnum \<Rightarrow> rat" where
  "jnum_as_f64 (PosInt n) = f64_of_int (int n)"
| "jnum_as_f64 (NegInt i) = f64_of_int i"
| "jnum_as_f64 (Float q) = q"

fun jnum_is_int :: "jnum \<Rightarrow> bool" where
  "jnum_is_int (Float q) = False"
| "jnum_is_int _ = True"

fun as_f64 :: "json \<Rightarrow> rat option" where
  "as_f64 (JNumber n) = Some (jnum_as_f64 n)"
| "as_f64 _ = None"

fun as_i64 :: "json \<Rightarrow> int option" where
  "as_i64 (JNumber n) = jnum_as_i64 n"
| "as_i64 _ = None"

fun as_bool :: "json \<Rightarrow> bool option" where
  "as_bool (JBool b) = Some b"
| "as_bool _ = None"

fun as_object :: "json \<Rightarrow> (string \<times> json) list option" where
  "as_object (JObject o') = Some o'"
| "as_object _ = None"

fun as_array :: "json \<Rightarrow> json list option" where
  "as_array (JArray a) = Some a"
| "as_array _ = None"

fun is_number :: "json \<Rightarrow> bool" where
  "is_number (JNumber n) = True"
| "is_number _ = False"

fun is_boolean :: "json \<Rightarrow> bool" where
  "is_boolean (JBool b) = True"
| "is_boolean _ = False"

fun is_string :: "json \<Rightarrow> bool" where
  "is_string (JString s) = True"
| "is_string _ = False"

text \<open>\<open>Value::get\<close> with a key.\<close>

fun json_get :: "json \<Rightarrow> string \<Rightarrow> json option" where
  "json_get (JObject o') k = map_of o' k"
| "json_get _ k = None"

text \<open>Numbers are those of the representation: 64 bits, a negative integer below zero.\<close>

fun jnum_ok :: "jnum \<Rightarrow> bool" where
  "jnum_ok (PosInt n) \<longleftrightarrow> n < 2 ^ 64"
| "jnum_ok (NegInt i) \<longleftrightarrow> - (2 ^ 63) \<le> i \<and> i < 0"
| "jnum_ok (Float q) \<longleftrightarrow> \<bar>q\<bar> < 2 ^ 1024"

section \<open>Ordered maps\<close>

fun obj_insert :: "string \<Rightarrow> 'a \<Rightarrow> (string \<times> 'a) list \<Rightarrow> (string \<times> 'a) list" where
  "obj_insert k v [] = [(k, v)]"
| "obj_insert k v ((k', v') # xs) =
     (if k < k' then (k, v) # (k', v') # xs
      else if k = k' then (k, v) # xs
      else (k', v') # obj_insert k v xs)"

definition obj_remove :: "string \<Rightarrow> (string \<times> 'a) list \<Rightarrow> (string \<times> 'a) list" where
  "obj_remove k xs = filter (\<lambda>p. fst p \<noteq> k) xs"

definition obj_ok :: "(string \<times> 'a) list \<Rightarrow> bool" where
  "obj_ok xs \<longleftrightarrow> sorted_wrt (<) (map fst xs)"

lemma map_of_obj_insert [simp]: "obj_ok xs \<Longrightarrow> map_of (obj_insert k v xs) = (map_of xs)(k \<mapsto> v)"
proof (induction xs)
  case (Cons p xs)
  obtain k' v' where p: "p = (k', v')" by (cases p)
  have "k \<notin> fst ` set xs" if "k < k'"
    using Cons.prems that p by (force simp: obj_ok_def)
  then show ?case using Cons p by (auto simp: obj_ok_def fun_eq_iff)
qed auto

lemma map_of_obj_remove [simp]: "map_of (obj_remove k xs) = (map_of xs)(k := None)"
  by (induction xs) (auto simp: obj_remove_def fun_eq_iff)

lemma set_obj_insert: "fst ` set (obj_insert k v xs) = insert k (fst ` set xs)"
  by (induction xs rule: obj_insert.induct) auto

lemma obj_insert_ok: "obj_ok xs \<Longrightarrow> obj_ok (obj_insert k v xs)"
proof (induction xs)
  case (Cons p xs)
  obtain k' v' where p: "p = (k', v')" by (cases p)
  have xs: "obj_ok xs" "\<forall>x \<in> fst ` set xs. k' < x" using Cons.prems p by (auto simp: obj_ok_def)
  consider "k < k'" | "k = k'" | "k' < k" by fastforce
  then show ?case
  proof cases
    case 1
    then show ?thesis using Cons.prems p xs by (force simp: obj_ok_def)
  next
    case 2
    then show ?thesis using Cons.prems p by (simp add: obj_ok_def)
  next
    case 3
    have "\<forall>x \<in> fst ` set (obj_insert k v xs). k' < x" using xs(2) 3 by (simp add: set_obj_insert)
    then show ?thesis using Cons.IH [OF xs(1)] p 3 by (auto simp: obj_ok_def)
  qed
qed (simp add: obj_ok_def)

lemma obj_remove_ok: "obj_ok xs \<Longrightarrow> obj_ok (obj_remove k xs)"
  unfolding obj_ok_def obj_remove_def by (induction xs) auto

end
