(* ===== verification/Coll_Index.thy ===== *)
theory Coll_Index
  imports Json Rest_Model
begin

text \<open>
  Index columns of document collections, \<open>bluedb-collections/src/index.rs\<close>, and the values that the
  gateway writes into them, \<open>bluedb-server/src/collections.rs\<close>. A single-field index on a path has a
  hidden column named after the path; a compound index has one text column. The rendering of a JSON
  value as text (\<open>Display\<close> of \<open>serde_json\<close>) is the parameter \<open>disp\<close>.
\<close>

datatype mql_error = UnsupportedOperator string | UnsupportedStage string | Malformed string

fun mongo_code :: "mql_error \<Rightarrow> int" where
  "mongo_code (UnsupportedOperator _) = 2"
| "mongo_code (Malformed _) = 2"
| "mongo_code (UnsupportedStage _) = 115"

type_synonym json_display = "json \<Rightarrow> string"

section \<open>Names and paths\<close>

definition derived_col :: "string \<Rightarrow> string" where
  "derived_col path = ''__cidx_'' @ replace_char (CHR ''.'') ''_'' path"

definition valid_path :: "string \<Rightarrow> bool" where
  "valid_path path \<longleftrightarrow> path \<noteq> [] \<and>
     list_all (\<lambda>seg. case seg of
         [] \<Rightarrow> False
       | c # cs \<Rightarrow> (is_ascii_alphabetic c \<or> c = CHR ''_'') \<and>
                   list_all (\<lambda>x. is_ascii_alphanumeric x \<or> x = CHR ''_'') cs)
       (split_char (CHR ''.'') path)"

text \<open>The value at a path.\<close>

fun json_walk :: "json \<Rightarrow> string list \<Rightarrow> json option" where
  "json_walk cur [] = Some cur"
| "json_walk cur (part # parts) =
     (case json_get cur part of None \<Rightarrow> None | Some v \<Rightarrow> json_walk v parts)"

definition json_at :: "json \<Rightarrow> string \<Rightarrow> json option" where
  "json_at doc path = json_walk doc (split_char (CHR ''.'') path)"

definition json_text :: "json_display \<Rightarrow> json \<Rightarrow> string" where
  "json_text disp v = (case v of JString s \<Rightarrow> s | _ \<Rightarrow> disp v)"

definition derive_value :: "json_display \<Rightarrow> json \<Rightarrow> string \<Rightarrow> string option" where
  "derive_value disp doc path = map_option (json_text disp) (json_at doc path)"

section \<open>Typed columns\<close>

datatype index_type = IxNumber | IxBool | IxText

definition is_whole_number :: "json \<Rightarrow> bool" where
  "is_whole_number v =
     (case v of
        JNumber n \<Rightarrow> jnum_is_int n \<or> (f64_whole (jnum_as_f64 n) \<and> f64_in_i64 (jnum_as_f64 n))
      | _ \<Rightarrow> False)"

definition infer_index_type :: "json list \<Rightarrow> index_type" where
  "infer_index_type vs =
     (if vs \<noteq> [] \<and> list_all is_whole_number vs then IxNumber
      else if vs \<noteq> [] \<and> list_all is_boolean vs then IxBool
      else IxText)"

fun index_sql_type :: "index_type \<Rightarrow> string" where
  "index_sql_type IxNumber = ''INT''"
| "index_sql_type IxBool = ''BOOLEAN''"
| "index_sql_type IxText = ''TEXT''"

definition derive_typed_value :: "json_display \<Rightarrow> json \<Rightarrow> string \<Rightarrow> index_type \<Rightarrow> json option" where
  "derive_typed_value disp doc path t =
     (case json_at doc path of
        None \<Rightarrow> None
      | Some cur \<Rightarrow>
          (case t of
             IxNumber \<Rightarrow> if is_whole_number cur then Some cur else None
           | IxBool \<Rightarrow> if is_boolean cur then Some cur else None
           | IxText \<Rightarrow> Some (JString (json_text disp cur))))"

text \<open>The value of a column as a bound parameter.\<close>

definition json_value_to_param :: "json_display \<Rightarrow> json \<Rightarrow> rat param" where
  "json_value_to_param disp v =
     (case v of
        JBool b \<Rightarrow> PBool b
      | JNumber n \<Rightarrow>
          (case jnum_as_i64 n of
             Some i \<Rightarrow> PInt i
           | None \<Rightarrow>
               let f = jnum_as_f64 n in
               if f64_whole f \<and> f64_in_i64 f then PInt (f64_as_i64 f) else PNull)
      | JString s \<Rightarrow> PStr s
      | JNull \<Rightarrow> PNull
      | _ \<Rightarrow> PStr (disp v))"

text \<open>The conversion of a bound filter value.\<close>

definition json_to_param :: "json_display \<Rightarrow> json \<Rightarrow> rat param" where
  "json_to_param disp v =
     (case v of
        JNull \<Rightarrow> PNull
      | JBool b \<Rightarrow> PBool b
      | JNumber n \<Rightarrow> (case jnum_as_i64 n of Some i \<Rightarrow> PInt i | None \<Rightarrow> PFloat (jnum_as_f64 n))
      | JString s \<Rightarrow> PStr s
      | _ \<Rightarrow> PStr (disp v))"

section \<open>Compound columns\<close>

definition compound_col :: "string list \<Rightarrow> string" where
  "compound_col paths = ''__cidxm_'' @ join_str ''__'' (map (replace_char (CHR ''.'') ''_'') paths)"

definition encode_compound :: "string list \<Rightarrow> string" where
  "encode_compound parts = join_str [CHR 0x00] parts"

definition compound_key :: "json_display \<Rightarrow> json \<Rightarrow> string list \<Rightarrow> string" where
  "compound_key disp doc paths =
     encode_compound (map (\<lambda>p. case derive_value disp doc p of Some s \<Rightarrow> s | None \<Rightarrow> []) paths)"

text \<open>\<open>str::split\<close> on the separator of component names.\<close>

fun split_dunder :: "string \<Rightarrow> string list" where
  "split_dunder [] = [[]]"
| "split_dunder (c # cs) =
     (case cs of
        d # ds \<Rightarrow>
          if c = CHR ''_'' \<and> d = CHR ''_'' then [] # split_dunder ds
          else (case split_dunder cs of [] \<Rightarrow> [[c]] | s # ss \<Rightarrow> (c # s) # ss)
      | [] \<Rightarrow> [[c]])"

definition compound_col_def :: "string \<Rightarrow> (string \<times> string list) option" where
  "compound_col_def name =
     (case strip_prefix ''__cidxm_'' name of
        None \<Rightarrow> None
      | Some rest \<Rightarrow>
          let paths = split_dunder rest in if length paths < 2 then None else Some (name, paths))"

section \<open>The columns of a document\<close>

text \<open>What an insert or an update writes for a document: the gateway recovers the path of an index
  from the name of its column.\<close>

definition column_path :: "string \<Rightarrow> string" where
  "column_path dcol = (case strip_prefix ''__cidx_'' dcol of Some p \<Rightarrow> p | None \<Rightarrow> dcol)"

definition single_columns :: "json_display \<Rightarrow> json \<Rightarrow> (string \<times> index_type) list \<Rightarrow> (string \<times> rat param) list" where
  "single_columns disp doc dcols =
     map (\<lambda>(dcol, t). (dcol, case derive_typed_value disp doc (column_path dcol) t of
       Some v \<Rightarrow> json_value_to_param disp v | None \<Rightarrow> PNull)) dcols"

definition compound_columns :: "json_display \<Rightarrow> json \<Rightarrow> (string \<times> string list) list \<Rightarrow> (string \<times> rat param) list" where
  "compound_columns disp doc cdefs = map (\<lambda>(ccol, paths). (ccol, PStr (compound_key disp doc paths))) cdefs"

definition doc_columns ::
  "json_display \<Rightarrow> json \<Rightarrow> (string \<times> index_type) list \<Rightarrow> (string \<times> string list) list \<Rightarrow> (string \<times> rat param) list" where
  "doc_columns disp doc dcols cdefs = single_columns disp doc dcols @ compound_columns disp doc cdefs"

text \<open>What the backfill of a new index writes: the path is that of the request.\<close>

definition backfill_column :: "json_display \<Rightarrow> json \<Rightarrow> string \<Rightarrow> index_type \<Rightarrow> rat param" where
  "backfill_column disp doc path t =
     (case derive_typed_value disp doc path t of Some v \<Rightarrow> json_value_to_param disp v | None \<Rightarrow> PNull)"

section \<open>The column of a field\<close>

lemma strip_prefix_append [simp]: "strip_prefix p (p @ s) = Some s"
  by (simp add: strip_prefix_def)

lemma column_path_derived: "column_path (derived_col p) = replace_char (CHR ''.'') ''_'' p"
  unfolding column_path_def derived_col_def strip_prefix_append by simp

lemma column_path_top: "CHR ''.'' \<notin> set p \<Longrightarrow> column_path (derived_col p) = p"
  by (simp add: column_path_derived replace_char_id)

lemma json_at_top: "CHR ''.'' \<notin> set p \<Longrightarrow> json_at doc p = json_get doc p"
  by (simp add: json_at_def split_char_single split: option.split)

lemma derived_col_inj_top:
  "CHR ''.'' \<notin> set p \<Longrightarrow> CHR ''.'' \<notin> set q \<Longrightarrow> derived_col p = derived_col q \<Longrightarrow> p = q"
  using column_path_top by metis

end
