(* ===== verification/Coll_Filter.thy ===== *)
theory Coll_Filter
  imports Coll_Index "HOL-Library.AList"
begin

text \<open>
  Filters of document collections, \<open>bluedb-collections/src/filter.rs\<close>: the parser, the rendering as
  SQL text with bound values and the routing of comparisons to index columns, together with the
  index columns that a request of \<open>bluedb-server/src/collections.rs\<close> passes to it.
\<close>

datatype cmp_op = CEq | CNe | CGt | CGte | CLt | CLte | CIn | CNin | CExists | CRegex

datatype mql_filter =
    FCmp string cmp_op json
  | FAnd "mql_filter list"
  | FOr "mql_filter list"
  | FNot mql_filter
  | FTrue

section \<open>Parser\<close>

definition parse_op :: "string \<Rightarrow> mql_error + cmp_op" where
  "parse_op op =
     (if op = ''$eq'' then Inr CEq
      else if op = ''$ne'' then Inr CNe
      else if op = ''$gt'' then Inr CGt
      else if op = ''$gte'' then Inr CGte
      else if op = ''$lt'' then Inr CLt
      else if op = ''$lte'' then Inr CLte
      else if op = ''$in'' then Inr CIn
      else if op = ''$nin'' then Inr CNin
      else if op = ''$exists'' then Inr CExists
      else if op = ''$regex'' then Inr CRegex
      else Inl (UnsupportedOperator op))"

fun parse_ops :: "string \<Rightarrow> (string \<times> json) list \<Rightarrow> mql_error + mql_filter list" where
  "parse_ops path [] = Inr []"
| "parse_ops path ((op, v) # ops) =
     and_then (parse_op op) (\<lambda>c.
     and_then (parse_ops path ops) (\<lambda>fs. Inr (FCmp path c v # fs)))"

definition one_or_and :: "mql_filter list \<Rightarrow> mql_filter" where
  "one_or_and fs = (case fs of [f] \<Rightarrow> f | _ \<Rightarrow> FAnd fs)"

definition parse_field :: "string \<Rightarrow> json \<Rightarrow> mql_error + mql_filter" where
  "parse_field path v =
     (case v of
        JObject ops \<Rightarrow>
          if list_ex (\<lambda>p. starts_with ''$'' (fst p)) ops
          then and_then (parse_ops path ops) (\<lambda>fs. Inr (one_or_and fs))
          else Inr (FCmp path CEq v)
      | _ \<Rightarrow> Inr (FCmp path CEq v))"

fun parse_filter :: "json \<Rightarrow> mql_error + mql_filter"
  and parse_array :: "json \<Rightarrow> mql_error + mql_filter list"
  and parse_list :: "json list \<Rightarrow> mql_error + mql_filter list"
  and parse_clauses :: "(string \<times> json) list \<Rightarrow> mql_error + mql_filter list" where
  "parse_filter v =
     (case v of
        JObject obj \<Rightarrow>
          if obj = [] then Inr FTrue
          else and_then (parse_clauses obj) (\<lambda>fs. Inr (one_or_and fs))
      | _ \<Rightarrow> Inl (Malformed ''filter must be an object''))"
| "parse_array v =
     (case v of
        JArray xs \<Rightarrow> parse_list xs
      | _ \<Rightarrow> Inl (Malformed ''$and/$or take an array''))"
| "parse_list [] = Inr []"
| "parse_list (x # xs) =
     and_then (parse_filter x) (\<lambda>f. and_then (parse_list xs) (\<lambda>fs. Inr (f # fs)))"
| "parse_clauses [] = Inr []"
| "parse_clauses ((k, v) # rest) =
     and_then
       (if k = ''$and'' then and_then (parse_array v) (\<lambda>fs. Inr (FAnd fs))
        else if k = ''$or'' then and_then (parse_array v) (\<lambda>fs. Inr (FOr fs))
        else if k = ''$not'' then and_then (parse_filter v) (\<lambda>f. Inr (FNot f))
        else if starts_with ''$'' k then Inl (UnsupportedOperator k)
        else parse_field k v)
       (\<lambda>f. and_then (parse_clauses rest) (\<lambda>fs. Inr (f # fs)))"

fun eq_child :: "mql_filter \<Rightarrow> (string \<times> json) option" where
  "eq_child (FCmp path CEq v) = Some (path, v)"
| "eq_child _ = None"

fun eq_children :: "mql_filter list \<Rightarrow> (string \<times> json) list \<Rightarrow> (string \<times> json) list option" where
  "eq_children [] m = Some m"
| "eq_children (f # fs) m =
     (case eq_child f of None \<Rightarrow> None | Some (p, v) \<Rightarrow> eq_children fs (AList.update p v m))"

fun eq_map :: "mql_filter \<Rightarrow> (string \<times> json) list option" where
  "eq_map FTrue = Some []"
| "eq_map (FAnd fs) = eq_children fs []"
| "eq_map f = map_option (\<lambda>p. [p]) (eq_child f)"

section \<open>SQL text\<close>

type_synonym bound_values = "json list"

definition bind_value :: "bound_values \<Rightarrow> json \<Rightarrow> string \<times> bound_values" where
  "bind_value params v = (CHR ''$'' # show_nat (length params + 1), params @ [v])"

fun bind_values :: "json list \<Rightarrow> bound_values \<Rightarrow> string list \<times> bound_values" where
  "bind_values [] params = ([], params)"
| "bind_values (v # vs) params =
     (let (b, params1) = bind_value params v; (bs, params2) = bind_values vs params1 in (b # bs, params2))"

definition quote_char :: char where "quote_char = CHR 0x27"

fun accessor_parts :: "string list \<Rightarrow> string" where
  "accessor_parts [] = []"
| "accessor_parts [p] = ''->>'' @ [quote_char] @ replace_char quote_char [quote_char, quote_char] p @ [quote_char]"
| "accessor_parts (p # ps) =
     ''->'' @ [quote_char] @ replace_char quote_char [quote_char, quote_char] p @ [quote_char] @ accessor_parts ps"

definition sort_accessor :: "string \<Rightarrow> string" where
  "sort_accessor path =
     (if path = ''_id'' then ''_id''
      else ''(doc'' @ accessor_parts (split_char (CHR ''.'') path) @ '')'')"

definition col_ref :: "string \<Rightarrow> string" where
  "col_ref path = sort_accessor path"

definition is_numeric :: "json \<Rightarrow> bool" where
  "is_numeric v =
     (case v of
        JNumber _ \<Rightarrow> True
      | JArray items \<Rightarrow> items \<noteq> [] \<and> list_all is_number items
      | _ \<Rightarrow> False)"

definition value_items :: "json \<Rightarrow> json list" where
  "value_items v = (case as_array v of Some xs \<Rightarrow> xs | None \<Rightarrow> [])"

definition in_sql :: "string \<Rightarrow> json \<Rightarrow> bound_values \<Rightarrow> string \<times> bound_values" where
  "in_sql col v params =
     (let (bs, params') = bind_values (value_items v) params
      in (col @ '' IN ('' @ join_str '', '' bs @ '')'', params'))"

definition in_sql_nin :: "string \<Rightarrow> json \<Rightarrow> bound_values \<Rightarrow> string \<times> bound_values" where
  "in_sql_nin col v params =
     (let (bs, params') = bind_values (value_items v) params
      in (''('' @ col @ '' NOT IN ('' @ join_str '', '' bs @ '') OR '' @ col @ '' IS NULL)'', params'))"

definition exists_want :: "json \<Rightarrow> bool" where
  "exists_want v = (case as_bool v of Some b \<Rightarrow> b | None \<Rightarrow> True)"

text \<open>A comparison over a column expression; the same text for a plain column and for an accessor.\<close>

definition binop_sql :: "string \<Rightarrow> string \<Rightarrow> json \<Rightarrow> bound_values \<Rightarrow> string \<times> bound_values" where
  "binop_sql col op v params = (let (b, params') = bind_value params v in (col @ op @ b, params'))"

fun cmp_sql_col :: "string \<Rightarrow> cmp_op \<Rightarrow> json \<Rightarrow> bound_values \<Rightarrow> string \<times> bound_values" where
  "cmp_sql_col col CEq v params = binop_sql col '' = '' v params"
| "cmp_sql_col col CNe v params =
     (let (b, params') = bind_value params v
      in (''('' @ col @ '' <> '' @ b @ '' OR '' @ col @ '' IS NULL)'', params'))"
| "cmp_sql_col col CGt v params = binop_sql col '' > '' v params"
| "cmp_sql_col col CGte v params = binop_sql col '' >= '' v params"
| "cmp_sql_col col CLt v params = binop_sql col '' < '' v params"
| "cmp_sql_col col CLte v params = binop_sql col '' <= '' v params"
| "cmp_sql_col col CIn v params = in_sql col v params"
| "cmp_sql_col col CNin v params = in_sql_nin col v params"
| "cmp_sql_col col CExists v params =
     (if exists_want v then (col @ '' IS NOT NULL'', params) else (col @ '' IS NULL'', params))"
| "cmp_sql_col col CRegex v params = binop_sql col '' ~ '' v params"

definition cmp_sql :: "string \<Rightarrow> cmp_op \<Rightarrow> json \<Rightarrow> bound_values \<Rightarrow> string \<times> bound_values" where
  "cmp_sql path op v params =
     (let base = col_ref path;
        col = (if path \<noteq> ''_id'' \<and> is_numeric v then ''CAST('' @ base @ '' AS DOUBLE)'' else base)
      in cmp_sql_col col op v params)"

fun to_sql :: "mql_filter \<Rightarrow> bound_values \<Rightarrow> string \<times> bound_values"
  and join_sql :: "mql_filter list \<Rightarrow> bound_values \<Rightarrow> string list \<times> bound_values" where
  "to_sql FTrue params = (''TRUE'', params)"
| "to_sql (FAnd fs) params = (let (parts, params') = join_sql fs params in (join_str '' AND '' parts, params'))"
| "to_sql (FOr fs) params = (let (parts, params') = join_sql fs params in (join_str '' OR '' parts, params'))"
| "to_sql (FNot f) params = (let (s, params') = to_sql f params in (''NOT ('' @ s @ '')'', params'))"
| "to_sql (FCmp path op v) params = cmp_sql path op v params"
| "join_sql [] params = ([], params)"
| "join_sql (f # fs) params =
     (let (s, params1) = to_sql f params; (ss, params2) = join_sql fs params1
      in ((''('' @ s @ '')'') # ss, params2))"

section \<open>Routing to index columns\<close>

type_synonym index_map = "(string \<times> index_type) list"

definition value_matches_type :: "json \<Rightarrow> index_type \<Rightarrow> bool" where
  "value_matches_type v t =
     (case t of IxNumber \<Rightarrow> is_whole_number v | IxBool \<Rightarrow> is_boolean v | IxText \<Rightarrow> is_string v)"

definition canonical_int :: "json \<Rightarrow> json" where
  "canonical_int v =
     (case v of
        JNumber n \<Rightarrow>
          let f = jnum_as_f64 n in
          if \<not> jnum_is_int n \<and> f64_whole f \<and> f64_in_i64 f then jint (f64_as_i64 f) else v
      | _ \<Rightarrow> v)"

definition canonicalize_number_for_index :: "cmp_op \<Rightarrow> json \<Rightarrow> json" where
  "canonicalize_number_for_index op v =
     (if op = CIn \<or> op = CNin
      then (case v of JArray xs \<Rightarrow> JArray (map canonical_int xs) | _ \<Rightarrow> v)
      else canonical_int v)"

definition use_index :: "cmp_op \<Rightarrow> json \<Rightarrow> index_type \<Rightarrow> bool" where
  "use_index op v t =
     (if op = CExists then True
      else if op = CIn \<or> op = CNin
      then (case v of JArray xs \<Rightarrow> xs \<noteq> [] \<and> list_all (\<lambda>x. value_matches_type x t) xs | _ \<Rightarrow> False)
      else value_matches_type v t)"

definition routed_cmp :: "index_map \<Rightarrow> string \<Rightarrow> cmp_op \<Rightarrow> json \<Rightarrow> index_type option" where
  "routed_cmp indexed path op v =
     (if path = ''_id'' then None
      else case map_of indexed (derived_col path) of
        Some t \<Rightarrow> if use_index op v t then Some t else None
      | None \<Rightarrow> None)"

definition cmp_sql_indexed :: "index_map \<Rightarrow> string \<Rightarrow> cmp_op \<Rightarrow> json \<Rightarrow> bound_values \<Rightarrow> string \<times> bound_values" where
  "cmp_sql_indexed indexed path op v params =
     (case routed_cmp indexed path op v of
        Some t \<Rightarrow>
          cmp_sql_col (derived_col path) op
            (if t = IxNumber then canonicalize_number_for_index op v else v) params
      | None \<Rightarrow> cmp_sql path op v params)"

fun to_sql_indexed :: "mql_filter \<Rightarrow> bound_values \<Rightarrow> index_map \<Rightarrow> string \<times> bound_values"
  and join_indexed :: "mql_filter list \<Rightarrow> bound_values \<Rightarrow> index_map \<Rightarrow> string list \<times> bound_values" where
  "to_sql_indexed FTrue params indexed = (''TRUE'', params)"
| "to_sql_indexed (FAnd fs) params indexed =
     (let (parts, params') = join_indexed fs params indexed in (join_str '' AND '' parts, params'))"
| "to_sql_indexed (FOr fs) params indexed =
     (let (parts, params') = join_indexed fs params indexed in (join_str '' OR '' parts, params'))"
| "to_sql_indexed (FNot f) params indexed =
     (let (s, params') = to_sql_indexed f params indexed in (''NOT ('' @ s @ '')'', params'))"
| "to_sql_indexed (FCmp path op v) params indexed = cmp_sql_indexed indexed path op v params"
| "join_indexed [] params indexed = ([], params)"
| "join_indexed (f # fs) params indexed =
     (let (s, params1) = to_sql_indexed f params indexed; (ss, params2) = join_indexed fs params1 indexed
      in ((''('' @ s @ '')'') # ss, params2))"

fun collect_filter_paths :: "mql_filter \<Rightarrow> string list" where
  "collect_filter_paths FTrue = []"
| "collect_filter_paths (FCmp path op v) = [path]"
| "collect_filter_paths (FAnd fs) = concat (map collect_filter_paths fs)"
| "collect_filter_paths (FOr fs) = concat (map collect_filter_paths fs)"
| "collect_filter_paths (FNot f) = collect_filter_paths f"

text \<open>The index columns that a request passes to the rendering.\<close>

definition request_index_map :: "mql_filter \<Rightarrow> index_map \<Rightarrow> index_map" where
  "request_index_map f dcols =
     List.map_filter (\<lambda>p. map_option (\<lambda>t. (derived_col p, t)) (map_of dcols (derived_col p)))
       (collect_filter_paths f)"

end
