(* ===== verification/Coll_Semantics.thy ===== *)
theory Coll_Semantics
  imports Coll_Filter
begin

text \<open>
  What a rendered filter means. The text that \<open>to_sql_indexed\<close> writes is that of a tree of
  predicates over column expressions; the tree is evaluated in the three-valued logic of SQL. The
  reference is the same evaluation on the document itself. For fields whose values fit their index
  the two agree.
\<close>

section \<open>Predicates over columns\<close>

datatype operand = OCol string | OAcc string | OCast string

fun operand_text :: "operand \<Rightarrow> string" where
  "operand_text (OCol c) = c"
| "operand_text (OAcc p) = col_ref p"
| "operand_text (OCast p) = ''CAST('' @ col_ref p @ '' AS DOUBLE)''"

datatype pred = PTrue | PAnd "pred list" | POr "pred list" | PNot pred | PCmp operand cmp_op json

fun pred_sql :: "pred \<Rightarrow> bound_values \<Rightarrow> string \<times> bound_values"
  and preds_sql :: "pred list \<Rightarrow> bound_values \<Rightarrow> string list \<times> bound_values" where
  "pred_sql PTrue params = (''TRUE'', params)"
| "pred_sql (PAnd ps) params = (let (parts, params') = preds_sql ps params in (join_str '' AND '' parts, params'))"
| "pred_sql (POr ps) params = (let (parts, params') = preds_sql ps params in (join_str '' OR '' parts, params'))"
| "pred_sql (PNot p) params = (let (s, params') = pred_sql p params in (''NOT ('' @ s @ '')'', params'))"
| "pred_sql (PCmp x op v) params = cmp_sql_col (operand_text x) op v params"
| "preds_sql [] params = ([], params)"
| "preds_sql (p # ps) params =
     (let (s, params1) = pred_sql p params; (ss, params2) = preds_sql ps params1
      in ((''('' @ s @ '')'') # ss, params2))"

definition route_cmp :: "index_map \<Rightarrow> string \<Rightarrow> cmp_op \<Rightarrow> json \<Rightarrow> pred" where
  "route_cmp indexed path op v =
     (case routed_cmp indexed path op v of
        Some t \<Rightarrow> PCmp (OCol (derived_col path)) op (if t = IxNumber then canonicalize_number_for_index op v else v)
      | None \<Rightarrow> PCmp (if path \<noteq> ''_id'' \<and> is_numeric v then OCast path else OAcc path) op v)"

fun route :: "index_map \<Rightarrow> mql_filter \<Rightarrow> pred" where
  "route indexed FTrue = PTrue"
| "route indexed (FAnd fs) = PAnd (map (route indexed) fs)"
| "route indexed (FOr fs) = POr (map (route indexed) fs)"
| "route indexed (FNot f) = PNot (route indexed f)"
| "route indexed (FCmp path op v) = route_cmp indexed path op v"

text \<open>The text of a filter is the text of its tree.\<close>

lemma cmp_sql_indexed_route: "cmp_sql_indexed indexed path op v params = pred_sql (route_cmp indexed path op v) params"
  by (simp add: cmp_sql_indexed_def route_cmp_def cmp_sql_def Let_def split: option.split)

lemma to_sql_indexed_route:
  "to_sql_indexed f params indexed = pred_sql (route indexed f) params"
  "join_indexed fs params indexed = preds_sql (map (route indexed) fs) params"
  by (induction f params indexed and fs params indexed rule: to_sql_indexed_join_indexed.induct)
    (simp_all add: cmp_sql_indexed_route split: prod.split)

lemma routed_cmp_Nil [simp]: "routed_cmp [] path op v = None"
  by (simp add: routed_cmp_def)

lemma to_sql_route:
  "to_sql f params = pred_sql (route [] f) params"
  "join_sql fs params = preds_sql (map (route []) fs) params"
  by (induction f params and fs params rule: to_sql_join_sql.induct)
    (simp_all add: route_cmp_def cmp_sql_def Let_def split: prod.split)

section \<open>Three-valued logic\<close>

definition not3 :: "bool option \<Rightarrow> bool option" where
  "not3 x = map_option Not x"

definition and3 :: "bool option \<Rightarrow> bool option \<Rightarrow> bool option" where
  "and3 x y =
     (if x = Some False \<or> y = Some False then Some False
      else if x = None \<or> y = None then None else Some True)"

definition or3 :: "bool option \<Rightarrow> bool option \<Rightarrow> bool option" where
  "or3 x y =
     (if x = Some True \<or> y = Some True then Some True
      else if x = None \<or> y = None then None else Some False)"

text \<open>The order of two values of one type; \<open>None\<close> when a value is missing or the types differ.\<close>

definition order3 :: "'a :: linorder \<Rightarrow> 'a \<Rightarrow> int" where
  "order3 x y = (if x < y then - 1 else if x = y then 0 else 1)"

fun compare3 :: "rat param \<Rightarrow> rat param \<Rightarrow> int option" where
  "compare3 (PInt i) (PInt j) = Some (order3 i j)"
| "compare3 (PInt i) (PFloat y) = Some (order3 (of_int i) y)"
| "compare3 (PFloat x) (PInt j) = Some (order3 x (of_int j))"
| "compare3 (PFloat x) (PFloat y) = Some (order3 x y)"
| "compare3 (PStr s) (PStr t) = Some (order3 s t)"
| "compare3 (PBool a) (PBool b) = Some (order3 a b)"
| "compare3 _ _ = None"

definition eq3 :: "rat param \<Rightarrow> rat param \<Rightarrow> bool option" where
  "eq3 x y = map_option (\<lambda>c. c = 0) (compare3 x y)"

definition in3 :: "rat param \<Rightarrow> rat param list \<Rightarrow> bool option" where
  "in3 x ys = foldr (\<lambda>y r. or3 (eq3 x y) r) ys (Some False)"

definition is_null :: "rat param \<Rightarrow> bool" where
  "is_null x \<longleftrightarrow> x = PNull"

text \<open>One comparison, of a value with the values bound for it. \<open>rx\<close> is the regular-expression match.\<close>

fun cmp3 :: "(string \<Rightarrow> string \<Rightarrow> bool) \<Rightarrow> cmp_op \<Rightarrow> rat param \<Rightarrow> rat param \<Rightarrow> rat param list \<Rightarrow> bool \<Rightarrow> bool option" where
  "cmp3 rx CEq x v vs w = eq3 x v"
| "cmp3 rx CNe x v vs w = or3 (not3 (eq3 x v)) (Some (is_null x))"
| "cmp3 rx CGt x v vs w = map_option (\<lambda>c. c > 0) (compare3 x v)"
| "cmp3 rx CGte x v vs w = map_option (\<lambda>c. c \<ge> 0) (compare3 x v)"
| "cmp3 rx CLt x v vs w = map_option (\<lambda>c. c < 0) (compare3 x v)"
| "cmp3 rx CLte x v vs w = map_option (\<lambda>c. c \<le> 0) (compare3 x v)"
| "cmp3 rx CIn x v vs w = in3 x vs"
| "cmp3 rx CNin x v vs w = or3 (not3 (in3 x vs)) (Some (is_null x))"
| "cmp3 rx CExists x v vs w = Some (is_null x \<noteq> w)"
| "cmp3 rx CRegex x v vs w = (case (x, v) of (PStr s, PStr r) \<Rightarrow> Some (rx s r) | _ \<Rightarrow> None)"

fun eval3 :: "json_display \<Rightarrow> (string \<Rightarrow> string \<Rightarrow> bool) \<Rightarrow> (operand \<Rightarrow> rat param) \<Rightarrow> pred \<Rightarrow> bool option" where
  "eval3 disp rx env PTrue = Some True"
| "eval3 disp rx env (PAnd ps) = foldr (\<lambda>p r. and3 (eval3 disp rx env p) r) ps (Some True)"
| "eval3 disp rx env (POr ps) = foldr (\<lambda>p r. or3 (eval3 disp rx env p) r) ps (Some False)"
| "eval3 disp rx env (PNot p) = not3 (eval3 disp rx env p)"
| "eval3 disp rx env (PCmp x op v) =
     cmp3 rx op (env x) (json_to_param disp v) (map (json_to_param disp) (value_items v)) (exists_want v)"

section \<open>The reference\<close>

fun jnum_val :: "jnum \<Rightarrow> rat" where
  "jnum_val (PosInt n) = of_nat n"
| "jnum_val (NegInt i) = of_int i"
| "jnum_val (Float q) = q"

definition doc_param :: "json_display \<Rightarrow> json \<Rightarrow> rat param" where
  "doc_param disp v =
     (case v of
        JNull \<Rightarrow> PNull
      | JBool b \<Rightarrow> PBool b
      | JNumber n \<Rightarrow> PFloat (jnum_val n)
      | JString s \<Rightarrow> PStr s
      | _ \<Rightarrow> PStr (disp v))"

definition field_param :: "json_display \<Rightarrow> json \<Rightarrow> string \<Rightarrow> rat param" where
  "field_param disp doc path = (case json_at doc path of Some v \<Rightarrow> doc_param disp v | None \<Rightarrow> PNull)"

fun matches3 :: "json_display \<Rightarrow> (string \<Rightarrow> string \<Rightarrow> bool) \<Rightarrow> json \<Rightarrow> mql_filter \<Rightarrow> bool option" where
  "matches3 disp rx doc FTrue = Some True"
| "matches3 disp rx doc (FAnd fs) = foldr (\<lambda>f r. and3 (matches3 disp rx doc f) r) fs (Some True)"
| "matches3 disp rx doc (FOr fs) = foldr (\<lambda>f r. or3 (matches3 disp rx doc f) r) fs (Some False)"
| "matches3 disp rx doc (FNot f) = not3 (matches3 disp rx doc f)"
| "matches3 disp rx doc (FCmp path op v) =
     cmp3 rx op (field_param disp doc path) (doc_param disp v) (map (doc_param disp) (value_items v)) (exists_want v)"

section \<open>Values that fit an index\<close>

definition fits_i64 :: "json \<Rightarrow> bool" where
  "fits_i64 v =
     (case v of
        JNumber n \<Rightarrow> jnum_ok n \<and> f64_whole (jnum_val n) \<and> - (2 ^ 63) \<le> jnum_val n \<and> jnum_val n < 2 ^ 63
      | _ \<Rightarrow> False)"

definition fits_index :: "json \<Rightarrow> index_type \<Rightarrow> bool" where
  "fits_index v t =
     (case t of IxNumber \<Rightarrow> fits_i64 v | IxBool \<Rightarrow> is_boolean v | IxText \<Rightarrow> is_string v)"

text \<open>Two representations of one value.\<close>

fun same_value :: "rat param \<Rightarrow> rat param \<Rightarrow> bool" where
  "same_value (PInt i) (PFloat x) \<longleftrightarrow> x = of_int i"
| "same_value x y \<longleftrightarrow> x = y"

lemma order3_of_int [simp]: "order3 (of_int i :: rat) (of_int j) = order3 i j"
  by (simp add: order3_def)

lemma compare3_same: "same_value x x' \<Longrightarrow> same_value y y' \<Longrightarrow> compare3 x y = compare3 x' y'"
  by (cases x; cases x'; cases y; cases y') auto

lemma eq3_same: "same_value x x' \<Longrightarrow> same_value y y' \<Longrightarrow> eq3 x y = eq3 x' y'"
  using compare3_same by (simp add: eq3_def)

lemma in3_same: "same_value x x' \<Longrightarrow> list_all2 same_value ys ys' \<Longrightarrow> in3 x ys = in3 x' ys'"
  unfolding in3_def by (induction ys arbitrary: ys') (auto simp: eq3_same list_all2_Cons1)

lemma same_value_null: "same_value x y \<Longrightarrow> is_null x = is_null y"
  by (cases x; cases y) (auto simp: is_null_def)

lemma same_value_str: "same_value x y \<Longrightarrow> x = PStr s \<longleftrightarrow> y = PStr s"
  by (cases x; cases y) auto

lemma cmp3_same:
  assumes "same_value x x'"
    and "op \<notin> {CIn, CNin, CExists} \<Longrightarrow> same_value v v'"
    and "op \<in> {CIn, CNin} \<Longrightarrow> list_all2 same_value vs vs'"
  shows "cmp3 rx op x v vs w = cmp3 rx op x' v' vs' w"
proof -
  have "op = CRegex \<Longrightarrow> ?thesis"
    using assms by (cases x; cases x'; cases v; cases v') auto
  then show ?thesis
    using assms by (cases op) (auto simp: compare3_same eq3_same in3_same same_value_null)
qed

lemma same_value_refl [simp]: "same_value x x"
  by (cases x) auto

text \<open>Stored and bound values represent the value in the document.\<close>

lemma whole_int: "f64_whole q \<Longrightarrow> q = of_int \<lfloor>q\<rfloor>"
  by (simp only: f64_whole_def)

lemma fits_i64_int:
  assumes "fits_i64 (JNumber n)"
  obtains i where "jnum_val n = of_int i" "- (2 ^ 63) \<le> i" "i < 2 ^ 63"
proof -
  have n: "jnum_val n = of_int \<lfloor>jnum_val n\<rfloor>" "- (2 ^ 63) \<le> jnum_val n" "jnum_val n < 2 ^ 63"
    using assms whole_int by (auto simp: fits_i64_def)
  then have "(of_int (- (2 ^ 63)) :: rat) \<le> of_int \<lfloor>jnum_val n\<rfloor>" "(of_int \<lfloor>jnum_val n\<rfloor> :: rat) < of_int (2 ^ 63)"
    by (simp_all del: of_int_floor_le)
  then show thesis using that n(1) by (simp only: of_int_le_iff of_int_less_iff)
qed

lemma fits_i64_float:
  assumes "fits_i64 (JNumber (Float q))"
  obtains i where "q = of_int i" "- (2 ^ 63) \<le> i" "i < 2 ^ 63" "f64_whole q" "f64_in_i64 q" "f64_as_i64 q = i"
proof -
  obtain i where i: "q = of_int i" "- (2 ^ 63) \<le> i" "i < 2 ^ 63"
    using fits_i64_int [OF assms] by auto
  have "f64_in_i64 q" using assms by (simp add: fits_i64_def f64_in_i64_def)
  then show thesis
    using that i by (simp add: f64_whole_def f64_as_i64_def)
qed

lemma stored_value:
  assumes "fits_index v t"
  shows "is_whole_number v \<or> t \<noteq> IxNumber" "same_value (json_value_to_param disp v) (doc_param disp v)"
proof -
  have "(is_whole_number v \<or> t \<noteq> IxNumber) \<and> same_value (json_value_to_param disp v) (doc_param disp v)"
  proof (cases t)
    case IxNumber
    then obtain n where n: "v = JNumber n" "fits_i64 v"
      using assms by (cases v) (auto simp: fits_index_def fits_i64_def)
    show ?thesis
    proof (cases n)
      case (Float q)
      show ?thesis
        by (rule fits_i64_float [of q]) (use n Float in \<open>auto simp: is_whole_number_def json_value_to_param_def doc_param_def Let_def\<close>)
    next
      case (PosInt m)
      obtain i where "of_nat m = (of_int i :: rat)" "i < 2 ^ 63" using fits_i64_int [of n] n PosInt by auto
      then have "int m < 2 ^ 63" by (metis of_int_eq_iff of_int_of_nat_eq)
      then show ?thesis using n PosInt by (simp add: is_whole_number_def json_value_to_param_def doc_param_def)
    qed (use n in \<open>simp_all add: is_whole_number_def json_value_to_param_def doc_param_def\<close>)
  next
    case IxBool
    then show ?thesis using assms by (cases v) (auto simp: fits_index_def json_value_to_param_def doc_param_def)
  next
    case IxText
    then show ?thesis using assms by (cases v) (auto simp: fits_index_def json_value_to_param_def doc_param_def)
  qed
  then show "is_whole_number v \<or> t \<noteq> IxNumber" "same_value (json_value_to_param disp v) (doc_param disp v)" by auto
qed

lemma bound_value:
  assumes "fits_index v t"
  shows "same_value (json_to_param disp (if t = IxNumber then canonical_int v else v)) (doc_param disp v)"
proof (cases t)
  case IxNumber
  then obtain n where n: "v = JNumber n" "fits_i64 v"
    using assms by (cases v) (auto simp: fits_index_def fits_i64_def)
  show ?thesis
  proof (cases n)
    case (Float q)
    show ?thesis
      by (rule fits_i64_float [of q])
        (use n Float IxNumber in \<open>auto simp: canonical_int_def json_to_param_def doc_param_def Let_def jint_def\<close>)
  next
    case (PosInt m)
    obtain i where "of_nat m = (of_int i :: rat)" "i < 2 ^ 63" using fits_i64_int [of n] n PosInt by auto
    then have "int m < 2 ^ 63" by (metis of_int_eq_iff of_int_of_nat_eq)
    then show ?thesis using n PosInt IxNumber by (simp add: canonical_int_def json_to_param_def doc_param_def)
  qed (use n IxNumber in \<open>simp_all add: canonical_int_def json_to_param_def doc_param_def\<close>)
next
  case IxBool
  then show ?thesis using assms by (cases v) (auto simp: fits_index_def json_to_param_def doc_param_def)
next
  case IxText
  then show ?thesis using assms by (cases v) (auto simp: fits_index_def json_to_param_def doc_param_def)
qed

section \<open>Routing is correct\<close>

text \<open>The row that the gateway writes for a document.\<close>

definition row_env :: "json_display \<Rightarrow> json \<Rightarrow> index_map \<Rightarrow> (string \<times> string list) list \<Rightarrow> (string \<Rightarrow> rat param) \<Rightarrow> (string \<Rightarrow> rat param) \<Rightarrow> operand \<Rightarrow> rat param" where
  "row_env disp doc dcols cdefs acc cast x =
     (case x of
        OCol c \<Rightarrow> (case map_of (doc_columns disp doc dcols cdefs) c of Some p \<Rightarrow> p | None \<Rightarrow> PNull)
      | OAcc p \<Rightarrow> acc p
      | OCast p \<Rightarrow> cast p)"

definition items_of :: "cmp_op \<Rightarrow> json \<Rightarrow> json list" where
  "items_of op v = (if op = CExists then [] else if op = CIn \<or> op = CNin then value_items v else [v])"

text \<open>Conjunctions and disjunctions are not empty (the text of an empty one is empty), and every
  comparison is on a top-level field with an index, with values of the type of the index, and
  the field is absent from the document or has a value of that type.\<close>

fun index_fits :: "json \<Rightarrow> index_map \<Rightarrow> mql_filter \<Rightarrow> bool" where
  "index_fits doc dcols FTrue = True"
| "index_fits doc dcols (FAnd fs) = (fs \<noteq> [] \<and> list_all (index_fits doc dcols) fs)"
| "index_fits doc dcols (FOr fs) = (fs \<noteq> [] \<and> list_all (index_fits doc dcols) fs)"
| "index_fits doc dcols (FNot f) = index_fits doc dcols f"
| "index_fits doc dcols (FCmp path op v) =
     (CHR ''.'' \<notin> set path \<and> path \<noteq> ''_id'' \<and>
      (case map_of dcols (derived_col path) of
         None \<Rightarrow> False
       | Some t \<Rightarrow>
           ((op = CIn \<or> op = CNin) \<longrightarrow> value_items v \<noteq> []) \<and>
           list_all (\<lambda>x. fits_index x t) (items_of op v) \<and>
           (case json_at doc path of None \<Rightarrow> True | Some x \<Rightarrow> fits_index x t)))"

lemma fits_matches: "fits_index v t \<Longrightarrow> value_matches_type v t"
  using stored_value(1) [of v t] by (cases t) (auto simp: fits_index_def value_matches_type_def)

lemma fits_routed:
  assumes "index_fits doc dcols (FCmp path op v)"
    and "map_of indexed (derived_col path) = map_of dcols (derived_col path)"
  obtains t where "routed_cmp indexed path op v = Some t" "map_of dcols (derived_col path) = Some t"
    "list_all (\<lambda>x. fits_index x t) (items_of op v)"
    "case json_at doc path of None \<Rightarrow> True | Some x \<Rightarrow> fits_index x t"
proof -
  obtain t where t: "map_of dcols (derived_col path) = Some t" using assms(1) by (auto split: option.splits)
  have fits: "list_all (\<lambda>x. fits_index x t) (items_of op v)" "(op = CIn \<or> op = CNin) \<Longrightarrow> value_items v \<noteq> []"
    "case json_at doc path of None \<Rightarrow> True | Some x \<Rightarrow> fits_index x t" using assms(1) t by auto
  have "use_index op v t"
  proof (cases "op = CIn \<or> op = CNin")
    case True
    then obtain xs where "v = JArray xs" using fits(2) by (cases v) (auto simp: value_items_def)
    then show ?thesis
      using True fits fits_matches by (auto simp: use_index_def items_of_def value_items_def list_all_iff)
  next
    case False
    then show ?thesis using fits(1) fits_matches by (auto simp: use_index_def items_of_def)
  qed
  then have "routed_cmp indexed path op v = Some t" using assms t by (simp add: routed_cmp_def)
  then show thesis using that t fits by blast
qed

lemma single_columns_lookup:
  "map_of (single_columns disp doc dcols) c = map_option (\<lambda>t. case derive_typed_value disp doc (column_path c) t of
     Some v \<Rightarrow> json_value_to_param disp v | None \<Rightarrow> PNull) (map_of dcols c)"
  by (induction dcols) (auto simp: single_columns_def)

lemma column_value:
  assumes "map_of dcols (derived_col path) = Some t" "CHR ''.'' \<notin> set path"
    and "case json_at doc path of None \<Rightarrow> True | Some x \<Rightarrow> fits_index x t"
  shows "same_value (row_env disp doc dcols cdefs acc cast (OCol (derived_col path))) (field_param disp doc path)"
proof -
  have env: "row_env disp doc dcols cdefs acc cast (OCol (derived_col path)) =
    (case derive_typed_value disp doc path t of Some v \<Rightarrow> json_value_to_param disp v | None \<Rightarrow> PNull)"
    using assms(1) column_path_top [OF assms(2)]
    by (simp add: row_env_def doc_columns_def single_columns_lookup map_add_def split: option.split)
  show ?thesis
  proof (cases "json_at doc path")
    case None
    then show ?thesis by (simp add: env derive_typed_value_def field_param_def)
  next
    case (Some x)
    then have fits: "fits_index x t" using assms(3) by simp
    have "derive_typed_value disp doc path t = Some x"
      using Some fits stored_value(1) [OF fits]
      by (cases t; cases x) (auto simp: derive_typed_value_def fits_index_def json_text_def)
    then show ?thesis using stored_value(2) [OF fits] Some by (simp add: env field_param_def)
  qed
qed

lemma routed_cmp_correct:
  assumes "index_fits doc dcols (FCmp path op v)"
    and "map_of indexed (derived_col path) = map_of dcols (derived_col path)"
  shows "eval3 disp rx (row_env disp doc dcols cdefs acc cast) (route indexed (FCmp path op v))
    = matches3 disp rx doc (FCmp path op v)"
proof -
  obtain t where t: "routed_cmp indexed path op v = Some t" "map_of dcols (derived_col path) = Some t"
    "list_all (\<lambda>x. fits_index x t) (items_of op v)"
    "case json_at doc path of None \<Rightarrow> True | Some x \<Rightarrow> fits_index x t"
    by (rule fits_routed [OF assms])
  define v' where "v' = (if t = IxNumber then canonicalize_number_for_index op v else v)"
  have dot: "CHR ''.'' \<notin> set path" using assms(1) by simp
  have one: "same_value (json_to_param disp v') (doc_param disp v)" if "op \<notin> {CIn, CNin, CExists}"
    using t(3) that bound_value [of v t disp]
    by (auto simp: v'_def canonicalize_number_for_index_def items_of_def)
  have many: "list_all2 same_value (map (json_to_param disp) (value_items v')) (map (doc_param disp) (value_items v))"
    if "op \<in> {CIn, CNin}"
  proof -
    have "value_items v' = map (\<lambda>x. if t = IxNumber then canonical_int x else x) (value_items v)"
      using that by (cases v) (auto simp: v'_def canonicalize_number_for_index_def value_items_def)
    moreover have "list_all (\<lambda>x. fits_index x t) (value_items v)" using t(3) that by (auto simp: items_of_def)
    ultimately show ?thesis
      using bound_value by (auto simp: list_all2_map1 list_all2_map2 list_all_iff intro!: list.rel_refl_strong)
  qed
  have want: "exists_want v' = exists_want v \<or> op \<noteq> CExists"
    by (cases v) (auto simp: v'_def canonicalize_number_for_index_def canonical_int_def exists_want_def Let_def jint_def)
  have "cmp3 rx op (row_env disp doc dcols cdefs acc cast (OCol (derived_col path))) (json_to_param disp v')
      (map (json_to_param disp) (value_items v')) w
    = cmp3 rx op (field_param disp doc path) (doc_param disp v) (map (doc_param disp) (value_items v)) w" for w
    by (rule cmp3_same [OF column_value [OF t(2) dot t(4)] one many])
  then have "cmp3 rx op (row_env disp doc dcols cdefs acc cast (OCol (derived_col path))) (json_to_param disp v')
      (map (json_to_param disp) (value_items v')) (exists_want v')
    = cmp3 rx op (field_param disp doc path) (doc_param disp v) (map (doc_param disp) (value_items v)) (exists_want v)"
    using want by (cases op) auto
  moreover have "route indexed (FCmp path op v) = PCmp (OCol (derived_col path)) op v'"
    using t(1) by (simp add: route_cmp_def v'_def)
  ultimately show ?thesis by simp
qed

lemma route_correct:
  assumes "index_fits doc dcols f"
    and "\<And>p. p \<in> set (collect_filter_paths f) \<Longrightarrow> map_of indexed (derived_col p) = map_of dcols (derived_col p)"
  shows "eval3 disp rx (row_env disp doc dcols cdefs acc cast) (route indexed f) = matches3 disp rx doc f"
  using assms
proof (induction f)
  case (FCmp path op v)
  show ?case by (rule routed_cmp_correct [OF FCmp(1)]) (use FCmp(2) in simp)
next
  case (FAnd fs)
  have "\<forall>f \<in> set fs. eval3 disp rx (row_env disp doc dcols cdefs acc cast) (route indexed f) = matches3 disp rx doc f"
    using FAnd by (auto simp: list_all_iff)
  then show ?case by (induction fs) auto
next
  case (FOr fs)
  have "\<forall>f \<in> set fs. eval3 disp rx (row_env disp doc dcols cdefs acc cast) (route indexed f) = matches3 disp rx doc f"
    using FOr by (auto simp: list_all_iff)
  then show ?case by (induction fs) auto
qed auto

lemma request_index_map_lookup:
  assumes "p \<in> set (collect_filter_paths f)"
  shows "map_of (request_index_map f dcols) (derived_col p) = map_of dcols (derived_col p)"
proof -
  have "map_of (List.map_filter (\<lambda>p. map_option (\<lambda>t. (derived_col p, t)) (map_of dcols (derived_col p))) ps) (derived_col p)
      = (if derived_col p \<in> derived_col ` set ps then map_of dcols (derived_col p) else None)" for ps
    by (induction ps) (auto simp: List.map_filter_simps split: option.splits)
  then show ?thesis using assms by (auto simp: request_index_map_def)
qed

end
