(* ===== verification/Coll_Compound.thy ===== *)
theory Coll_Compound
  imports Coll_Semantics
begin

text \<open>
  Routing of a whole filter to a compound or a multikey index, \<open>bluedb-server/src/collections.rs\<close>. A
  compound index is one text column that holds the texts of its fields joined by NUL; a multikey index
  is a side table with one row for each element of an array. The map of equalities of a filter is an
  association list in the order of insertion.
\<close>

section \<open>Compound indexes\<close>

definition compound_col_defs :: "string list \<Rightarrow> (string \<times> string list) list" where
  "compound_col_defs columns = List.map_filter compound_col_def columns"

definition covered_by :: "(string \<times> json) list \<Rightarrow> string list \<Rightarrow> bool" where
  "covered_by m paths \<longleftrightarrow> list_all (\<lambda>p. map_of m p \<noteq> None) paths"

definition compound_parts :: "json_display \<Rightarrow> (string \<times> json) list \<Rightarrow> string list \<Rightarrow> string list" where
  "compound_parts disp m paths = map (\<lambda>p. json_text disp (the (map_of m p))) paths"

fun leftover_sql :: "(string \<times> json) list \<Rightarrow> bound_values \<Rightarrow> string list \<times> bound_values" where
  "leftover_sql [] params = ([], params)"
| "leftover_sql ((p, v) # rest) params =
     (let (s, params1) = to_sql (FCmp p CEq v) params; (ss, params2) = leftover_sql rest params1
      in ((''('' @ s @ '')'') # ss, params2))"

definition try_compound_match ::
  "json_display \<Rightarrow> mql_filter \<Rightarrow> (string \<times> string list) list \<Rightarrow> bound_values \<Rightarrow> (string \<times> bound_values) option" where
  "try_compound_match disp f cdefs params =
     (if cdefs = [] then None
      else case eq_map f of
        None \<Rightarrow> None
      | Some m \<Rightarrow>
          if m = [] then None
          else case find (\<lambda>(_, paths). covered_by m paths) cdefs of
            None \<Rightarrow> None
          | Some (ccol, paths) \<Rightarrow>
              let (placeholder, params1) =
                    bind_value params (JString (encode_compound (compound_parts disp m paths)));
                  (ss, params2) = leftover_sql (filter (\<lambda>(p, _). p \<notin> set paths) m) params1
              in Some (join_str '' AND '' ((ccol @ '' = '' @ placeholder) # ss), params2))"

section \<open>Multikey indexes\<close>

definition multikey_target :: "mql_filter \<Rightarrow> (string \<times> string) list \<Rightarrow> (string \<times> json) option" where
  "multikey_target f sides =
     (if sides = [] then None
      else case eq_child f of
        None \<Rightarrow> None
      | Some (path, v) \<Rightarrow>
          (case find (\<lambda>(_, field). field = replace_char (CHR ''.'') ''_'' path) sides of
             None \<Rightarrow> None
           | Some (side, _) \<Rightarrow> if v = JNull then None else Some (side, v)))"

definition try_multikey_match ::
  "json_display \<Rightarrow> mql_filter \<Rightarrow> (string \<times> string) list \<Rightarrow> bound_values \<Rightarrow> (string \<times> bound_values) option" where
  "try_multikey_match disp f sides params =
     (case multikey_target f sides of
        None \<Rightarrow> None
      | Some (side, v) \<Rightarrow>
          let (placeholder, params1) = bind_value params (JString (json_text disp v))
          in Some (''_id IN (SELECT _id FROM '' @ side @ '' WHERE val = '' @ placeholder @ '')'', params1))"

text \<open>The clause of a query: multikey first, then compound, then the columns of single fields.\<close>

definition find_where ::
  "json_display \<Rightarrow> mql_filter \<Rightarrow> (string \<times> string) list \<Rightarrow> (string \<times> string list) list \<Rightarrow> index_map \<Rightarrow> string \<times> bound_values" where
  "find_where disp f sides cdefs col_types =
     (case try_multikey_match disp f sides [] of
        Some r \<Rightarrow> r
      | None \<Rightarrow>
          (case try_compound_match disp f cdefs [] of
             Some r \<Rightarrow> r
           | None \<Rightarrow> to_sql_indexed f [] (request_index_map f col_types)))"

definition count_where :: "json_display \<Rightarrow> mql_filter \<Rightarrow> (string \<times> string list) list \<Rightarrow> index_map \<Rightarrow> string \<times> bound_values" where
  "count_where disp f cdefs col_types =
     (case try_compound_match disp f cdefs [] of
        Some r \<Rightarrow> r
      | None \<Rightarrow> to_sql_indexed f [] (request_index_map f col_types))"

section \<open>The tree of a compound match\<close>

definition compound_preds :: "json_display \<Rightarrow> mql_filter \<Rightarrow> (string \<times> string list) list \<Rightarrow> (pred \<times> pred list) option" where
  "compound_preds disp f cdefs =
     (if cdefs = [] then None
      else case eq_map f of
        None \<Rightarrow> None
      | Some m \<Rightarrow>
          if m = [] then None
          else case find (\<lambda>(_, paths). covered_by m paths) cdefs of
            None \<Rightarrow> None
          | Some (ccol, paths) \<Rightarrow>
              Some (PCmp (OCol ccol) CEq (JString (encode_compound (compound_parts disp m paths))),
                map (\<lambda>(p, v). route_cmp [] p CEq v) (filter (\<lambda>(p, _). p \<notin> set paths) m)))"

lemma leftover_sql_preds: "leftover_sql xs params = preds_sql (map (\<lambda>(p, v). route_cmp [] p CEq v) xs) params"
  by (induction xs params rule: leftover_sql.induct)
    (simp_all add: route_cmp_def cmp_sql_def Let_def split: prod.split)

text \<open>The text is that of the tree, the clause of the index first and without parentheses.\<close>

lemma try_compound_match_preds:
  "try_compound_match disp f cdefs params =
     map_option (\<lambda>(c, ls). let (s, params1) = pred_sql c params; (ss, params2) = preds_sql ls params1
       in (join_str '' AND '' (s # ss), params2)) (compound_preds disp f cdefs)"
  by (simp add: try_compound_match_def compound_preds_def leftover_sql_preds binop_sql_def Let_def
      split: option.split prod.split)

section \<open>Equality of keys\<close>

lemma append_Cons_eq:
  "c \<notin> set x \<Longrightarrow> c \<notin> set y \<Longrightarrow> x @ c # xs = y @ c # ys \<longleftrightarrow> x = y \<and> xs = ys"
proof (induction x arbitrary: y)
  case Nil
  then show ?case by (cases y) auto
next
  case (Cons a x)
  then show ?case by (cases y) auto
qed

lemma encode_compound_Cons:
  "encode_compound (x # y # ys) = x @ CHR 0x00 # encode_compound (y # ys)"
  by (simp add: encode_compound_def)

lemma encode_compound_inj:
  assumes "length xs = length ys" "\<forall>x \<in> set xs \<union> set ys. CHR 0x00 \<notin> set x"
  shows "encode_compound xs = encode_compound ys \<longleftrightarrow> xs = ys"
  using assms
proof (induction xs ys rule: list_induct2)
  case (Cons x xs y ys)
  then show ?case
  proof (cases xs)
    case Nil
    then show ?thesis using Cons by (simp add: encode_compound_def)
  next
    case (Cons x' xs')
    then obtain y' ys' where "ys = y' # ys'" using Cons.hyps by (cases ys) auto
    then show ?thesis
      using Cons Cons.IH Cons.prems by (simp add: encode_compound_Cons append_Cons_eq)
  qed
qed simp

section \<open>The match is exact\<close>

definition string_eqs :: "(string \<times> string) list \<Rightarrow> mql_filter" where
  "string_eqs xs = FAnd (map (\<lambda>(p, s). FCmp p CEq (JString s)) xs)"

text \<open>Every path occurs once, with a text that is not empty, and has in the document no value or a
  text; no text has a NUL.\<close>

definition compound_fits :: "json \<Rightarrow> (string \<times> string) list \<Rightarrow> bool" where
  "compound_fits doc xs \<longleftrightarrow> distinct (map fst xs) \<and>
     list_all (\<lambda>(p, s). s \<noteq> [] \<and> CHR 0x00 \<notin> set s \<and>
       (case json_at doc p of
          None \<Rightarrow> True
        | Some v \<Rightarrow> (case v of JString t \<Rightarrow> CHR 0x00 \<notin> set t | _ \<Rightarrow> False))) xs"

lemma eq_children_distinct:
  assumes "distinct (map fst m @ map fst xs)"
  shows "eq_children (map (\<lambda>(p, v). FCmp p CEq v) xs) m = Some (m @ xs)"
  using assms
proof (induction xs arbitrary: m)
  case (Cons x xs)
  obtain p v where x: "x = (p, v)" by (cases x)
  have "AList.update p v m = m @ [x]" if "p \<notin> fst ` set m" for m
    using that x by (induction m) auto
  then show ?case using Cons x by simp
qed simp

lemma eq_map_string_eqs:
  "distinct (map fst xs) \<Longrightarrow> eq_map (string_eqs xs) = Some (map (\<lambda>(p, s). (p, JString s)) xs)"
  using eq_children_distinct [of "[]" "map (\<lambda>(p, s). (p, JString s)) xs"]
  by (simp add: string_eqs_def comp_def case_prod_unfold)

lemma and3_True [simp]: "and3 x y = Some True \<longleftrightarrow> x = Some True \<and> y = Some True"
  by (auto simp: and3_def)

lemma foldr_and3_True: "foldr (\<lambda>x r. and3 (g x) r) xs (Some True) = Some True \<longleftrightarrow> (\<forall>x \<in> set xs. g x = Some True)"
  by (induction xs) auto

lemma eq3_str_True [simp]: "eq3 x (PStr s) = Some True \<longleftrightarrow> x = PStr s"
  by (cases x) (auto simp: eq3_def order3_def)

lemma json_to_param_str [simp]: "json_to_param disp (JString s) = PStr s" "doc_param disp (JString s) = PStr s"
  by (simp_all add: json_to_param_def doc_param_def)

lemma matches3_string_eqs:
  "matches3 disp rx doc (string_eqs xs) = Some True \<longleftrightarrow> (\<forall>(p, s) \<in> set xs. field_param disp doc p = PStr s)"
  by (auto simp: string_eqs_def foldr_and3_True foldr_map comp_def)

text \<open>The column of a compound index holds the key of the document.\<close>

lemma map_filter_fun_lookup:
  assumes "c \<in> set cs" "f c = Some (c, y)" "\<And>c k z. f c = Some (k, z) \<Longrightarrow> k = c"
  shows "map_of (List.map_filter f cs) c = Some y"
  using assms(1)
proof (induction cs)
  case (Cons a cs)
  show ?case
  proof (cases "a = c")
    case True
    then show ?thesis using assms(2) by (simp add: List.map_filter_simps)
  next
    case False
    then show ?thesis using Cons assms(3) [of a] by (auto simp: List.map_filter_simps split: option.split)
  qed
qed simp

lemma strip_prefix_SomeD: "strip_prefix p s = Some r \<Longrightarrow> s = p @ r"
  by (metis append_take_drop_id option.distinct(1) option.inject starts_with_def strip_prefix_def)

lemma compound_col_def_name:
  assumes "compound_col_def c = Some (k, paths)"
  shows "k = c" "\<exists>r. k = ''__cidxm_'' @ r"
proof -
  obtain r where "strip_prefix ''__cidxm_'' c = Some r" and "k = c"
    using assms by (auto simp: compound_col_def_def Let_def split: option.splits if_splits)
  then show "k = c" "\<exists>r. k = ''__cidxm_'' @ r" using strip_prefix_SomeD by blast+
qed

lemma compound_col_defs_lookup:
  assumes "(ccol, paths) \<in> set (compound_col_defs columns)"
  shows "map_of (compound_col_defs columns) ccol = Some paths"
proof -
  obtain c where "c \<in> set columns" "compound_col_def c = Some (ccol, paths)"
    using assms by (auto simp: compound_col_defs_def List.map_filter_def)
  moreover have "ccol = c" using compound_col_def_name(1) calculation(2) by blast
  ultimately show ?thesis
    unfolding compound_col_defs_def by (intro map_filter_fun_lookup) (auto dest: compound_col_def_name(1))
qed

lemma map_of_map_snd: "map_of (map (\<lambda>(k, v). (k, g v)) xs) k = map_option g (map_of xs k)"
  by (induction xs) auto

lemma compound_column:
  assumes "(ccol, paths) \<in> set (compound_col_defs columns)" "list_all (\<lambda>(c, _). starts_with ''__cidx_'' c) dcols"
  shows "row_env disp doc dcols (compound_col_defs columns) acc cast (OCol ccol) = PStr (compound_key disp doc paths)"
proof -
  obtain r where r: "ccol = ''__cidxm_'' @ r"
    using assms(1) compound_col_def_name(2) unfolding compound_col_defs_def List.map_filter_def by fastforce
  have "\<not> starts_with ''__cidx_'' ccol" by (simp add: r starts_with_def)
  then have "map_of dcols ccol = None" using assms(2) by (force simp: map_of_eq_None_iff list_all_iff)
  then have "map_of (single_columns disp doc dcols) ccol = None" by (simp add: single_columns_lookup)
  then show ?thesis
    using compound_col_defs_lookup [OF assms(1)]
    by (simp add: row_env_def doc_columns_def compound_columns_def map_add_def map_of_map_snd split: option.split)
qed

lemma compound_clause:
  assumes "(ccol, paths) \<in> set (compound_col_defs columns)" "list_all (\<lambda>(c, _). starts_with ''__cidx_'' c) dcols"
    and "compound_fits doc xs" "set paths \<subseteq> fst ` set xs"
  shows "eval3 disp rx (row_env disp doc dcols (compound_col_defs columns) acc cast)
      (PCmp (OCol ccol) CEq (JString (encode_compound
        (compound_parts disp (map (\<lambda>(p, s). (p, JString s)) xs) paths)))) = Some True
    \<longleftrightarrow> (\<forall>(p, s) \<in> set xs. p \<in> set paths \<longrightarrow> field_param disp doc p = PStr s)"
proof -
  define text_of where "text_of p = (case derive_value disp doc p of Some s \<Rightarrow> s | None \<Rightarrow> [])" for p
  have xs: "map_of xs p = Some s \<longleftrightarrow> (p, s) \<in> set xs" for p s
    using assms(3) by (auto simp: compound_fits_def intro: map_of_is_SomeI dest: map_of_SomeD)
  have "compound_parts disp (map (\<lambda>(p, s). (p, JString s)) xs) paths = map (\<lambda>p. the (map_of xs p)) paths"
    using assms(4) by (auto simp: compound_parts_def map_of_map_snd json_text_def option.map_sel domIff dom_map_of_conv_image_fst [symmetric])
  moreover have "compound_key disp doc paths = encode_compound (map text_of paths)"
    by (simp add: compound_key_def text_of_def [abs_def])
  moreover have fit: "CHR 0x00 \<notin> set (text_of p)" "CHR 0x00 \<notin> set s" "text_of p = s \<longleftrightarrow> field_param disp doc p = PStr s"
    if "(p, s) \<in> set xs" for p s
    using assms(3) that
    by (auto simp: compound_fits_def list_all_iff text_of_def derive_value_def field_param_def json_text_def
        split: option.splits json.splits)
  have key: "(p, the (map_of xs p)) \<in> set xs" if "p \<in> set paths" for p
    using assms(4) that xs by (metis dom_map_of_conv_image_fst domD option.sel subsetD)
  have "encode_compound (map text_of paths) = encode_compound (map (\<lambda>p. the (map_of xs p)) paths)
      \<longleftrightarrow> map text_of paths = map (\<lambda>p. the (map_of xs p)) paths"
    by (rule encode_compound_inj) (use fit(1,2) [OF key] in auto)
  moreover have "\<dots> \<longleftrightarrow> (\<forall>p \<in> set paths. field_param disp doc p = PStr (the (map_of xs p)))"
    using fit(3) [OF key] by auto
  moreover have "\<dots> \<longleftrightarrow> (\<forall>(p, s) \<in> set xs. p \<in> set paths \<longrightarrow> field_param disp doc p = PStr s)"
  proof (intro iffI ballI)
    fix x assume all: "\<forall>p \<in> set paths. field_param disp doc p = PStr (the (map_of xs p))" and "x \<in> set xs"
    then obtain p s where "x = (p, s)" "map_of xs p = Some s" using xs by (cases x) auto
    then show "case x of (p, s) \<Rightarrow> p \<in> set paths \<longrightarrow> field_param disp doc p = PStr s" using all by auto
  next
    fix p assume "\<forall>(p, s) \<in> set xs. p \<in> set paths \<longrightarrow> field_param disp doc p = PStr s" "p \<in> set paths"
    then show "field_param disp doc p = PStr (the (map_of xs p))" using key by blast
  qed
  ultimately show ?thesis by (simp add: compound_column [OF assms(1,2)])
qed

lemma compound_match_spec:
  assumes "compound_preds disp (string_eqs xs) (compound_col_defs columns) = Some (c, ls)"
    and "list_all (\<lambda>(c, _). starts_with ''__cidx_'' c) dcols" "compound_fits doc xs"
    and acc: "\<And>p s. (p, s) \<in> set xs \<Longrightarrow> acc p = field_param disp doc p"
  shows "eval3 disp rx (row_env disp doc dcols (compound_col_defs columns) acc cast) (PAnd (c # ls)) = Some True
    \<longleftrightarrow> matches3 disp rx doc (string_eqs xs) = Some True"
proof -
  let ?m = "map (\<lambda>(p, s). (p, JString s)) xs"
  have m: "eq_map (string_eqs xs) = Some ?m" using assms(3) eq_map_string_eqs by (simp add: compound_fits_def)
  obtain ccol paths where find: "find (\<lambda>(_, paths). covered_by ?m paths) (compound_col_defs columns) = Some (ccol, paths)"
    and c: "c = PCmp (OCol ccol) CEq (JString (encode_compound (compound_parts disp ?m paths)))"
    and ls: "ls = map (\<lambda>(p, v). route_cmp [] p CEq v) (filter (\<lambda>(p, _). p \<notin> set paths) ?m)"
    using assms(1) m by (auto simp: compound_preds_def split: if_splits option.splits prod.splits)
  have cols: "(ccol, paths) \<in> set (compound_col_defs columns)" and "covered_by ?m paths"
    using find by (auto simp: find_Some_iff in_set_conv_nth)
  then have paths: "set paths \<subseteq> fst ` set xs"
    by (force simp: covered_by_def list_all_iff map_of_eq_None_iff)
  have "eval3 disp rx (row_env disp doc dcols (compound_col_defs columns) acc cast) (route_cmp [] p CEq (JString s)) = Some True
    \<longleftrightarrow> field_param disp doc p = PStr s" if "(p, s) \<in> set xs" for p s
    using acc [OF that] by (simp add: route_cmp_def is_numeric_def row_env_def)
  then have "(\<forall>l \<in> set ls. eval3 disp rx (row_env disp doc dcols (compound_col_defs columns) acc cast) l = Some True)
    \<longleftrightarrow> (\<forall>(p, s) \<in> set xs. p \<notin> set paths \<longrightarrow> field_param disp doc p = PStr s)"
    unfolding ls by fastforce
  moreover have "eval3 disp rx (row_env disp doc dcols (compound_col_defs columns) acc cast) c = Some True
    \<longleftrightarrow> (\<forall>(p, s) \<in> set xs. p \<in> set paths \<longrightarrow> field_param disp doc p = PStr s)"
    unfolding c by (rule compound_clause [OF cols assms(2,3) paths])
  ultimately show ?thesis
    unfolding matches3_string_eqs eval3.simps(2) foldr_and3_True by auto
qed

end
