(* ===== verification/Coll_Update.thy ===== *)
theory Coll_Update
  imports Coll_Index
begin

text \<open>
  Changes of a document, \<open>bluedb-collections/src/update.rs\<close>, \<open>project.rs\<close> and \<open>model.rs\<close>. The
  document is updated in place in the code; every caller discards it when an error is returned, so an
  update gives either an error or the new document. The fields of an object come in the order of its
  map.
\<close>

section \<open>Updates\<close>

text \<open>A sum of doubles as a JSON number: a whole one is cast to \<open>i64\<close>, an infinite one is null.\<close>

definition num :: "rat option \<Rightarrow> json" where
  "num f =
     (case f of
        None \<Rightarrow> JNull
      | Some q \<Rightarrow> if f64_whole q then jint (f64_as_i64 q) else JNumber (Float q))"

fun set_fields :: "(string \<times> json) list \<Rightarrow> (string \<times> json) list \<Rightarrow> (string \<times> json) list" where
  "set_fields [] obj = obj"
| "set_fields ((k, v) # flds) obj = set_fields flds (obj_insert k v obj)"

fun unset_fields :: "(string \<times> json) list \<Rightarrow> (string \<times> json) list \<Rightarrow> (string \<times> json) list" where
  "unset_fields [] obj = obj"
| "unset_fields ((k, _) # flds) obj = unset_fields flds (obj_remove k obj)"

definition current_f64 :: "(string \<times> json) list \<Rightarrow> string \<Rightarrow> rat" where
  "current_f64 obj k = (case Option.bind (map_of obj k) as_f64 of Some x \<Rightarrow> x | None \<Rightarrow> 0)"

fun inc_fields :: "(string \<times> json) list \<Rightarrow> (string \<times> json) list \<Rightarrow> mql_error + (string \<times> json) list" where
  "inc_fields [] obj = Inr obj"
| "inc_fields ((k, v) # flds) obj =
     (case as_f64 v of
        None \<Rightarrow> Inl (Malformed ''$inc needs a number'')
      | Some add \<Rightarrow> inc_fields flds (obj_insert k (num (f64_add (current_f64 obj k) add)) obj))"

fun push_fields :: "(string \<times> json) list \<Rightarrow> (string \<times> json) list \<Rightarrow> mql_error + (string \<times> json) list" where
  "push_fields [] obj = Inr obj"
| "push_fields ((k, v) # flds) obj =
     (case (case map_of obj k of Some x \<Rightarrow> x | None \<Rightarrow> JArray []) of
        JArray xs \<Rightarrow> push_fields flds (obj_insert k (JArray (xs @ [v])) obj)
      | _ \<Rightarrow> Inl (Malformed ''$push target not an array''))"

fun pull_fields :: "(string \<times> json) list \<Rightarrow> (string \<times> json) list \<Rightarrow> (string \<times> json) list" where
  "pull_fields [] obj = obj"
| "pull_fields ((k, v) # flds) obj =
     pull_fields flds
       (case map_of obj k of
          Some (JArray xs) \<Rightarrow> obj_insert k (JArray (filter (\<lambda>e. e \<noteq> v) xs)) obj
        | _ \<Rightarrow> obj)"

definition apply_op :: "string \<Rightarrow> json \<Rightarrow> (string \<times> json) list \<Rightarrow> mql_error + (string \<times> json) list" where
  "apply_op op body obj =
     (case body of
        JObject flds \<Rightarrow>
          if op = ''$set'' then Inr (set_fields flds obj)
          else if op = ''$unset'' then Inr (unset_fields flds obj)
          else if op = ''$inc'' then inc_fields flds obj
          else if op = ''$push'' then push_fields flds obj
          else if op = ''$pull'' then Inr (pull_fields flds obj)
          else Inl (UnsupportedOperator op)
      | _ \<Rightarrow> Inl (Malformed (op @ '' takes an object'')))"

fun apply_ops :: "(string \<times> json) list \<Rightarrow> (string \<times> json) list \<Rightarrow> mql_error + (string \<times> json) list" where
  "apply_ops [] obj = Inr obj"
| "apply_ops ((op, body) # ops) obj = and_then (apply_op op body obj) (apply_ops ops)"

definition apply_update :: "json \<Rightarrow> json \<Rightarrow> mql_error + json" where
  "apply_update doc update =
     (case update of
        JObject upd \<Rightarrow>
          if \<not> list_ex (\<lambda>p. starts_with ''$'' (fst p)) upd
          then Inr (case json_get doc ''_id'' of
              Some i \<Rightarrow> JObject (obj_insert ''_id'' i upd)
            | None \<Rightarrow> JObject upd)
          else (case doc of
              JObject obj \<Rightarrow> and_then (apply_ops upd obj) (\<lambda>obj'. Inr (JObject obj'))
            | _ \<Rightarrow> Inl (Malformed ''doc must be object''))
      | _ \<Rightarrow> Inl (Malformed ''update must be an object''))"

section \<open>Projections\<close>

definition truthy :: "json \<Rightarrow> bool" where
  "truthy v \<longleftrightarrow> v = JBool True \<or> (case as_i64 v of Some n \<Rightarrow> n \<noteq> 0 | None \<Rightarrow> False)"

fun include_fields :: "(string \<times> json) list \<Rightarrow> (string \<times> json) list \<Rightarrow> (string \<times> json) list \<Rightarrow> (string \<times> json) list" where
  "include_fields [] obj out = out"
| "include_fields ((k, v) # proj) obj out =
     include_fields proj obj
       (if k \<noteq> ''_id'' \<and> truthy v
        then (case map_of obj k of Some x \<Rightarrow> obj_insert k x out | None \<Rightarrow> out)
        else out)"

definition apply_projection :: "json \<Rightarrow> json \<Rightarrow> json" where
  "apply_projection doc projection =
     (case projection of
        JObject proj \<Rightarrow>
          if proj = [] then doc
          else (case doc of
              JObject obj \<Rightarrow>
                if list_ex (\<lambda>p. truthy (snd p)) proj
                then let keep_id = (case map_of proj ''_id'' of Some v \<Rightarrow> truthy v | None \<Rightarrow> True);
                       out = (if keep_id then (case map_of obj ''_id'' of Some i \<Rightarrow> obj_insert ''_id'' i [] | None \<Rightarrow> []) else [])
                     in JObject (include_fields proj obj out)
                else JObject (unset_fields proj obj)
            | _ \<Rightarrow> doc)
      | _ \<Rightarrow> doc)"

section \<open>Document ids\<close>

text \<open>\<open>oid\<close> is the identifier that \<open>new_object_id\<close> would return; a document that is not an object
  makes the code panic, and no caller passes one.\<close>

fun trim_quotes :: "string \<Rightarrow> string" where
  "trim_quotes [] = []"
| "trim_quotes (c # cs) = (if c = CHR 0x22 then trim_quotes cs else c # cs)"

definition ensure_id :: "json_display \<Rightarrow> string \<Rightarrow> (string \<times> json) list \<Rightarrow> string \<times> (string \<times> json) list" where
  "ensure_id disp oid obj =
     (let i = (case map_of obj ''_id'' of
          None \<Rightarrow> oid
        | Some (JString s) \<Rightarrow> s
        | Some v \<Rightarrow> rev (trim_quotes (rev (trim_quotes (disp v)))))
      in (i, obj_insert ''_id'' (JString i) obj))"

section \<open>Every update keeps a map in order\<close>

lemma set_fields_ok: "obj_ok obj \<Longrightarrow> obj_ok (set_fields flds obj)"
  by (induction flds obj rule: set_fields.induct) (auto simp: obj_insert_ok)

lemma unset_fields_ok: "obj_ok obj \<Longrightarrow> obj_ok (unset_fields flds obj)"
  by (induction flds obj rule: unset_fields.induct) (auto simp: obj_remove_ok)

lemma inc_fields_ok: "inc_fields flds obj = Inr obj' \<Longrightarrow> obj_ok obj \<Longrightarrow> obj_ok obj'"
  by (induction flds obj rule: inc_fields.induct) (auto simp: obj_insert_ok split: option.splits)

lemma push_fields_ok: "push_fields flds obj = Inr obj' \<Longrightarrow> obj_ok obj \<Longrightarrow> obj_ok obj'"
  by (induction flds obj rule: push_fields.induct) (auto simp: obj_insert_ok split: option.splits json.splits)

lemma pull_fields_ok: "obj_ok obj \<Longrightarrow> obj_ok (pull_fields flds obj)"
  by (induction flds obj rule: pull_fields.induct) (auto simp: obj_insert_ok split: option.splits json.splits)

lemma and_then_Inr: "and_then m f = Inr y \<longleftrightarrow> (\<exists>x. m = Inr x \<and> f x = Inr y)"
  by (cases m) (auto simp: and_then_def)

lemma apply_op_ok: "apply_op op body obj = Inr obj' \<Longrightarrow> obj_ok obj \<Longrightarrow> obj_ok obj'"
  using set_fields_ok unset_fields_ok inc_fields_ok push_fields_ok pull_fields_ok
  by (auto simp: apply_op_def split: json.splits if_splits)

lemma apply_ops_ok: "apply_ops ops obj = Inr obj' \<Longrightarrow> obj_ok obj \<Longrightarrow> obj_ok obj'"
  by (induction ops obj rule: apply_ops.induct) (auto simp: and_then_Inr dest: apply_op_ok)

lemma apply_update_ok:
  assumes "apply_update doc (JObject upd) = Inr doc'" "doc = JObject obj" "obj_ok obj" "obj_ok upd"
  shows "\<exists>obj'. doc' = JObject obj' \<and> obj_ok obj'"
  using assms obj_insert_ok [of upd] apply_ops_ok
  by (auto simp: apply_update_def and_then_Inr split: if_splits option.splits)

section \<open>Fields that an update leaves alone\<close>

definition mentions :: "(string \<times> json) list \<Rightarrow> string \<Rightarrow> bool" where
  "mentions upd k \<longleftrightarrow> list_ex (\<lambda>(_, body). case body of JObject flds \<Rightarrow> k \<in> fst ` set flds | _ \<Rightarrow> False) upd"

lemma set_fields_other: "obj_ok obj \<Longrightarrow> k \<notin> fst ` set flds \<Longrightarrow> map_of (set_fields flds obj) k = map_of obj k"
  by (induction flds obj rule: set_fields.induct) (auto simp: obj_insert_ok)

lemma unset_fields_lookup: "map_of (unset_fields flds obj) k = (if k \<in> fst ` set flds then None else map_of obj k)"
  by (induction flds obj rule: unset_fields.induct) auto

lemma inc_fields_other:
  "inc_fields flds obj = Inr obj' \<Longrightarrow> obj_ok obj \<Longrightarrow> k \<notin> fst ` set flds \<Longrightarrow> map_of obj' k = map_of obj k"
  by (induction flds obj rule: inc_fields.induct) (auto simp: obj_insert_ok split: option.splits)

lemma push_fields_other:
  "push_fields flds obj = Inr obj' \<Longrightarrow> obj_ok obj \<Longrightarrow> k \<notin> fst ` set flds \<Longrightarrow> map_of obj' k = map_of obj k"
  by (induction flds obj rule: push_fields.induct) (auto simp: obj_insert_ok split: option.splits json.splits)

lemma pull_fields_other:
  "obj_ok obj \<Longrightarrow> k \<notin> fst ` set flds \<Longrightarrow> map_of (pull_fields flds obj) k = map_of obj k"
  by (induction flds obj rule: pull_fields.induct) (auto simp: obj_insert_ok split: option.splits json.splits)

lemma apply_op_other:
  assumes "apply_op op (JObject flds) obj = Inr obj'" "obj_ok obj" "k \<notin> fst ` set flds"
  shows "map_of obj' k = map_of obj k"
  using assms set_fields_other unset_fields_lookup inc_fields_other push_fields_other pull_fields_other
  by (auto simp: apply_op_def split: if_splits)

lemma apply_ops_other:
  "apply_ops ops obj = Inr obj' \<Longrightarrow> obj_ok obj \<Longrightarrow> \<not> mentions ops k \<Longrightarrow> map_of obj' k = map_of obj k"
proof (induction ops obj rule: apply_ops.induct)
  case (2 op body ops obj)
  then obtain obj1 where step: "apply_op op body obj = Inr obj1" "apply_ops ops obj1 = Inr obj'"
    by (auto simp: and_then_Inr)
  then obtain flds where body: "body = JObject flds"
    by (cases body) (auto simp: apply_op_def)
  have same: "map_of obj1 k = map_of obj k"
    by (rule apply_op_other [of op flds obj]) (use step(1) body 2(3,4) in \<open>auto simp: mentions_def\<close>)
  have "map_of obj' k = map_of obj1 k"
    by (rule 2(1) [OF step(2)]) (use apply_op_ok [OF step(1)] 2(3,4) in \<open>auto simp: mentions_def\<close>)
  with same show ?case by simp
qed simp

lemma include_fields_ok: "obj_ok out \<Longrightarrow> obj_ok (include_fields proj obj out)"
  by (induction proj obj out rule: include_fields.induct) (auto simp: obj_insert_ok split: option.split)

lemma include_fields_lookup:
  "obj_ok out \<Longrightarrow> map_of (include_fields proj obj out) k =
     (if k \<noteq> ''_id'' \<and> (\<exists>v. (k, v) \<in> set proj \<and> truthy v) \<and> map_of obj k \<noteq> None then map_of obj k else map_of out k)"
  by (induction proj obj out rule: include_fields.induct) (auto simp: obj_insert_ok split: option.split)

end
