(* ===== verification/Coll_Store.thy ===== *)
theory Coll_Store
  imports Coll_Compound Coll_Update
begin

text \<open>
  The collection handlers of \<open>bluedb-server/src/collections.rs\<close> over the tables of one collection:
  the table of documents with its index columns, the side tables of multikey indexes and the expiry
  setting. A handler runs its statements one after the other, each one atomic; when one fails the
  effects of the earlier ones stay. The SQL engine is the record \<open>coll_engine\<close>: how it displays a
  JSON value, matches a regular expression, evaluates an accessor of the document, orders rows and
  judges the unique constraints of a row. The argument \<open>gate\<close> is the outcome of the checks of the
  request before the handler proper (authorization, tenant, active writer, collection name).
\<close>

section \<open>State\<close>

record coll_row =
  row_doc :: json
  row_cols :: "(string \<times> rat param) list"

record coll_state =
  coll_name :: string
  col_types :: index_map
  compound_names :: "string list"
  unique_names :: "string list"
  coll_rows :: "(string \<times> coll_row) list"
  mk_sides :: "(string \<times> string) list"
  side_rows :: "(string \<times> string \<times> string) list"
  coll_ttl :: "(string \<times> int) option"

record coll_engine =
  display :: json_display
  regex :: "string \<Rightarrow> string \<Rightarrow> bool"
  accessor :: "json \<Rightarrow> string \<Rightarrow> rat param"
  cast_accessor :: "json \<Rightarrow> string \<Rightarrow> rat param"
  order_rows :: "(string \<times> bool) list \<Rightarrow> (string \<times> coll_row) list \<Rightarrow> (string \<times> coll_row) list"
  conflict :: "string list \<Rightarrow> (string \<times> coll_row) list \<Rightarrow> string \<Rightarrow> (string \<times> rat param) list \<Rightarrow> bool"
  parse_epoch :: "string \<Rightarrow> int option"

datatype coll_error = Refused | BadRequest string | QueryError mql_error | UniqueViolation | InternalError string

definition cdefs :: "coll_state \<Rightarrow> (string \<times> string list) list" where
  "cdefs st = compound_col_defs (compound_names st)"

definition row_value :: "coll_row \<Rightarrow> string \<Rightarrow> rat param" where
  "row_value r c = (case map_of (row_cols r) c of Some p \<Rightarrow> p | None \<Rightarrow> PNull)"

definition index_row :: "coll_engine \<Rightarrow> coll_state \<Rightarrow> json \<Rightarrow> coll_row" where
  "index_row eng st doc =
     \<lparr> row_doc = doc, row_cols = doc_columns (display eng) doc (col_types st) (cdefs st) \<rparr>"

section \<open>Side tables\<close>

definition multikey_side_table :: "string \<Rightarrow> string \<Rightarrow> string" where
  "multikey_side_table coll field = coll @ ''__mk_'' @ replace_char (CHR ''.'') ''_'' field"

definition element_texts :: "json_display \<Rightarrow> json list \<Rightarrow> string list" where
  "element_texts disp xs = map (json_text disp) (filter (\<lambda>e. e \<noteq> JNull) xs)"

definition field_elements :: "json_display \<Rightarrow> json option \<Rightarrow> string list" where
  "field_elements disp v =
     (case v of
        Some (JArray xs) \<Rightarrow> element_texts disp xs
      | Some x \<Rightarrow> element_texts disp [x]
      | None \<Rightarrow> [])"

definition insert_multikey_elements :: "string \<Rightarrow> string \<Rightarrow> string list \<Rightarrow> coll_state \<Rightarrow> coll_state" where
  "insert_multikey_elements side doc_id vals st =
     st \<lparr> side_rows := side_rows st @ map (\<lambda>v. (side, doc_id, v)) vals \<rparr>"

definition delete_side :: "string \<Rightarrow> string \<Rightarrow> coll_state \<Rightarrow> coll_state" where
  "delete_side side doc_id st =
     st \<lparr> side_rows := filter (\<lambda>(s, j, _). \<not> (s = side \<and> j = doc_id)) (side_rows st) \<rparr>"

definition delete_multikey_for_doc :: "string \<Rightarrow> coll_state \<Rightarrow> coll_state" where
  "delete_multikey_for_doc doc_id st = fold (\<lambda>(side, _). delete_side side doc_id) (mk_sides st) st"

definition insert_sides :: "coll_engine \<Rightarrow> string \<Rightarrow> json \<Rightarrow> coll_state \<Rightarrow> coll_state" where
  "insert_sides eng i doc st =
     fold (\<lambda>(side, field). insert_multikey_elements side i (field_elements (display eng) (json_get doc field)))
       (mk_sides st) st"

definition replace_sides :: "coll_engine \<Rightarrow> string \<Rightarrow> json \<Rightarrow> coll_state \<Rightarrow> coll_state" where
  "replace_sides eng i doc st =
     fold (\<lambda>(side, field) s.
         insert_multikey_elements side i (field_elements (display eng) (json_get doc field)) (delete_side side i s))
       (mk_sides st) st"

section \<open>Writing one document\<close>

definition write_full_doc :: "coll_engine \<Rightarrow> json \<Rightarrow> coll_state \<Rightarrow> coll_state \<times> (coll_error + unit)" where
  "write_full_doc eng doc st =
     (case json_get doc ''_id'' of
        Some (JString i) \<Rightarrow>
          let r = index_row eng st doc in
          if map_of (coll_rows st) i \<noteq> None \<or> conflict eng (unique_names st) (coll_rows st) i (row_cols r)
          then (st, Inl UniqueViolation)
          else (insert_sides eng i doc (st \<lparr> coll_rows := obj_insert i r (coll_rows st) \<rparr>), Inr ())
      | _ \<Rightarrow> (st, Inl (InternalError ''write_full_doc: doc missing _id'')))"

definition rewrite_doc_row :: "coll_engine \<Rightarrow> string \<Rightarrow> json \<Rightarrow> coll_state \<Rightarrow> coll_state \<times> (coll_error + unit)" where
  "rewrite_doc_row eng i doc st =
     (let r = index_row eng st doc in
      if map_of (coll_rows st) i = None then (replace_sides eng i doc st, Inr ())
      else if conflict eng (unique_names st) (obj_remove i (coll_rows st)) i (row_cols r)
      then (st, Inl UniqueViolation)
      else (replace_sides eng i doc (st \<lparr> coll_rows := obj_insert i r (coll_rows st) \<rparr>), Inr ()))"

definition delete_row :: "string \<Rightarrow> coll_state \<Rightarrow> coll_state" where
  "delete_row i st = st \<lparr> coll_rows := obj_remove i (coll_rows st) \<rparr>"

section \<open>Reading\<close>

definition select_env :: "coll_engine \<Rightarrow> string \<Rightarrow> coll_row \<Rightarrow> operand \<Rightarrow> rat param" where
  "select_env eng i r x =
     (case x of
        OCol c \<Rightarrow> row_value r c
      | OAcc p \<Rightarrow> if p = ''_id'' then PStr i else accessor eng (row_doc r) p
      | OCast p \<Rightarrow> cast_accessor eng (row_doc r) p)"

definition where_true :: "coll_engine \<Rightarrow> pred \<Rightarrow> string \<times> coll_row \<Rightarrow> bool" where
  "where_true eng p x = (eval3 (display eng) (regex eng) (select_env eng (fst x) (snd x)) p = Some True)"

definition indexed_where :: "coll_state \<Rightarrow> mql_filter \<Rightarrow> pred" where
  "indexed_where st f = route (request_index_map f (col_types st)) f"

definition select_for_mutation :: "coll_engine \<Rightarrow> mql_filter \<Rightarrow> coll_state \<Rightarrow> (string \<times> coll_row) list" where
  "select_for_mutation eng f st = filter (where_true eng (indexed_where st f)) (coll_rows st)"

text \<open>The rows of a query: by the side table, by a compound column, or by the columns of single fields.\<close>

definition select_rows :: "coll_engine \<Rightarrow> mql_filter \<Rightarrow> coll_state \<Rightarrow> (string \<times> coll_row) list" where
  "select_rows eng f st =
     (case multikey_target f (mk_sides st) of
        Some (side, v) \<Rightarrow>
          filter (\<lambda>x. (side, fst x, json_text (display eng) v) \<in> set (side_rows st)) (coll_rows st)
      | None \<Rightarrow>
          (case compound_preds (display eng) f (cdefs st) of
             Some (c, ls) \<Rightarrow> filter (where_true eng (PAnd (c # ls))) (coll_rows st)
           | None \<Rightarrow> select_for_mutation eng f st))"

section \<open>Handlers\<close>

fun insert_docs ::
  "coll_engine \<Rightarrow> (nat \<Rightarrow> string) \<Rightarrow> json list \<Rightarrow> string list \<Rightarrow> coll_state \<Rightarrow> coll_state \<times> (coll_error + string list)" where
  "insert_docs eng oids [] inserted st = (st, Inr inserted)"
| "insert_docs eng oids (d # ds) inserted st =
     (case d of
        JObject obj \<Rightarrow>
          let (i, obj') = ensure_id (display eng) (oids (length inserted)) obj in
          (case write_full_doc eng (JObject obj') st of
             (st', Inl e) \<Rightarrow> (st', Inl e)
           | (st', Inr _) \<Rightarrow> insert_docs eng oids ds (inserted @ [i]) st')
      | _ \<Rightarrow> (st, Inl (BadRequest ''each document must be a JSON object'')))"

definition coll_insert ::
  "coll_engine \<Rightarrow> coll_error option \<Rightarrow> json \<Rightarrow> (nat \<Rightarrow> string) \<Rightarrow> coll_state \<Rightarrow> coll_state \<times> (coll_error + string list)" where
  "coll_insert eng gate body oids st =
     (case gate of
        Some e \<Rightarrow> (st, Inl e)
      | None \<Rightarrow>
          (case json_get body ''documents'' of
             None \<Rightarrow> (st, Inl (BadRequest ''missing documents field''))
           | Some (JArray docs) \<Rightarrow> insert_docs eng oids docs [] st
           | Some _ \<Rightarrow> (st, Inl (BadRequest ''documents must be an array''))))"

record update_result =
  matched_count :: nat
  modified_count :: nat
  upserted_id :: "string option"

fun update_rows ::
  "coll_engine \<Rightarrow> json \<Rightarrow> (string \<times> coll_row) list \<Rightarrow> nat \<Rightarrow> coll_state \<Rightarrow> coll_state \<times> (coll_error + nat)" where
  "update_rows eng upd [] n st = (st, Inr n)"
| "update_rows eng upd ((i, r) # rs) n st =
     (case apply_update (row_doc r) upd of
        Inl e \<Rightarrow> (st, Inl (QueryError e))
      | Inr doc \<Rightarrow>
          if doc \<noteq> row_doc r
          then (case rewrite_doc_row eng i doc st of
                  (st', Inl e) \<Rightarrow> (st', Inl e)
                | (st', Inr _) \<Rightarrow> update_rows eng upd rs (n + 1) st')
          else update_rows eng upd rs n st)"

definition upsert_doc :: "coll_engine \<Rightarrow> json \<Rightarrow> string \<Rightarrow> coll_state \<Rightarrow> coll_state \<times> (coll_error + string)" where
  "upsert_doc eng upd oid st =
     (case apply_update (JObject []) upd of
        Inl e \<Rightarrow> (st, Inl (QueryError e))
      | Inr (JObject obj) \<Rightarrow>
          let (i, obj') = ensure_id (display eng) oid obj in
          (case write_full_doc eng (JObject obj') st of
             (st', Inl e) \<Rightarrow> (st', Inl e)
           | (st', Inr _) \<Rightarrow> (st', Inr i))
      | Inr _ \<Rightarrow> (st, Inl (InternalError ''document must be a JSON object'')))"

definition coll_update ::
  "coll_engine \<Rightarrow> coll_error option \<Rightarrow> json \<Rightarrow> json \<Rightarrow> bool \<Rightarrow> bool \<Rightarrow> string \<Rightarrow> coll_state
    \<Rightarrow> coll_state \<times> (coll_error + update_result)" where
  "coll_update eng gate filter_val upd multi upsert oid st =
     (case gate of
        Some e \<Rightarrow> (st, Inl e)
      | None \<Rightarrow>
          (case parse_filter filter_val of
             Inl e \<Rightarrow> (st, Inl (QueryError e))
           | Inr f \<Rightarrow>
               let rows = (if multi then select_for_mutation eng f st else take 1 (select_for_mutation eng f st)) in
               (case update_rows eng upd rows 0 st of
                  (st1, Inl e) \<Rightarrow> (st1, Inl e)
                | (st1, Inr n) \<Rightarrow>
                    if rows = [] \<and> upsert
                    then (case upsert_doc eng upd oid st1 of
                            (st2, Inl e) \<Rightarrow> (st2, Inl e)
                          | (st2, Inr i) \<Rightarrow>
                              (st2, Inr \<lparr> matched_count = 0, modified_count = n, upserted_id = Some i \<rparr>))
                    else (st1, Inr \<lparr> matched_count = length rows, modified_count = n, upserted_id = None \<rparr>))))"

fun delete_rows :: "string list \<Rightarrow> coll_state \<Rightarrow> coll_state" where
  "delete_rows [] st = st"
| "delete_rows (i # is) st = delete_rows is (delete_row i (delete_multikey_for_doc i st))"

definition coll_delete ::
  "coll_engine \<Rightarrow> coll_error option \<Rightarrow> json \<Rightarrow> bool \<Rightarrow> coll_state \<Rightarrow> coll_state \<times> (coll_error + nat)" where
  "coll_delete eng gate filter_val multi st =
     (case gate of
        Some e \<Rightarrow> (st, Inl e)
      | None \<Rightarrow>
          (case parse_filter filter_val of
             Inl e \<Rightarrow> (st, Inl (QueryError e))
           | Inr f \<Rightarrow>
               let ids = map fst (select_for_mutation eng f st); to_delete = (if multi then ids else take 1 ids)
               in (delete_rows to_delete st, Inr (length to_delete))))"

section \<open>Queries\<close>

definition as_u64 :: "json \<Rightarrow> nat option" where
  "as_u64 v = (case v of JNumber (PosInt n) \<Rightarrow> Some n | _ \<Rightarrow> None)"

definition sort_keys :: "json \<Rightarrow> (string \<times> bool) list" where
  "sort_keys req =
     (case Option.bind (json_get req ''sort'') as_object of
        Some obj \<Rightarrow> map (\<lambda>(field, dir). (field, case as_i64 dir of Some n \<Rightarrow> n < 0 | None \<Rightarrow> False)) obj
      | None \<Rightarrow> [])"

definition find_sql :: "json_display \<Rightarrow> json \<Rightarrow> mql_filter \<Rightarrow> coll_state \<Rightarrow> string \<times> bound_values" where
  "find_sql disp req f st =
     (let (where_sql, params) = find_where disp f (mk_sides st) (cdefs st) (col_types st);
        order = map (\<lambda>(field, desc). sort_accessor field @ (if desc then '' DESC'' else '' ASC'')) (sort_keys req);
        limit = Option.bind (json_get req ''limit'') as_u64; skip = Option.bind (json_get req ''skip'') as_u64
      in (''SELECT doc FROM '' @ coll_name st @ '' WHERE '' @ where_sql
          @ (if order = [] then [] else '' ORDER BY '' @ join_str '', '' order)
          @ (case limit of Some n \<Rightarrow> '' LIMIT '' @ show_nat n | None \<Rightarrow> [])
          @ (case skip of Some n \<Rightarrow> '' OFFSET '' @ show_nat n | None \<Rightarrow> []), params))"

text \<open>The result of that statement; \<open>LIMIT\<close> counts the rows after the \<open>OFFSET\<close>.\<close>

definition page :: "nat option \<Rightarrow> nat option \<Rightarrow> 'a list \<Rightarrow> 'a list" where
  "page limit skip xs =
     (let ys = (case skip of Some n \<Rightarrow> drop n xs | None \<Rightarrow> xs) in case limit of Some n \<Rightarrow> take n ys | None \<Rightarrow> ys)"

definition coll_find :: "coll_engine \<Rightarrow> coll_error option \<Rightarrow> json \<Rightarrow> coll_state \<Rightarrow> coll_error + json list" where
  "coll_find eng gate req st =
     (case gate of
        Some e \<Rightarrow> Inl e
      | None \<Rightarrow>
          (case parse_filter (case json_get req ''filter'' of Some v \<Rightarrow> v | None \<Rightarrow> JObject []) of
             Inl e \<Rightarrow> Inl (QueryError e)
           | Inr f \<Rightarrow>
               let rows = select_rows eng f st;
                 sorted = (if sort_keys req = [] then rows else order_rows eng (sort_keys req) rows);
                 paged = page (Option.bind (json_get req ''limit'') as_u64) (Option.bind (json_get req ''skip'') as_u64) sorted;
                 projection = (case json_get req ''projection'' of Some v \<Rightarrow> v | None \<Rightarrow> JObject [])
               in Inr (map (\<lambda>(_, r). apply_projection (row_doc r) projection) paged)))"

definition coll_count :: "coll_engine \<Rightarrow> mql_filter \<Rightarrow> coll_state \<Rightarrow> nat" where
  "coll_count eng f st =
     length (case compound_preds (display eng) f (cdefs st) of
         Some (c, ls) \<Rightarrow> filter (where_true eng (PAnd (c # ls))) (coll_rows st)
       | None \<Rightarrow> select_for_mutation eng f st)"

section \<open>Index creation\<close>

record index_request =
  ix_keys :: "(string \<times> json) list"
  ix_unique :: bool
  ix_hint :: "string option"
  ix_multikey :: bool
  ix_expire :: "int option"

text \<open>\<open>UPDATE coll SET dcol = v WHERE _id = i\<close> for each row that has a value.\<close>

fun backfill ::
  "coll_engine \<Rightarrow> string \<Rightarrow> (json \<Rightarrow> rat param option) \<Rightarrow> (string \<times> coll_row) list \<Rightarrow> coll_state \<Rightarrow> coll_state \<times> (coll_error + unit)" where
  "backfill eng dcol val [] st = (st, Inr ())"
| "backfill eng dcol val ((i, r) # rs) st =
     (case val (row_doc r) of
        None \<Rightarrow> backfill eng dcol val rs st
      | Some v \<Rightarrow>
          let cols = AList.update dcol v (row_cols r) in
          if conflict eng (unique_names st) (obj_remove i (coll_rows st)) i cols then (st, Inl UniqueViolation)
          else backfill eng dcol val rs
            (st \<lparr> coll_rows := obj_insert i (r \<lparr> row_cols := cols \<rparr>) (coll_rows st) \<rparr>))"

definition create_compound :: "coll_engine \<Rightarrow> string list \<Rightarrow> bool \<Rightarrow> coll_state \<Rightarrow> coll_state \<times> (coll_error + unit)" where
  "create_compound eng paths unique st =
     (if \<not> list_all (\<lambda>p. valid_path p \<and> CHR ''.'' \<notin> set p) paths then (st, Inl (BadRequest ''PARSE_ERROR''))
      else
        let dcol = compound_col paths;
          st1 = (if dcol \<in> fst ` set (cdefs st) then st
                 else st \<lparr> compound_names := compound_names st @ [dcol],
                           unique_names := (if unique then unique_names st @ [dcol] else unique_names st) \<rparr>)
        in backfill eng dcol (\<lambda>doc. Some (PStr (compound_key (display eng) doc paths))) (coll_rows st1) st1)"

definition sample_values :: "string \<Rightarrow> coll_state \<Rightarrow> json list" where
  "sample_values path st =
     List.map_filter (\<lambda>(_, r). case json_at (row_doc r) path of Some v \<Rightarrow> if v = JNull then None else Some v | None \<Rightarrow> None)
       (coll_rows st)"

definition create_multikey :: "coll_engine \<Rightarrow> string \<Rightarrow> coll_state \<Rightarrow> coll_state \<times> (coll_error + unit)" where
  "create_multikey eng path st =
     (if CHR ''.'' \<in> set path then (st, Inl (BadRequest ''PARSE_ERROR''))
      else
        let side = multikey_side_table (coll_name st) path;
          st1 = (if side \<in> fst ` set (mk_sides st) then st else st \<lparr> mk_sides := mk_sides st @ [(side, path)] \<rparr>)
        in (fold (\<lambda>(i, r) s.
              case json_at (row_doc r) path of
                None \<Rightarrow> s
              | Some v \<Rightarrow> insert_multikey_elements side i (field_elements (display eng) (Some v)) (delete_side side i s))
            (coll_rows st1) st1, Inr ()))"

definition index_hint :: "string \<Rightarrow> index_type option" where
  "index_hint h =
     (let l = to_ascii_lowercase h in
      if l = ''number'' then Some IxNumber
      else if l = ''bool'' \<or> l = ''boolean'' then Some IxBool
      else if l = ''string'' \<or> l = ''text'' then Some IxText
      else None)"

definition create_single :: "coll_engine \<Rightarrow> string \<Rightarrow> index_request \<Rightarrow> coll_state \<Rightarrow> coll_state \<times> (coll_error + unit)" where
  "create_single eng path req st =
     (let dcol = derived_col path in
      case (if map_of (col_types st) dcol \<noteq> None then Some (st, the (map_of (col_types st) dcol))
            else map_option (\<lambda>t. (st \<lparr> col_types := col_types st @ [(dcol, t)],
                unique_names := (if ix_unique req then unique_names st @ [dcol] else unique_names st) \<rparr>, t))
              (case ix_hint req of Some h \<Rightarrow> index_hint h | None \<Rightarrow> Some (infer_index_type (sample_values path st)))) of
        None \<Rightarrow> (st, Inl (BadRequest ''PARSE_ERROR''))
      | Some (st1, t) \<Rightarrow>
          (case backfill eng dcol (\<lambda>doc. map_option (json_value_to_param (display eng)) (derive_typed_value (display eng) doc path t))
              (coll_rows st1) st1 of
             (st2, Inl e) \<Rightarrow> (st2, Inl e)
           | (st2, Inr _) \<Rightarrow>
               (case ix_expire req of
                  None \<Rightarrow> (st2, Inr ())
                | Some secs \<Rightarrow>
                    if secs < 0 then (st2, Inl (BadRequest ''PARSE_ERROR''))
                    else (st2 \<lparr> coll_ttl := Some (path, secs) \<rparr>, Inr ()))))"

definition create_index :: "coll_engine \<Rightarrow> coll_error option \<Rightarrow> index_request \<Rightarrow> coll_state \<Rightarrow> coll_state \<times> (coll_error + unit)" where
  "create_index eng gate req st =
     (case gate of
        Some e \<Rightarrow> (st, Inl e)
      | None \<Rightarrow>
          (case map fst (ix_keys req) of
             [] \<Rightarrow> (st, Inl (BadRequest ''keys must not be empty''))
           | [path] \<Rightarrow>
               if \<not> valid_path path then (st, Inl (BadRequest ''PARSE_ERROR''))
               else if ix_multikey req \<or> list_ex (\<lambda>v. case v of JArray _ \<Rightarrow> True | _ \<Rightarrow> False) (sample_values path st)
               then create_multikey eng path st
               else create_single eng path req st
           | paths \<Rightarrow> create_compound eng paths (ix_unique req) st))"

section \<open>Expiry\<close>

definition field_epoch :: "coll_engine \<Rightarrow> json option \<Rightarrow> int option" where
  "field_epoch eng v =
     (case v of
        Some (JNumber n) \<Rightarrow> (case jnum_as_i64 n of Some i \<Rightarrow> Some i | None \<Rightarrow> Some (f64_as_i64 (jnum_as_f64 n)))
      | Some (JString s) \<Rightarrow> parse_epoch eng s
      | _ \<Rightarrow> None)"

definition expired :: "coll_engine \<Rightarrow> string \<Rightarrow> int \<Rightarrow> int \<Rightarrow> json \<Rightarrow> bool" where
  "expired eng field seconds now doc =
     (case field_epoch eng (json_get doc field) of None \<Rightarrow> False | Some t \<Rightarrow> i64_wrap (t + seconds) \<le> now)"

definition sweep_ttl :: "coll_engine \<Rightarrow> string \<Rightarrow> int \<Rightarrow> int \<Rightarrow> coll_state \<Rightarrow> coll_state \<times> nat" where
  "sweep_ttl eng field seconds now st =
     (let gone = filter (\<lambda>(_, r). expired eng field seconds now (row_doc r)) (coll_rows st)
      in (fold (\<lambda>(i, _). delete_row i) gone st, length gone))"

definition sweep_all_ttl :: "coll_engine \<Rightarrow> bool \<Rightarrow> int \<Rightarrow> coll_state \<Rightarrow> coll_state" where
  "sweep_all_ttl eng writer now st =
     (if \<not> writer then st
      else case coll_ttl st of
        None \<Rightarrow> st
      | Some (field, seconds) \<Rightarrow> fst (sweep_ttl eng field seconds now st))"

end
