(* ===== verification/Coll_Properties.thy ===== *)
theory Coll_Properties
  imports Coll_Invariant
begin

text \<open>
  Document collections: the properties of the handlers in every state that requests can reach, and
  the states that they cannot repair.
\<close>

section \<open>Reachable states\<close>

definition empty_coll :: "string \<Rightarrow> coll_state" where
  "empty_coll name = \<lparr> coll_name = name, col_types = [], compound_names = [], unique_names = [], coll_rows = [],
     mk_sides = [], side_rows = [], coll_ttl = None \<rparr>"

text \<open>An index request whose paths can be recovered from the name of the column.\<close>

definition clean_request :: "index_request \<Rightarrow> bool" where
  "clean_request req =
     (case map fst (ix_keys req) of
        [p] \<Rightarrow> CHR ''.'' \<notin> set p
      | ps \<Rightarrow> compound_col_def (compound_col ps) = Some (compound_col ps, ps))"

inductive coll_step :: "coll_engine \<Rightarrow> coll_state \<Rightarrow> coll_state \<Rightarrow> bool" for eng where
  insert: "coll_insert eng gate body oids st = (st', res) \<Longrightarrow> coll_step eng st st'"
| update: "coll_update eng gate filter_val upd multi upsert oid st = (st', res) \<Longrightarrow> coll_step eng st st'"
| delete: "coll_delete eng gate filter_val multi st = (st', res) \<Longrightarrow> coll_step eng st st'"
| index: "create_index eng gate req st = (st', Inr u) \<Longrightarrow> clean_request req \<Longrightarrow> coll_step eng st st'"
| sweep: "mk_sides st = [] \<Longrightarrow> coll_step eng st (sweep_all_ttl eng writer now st)"

inductive coll_reachable :: "coll_engine \<Rightarrow> coll_state \<Rightarrow> bool" for eng where
  start: "coll_reachable eng (empty_coll name)"
| step: "coll_reachable eng st \<Longrightarrow> coll_step eng st st' \<Longrightarrow> coll_reachable eng st'"

lemma empty_coll_ok: "coll_ok eng (empty_coll name)"
  by (simp add: coll_ok_def schema_ok_def empty_coll_def obj_ok_def side_synced_def)

lemma delete_row_ok:
  assumes "coll_ok eng st" "mk_sides st = []"
  shows "coll_ok eng (delete_row i st)"
proof -
  have "delete_multikey_for_doc i st = st" using assms(2) by (simp add: delete_multikey_for_doc_def)
  then show ?thesis using delete_doc_ok [OF assms(1), of i] by simp
qed

lemma coll_sweep_ok:
  assumes "coll_ok eng st" "mk_sides st = []"
  shows "coll_ok eng (sweep_all_ttl eng writer now st)"
proof -
  have "coll_ok eng (fold (\<lambda>(i, _). delete_row i) rs s)" if "coll_ok eng s" "mk_sides s = []"
    for rs :: "(string \<times> coll_row) list" and s
    using that
  proof (induction rs arbitrary: s)
    case (Cons x rs)
    have "mk_sides (delete_row (fst x) s) = []" using Cons.prems(2) by (simp add: delete_row_def)
    then show ?case using Cons.IH delete_row_ok [OF Cons.prems] by (simp add: case_prod_beta)
  qed simp
  then show ?thesis using assms by (auto simp: sweep_all_ttl_def sweep_ttl_def Let_def split: option.split)
qed

lemma create_index_ok:
  assumes "coll_ok eng st" "create_index eng gate req st = (st', Inr u)" "clean_request req"
  shows "coll_ok eng st'"
proof (cases "map fst (ix_keys req)")
  case (Cons p ps)
  show ?thesis
  proof (cases ps)
    case Nil
    then have dot: "CHR ''.'' \<notin> set p" using assms(3) Cons by (simp add: clean_request_def)
    from Nil Cons assms(2) consider "create_multikey eng p st = (st', Inr u)" | "create_single eng p req st = (st', Inr u)"
      by (simp add: create_index_def split: option.splits if_splits)
    then show ?thesis using create_multikey_ok [OF assms(1)] create_single_ok [OF assms(1) _ dot] by cases
  next
    case more: (Cons q qs)
    then have "compound_col_def (compound_col (p # ps)) = Some (compound_col (p # ps), p # ps)"
      using assms(3) Cons by (simp add: clean_request_def)
    moreover have "create_compound eng (p # ps) (ix_unique req) st = (st', Inr u)"
      using assms(2) Cons more by (simp add: create_index_def split: option.splits)
    ultimately show ?thesis using create_compound_ok [OF assms(1)] by blast
  qed
qed (use assms in \<open>simp add: create_index_def split: option.splits\<close>)

lemma coll_step_ok: "coll_step eng st st' \<Longrightarrow> coll_ok eng st \<Longrightarrow> coll_ok eng st'"
  by (induction rule: coll_step.induct)
    (auto intro: coll_insert_ok coll_update_ok coll_delete_ok create_index_ok coll_sweep_ok)

lemma coll_reachable_ok: "coll_reachable eng st \<Longrightarrow> coll_ok eng st"
  by (induction rule: coll_reachable.induct) (auto simp: empty_coll_ok intro: coll_step_ok)

section \<open>Queries\<close>


definition coll_docs :: "coll_state \<Rightarrow> json list" where
  "coll_docs st = map (row_doc \<circ> snd) (coll_rows st)"

definition row_docs :: "(string \<times> coll_row) list \<Rightarrow> json list" where
  "row_docs rows = map (row_doc \<circ> snd) rows"

lemma row_docs_filter:
  assumes "\<And>i r. (i, r) \<in> set rows \<Longrightarrow> P (i, r) = Q (row_doc r)"
  shows "row_docs (filter P rows) = filter Q (map (row_doc \<circ> snd) rows)"
  using assms by (induction rows) (auto simp: row_docs_def)



lemma multikey_where_exact:
  assumes "coll_ok eng st" "(i, r) \<in> set (coll_rows st)" "multikey_target (FCmp path CEq v) (mk_sides st) = Some (side, v)"
    and "CHR ''.'' \<notin> set path"
  shows "(side, i, t) \<in> set (side_rows st) \<longleftrightarrow> t \<in> set (field_elements (display eng) (json_get (row_doc r) path))"
proof -
  note ok = coll_okD [OF assms(1)]
  obtain field where "find (\<lambda>(_, field). field = replace_char (CHR ''.'') ''_'' path) (mk_sides st) = Some (side, field)"
    using assms(3) by (auto simp: multikey_target_def split: if_splits option.splits)
  then have "(side, field) \<in> set (mk_sides st)" "field = path"
    using replace_char_id [OF assms(4)] by (auto simp: find_Some_iff in_set_conv_nth)
  moreover have "map_of (coll_rows st) i = Some r"
    using map_of_is_SomeI [OF obj_ok_distinct [OF ok(2)] assms(2)] .
  ultimately show ?thesis using ok(4) unfolding side_synced_def by auto
qed

section \<open>A sample collection\<close>

definition demo_display :: json_display where
  "demo_display v = (case v of JNumber (PosInt n) \<Rightarrow> show_nat n | _ \<Rightarrow> [])"

definition demo_conflict :: "string list \<Rightarrow> (string \<times> coll_row) list \<Rightarrow> string \<Rightarrow> (string \<times> rat param) list \<Rightarrow> bool" where
  "demo_conflict uniq rows i cols =
     list_ex (\<lambda>c. list_ex (\<lambda>(j, r). j \<noteq> i \<and> row_value r c \<noteq> PNull \<and> Some (row_value r c) = map_of cols c) rows) uniq"

definition demo_engine :: coll_engine where
  "demo_engine = \<lparr> display = demo_display, regex = (\<lambda>s r. s = r), accessor = field_param demo_display,
     cast_accessor = field_param demo_display, order_rows = (\<lambda>_ rows. rows), conflict = demo_conflict,
     parse_epoch = (\<lambda>_. None) \<rparr>"

definition demo_doc :: "string \<Rightarrow> nat \<Rightarrow> string \<Rightarrow> json list \<Rightarrow> json" where
  "demo_doc i n a tags = JObject [(''_id'', JString i), (''a'', JString a), (''b'', JString ''w''),
     (''n'', JNumber (PosInt n)), (''tags'', JArray tags)]"

definition demo_body :: json where
  "demo_body = JObject [(''documents'', JArray [demo_doc ''x'' 5 ''u'' [JString ''p'', JString ''q''],
     demo_doc ''y'' 7 ''v'' [JString ''q'']])]"

definition demo_index :: "string list \<Rightarrow> index_request" where
  "demo_index paths = \<lparr> ix_keys = map (\<lambda>p. (p, JNumber (PosInt 1))) paths, ix_unique = False, ix_hint = None,
     ix_multikey = False, ix_expire = None \<rparr>"

definition demo_inserted :: coll_state where
  "demo_inserted = fst (coll_insert demo_engine None demo_body (\<lambda>_. ''z'') (empty_coll ''c''))"

definition demo_indexed :: coll_state where
  "demo_indexed = fst (create_index demo_engine None (demo_index [''a'']) demo_inserted)"

definition demo_compound :: coll_state where
  "demo_compound = fst (create_index demo_engine None (demo_index [''a'', ''b'']) demo_indexed)"

definition demo_multikey :: coll_state where
  "demo_multikey = fst (create_index demo_engine None (demo_index [''tags'']) demo_compound)"

lemma demo_indexed_Inr: "snd (create_index demo_engine None (demo_index [''a'']) demo_inserted) = Inr ()"
  by code_simp

lemma demo_compound_Inr: "snd (create_index demo_engine None (demo_index [''a'', ''b'']) demo_indexed) = Inr ()"
  by code_simp

lemma demo_multikey_Inr: "snd (create_index demo_engine None (demo_index [''tags'']) demo_compound) = Inr ()"
  by code_simp

lemma demo_coll_reachable: "coll_reachable demo_engine demo_multikey"
proof -
  have "coll_reachable demo_engine demo_inserted"
    by (rule coll_reachable.step [OF coll_reachable.start coll_step.insert])
      (simp add: demo_inserted_def prod_eq_iff)
  moreover have "coll_step demo_engine demo_inserted demo_indexed"
    using demo_indexed_Inr
    by (intro coll_step.index [where gate = None and req = "demo_index [''a'']"]) (simp_all add: demo_indexed_def prod_eq_iff clean_request_def demo_index_def)
  moreover have "coll_step demo_engine demo_indexed demo_compound"
    using demo_compound_Inr
    by (intro coll_step.index [where gate = None and req = "demo_index [''a'', ''b'']"]) (simp add: demo_compound_def prod_eq_iff, code_simp)
  moreover have "coll_step demo_engine demo_compound demo_multikey"
    using demo_multikey_Inr
    by (intro coll_step.index [where gate = None and req = "demo_index [''tags'']"]) (simp add: demo_multikey_def prod_eq_iff, code_simp)
  ultimately show ?thesis by (blast intro: coll_reachable.step)
qed


definition demo_element :: mql_filter where "demo_element = FCmp ''tags'' CEq (JString ''q'')"



lemma demo_element_target:
  "multikey_target (FCmp ''tags'' CEq (JString ''q'')) (mk_sides demo_multikey) = Some (''c__mk_tags'', JString ''q'')"
  by code_simp

section \<open>Properties\<close>







text \<open>An equality on a field with a multikey index returns the documents in which the field is an
  array with an element of that text or is a value of that text.\<close>

theorem find_by_element_exact:
  assumes "coll_reachable eng st" "multikey_target (FCmp path CEq v) (mk_sides st) = Some (side, v)"
    and "CHR ''.'' \<notin> set path"
  shows "row_docs (select_rows eng (FCmp path CEq v) st)
    = filter (\<lambda>doc. json_text (display eng) v \<in> set (field_elements (display eng) (json_get doc path))) (coll_docs st)"
  using assms(2) multikey_where_exact [OF coll_reachable_ok [OF assms(1)] _ assms(2,3)]
  by (simp add: select_rows_def coll_docs_def row_docs_filter)

theorem find_by_element_exact_witness:
  "row_docs (select_rows demo_engine demo_element demo_multikey) = coll_docs demo_multikey"
proof -
  have "row_docs (select_rows demo_engine demo_element demo_multikey)
    = filter (\<lambda>doc. json_text (display demo_engine) (JString ''q'')
        \<in> set (field_elements (display demo_engine) (json_get doc ''tags''))) (coll_docs demo_multikey)"
    unfolding demo_element_def by (rule find_by_element_exact [OF demo_coll_reachable demo_element_target]) simp
  also have "\<dots> = coll_docs demo_multikey" by code_simp
  finally show ?thesis .
qed

section \<open>What the handlers do not keep\<close>




text \<open>A unique index on a field with equal values: the column is added first, so the request that fails
  leaves a column that is filled for some rows only, and queries go to that column.\<close>

definition demo_twice :: coll_state where
  "demo_twice = fst (coll_insert demo_engine None (JObject [(''documents'', JArray
     [demo_doc ''x'' 1 ''u'' [], demo_doc ''y'' 2 ''u'' [], demo_doc ''z'' 3 ''v'' []])]) (\<lambda>_. ''o'') (empty_coll ''c''))"

definition demo_failed :: coll_state where
  "demo_failed = fst (create_index demo_engine None ((demo_index [''a'']) \<lparr> ix_unique := True \<rparr>) demo_twice)"

text \<open>A unique index request that is refused because of equal values leaves an index that hides
  documents: the same query finds the document before the request and misses it afterwards.\<close>

theorem refused_unique_index_hides_documents:
  "snd (create_index demo_engine None ((demo_index [''a'']) \<lparr> ix_unique := True \<rparr>) demo_twice) = Inl UniqueViolation \<and>
   coll_docs demo_failed = coll_docs demo_twice \<and>
   row_docs (select_rows demo_engine (FCmp ''a'' CEq (JString ''v'')) demo_twice) = [demo_doc ''z'' 3 ''v'' []] \<and>
   row_docs (select_rows demo_engine (FCmp ''a'' CEq (JString ''v'')) demo_failed) = []"
  by code_simp

text \<open>The expiry sweep deletes rows and leaves the side tables; a document with the same identifier
  inherits the elements.\<close>

definition demo_swept :: coll_state where
  "demo_swept = fst (coll_insert demo_engine None (JObject [(''documents'', JArray [demo_doc ''x'' 9 ''u'' [JString ''q'']])])
     (\<lambda>_. ''o'') (fst (sweep_ttl demo_engine ''n'' 0 6 demo_multikey)))"

text \<open>After an expiry sweep a multikey index returns a document for an element that it does not have.\<close>

theorem sweep_leaves_stale_elements:
  "row_docs (select_rows demo_engine (FCmp ''tags'' CEq (JString ''p'')) demo_swept) = [demo_doc ''x'' 9 ''u'' [JString ''q'']]"
  by code_simp

text \<open>Two equalities on one path: the map of equalities keeps the last, and the compound index answers
  for it alone.\<close>

definition demo_contradiction :: mql_filter where
  "demo_contradiction = FAnd [FCmp ''a'' CEq (JString ''v''), FCmp ''a'' CEq (JString ''u''), FCmp ''b'' CEq (JString ''w'')]"

text \<open>A compound index answers a contradictory filter with a document.\<close>

theorem compound_index_drops_equality:
  "list_all (\<lambda>doc. matches3 demo_display (regex demo_engine) doc demo_contradiction = Some False) (coll_docs demo_multikey) \<and>
   row_docs (select_rows demo_engine demo_contradiction demo_multikey) = [demo_doc ''x'' 5 ''u'' [JString ''p'', JString ''q'']]"
  by code_simp

text \<open>An expiry time at the end of the range of \<open>i64\<close> wraps: the document is deleted by the next sweep.\<close>

theorem far_expiry_wraps:
  assumes "0 < seconds" "seconds < 2 ^ 63" "0 \<le> now"
  shows "expired eng field seconds now (JObject [(field, JNumber (PosInt (2 ^ 63 - 1)))])"
proof -
  have "i64_wrap (2 ^ 63 - 1 + seconds) = seconds - 1 - 2 ^ 63"
  proof -
    have "(2 ^ 63 - 1 + seconds + 2 ^ 63) mod 2 ^ 64 = (2 ^ 64 + (seconds - 1)) mod 2 ^ 64" by simp
    also have "\<dots> = seconds - 1" unfolding mod_add_self1 using assms(1,2) by (intro mod_pos_pos_trivial) auto
    finally show ?thesis by (simp add: i64_wrap_def)
  qed
  then show ?thesis using assms by (simp add: expired_def field_epoch_def)
qed

end
