(* ===== verification/Coll_Types.thy ===== *)
theory Coll_Types
  imports Coll_Update
begin

text \<open>
  Well-formed documents: every object has its keys in order and every number is a number of the
  representation. Updates and projections of well-formed documents are well-formed.
\<close>

fun json_ok :: "json \<Rightarrow> bool" where
  "json_ok (JNumber n) = jnum_ok n"
| "json_ok (JArray xs) = list_all json_ok xs"
| "json_ok (JObject obj) = (obj_ok obj \<and> list_all (\<lambda>p. json_ok (snd p)) obj)"
| "json_ok _ = True"

definition fields_ok :: "(string \<times> json) list \<Rightarrow> bool" where
  "fields_ok obj \<longleftrightarrow> obj_ok obj \<and> list_all (\<lambda>p. json_ok (snd p)) obj"

lemma json_ok_object [simp]: "json_ok (JObject obj) = fields_ok obj"
  by (simp add: fields_ok_def)

declare json_ok.simps(3) [simp del]

lemma fields_ok_lookup: "fields_ok obj \<Longrightarrow> map_of obj k = Some v \<Longrightarrow> json_ok v"
  using map_of_SomeD by (fastforce simp: fields_ok_def list_all_iff)

lemma fields_ok_insert: "fields_ok obj \<Longrightarrow> json_ok v \<Longrightarrow> fields_ok (obj_insert k v obj)"
proof -
  assume ok: "fields_ok obj" "json_ok v"
  have "list_all (\<lambda>p. json_ok (snd p)) (obj_insert k v obj)"
    using ok unfolding fields_ok_def by (induction k v obj rule: obj_insert.induct) (auto simp: obj_ok_def)
  then show ?thesis using ok obj_insert_ok [of obj k v] by (simp add: fields_ok_def)
qed

lemma fields_ok_remove: "fields_ok obj \<Longrightarrow> fields_ok (obj_remove k obj)"
  using obj_remove_ok by (auto simp: fields_ok_def obj_remove_def list_all_iff)

lemma fields_ok_Cons: "fields_ok ((k, v) # obj) \<Longrightarrow> json_ok v \<and> fields_ok obj"
  by (auto simp: fields_ok_def obj_ok_def)

section \<open>Numbers\<close>

lemma jint_ok: "- (2 ^ 63) \<le> i \<Longrightarrow> i < 2 ^ 63 \<Longrightarrow> json_ok (jint i)"
  by (auto simp: jint_def nat_less_iff)

lemma f64_as_i64_range: "- (2 ^ 63) \<le> f64_as_i64 q" "f64_as_i64 q < 2 ^ 63"
  by (auto simp: f64_as_i64_def)

lemma num_ok: "json_ok (num (f64_add x y))"
proof (cases "f64_add x y")
  case (Some q)
  then have "\<bar>q\<bar> < 2 ^ 1024"
    by (auto simp: f64_add_def f64_finite_def split: prod.splits if_splits)
  then show ?thesis using Some jint_ok f64_as_i64_range by (simp add: num_def)
qed (simp add: num_def)

section \<open>Updates\<close>

lemma set_fields_typed: "fields_ok flds \<Longrightarrow> fields_ok obj \<Longrightarrow> fields_ok (set_fields flds obj)"
  by (induction flds obj rule: set_fields.induct) (auto dest!: fields_ok_Cons simp: fields_ok_insert)

lemma unset_fields_typed: "fields_ok obj \<Longrightarrow> fields_ok (unset_fields flds obj)"
  by (induction flds obj rule: unset_fields.induct) (auto simp: fields_ok_remove)

lemma inc_fields_typed: "inc_fields flds obj = Inr obj' \<Longrightarrow> fields_ok obj \<Longrightarrow> fields_ok obj'"
  by (induction flds obj rule: inc_fields.induct) (auto simp: fields_ok_insert num_ok split: option.splits)

lemma push_fields_typed: "push_fields flds obj = Inr obj' \<Longrightarrow> fields_ok flds \<Longrightarrow> fields_ok obj \<Longrightarrow> fields_ok obj'"
proof (induction flds obj rule: push_fields.induct)
  case (2 k v flds obj)
  have v: "json_ok v" "fields_ok flds" using 2(3) fields_ok_Cons by blast+
  obtain xs where xs: "(case map_of obj k of Some x \<Rightarrow> x | None \<Rightarrow> JArray []) = JArray xs"
    using 2(2) by (cases "case map_of obj k of Some x \<Rightarrow> x | None \<Rightarrow> JArray []") auto
  have "list_all json_ok xs" using xs fields_ok_lookup [OF 2(4), of k] by (auto split: option.splits)
  then have "fields_ok (obj_insert k (JArray (xs @ [v])) obj)" using 2(4) v(1) by (intro fields_ok_insert) auto
  then show ?case using 2(1) [OF xs] 2(2) xs v(2) by simp
qed simp

lemma pull_fields_typed: "fields_ok obj \<Longrightarrow> fields_ok (pull_fields flds obj)"
proof (induction flds obj rule: pull_fields.induct)
  case (2 k v flds obj)
  have "fields_ok (obj_insert k (JArray (filter (\<lambda>e. e \<noteq> v) xs)) obj)" if "map_of obj k = Some (JArray xs)" for xs
    using fields_ok_lookup [OF 2(2) that] 2(2) by (intro fields_ok_insert) (auto simp: list_all_iff)
  then show ?case using 2 by (auto split: option.split json.split)
qed simp

lemma apply_op_typed:
  "apply_op op body obj = Inr obj' \<Longrightarrow> json_ok body \<Longrightarrow> fields_ok obj \<Longrightarrow> fields_ok obj'"
  using set_fields_typed unset_fields_typed inc_fields_typed push_fields_typed pull_fields_typed
  by (auto simp: apply_op_def split: json.splits if_splits)

lemma apply_ops_typed: "apply_ops ops obj = Inr obj' \<Longrightarrow> fields_ok ops \<Longrightarrow> fields_ok obj \<Longrightarrow> fields_ok obj'"
  by (induction ops obj rule: apply_ops.induct) (auto simp: and_then_Inr dest!: fields_ok_Cons dest: apply_op_typed)

section \<open>Properties\<close>

text \<open>C32. An update of a well-formed document that does not fail gives a well-formed object: keys in
  order, numbers within the 64-bit and double ranges whatever the increments are. A replacement keeps
  the identifier; operators change only the fields that they name.\<close>

theorem update_gives_document:
  assumes "json_ok (JObject obj)" "json_ok upd" "apply_update (JObject obj) upd = Inr doc'"
  shows "\<exists>obj' u. doc' = JObject obj' \<and> json_ok doc' \<and> upd = JObject u \<and>
    (if list_ex (\<lambda>p. starts_with ''$'' (fst p)) u
     then \<forall>k. \<not> mentions u k \<longrightarrow> map_of obj' k = map_of obj k
     else map_of obj' = (case map_of obj ''_id'' of Some i \<Rightarrow> (map_of u)(''_id'' \<mapsto> i) | None \<Rightarrow> map_of u))"
proof -
  obtain u where u: "upd = JObject u" using assms(3) by (cases upd) (auto simp: apply_update_def)
  have ok: "fields_ok obj" "fields_ok u" using assms(1,2) u by auto
  show ?thesis
  proof (cases "list_ex (\<lambda>p. starts_with ''$'' (fst p)) u")
    case True
    then obtain obj' where obj': "apply_ops u obj = Inr obj'" "doc' = JObject obj'"
      using assms(3) u by (auto simp: apply_update_def and_then_Inr)
    moreover have "fields_ok obj'" using apply_ops_typed [OF obj'(1)] ok by blast
    moreover have "map_of obj' k = map_of obj k" if "\<not> mentions u k" for k
      using apply_ops_other [OF obj'(1)] ok(1) that by (simp add: fields_ok_def)
    ultimately show ?thesis using u True by auto
  next
    case False
    have ins: "map_of (obj_insert ''_id'' i u) = (map_of u)(''_id'' \<mapsto> i)" "fields_ok (obj_insert ''_id'' i u)"
      if "map_of obj ''_id'' = Some i" for i
      using ok fields_ok_lookup [OF ok(1) that] fields_ok_insert by (auto simp: fields_ok_def)
    show ?thesis
      using False assms(3) u ok ins by (cases "map_of obj ''_id''") (auto simp: apply_update_def)
  qed
qed

definition demo_obj :: "(string \<times> json) list" where
  "demo_obj = [(''_id'', JString ''x''), (''n'', JNumber (PosInt 1)), (''t'', JArray [])]"

definition demo_upd :: json where
  "demo_upd = JObject [(''$push'', JObject [(''t'', JString ''p'')]), (''$set'', JObject [(''a'', JNull)])]"

theorem update_gives_document_witness:
  "\<exists>obj' u. JObject [(''_id'', JString ''x''), (''a'', JNull), (''n'', JNumber (PosInt 1)), (''t'', JArray [JString ''p''])] = JObject obj' \<and>
    json_ok (JObject [(''_id'', JString ''x''), (''a'', JNull), (''n'', JNumber (PosInt 1)), (''t'', JArray [JString ''p''])]) \<and>
    demo_upd = JObject u \<and>
    (if list_ex (\<lambda>p. starts_with ''$'' (fst p)) u
     then \<forall>k. mentions u k \<or> map_of obj' k = map_of demo_obj k
     else map_of obj' = (case map_of demo_obj ''_id'' of Some i \<Rightarrow> (map_of u)(''_id'' \<mapsto> i) | None \<Rightarrow> map_of u))"
proof -
  have "json_ok (JObject demo_obj)" "json_ok demo_upd"
    by (simp_all add: demo_obj_def demo_upd_def fields_ok_def obj_ok_def)
  moreover have "apply_update (JObject demo_obj) demo_upd
    = Inr (JObject [(''_id'', JString ''x''), (''a'', JNull), (''n'', JNumber (PosInt 1)), (''t'', JArray [JString ''p''])])"
    by code_simp
  ultimately show ?thesis using update_gives_document by fastforce
qed

end
