(* ===== verification/Coll_Analytic.thy ===== *)
theory Coll_Analytic
  imports Coll_Compound
begin

text \<open>
  The filter of an aggregation, \<open>Filter::to_df_expr\<close> of \<open>bluedb-collections/src/filter.rs\<close>: the same
  filter as an expression of the analytical engine. An expression is the tree of the builder calls of
  the code, evaluated in the three-valued logic of the engine; it is compared with the SQL text of the
  filter over the same columns.
\<close>

datatype df_expr =
    DLit "rat param"
  | DCol string
  | DGetStr string
  | DCastF64 df_expr
  | DCompare cmp_op df_expr df_expr
  | DInList df_expr "df_expr list" bool
  | DIsNull df_expr
  | DIsNotNull df_expr
  | DAnd df_expr df_expr
  | DOr df_expr df_expr
  | DNot df_expr

definition json_to_lit :: "json_display \<Rightarrow> json \<Rightarrow> df_expr" where
  "json_to_lit disp v =
     DLit (case v of
         JString s \<Rightarrow> PStr s
       | JBool b \<Rightarrow> PBool b
       | JNumber n \<Rightarrow> (case jnum_as_i64 n of Some i \<Rightarrow> PInt i | None \<Rightarrow> PFloat (jnum_as_f64 n))
       | _ \<Rightarrow> PStr (disp v))"

definition path_expr :: "string list \<Rightarrow> string \<Rightarrow> df_expr" where
  "path_expr materialized path =
     (if path = ''_id'' then DCol ''_id''
      else if path \<in> set materialized then DCol path
      else DGetStr path)"

definition path_expr_for :: "string list \<Rightarrow> string \<Rightarrow> json \<Rightarrow> df_expr" where
  "path_expr_for materialized path v =
     (let base = path_expr materialized path in
      if path \<noteq> ''_id'' \<and> path \<notin> set materialized \<and> is_numeric v then DCastF64 base else base)"

definition cmp_df_expr :: "json_display \<Rightarrow> string list \<Rightarrow> string \<Rightarrow> cmp_op \<Rightarrow> json \<Rightarrow> mql_error + df_expr" where
  "cmp_df_expr disp materialized path op v =
     (case op of
        CIn \<Rightarrow> Inr (DInList (path_expr_for materialized path v) (map (json_to_lit disp) (value_items v)) False)
      | CNin \<Rightarrow> Inr (DInList (path_expr_for materialized path v) (map (json_to_lit disp) (value_items v)) True)
      | CExists \<Rightarrow>
          Inr (if exists_want v then DIsNotNull (path_expr materialized path) else DIsNull (path_expr materialized path))
      | CRegex \<Rightarrow> Inl (UnsupportedOperator ''$regex'')
      | _ \<Rightarrow> Inr (DCompare op (path_expr_for materialized path v) (json_to_lit disp v)))"

fun df_fold :: "(df_expr \<Rightarrow> df_expr \<Rightarrow> df_expr) \<Rightarrow> df_expr \<Rightarrow> (mql_error + df_expr) list \<Rightarrow> mql_error + df_expr" where
  "df_fold g acc [] = Inr acc"
| "df_fold g acc (x # xs) = and_then x (\<lambda>e. df_fold g (g acc e) xs)"

fun to_df_expr :: "json_display \<Rightarrow> string list \<Rightarrow> mql_filter \<Rightarrow> mql_error + df_expr" where
  "to_df_expr disp materialized FTrue = Inr (DLit (PBool True))"
| "to_df_expr disp materialized (FAnd fs) =
     (case map (to_df_expr disp materialized) fs of
        [] \<Rightarrow> Inr (DLit (PBool True))
      | x # xs \<Rightarrow> and_then x (\<lambda>e. df_fold DAnd e xs))"
| "to_df_expr disp materialized (FOr fs) =
     (case map (to_df_expr disp materialized) fs of
        [] \<Rightarrow> Inr (DLit (PBool True))
      | x # xs \<Rightarrow> and_then x (\<lambda>e. df_fold DOr e xs))"
| "to_df_expr disp materialized (FNot f) = and_then (to_df_expr disp materialized f) (\<lambda>e. Inr (DNot e))"
| "to_df_expr disp materialized (FCmp path op v) = cmp_df_expr disp materialized path op v"

section \<open>Evaluation\<close>

definition param_bool :: "bool option \<Rightarrow> rat param" where
  "param_bool b = (case b of Some x \<Rightarrow> PBool x | None \<Rightarrow> PNull)"

definition bool_param :: "rat param \<Rightarrow> bool option" where
  "bool_param p = (case p of PBool x \<Rightarrow> Some x | _ \<Rightarrow> None)"

lemma bool_param_bool [simp]: "bool_param (param_bool b) = b"
  by (cases b) (simp_all add: bool_param_def param_bool_def)

lemma bool_param_PBool [simp]: "bool_param (PBool b) = Some b"
  by (simp add: bool_param_def)

text \<open>A plain comparison: unknown on a missing value, also for \<open>not_eq\<close>.\<close>

fun df_compare :: "cmp_op \<Rightarrow> rat param \<Rightarrow> rat param \<Rightarrow> bool option" where
  "df_compare CNe x y = not3 (eq3 x y)"
| "df_compare op x y = cmp3 (\<lambda>_ _. False) op x y [] True"

text \<open>\<open>cols\<close> are the columns of the row, \<open>get\<close> the text accessor of the document and \<open>cst\<close> the cast
  of its result.\<close>

fun df_eval :: "(string \<Rightarrow> rat param) \<Rightarrow> (string \<Rightarrow> rat param) \<Rightarrow> (rat param \<Rightarrow> rat param) \<Rightarrow> df_expr \<Rightarrow> rat param" where
  "df_eval cols get cst (DLit p) = p"
| "df_eval cols get cst (DCol c) = cols c"
| "df_eval cols get cst (DGetStr p) = get p"
| "df_eval cols get cst (DCastF64 e) = cst (df_eval cols get cst e)"
| "df_eval cols get cst (DCompare op x y) = param_bool (df_compare op (df_eval cols get cst x) (df_eval cols get cst y))"
| "df_eval cols get cst (DInList x ys negated) =
     (let r = in3 (df_eval cols get cst x) (map (df_eval cols get cst) ys) in param_bool (if negated then not3 r else r))"
| "df_eval cols get cst (DIsNull x) = PBool (is_null (df_eval cols get cst x))"
| "df_eval cols get cst (DIsNotNull x) = PBool (\<not> is_null (df_eval cols get cst x))"
| "df_eval cols get cst (DAnd x y) = param_bool (and3 (bool_param (df_eval cols get cst x)) (bool_param (df_eval cols get cst y)))"
| "df_eval cols get cst (DOr x y) = param_bool (or3 (bool_param (df_eval cols get cst x)) (bool_param (df_eval cols get cst y)))"
| "df_eval cols get cst (DNot x) = param_bool (not3 (bool_param (df_eval cols get cst x)))"

section \<open>Agreement with the SQL text\<close>


definition sql_env :: "(string \<Rightarrow> rat param) \<Rightarrow> (string \<Rightarrow> rat param) \<Rightarrow> (rat param \<Rightarrow> rat param) \<Rightarrow> operand \<Rightarrow> rat param" where
  "sql_env cols get cst x =
     (case x of
        OCol c \<Rightarrow> cols c
      | OAcc p \<Rightarrow> if p = ''_id'' then cols ''_id'' else get p
      | OCast p \<Rightarrow> cst (get p))"

lemma and3_simps [simp]: "and3 (Some True) x = x" "and3 x (Some True) = x" "and3 (and3 x y) z = and3 x (and3 y z)"
  by (cases x; cases y; cases z; simp add: and3_def)+

lemma or3_simps [simp]: "or3 (Some False) x = x" "or3 x (Some False) = x" "or3 (or3 x y) z = or3 x (or3 y z)"
  by (cases x; cases y; cases z; simp add: or3_def)+






section \<open>Properties\<close>



text \<open>On a document without the field, \<open>$ne\<close> holds for a query and is unknown, so not a match, for
  an aggregation.\<close>

theorem not_equal_differs_on_missing_field:
  "eval3 disp rx (sql_env cols (\<lambda>_. PNull) cst) (route [] (FCmp ''a'' CNe (JString s))) = Some True \<and>
   (\<exists>e. to_df_expr disp [] (FCmp ''a'' CNe (JString s)) = Inr e \<and>
     bool_param (df_eval cols (\<lambda>_. PNull) cst e) = None)"
  by (simp add: route_cmp_def is_numeric_def sql_env_def cmp_df_expr_def path_expr_for_def path_expr_def json_to_lit_def
      is_null_def eq3_def not3_def or3_def Let_def)

end
