(* ===== verification/Fts_Index.thy ===== *)
theory Fts_Index
  imports Json "HOL-Library.AList" "HOL-Library.Multiset"
begin

text \<open>
  The durable full-text index, \<open>bluedb-fts/src\<close> (\<open>manifest.rs\<close>, \<open>tombstones.rs\<close>, \<open>writer.rs\<close>,
  \<open>merge.rs\<close>, \<open>policy.rs\<close>, \<open>gc.rs\<close>) and its facade \<open>bluedb-engine/src/fts.rs\<close>: immutable splits, a
  manifest that lists them with their generations, deletes that are scoped to a generation, and a
  compaction that rewrites all splits into one.

  A split is the list of its stored documents in the order of their addresses. Building one is the
  search library's work: \<open>e_build\<close> is the order in which it stores a batch and \<open>e_size\<close> the length of
  the packed file. Blobs are typed, so their serialization is not modelled. Each operation of the
  facade yields the writes it performs on the blob store, in their order, so that an interrupted
  operation is a prefix of them.
\<close>

section \<open>Documents and their identifiers\<close>

datatype stored_value = SStr string | SU64 u64 | SOther string

type_synonym tdoc = "(nat \<times> stored_value) list"

record fts_env =
  e_build :: "tdoc list \<Rightarrow> tdoc list"
  e_size :: "tdoc list \<Rightarrow> u64"

definition doc_id_string :: "string option \<Rightarrow> u64 option \<Rightarrow> string option" where
  "doc_id_string as_str as_u64 = (case as_str of Some s \<Rightarrow> Some s | None \<Rightarrow> map_option show_u64 as_u64)"

fun value_str :: "stored_value \<Rightarrow> string option" where
  "value_str (SStr s) = Some s"
| "value_str _ = None"

fun value_u64 :: "stored_value \<Rightarrow> u64 option" where
  "value_u64 (SU64 n) = Some n"
| "value_u64 _ = None"

definition extract_id :: "nat \<Rightarrow> tdoc \<Rightarrow> string option" where
  "extract_id f d = (case map_of d f of None \<Rightarrow> None | Some v \<Rightarrow> doc_id_string (value_str v) (value_u64 v))"

definition reproject :: "nat list \<Rightarrow> tdoc \<Rightarrow> tdoc" where
  "reproject schema d = concat (map (\<lambda>f. filter (\<lambda>p. fst p = f) d) schema)"

section \<open>Manifest\<close>

record split_meta =
  sm_split_id :: string
  sm_num_docs :: u64
  sm_num_bytes :: u64
  sm_generation :: u64
  sm_time_range :: "(int \<times> int) option"

definition split_meta_new :: "string \<Rightarrow> u64 \<Rightarrow> u64 \<Rightarrow> u64 \<Rightarrow> split_meta" where
  "split_meta_new i n b g =
     \<lparr>sm_split_id = i, sm_num_docs = n, sm_num_bytes = b, sm_generation = g, sm_time_range = None\<rparr>"

definition splits_prefix :: "string \<Rightarrow> string" where
  "splits_prefix index_id = ''indexes/'' @ index_id @ ''/splits/''"

definition split_blob_key :: "string \<Rightarrow> split_meta \<Rightarrow> string" where
  "split_blob_key index_id sm = ''indexes/'' @ index_id @ ''/splits/'' @ sm_split_id sm @ ''.split''"

record manifest =
  mf_index_id :: string
  mf_splits :: "split_meta list"

definition manifest_new :: "string \<Rightarrow> manifest" where
  "manifest_new i = \<lparr>mf_index_id = i, mf_splits = []\<rparr>"

definition manifest_push :: "split_meta \<Rightarrow> manifest \<Rightarrow> manifest" where
  "manifest_push sm m = m\<lparr>mf_splits := mf_splits m @ [sm]\<rparr>"

definition manifest_num_docs :: "manifest \<Rightarrow> u64" where
  "manifest_num_docs m = sum_list (map sm_num_docs (mf_splits m))"

definition max_generation :: "manifest \<Rightarrow> u64" where
  "max_generation m = fold max (map sm_generation (mf_splits m)) 0"

definition manifest_key :: "string \<Rightarrow> string" where
  "manifest_key index_id = ''indexes/'' @ index_id @ ''/manifest.json''"

section \<open>Tombstones\<close>

record tombstones =
  tb_index_id :: string
  tb_deleted :: "(string \<times> u64) list"

definition tombstones_new :: "string \<Rightarrow> tombstones" where
  "tombstones_new i = \<lparr>tb_index_id = i, tb_deleted = []\<rparr>"

definition LEGACY_DELETED_AT :: u64 where
  "LEGACY_DELETED_AT = - 1"

definition delete_doc_at :: "tombstones \<Rightarrow> string \<Rightarrow> u64 \<Rightarrow> bool \<times> tombstones" where
  "delete_doc_at t i g =
     (case map_of (tb_deleted t) i of
        None \<Rightarrow> (True, t\<lparr>tb_deleted := tb_deleted t @ [(i, g)]\<rparr>)
      | Some cur \<Rightarrow> (False, t\<lparr>tb_deleted := AList.update i (max cur g) (tb_deleted t)\<rparr>))"

definition delete_doc :: "tombstones \<Rightarrow> string \<Rightarrow> bool \<times> tombstones" where
  "delete_doc t i = delete_doc_at t i LEGACY_DELETED_AT"

fun delete_docs_at :: "tombstones \<Rightarrow> string list \<Rightarrow> u64 \<Rightarrow> nat \<times> tombstones" where
  "delete_docs_at t [] g = (0, t)"
| "delete_docs_at t (i # is) g =
     (let (new, t1) = delete_doc_at t i g; (n, t2) = delete_docs_at t1 is g in
      (if new then n + 1 else n, t2))"

definition clear_id :: "tombstones \<Rightarrow> string \<Rightarrow> bool \<times> tombstones" where
  "clear_id t i = (map_of (tb_deleted t) i \<noteq> None, t\<lparr>tb_deleted := AList.delete i (tb_deleted t)\<rparr>)"

definition is_deleted :: "tombstones \<Rightarrow> string \<Rightarrow> bool" where
  "is_deleted t i = (map_of (tb_deleted t) i \<noteq> None)"

definition is_deleted_at :: "tombstones \<Rightarrow> string \<Rightarrow> u64 \<Rightarrow> bool" where
  "is_deleted_at t i g = (case map_of (tb_deleted t) i of Some cur \<Rightarrow> g \<le> cur | None \<Rightarrow> False)"

definition tombstones_len :: "tombstones \<Rightarrow> nat" where
  "tombstones_len t = length (tb_deleted t)"

definition tombstones_key :: "string \<Rightarrow> string" where
  "tombstones_key index_id = ''indexes/'' @ index_id @ ''/deletes.json''"

section \<open>Writer\<close>

text \<open>\<open>format!("{:06}")\<close>.\<close>

definition pad6 :: "string \<Rightarrow> string" where
  "pad6 s = replicate (6 - length s) (CHR ''0'') @ s"

definition split_numbers :: "manifest \<Rightarrow> u64 list" where
  "split_numbers m =
     List.map_filter (\<lambda>sm. Option.bind (strip_prefix ''split-'' (sm_split_id sm)) parse_u64) (mf_splits m)"

definition mint_split_id :: "u64 \<Rightarrow> manifest \<Rightarrow> string \<times> u64" where
  "mint_split_id next_split_seq m =
     (let highest = (case split_numbers m of [] \<Rightarrow> 0 | n # ns \<Rightarrow> fold max ns n + 1);
        seq = (if highest > next_split_seq then highest else next_split_seq) in
      (''split-'' @ pad6 (show_u64 seq), seq + 1))"

record append_result =
  ar_split :: "tdoc list"
  ar_split_meta :: split_meta
  ar_blob_key :: string

definition append_with_id :: "fts_env \<Rightarrow> manifest \<Rightarrow> string \<Rightarrow> tdoc list \<Rightarrow> append_result \<times> manifest" where
  "append_with_id env m split_id docs =
     (let split = e_build env docs;
        generation = max_generation m + 1;
        sm = split_meta_new split_id (of_nat (length docs)) (e_size env split) generation in
      (\<lparr>ar_split = split, ar_split_meta = sm, ar_blob_key = split_blob_key (mf_index_id m) sm\<rparr>,
       manifest_push sm m))"

definition writer_append :: "fts_env \<Rightarrow> u64 \<Rightarrow> manifest \<Rightarrow> tdoc list \<Rightarrow> append_result \<times> manifest \<times> u64" where
  "writer_append env next_split_seq m docs =
     (let (split_id, seq) = mint_split_id next_split_seq m;
        (r, m') = append_with_id env m split_id docs in
      (r, m', seq))"

definition writer_update ::
  "fts_env \<Rightarrow> u64 \<Rightarrow> manifest \<Rightarrow> tombstones \<Rightarrow> string list \<Rightarrow> tdoc list \<Rightarrow>
     append_result \<times> manifest \<times> tombstones \<times> u64" where
  "writer_update env next_split_seq m t old_ids docs =
     (let delete_generation = max_generation m;
        t' = fold (\<lambda>i t. snd (delete_doc_at t i delete_generation)) old_ids t;
        (r, m', seq) = writer_append env next_split_seq m docs in
      (r, m', t', seq))"

section \<open>Compaction\<close>

datatype fts_error = ParseError | MissingBlob string | MissingId string | QueryError string

record compaction_result =
  cr_split :: "tdoc list"
  cr_split_meta :: split_meta
  cr_blob_key :: string
  cr_manifest :: manifest
  cr_tombstones :: tombstones
  cr_superseded_keys :: "string list"

text \<open>The loop over the documents of an input: the kept documents, and the identifiers kept and
  dropped.\<close>

fun reindex :: "tombstones \<Rightarrow> nat list \<Rightarrow> nat \<Rightarrow> string \<Rightarrow> u64 \<Rightarrow> tdoc list \<Rightarrow>
    fts_error + tdoc list \<times> string list \<times> string list" where
  "reindex t schema idf sid g [] = Inr ([], [], [])"
| "reindex t schema idf sid g (d # ds) =
     (case extract_id idf d of
        None \<Rightarrow> Inl (MissingId sid)
      | Some i \<Rightarrow>
          and_then (reindex t schema idf sid g ds) (\<lambda>(docs, kept, dropped).
            if is_deleted_at t i g then Inr (docs, kept, i # dropped)
            else Inr (reproject schema d # docs, i # kept, dropped)))"

fun reindex_all :: "tombstones \<Rightarrow> nat list \<Rightarrow> nat \<Rightarrow> (string \<times> u64 \<times> tdoc list) list \<Rightarrow>
    fts_error + tdoc list \<times> string list \<times> string list" where
  "reindex_all t schema idf [] = Inr ([], [], [])"
| "reindex_all t schema idf ((sid, g, ds) # ins) =
     and_then (reindex t schema idf sid g ds) (\<lambda>(docs, kept, dropped).
       and_then (reindex_all t schema idf ins) (\<lambda>(docs', kept', dropped').
         Inr (docs @ docs', kept @ kept', dropped @ dropped')))"

definition compacted_id :: "u64 \<Rightarrow> string" where
  "compacted_id g = ''compacted-'' @ pad6 (show_u64 g)"

definition compact ::
  "fts_env \<Rightarrow> manifest \<Rightarrow> tombstones \<Rightarrow> (string \<times> u64 \<times> tdoc list) list \<Rightarrow> nat list \<Rightarrow> nat \<Rightarrow>
     fts_error + compaction_result" where
  "compact env m t inputs schema idf =
     and_then (reindex_all t schema idf inputs) (\<lambda>(docs, kept, dropped).
       let input_ids = map fst inputs;
         split = e_build env docs;
         generation = fold max (map sm_generation (mf_splits m)) 0 + 1;
         sm = split_meta_new (compacted_id generation) (of_nat (length docs)) (e_size env split) generation;
         new_manifest = manifest_push sm ((manifest_new (mf_index_id m))
           \<lparr>mf_splits := filter (\<lambda>s. sm_split_id s \<notin> set input_ids) (mf_splits m)\<rparr>);
         superseded = map (split_blob_key (mf_index_id m))
           (filter (\<lambda>s. sm_split_id s \<in> set input_ids) (mf_splits m));
         covered_all = list_all (\<lambda>s. sm_split_id s \<in> set input_ids) (mf_splits m);
         new_tombstones =
           (if covered_all
            then fold (\<lambda>i t. if i \<in> set kept then t else snd (clear_id t i)) dropped t
            else t) in
       Inr \<lparr>cr_split = split, cr_split_meta = sm,
            cr_blob_key = split_blob_key (mf_index_id m) sm, cr_manifest = new_manifest,
            cr_tombstones = new_tombstones, cr_superseded_keys = superseded\<rparr>)"

section \<open>Compaction policy\<close>

record compaction_policy =
  max_splits :: nat
  max_tombstone_ratio :: rat
  min_splits_to_merge :: nat

text \<open>The default ratio is the double nearest to 0.30.\<close>

definition default_policy :: compaction_policy where
  "default_policy = \<lparr>max_splits = 8, max_tombstone_ratio = 5404319552844595 / 18014398509481984,
     min_splits_to_merge = 2\<rparr>"

text \<open>The quotient of two doubles that hold counts below \<open>2\<^sup>6\<^sup>5\<close>, rounded to 53 significant bits: the
  quotient scaled by \<open>2\<^sup>1\<^sup>3\<^sup>0\<close>, with a last bit that stands for the rest.\<close>

definition f64_ratio :: "nat \<Rightarrow> nat \<Rightarrow> rat" where
  "f64_ratio a b =
     (let n = a * 2 ^ 130; q = 2 * (n div b) + (if n mod b = 0 then 0 else 1) in
      of_nat (round53_nat q) / 2 ^ 131)"

definition tombstone_ratio :: "manifest \<Rightarrow> tombstones \<Rightarrow> rat" where
  "tombstone_ratio m t =
     (let total = manifest_num_docs m in
      if total = 0 then 0
      else f64_ratio (round53_nat (tombstones_len t)) (round53_nat (unat total)))"

definition should_compact :: "compaction_policy \<Rightarrow> manifest \<Rightarrow> tombstones \<Rightarrow> bool" where
  "should_compact p m t =
     (let n_splits = length (mf_splits m) in
      if n_splits < min_splits_to_merge p then False
      else if n_splits > max_splits p then True
      else tombstone_ratio m t > max_tombstone_ratio p)"

definition plan_compaction :: "compaction_policy \<Rightarrow> manifest \<Rightarrow> tombstones \<Rightarrow> string list" where
  "plan_compaction p m t = (if \<not> should_compact p m t then [] else map sm_split_id (mf_splits m))"

section \<open>Blob store and garbage collection\<close>

datatype fts_blob = SplitBlob "tdoc list" | ManifestBlob manifest | TombstoneBlob tombstones

type_synonym blobs = "(string \<times> fts_blob) list"

datatype blob_write = Put string fts_blob | Del string

fun apply_write :: "blob_write \<Rightarrow> blobs \<Rightarrow> blobs" where
  "apply_write (Put k b) bl = AList.update k b bl"
| "apply_write (Del k) bl = AList.delete k bl"

definition apply_writes :: "blob_write list \<Rightarrow> blobs \<Rightarrow> blobs" where
  "apply_writes ws bl = fold apply_write ws bl"

definition scan_prefix :: "string \<Rightarrow> blobs \<Rightarrow> (string \<times> fts_blob) list" where
  "scan_prefix p bl = sort_key fst (filter (\<lambda>kb. starts_with p (fst kb)) bl)"

definition gc_keys :: "string list \<Rightarrow> blob_write list" where
  "gc_keys keys = map Del keys"

definition gc_orphaned_splits :: "manifest \<Rightarrow> blobs \<Rightarrow> string list \<times> blob_write list" where
  "gc_orphaned_splits m bl =
     (let referenced = map (split_blob_key (mf_index_id m)) (mf_splits m);
        orphaned = sort (filter (\<lambda>k. k \<notin> set referenced)
          (map fst (scan_prefix (splits_prefix (mf_index_id m)) bl))) in
      (orphaned, map Del orphaned))"

definition splits_below_generation :: "manifest \<Rightarrow> u64 \<Rightarrow> string list" where
  "splits_below_generation m watermark =
     map (split_blob_key (mf_index_id m)) (filter (\<lambda>sm. sm_generation sm < watermark) (mf_splits m))"

definition expired_by_time :: "manifest \<Rightarrow> int \<Rightarrow> string list" where
  "expired_by_time m cutoff =
     map (split_blob_key (mf_index_id m))
       (filter (\<lambda>sm. case sm_time_range sm of Some (lo, hi) \<Rightarrow> hi < cutoff | None \<Rightarrow> False) (mf_splits m))"

section \<open>The index facade\<close>

record fts_index =
  ix_index_id :: string
  ix_schema :: "nat list"
  ix_id_field :: nat
  ix_policy :: compaction_policy

definition load_manifest :: "fts_index \<Rightarrow> blobs \<Rightarrow> fts_error + manifest" where
  "load_manifest ix bl =
     (case map_of bl (manifest_key (ix_index_id ix)) of
        Some (ManifestBlob m) \<Rightarrow> Inr m
      | Some _ \<Rightarrow> Inl ParseError
      | None \<Rightarrow> Inr (manifest_new (ix_index_id ix)))"

definition load_tombstones :: "fts_index \<Rightarrow> blobs \<Rightarrow> fts_error + tombstones" where
  "load_tombstones ix bl =
     (case map_of bl (tombstones_key (ix_index_id ix)) of
        Some (TombstoneBlob t) \<Rightarrow> Inr t
      | Some _ \<Rightarrow> Inl ParseError
      | None \<Rightarrow> Inr (tombstones_new (ix_index_id ix)))"

definition persist_manifest :: "manifest \<Rightarrow> blob_write" where
  "persist_manifest m = Put (manifest_key (mf_index_id m)) (ManifestBlob m)"

definition persist_tombstones :: "tombstones \<Rightarrow> blob_write" where
  "persist_tombstones t = Put (tombstones_key (tb_index_id t)) (TombstoneBlob t)"

fun open_splits :: "fts_index \<Rightarrow> blobs \<Rightarrow> split_meta list \<Rightarrow> fts_error + (string \<times> u64 \<times> tdoc list) list" where
  "open_splits ix bl [] = Inr []"
| "open_splits ix bl (sm # sms) =
     (let k = split_blob_key (ix_index_id ix) sm in
      case map_of bl k of
        Some (SplitBlob ds) \<Rightarrow>
          and_then (open_splits ix bl sms) (\<lambda>os. Inr ((sm_split_id sm, sm_generation sm, ds) # os))
      | Some _ \<Rightarrow> Inl ParseError
      | None \<Rightarrow> Inl (MissingBlob k))"

definition index_append :: "fts_env \<Rightarrow> fts_index \<Rightarrow> blobs \<Rightarrow> tdoc list \<Rightarrow> fts_error + string \<times> blob_write list" where
  "index_append env ix bl docs =
     and_then (load_manifest ix bl) (\<lambda>m.
       let (r, m', seq) = writer_append env 0 m docs in
       Inr (sm_split_id (ar_split_meta r),
            [Put (ar_blob_key r) (SplitBlob (ar_split r)), persist_manifest m']))"

definition index_update ::
  "fts_env \<Rightarrow> fts_index \<Rightarrow> blobs \<Rightarrow> string list \<Rightarrow> tdoc list \<Rightarrow> fts_error + string \<times> blob_write list" where
  "index_update env ix bl old_ids docs =
     and_then (load_manifest ix bl) (\<lambda>m.
     and_then (load_tombstones ix bl) (\<lambda>t.
       let (r, m', t', seq) = writer_update env 0 m t old_ids docs in
       Inr (sm_split_id (ar_split_meta r),
            [Put (ar_blob_key r) (SplitBlob (ar_split r)), persist_manifest m', persist_tombstones t'])))"

definition index_delete :: "fts_index \<Rightarrow> blobs \<Rightarrow> string list \<Rightarrow> fts_error + blob_write list" where
  "index_delete ix bl ids =
     and_then (load_manifest ix bl) (\<lambda>m.
     and_then (load_tombstones ix bl) (\<lambda>t.
       let t' = fold (\<lambda>i t. snd (delete_doc_at t i (max_generation m))) ids t in
       Inr [persist_tombstones t']))"

record compaction_summary =
  cs_compacted_split_id :: string
  cs_superseded :: nat
  cs_deleted_blobs :: nat

definition maybe_compact ::
  "fts_env \<Rightarrow> fts_index \<Rightarrow> blobs \<Rightarrow> fts_error + compaction_summary option \<times> blob_write list" where
  "maybe_compact env ix bl =
     and_then (load_manifest ix bl) (\<lambda>m.
     and_then (load_tombstones ix bl) (\<lambda>t.
       if \<not> should_compact (ix_policy ix) m t then Inr (None, [])
       else let plan = plan_compaction (ix_policy ix) m t in
       if plan = [] then Inr (None, [])
       else
         and_then (open_splits ix bl (filter (\<lambda>sm. sm_split_id sm \<in> set plan) (mf_splits m))) (\<lambda>inputs.
         and_then (compact env m t inputs (ix_schema ix) (ix_id_field ix)) (\<lambda>r.
           Inr (Some \<lparr>cs_compacted_split_id = sm_split_id (cr_split_meta r),
                      cs_superseded = length (cr_superseded_keys r),
                      cs_deleted_blobs = length (cr_superseded_keys r)\<rparr>,
                [Put (cr_blob_key r) (SplitBlob (cr_split r)), persist_manifest (cr_manifest r),
                 persist_tombstones (cr_tombstones r)] @ gc_keys (cr_superseded_keys r))))))"

end
