(* ===== verification/Fts_Refine.thy ===== *)
theory Fts_Refine
  imports Fts_Index
begin

text \<open>
  The full-text index refines a multiset of documents: an append adds its batch, an update replaces
  the documents with the given identifiers by its batch, a delete removes them, and a compaction
  changes nothing. The invariant says that the manifest lists splits that exist, under different
  names that the writer cannot mint again, and that no delete is newer than the newest split.
\<close>

section \<open>Names of splits\<close>

lemma parse_digits_zeros: "parse_digits 0 (replicate k (CHR ''0'') @ s) = parse_digits 0 s"
  by (induction k) (auto simp: Let_def)

lemma pad6_head: "\<exists>c cs. pad6 (show_u64 w) = c # cs \<and> c \<noteq> CHR ''+''"
proof (cases "6 - length (show_u64 w)")
  case 0
  then show ?thesis using show_nat_head [of "unat w"] by (simp add: pad6_def show_u64_def)
next
  case (Suc k)
  then show ?thesis by (simp add: pad6_def)
qed

lemma parse_pad6 [simp]: "parse_u64 (pad6 (show_u64 w)) = Some w"
proof -
  obtain c cs where c: "pad6 (show_u64 w) = c # cs" "c \<noteq> CHR ''+''" using pad6_head by blast
  have "parse_digits 0 (pad6 (show_u64 w)) = Some (unat w)"
    by (simp add: pad6_def parse_digits_zeros show_u64_def parse_show_nat)
  then show ?thesis
    using c unsigned_less [where w = w and 'a = nat] by (simp add: parse_u64_def)
qed

lemma pad6_inj [simp]: "pad6 (show_u64 v) = pad6 (show_u64 w) \<longleftrightarrow> v = w"
  using parse_pad6 by (metis option.inject)

definition split_name :: "u64 \<Rightarrow> string" where
  "split_name n = ''split-'' @ pad6 (show_u64 n)"

lemma split_name_inj [simp]: "split_name v = split_name w \<longleftrightarrow> v = w"
  by (simp add: split_name_def)

lemma compacted_id_inj [simp]: "compacted_id v = compacted_id w \<longleftrightarrow> v = w"
  by (simp add: compacted_id_def)

lemma split_name_compacted [simp]: "split_name v \<noteq> compacted_id w" "compacted_id w \<noteq> split_name v"
  by (simp_all add: split_name_def compacted_id_def)

lemma strip_split [simp]:
  "strip_prefix ''split-'' (split_name n) = Some (pad6 (show_u64 n))"
  "strip_prefix ''split-'' (compacted_id n) = None"
  by (simp_all add: strip_prefix_def split_name_def compacted_id_def)

lemma split_blob_key_inj [simp]:
  "split_blob_key i a = split_blob_key i b \<longleftrightarrow> sm_split_id a = sm_split_id b"
  by (simp add: split_blob_key_def)

lemma index_keys_differ [simp]:
  "split_blob_key i a \<noteq> manifest_key i" "manifest_key i \<noteq> split_blob_key i a"
  "split_blob_key i a \<noteq> tombstones_key i" "tombstones_key i \<noteq> split_blob_key i a"
  "manifest_key i \<noteq> tombstones_key i" "tombstones_key i \<noteq> manifest_key i"
  by (simp_all add: split_blob_key_def manifest_key_def tombstones_key_def)

section \<open>Generations and tombstones\<close>

lemma fold_max_Max: "fold max xs a = Max (insert (a :: 'a :: linorder) (set xs))"
  using Max.set_eq_fold [of a xs] by simp

lemma fold_max_ge: "x \<in> set xs \<or> x = a \<Longrightarrow> x \<le> fold max xs (a :: 'a :: linorder)"
  by (auto simp: fold_max_Max)

lemma generation_le_max: "sm \<in> set (mf_splits m) \<Longrightarrow> sm_generation sm \<le> max_generation m"
  unfolding max_generation_def by (rule fold_max_ge) simp

lemma max_generation_push:
  "max_generation (manifest_push sm m) = max (sm_generation sm) (max_generation m)"
  by (simp add: max_generation_def manifest_push_def)

lemma is_deleted_at_delete:
  "is_deleted_at (snd (delete_doc_at t i g)) j h \<longleftrightarrow> is_deleted_at t j h \<or> (j = i \<and> h \<le> g)"
  by (auto simp: is_deleted_at_def delete_doc_at_def map_add_def update_conv' le_max_iff_disj
      split: option.splits)

lemma is_deleted_at_deletes:
  "is_deleted_at (fold (\<lambda>i t. snd (delete_doc_at t i g)) ids t) j h \<longleftrightarrow>
     is_deleted_at t j h \<or> (j \<in> set ids \<and> h \<le> g)"
  by (induction ids arbitrary: t) (auto simp: is_deleted_at_delete)

lemma is_deleted_at_clear: "is_deleted_at (snd (clear_id t i)) j h \<longleftrightarrow> is_deleted_at t j h \<and> j \<noteq> i"
  by (auto simp: is_deleted_at_def clear_id_def delete_conv' split: option.splits)

lemma is_deleted_at_clears:
  "is_deleted_at (fold (\<lambda>i t. if i \<in> K then t else snd (clear_id t i)) ids t) j h \<longleftrightarrow>
     is_deleted_at t j h \<and> \<not> (j \<in> set ids \<and> j \<notin> K)"
  by (induction ids arbitrary: t) (auto simp: is_deleted_at_clear)

lemma tb_index_id_fold [simp]:
  "tb_index_id (fold (\<lambda>i t. snd (delete_doc_at t i g)) ids t) = tb_index_id t"
  "tb_index_id (fold (\<lambda>i t. if i \<in> K then t else snd (clear_id t i)) ids t) = tb_index_id t"
  by (induction ids arbitrary: t) (auto simp: delete_doc_at_def clear_id_def split: option.splits)

text \<open>No delete is newer than \<open>g\<close>.\<close>

definition deletes_up_to :: "u64 \<Rightarrow> tombstones \<Rightarrow> bool" where
  "deletes_up_to g t \<longleftrightarrow> (\<forall>i h. is_deleted_at t i h \<longrightarrow> h \<le> g)"

lemma deletes_up_to_new [simp]: "deletes_up_to g (tombstones_new i)"
  by (simp add: deletes_up_to_def is_deleted_at_def tombstones_new_def)

lemma deletes_up_to_deletes:
  "deletes_up_to g t \<Longrightarrow> deletes_up_to g (fold (\<lambda>i t. snd (delete_doc_at t i g)) ids t)"
  by (auto simp: deletes_up_to_def is_deleted_at_deletes)

lemma deletes_up_to_clears:
  "deletes_up_to g t \<Longrightarrow> deletes_up_to g (fold (\<lambda>i t. if i \<in> K then t else snd (clear_id t i)) ids t)"
  by (auto simp: deletes_up_to_def is_deleted_at_clears)

lemma deletes_up_to_mono: "deletes_up_to g t \<Longrightarrow> g \<le> h \<Longrightarrow> deletes_up_to h t"
  unfolding deletes_up_to_def by (meson order_trans)

lemma word_le_less_succ: "x \<le> (m :: u64) \<Longrightarrow> m \<noteq> - 1 \<Longrightarrow> x < m + 1"
  using word_less_succ [of m] by simp

section \<open>Fresh names\<close>

definition split_id_ok :: "split_meta \<Rightarrow> bool" where
  "split_id_ok sm \<longleftrightarrow>
     (\<exists>n. sm_split_id sm = split_name n \<and> n < sm_generation sm) \<or>
     sm_split_id sm = compacted_id (sm_generation sm)"

lemma split_numbers_iff:
  assumes "\<forall>sm \<in> set (mf_splits m). split_id_ok sm"
  shows "n \<in> set (split_numbers m) \<longleftrightarrow> split_name n \<in> sm_split_id ` set (mf_splits m)"
proof -
  have "Option.bind (strip_prefix ''split-'' (sm_split_id sm)) parse_u64 = Some n \<longleftrightarrow> sm_split_id sm = split_name n"
    if "sm \<in> set (mf_splits m)" for sm
    using assms that by (auto simp: split_id_ok_def)
  then have "(\<exists>sm \<in> set (mf_splits m). Option.bind (strip_prefix ''split-'' (sm_split_id sm)) parse_u64 = Some n) \<longleftrightarrow>
      (\<exists>sm \<in> set (mf_splits m). sm_split_id sm = split_name n)" by blast
  then show ?thesis by (force simp: split_numbers_def map_filter_def image_iff)
qed

lemma split_number_less:
  assumes "\<forall>sm \<in> set (mf_splits m). split_id_ok sm" and "n \<in> set (split_numbers m)"
  shows "n < max_generation m"
proof -
  obtain sm where sm: "sm \<in> set (mf_splits m)" "sm_split_id sm = split_name n"
    using assms split_numbers_iff by auto
  then have "n < sm_generation sm" using assms(1) by (auto simp: split_id_ok_def)
  then show ?thesis using generation_le_max [OF sm(1)] by simp
qed

lemma mint_fresh:
  assumes "\<forall>sm \<in> set (mf_splits m). split_id_ok sm"
  obtains n where "fst (mint_split_id 0 m) = split_name n" "n \<le> max_generation m"
    "split_name n \<notin> sm_split_id ` set (mf_splits m)"
proof (cases "split_numbers m")
  case Nil
  then show ?thesis
    using that [of 0] split_numbers_iff [OF assms, of 0] by (simp add: mint_split_id_def split_name_def)
next
  case (Cons n ns)
  define h where "h = fold max ns n"
  have h: "h = Max (set (split_numbers m))" by (simp add: h_def fold_max_Max Cons)
  then have "h \<in> set (split_numbers m)" using Cons by (metis List.finite_set Max_in list.distinct(1) set_empty)
  then have less: "h < max_generation m" by (rule split_number_less [OF assms])
  have ge: "k \<le> h" if "k \<in> set (split_numbers m)" for k using that h by simp
  have nm: "h \<noteq> - 1" using less word_order.extremum [of "max_generation m"] by auto
  have le: "h + 1 \<le> max_generation m" using less by (rule inc_le)
  have pos: "h < h + 1" by (rule word_less_succ [OF nm])
  have "h + 1 \<notin> set (split_numbers m)" using ge pos by fastforce
  moreover have "h + 1 > 0" using pos word_gt_0 by fastforce
  ultimately show ?thesis
    using that [of "h + 1"] le split_numbers_iff [OF assms, of "h + 1"] Cons
    by (simp add: mint_split_id_def split_name_def h_def)
qed

section \<open>The invariant and the documents of an index\<close>

definition split_docs :: "fts_index \<Rightarrow> blobs \<Rightarrow> split_meta \<Rightarrow> tdoc list" where
  "split_docs ix bl sm =
     (case map_of bl (split_blob_key (ix_index_id ix) sm) of Some (SplitBlob ds) \<Rightarrow> ds | _ \<Rightarrow> [])"

definition has_id :: "fts_index \<Rightarrow> tdoc \<Rightarrow> bool" where
  "has_id ix d \<longleftrightarrow> extract_id (ix_id_field ix) d \<noteq> None"

definition doc_live :: "fts_index \<Rightarrow> tombstones \<Rightarrow> u64 \<Rightarrow> tdoc \<Rightarrow> bool" where
  "doc_live ix t g d = (case extract_id (ix_id_field ix) d of None \<Rightarrow> False | Some i \<Rightarrow> \<not> is_deleted_at t i g)"

definition live_docs :: "fts_index \<Rightarrow> blobs \<Rightarrow> manifest \<Rightarrow> tombstones \<Rightarrow> tdoc list" where
  "live_docs ix bl m t =
     concat (map (\<lambda>sm. filter (doc_live ix t (sm_generation sm)) (split_docs ix bl sm)) (mf_splits m))"

definition manifest_ok :: "fts_index \<Rightarrow> manifest \<Rightarrow> bool" where
  "manifest_ok ix m \<longleftrightarrow>
     mf_index_id m = ix_index_id ix \<and> distinct (map sm_split_id (mf_splits m)) \<and>
     (\<forall>sm \<in> set (mf_splits m). split_id_ok sm)"

definition split_present :: "fts_index \<Rightarrow> blobs \<Rightarrow> split_meta \<Rightarrow> bool" where
  "split_present ix bl sm \<longleftrightarrow>
     (\<exists>ds. map_of bl (split_blob_key (ix_index_id ix) sm) = Some (SplitBlob ds) \<and> (\<forall>d \<in> set ds. has_id ix d))"

definition index_ok :: "fts_index \<Rightarrow> blobs \<Rightarrow> manifest \<Rightarrow> tombstones \<Rightarrow> bool" where
  "index_ok ix bl m t \<longleftrightarrow>
     load_manifest ix bl = Inr m \<and> load_tombstones ix bl = Inr t \<and> tb_index_id t = ix_index_id ix \<and>
     manifest_ok ix m \<and> (\<forall>sm \<in> set (mf_splits m). split_present ix bl sm) \<and>
     deletes_up_to (max_generation m) t"

definition index_inv :: "fts_index \<Rightarrow> blobs \<Rightarrow> bool" where
  "index_inv ix bl \<longleftrightarrow> (\<exists>m t. index_ok ix bl m t)"

text \<open>The documents that a search can return, with their values listed by field.\<close>

definition index_contents :: "fts_index \<Rightarrow> blobs \<Rightarrow> tdoc multiset" where
  "index_contents ix bl =
     (case (load_manifest ix bl, load_tombstones ix bl) of
        (Inr m, Inr t) \<Rightarrow> image_mset (reproject (ix_schema ix)) (mset (live_docs ix bl m t))
      | _ \<Rightarrow> {#})"

definition schema_ok :: "fts_index \<Rightarrow> bool" where
  "schema_ok ix \<longleftrightarrow> distinct (ix_schema ix) \<and> ix_id_field ix \<in> set (ix_schema ix)"

definition builds :: "fts_env \<Rightarrow> bool" where
  "builds env \<longleftrightarrow> (\<forall>ds. mset (e_build env ds) = mset ds)"

definition room :: "fts_index \<Rightarrow> blobs \<Rightarrow> bool" where
  "room ix bl \<longleftrightarrow> (case load_manifest ix bl of Inr m \<Rightarrow> max_generation m \<noteq> - 1 | Inl _ \<Rightarrow> False)"

lemma contents_of_ok:
  "index_ok ix bl m t \<Longrightarrow>
     index_contents ix bl = image_mset (reproject (ix_schema ix)) (mset (live_docs ix bl m t))"
  by (simp add: index_contents_def index_ok_def)

lemma room_of_ok: "index_ok ix bl m t \<Longrightarrow> room ix bl \<longleftrightarrow> max_generation m \<noteq> - 1"
  by (simp add: room_def index_ok_def)

lemma map_of_field:
  "map_of (concat (map (\<lambda>f. filter (\<lambda>p. fst p = f) d) schema)) f =
     (if f \<in> set schema then map_of d f else None)"
proof (induction schema)
  case (Cons g schema)
  have "map_of (filter (\<lambda>p. fst p = g) d) f = (if f = g then map_of d f else None)"
    by (induction d) auto
  then show ?case using Cons by (auto simp: map_add_def split: option.splits)
qed simp

lemma extract_reproject [simp]:
  "schema_ok ix \<Longrightarrow> extract_id (ix_id_field ix) (reproject (ix_schema ix) d) = extract_id (ix_id_field ix) d"
  by (simp add: extract_id_def reproject_def map_of_field schema_ok_def)

lemma filter_field_reproject:
  "distinct schema \<Longrightarrow>
     filter (\<lambda>p. fst p = f) (reproject schema d) = (if f \<in> set schema then filter (\<lambda>p. fst p = f) d else [])"
proof (induction schema)
  case (Cons g schema)
  have "filter (\<lambda>p. fst p = f) (filter (\<lambda>p. fst p = g) d) = (if f = g then filter (\<lambda>p. fst p = f) d else [])"
    by (auto simp: filter_empty_conv intro: filter_cong)
  then show ?case using Cons by (auto simp: reproject_def)
qed (simp add: reproject_def)

lemma reproject_idem [simp]:
  assumes "distinct schema"
  shows "reproject schema (reproject schema d) = reproject schema d"
proof -
  have "map (\<lambda>f. filter (\<lambda>p. fst p = f) (reproject schema d)) schema = map (\<lambda>f. filter (\<lambda>p. fst p = f) d) schema"
    using filter_field_reproject [OF assms, of _ d] by simp
  then have "concat (map (\<lambda>f. filter (\<lambda>p. fst p = f) (reproject schema d)) schema) = reproject schema d"
    by (simp only: reproject_def)
  then show ?thesis by (simp only: reproject_def [of schema "reproject schema d"])
qed

lemma live_docs_push:
  "live_docs ix bl (manifest_push sm m) t =
     live_docs ix bl m t @ filter (doc_live ix t (sm_generation sm)) (split_docs ix bl sm)"
  by (simp add: live_docs_def manifest_push_def)

lemma live_docs_cong:
  assumes "\<And>sm d. sm \<in> set (mf_splits m) \<Longrightarrow> d \<in> set (split_docs ix bl sm) \<Longrightarrow>
      doc_live ix t (sm_generation sm) d = doc_live ix t' (sm_generation sm) d"
    and "\<And>sm. sm \<in> set (mf_splits m) \<Longrightarrow> split_docs ix bl' sm = split_docs ix bl sm"
  shows "live_docs ix bl' m t' = live_docs ix bl m t"
  unfolding live_docs_def by (rule arg_cong [where f = concat], rule map_cong) (auto intro!: filter_cong simp: assms)

section \<open>One write at a time\<close>

lemma map_of_writes [simp]:
  "map_of (AList.update k b bl) = (map_of bl)(k \<mapsto> b)"
  "map_of (AList.delete k bl) = (map_of bl)(k := None)"
  by (simp_all add: update_conv' delete_conv')

lemma split_docs_other:
  "k \<noteq> split_blob_key (ix_index_id ix) sm \<Longrightarrow> split_docs ix (AList.update k b bl) sm = split_docs ix bl sm"
  "k \<noteq> split_blob_key (ix_index_id ix) sm \<Longrightarrow> split_docs ix (AList.delete k bl) sm = split_docs ix bl sm"
  by (simp_all add: split_docs_def)

lemma split_present_other:
  "k \<noteq> split_blob_key (ix_index_id ix) sm \<Longrightarrow> split_present ix (AList.update k b bl) sm = split_present ix bl sm"
  "k \<noteq> split_blob_key (ix_index_id ix) sm \<Longrightarrow> split_present ix (AList.delete k bl) sm = split_present ix bl sm"
  by (simp_all add: split_present_def)

lemma put_split:
  assumes "index_ok ix bl m t" and "sm_split_id sm \<notin> sm_split_id ` set (mf_splits m)"
  shows "index_ok ix (AList.update (split_blob_key (ix_index_id ix) sm) b bl) m t"
    and "live_docs ix (AList.update (split_blob_key (ix_index_id ix) sm) b bl) m t = live_docs ix bl m t"
proof -
  have ne: "split_blob_key (ix_index_id ix) sm \<noteq> split_blob_key (ix_index_id ix) s" if "s \<in> set (mf_splits m)" for s
    using assms(2) that by auto
  show "index_ok ix (AList.update (split_blob_key (ix_index_id ix) sm) b bl) m t"
    using assms(1) ne by (simp add: index_ok_def load_manifest_def load_tombstones_def split_present_other)
  show "live_docs ix (AList.update (split_blob_key (ix_index_id ix) sm) b bl) m t = live_docs ix bl m t"
    by (rule live_docs_cong) (simp_all add: split_docs_other ne del: split_blob_key_inj)
qed

lemma put_manifest:
  assumes "index_ok ix bl m t" and "manifest_ok ix m'" and "\<forall>sm \<in> set (mf_splits m'). split_present ix bl sm"
    and "max_generation m \<le> max_generation m'"
  shows "index_ok ix (apply_write (persist_manifest m') bl) m' t"
    and "live_docs ix (apply_write (persist_manifest m') bl) m' t = live_docs ix bl m' t"
proof -
  have "mf_index_id m' = ix_index_id ix" using assms(2) by (simp add: manifest_ok_def)
  then show "index_ok ix (apply_write (persist_manifest m') bl) m' t"
    using assms deletes_up_to_mono
    by (auto simp: index_ok_def load_manifest_def load_tombstones_def split_present_other persist_manifest_def)
  show "live_docs ix (apply_write (persist_manifest m') bl) m' t = live_docs ix bl m' t"
    using \<open>mf_index_id m' = ix_index_id ix\<close>
    by (intro live_docs_cong) (simp_all add: split_docs_other persist_manifest_def)
qed

lemma put_tombstones:
  assumes "index_ok ix bl m t" and "tb_index_id t' = ix_index_id ix" and "deletes_up_to (max_generation m) t'"
  shows "index_ok ix (apply_write (persist_tombstones t') bl) m t'"
    and "live_docs ix (apply_write (persist_tombstones t') bl) m t' = live_docs ix bl m t'"
proof -
  show "index_ok ix (apply_write (persist_tombstones t') bl) m t'"
    using assms
    by (auto simp: index_ok_def load_manifest_def load_tombstones_def split_present_other persist_tombstones_def)
  show "live_docs ix (apply_write (persist_tombstones t') bl) m t' = live_docs ix bl m t'"
    using assms(2) by (intro live_docs_cong) (simp_all add: split_docs_other persist_tombstones_def)
qed

lemma delete_split:
  assumes "index_ok ix bl m t" and "sm_split_id sm \<notin> sm_split_id ` set (mf_splits m)"
  shows "index_ok ix (AList.delete (split_blob_key (ix_index_id ix) sm) bl) m t"
    and "live_docs ix (AList.delete (split_blob_key (ix_index_id ix) sm) bl) m t = live_docs ix bl m t"
proof -
  have ne: "split_blob_key (ix_index_id ix) sm \<noteq> split_blob_key (ix_index_id ix) s" if "s \<in> set (mf_splits m)" for s
    using assms(2) that by auto
  show "index_ok ix (AList.delete (split_blob_key (ix_index_id ix) sm) bl) m t"
    using assms(1) ne by (simp add: index_ok_def load_manifest_def load_tombstones_def split_present_other)
  show "live_docs ix (AList.delete (split_blob_key (ix_index_id ix) sm) bl) m t = live_docs ix bl m t"
    by (rule live_docs_cong) (simp_all add: split_docs_other ne del: split_blob_key_inj)
qed

lemma delete_splits:
  assumes "index_ok ix bl m t" and "\<forall>sm \<in> set sms. sm_split_id sm \<notin> sm_split_id ` set (mf_splits m)"
  shows "index_ok ix (apply_writes (gc_keys (map (split_blob_key (ix_index_id ix)) sms)) bl) m t \<and>
    live_docs ix (apply_writes (gc_keys (map (split_blob_key (ix_index_id ix)) sms)) bl) m t = live_docs ix bl m t"
  using assms
proof (induction sms arbitrary: bl)
  case (Cons sm sms)
  have "sm_split_id sm \<notin> sm_split_id ` set (mf_splits m)" using Cons.prems by simp
  from Cons.IH [OF delete_split(1) [OF Cons.prems(1) this]] delete_split(2) [OF Cons.prems(1) this] Cons.prems(2)
  show ?case by (simp add: gc_keys_def apply_writes_def)
qed (simp add: gc_keys_def apply_writes_def)

section \<open>A new split in the manifest\<close>

text \<open>The manifest with a split of a newer generation that is in the store: every document of the
  split is live.\<close>

lemma push_split:
  assumes "index_ok ix bl m t" and "sm_split_id sm \<notin> sm_split_id ` set (mf_splits m)"
    and "split_id_ok sm" and "max_generation m < sm_generation sm"
    and "map_of bl (split_blob_key (ix_index_id ix) sm) = Some (SplitBlob ds)" and "\<forall>d \<in> set ds. has_id ix d"
  shows "manifest_ok ix (manifest_push sm m)"
    and "\<forall>s \<in> set (mf_splits (manifest_push sm m)). split_present ix bl s"
    and "max_generation m \<le> max_generation (manifest_push sm m)"
    and "live_docs ix bl (manifest_push sm m) t = live_docs ix bl m t @ ds"
proof -
  show "manifest_ok ix (manifest_push sm m)"
    using assms(1-3) by (auto simp: index_ok_def manifest_ok_def manifest_push_def)
  show "\<forall>s \<in> set (mf_splits (manifest_push sm m)). split_present ix bl s"
    using assms(1,5,6) by (auto simp: index_ok_def split_present_def manifest_push_def)
  show "max_generation m \<le> max_generation (manifest_push sm m)" by (simp add: max_generation_push)
  have "\<not> is_deleted_at t i (sm_generation sm)" for i
    using assms(1,4) by (fastforce simp: index_ok_def deletes_up_to_def)
  then have "filter (doc_live ix t (sm_generation sm)) ds = ds"
    using assms(6) by (auto simp: filter_id_conv doc_live_def has_id_def)
  moreover have "split_docs ix bl sm = ds" using assms(5) by (simp add: split_docs_def)
  ultimately show "live_docs ix bl (manifest_push sm m) t = live_docs ix bl m t @ ds"
    by (simp add: live_docs_push)
qed

text \<open>What an append does: the new split and its place.\<close>

lemma writer_append_new:
  assumes "index_ok ix bl m t" and "max_generation m \<noteq> - 1" and "writer_append env 0 m docs = (r, m', seq)"
  shows "m' = manifest_push (ar_split_meta r) m"
    and "ar_blob_key r = split_blob_key (ix_index_id ix) (ar_split_meta r)"
    and "ar_split r = e_build env docs"
    and "sm_split_id (ar_split_meta r) \<notin> sm_split_id ` set (mf_splits m)"
    and "split_id_ok (ar_split_meta r)" and "max_generation m < sm_generation (ar_split_meta r)"
proof -
  have ok: "\<forall>sm \<in> set (mf_splits m). split_id_ok sm" and i: "mf_index_id m = ix_index_id ix"
    using assms(1) by (auto simp: index_ok_def manifest_ok_def)
  obtain n where n: "fst (mint_split_id 0 m) = split_name n" "n \<le> max_generation m"
    "split_name n \<notin> sm_split_id ` set (mf_splits m)" using mint_fresh [OF ok] .
  have r: "r = \<lparr>ar_split = e_build env docs, ar_split_meta = split_meta_new (split_name n) (of_nat (length docs))
        (e_size env (e_build env docs)) (max_generation m + 1), ar_blob_key = ar_blob_key r\<rparr>"
    "ar_blob_key r = split_blob_key (ix_index_id ix) (ar_split_meta r)" "m' = manifest_push (ar_split_meta r) m"
    using assms(3) n(1) i by (auto simp: writer_append_def append_with_id_def Let_def split: prod.splits)
  then have sm: "sm_split_id (ar_split_meta r) = split_name n" "sm_generation (ar_split_meta r) = max_generation m + 1"
    by (metis append_result.select_convs(2) split_meta.select_convs(1,4) split_meta_new_def)+
  have less: "max_generation m < max_generation m + 1" by (rule word_less_succ [OF assms(2)])
  show "m' = manifest_push (ar_split_meta r) m" "ar_blob_key r = split_blob_key (ix_index_id ix) (ar_split_meta r)"
    by fact+
  show "ar_split r = e_build env docs" using r(1) by (metis append_result.select_convs(1))
  show "sm_split_id (ar_split_meta r) \<notin> sm_split_id ` set (mf_splits m)" using n(3) sm(1) by simp
  have "n < max_generation m + 1" using n(2) less by (rule le_less_trans)
  then show "split_id_ok (ar_split_meta r)" using sm by (auto simp: split_id_ok_def)
  show "max_generation m < sm_generation (ar_split_meta r)" using less sm(2) by simp
qed

section \<open>Operations\<close>

definition new_contents :: "fts_index \<Rightarrow> tdoc list \<Rightarrow> tdoc multiset" where
  "new_contents ix docs = image_mset (reproject (ix_schema ix)) (mset docs)"

definition without_ids :: "fts_index \<Rightarrow> string list \<Rightarrow> tdoc multiset \<Rightarrow> tdoc multiset" where
  "without_ids ix ids = filter_mset (\<lambda>d. extract_id (ix_id_field ix) d \<notin> Some ` set ids)"

lemma without_ids_plus [simp]: "without_ids ix ids (A + B) = without_ids ix ids A + without_ids ix ids B"
  by (simp add: without_ids_def)

lemma apply_writes_simps [simp]:
  "apply_writes [] bl = bl" "apply_writes (w # ws) bl = apply_writes ws (apply_write w bl)"
  "apply_writes (ws @ vs) bl = apply_writes vs (apply_writes ws bl)"
  by (simp_all add: apply_writes_def)

lemma index_invI: "index_ok ix bl m t \<Longrightarrow> index_inv ix bl"
  by (auto simp: index_inv_def)

text \<open>The documents that stay live when identifiers are deleted at the newest generation.\<close>

lemma live_docs_deletes:
  assumes "schema_ok ix"
  shows "image_mset (reproject (ix_schema ix))
      (mset (live_docs ix bl m (fold (\<lambda>i t. snd (delete_doc_at t i (max_generation m))) ids t))) =
    without_ids ix ids (image_mset (reproject (ix_schema ix)) (mset (live_docs ix bl m t)))"
proof -
  have "live_docs ix bl m (fold (\<lambda>i t. snd (delete_doc_at t i (max_generation m))) ids t) =
      filter (\<lambda>d. extract_id (ix_id_field ix) d \<notin> Some ` set ids) (live_docs ix bl m t)"
    unfolding live_docs_def filter_concat map_map
  proof (rule arg_cong [where f = concat], rule map_cong [OF refl])
    fix sm assume "sm \<in> set (mf_splits m)"
    then have "sm_generation sm \<le> max_generation m" by (rule generation_le_max)
    then show "filter (doc_live ix (fold (\<lambda>i t. snd (delete_doc_at t i (max_generation m))) ids t) (sm_generation sm))
        (split_docs ix bl sm) =
      (filter (\<lambda>d. extract_id (ix_id_field ix) d \<notin> Some ` set ids) \<circ>
        (\<lambda>sm. filter (doc_live ix t (sm_generation sm)) (split_docs ix bl sm))) sm"
      by (auto simp: doc_live_def is_deleted_at_deletes split: option.splits intro!: filter_cong)
  qed
  then show ?thesis
    using assms by (simp add: without_ids_def filter_mset_image_mset o_def flip: mset_filter)
qed

text \<open>After each write of an append: the documents are those before or those after the call.\<close>

lemma append_writes:
  assumes "index_ok ix bl m t" and "max_generation m \<noteq> - 1" and "builds env" and "\<forall>d \<in> set docs. has_id ix d"
    and "writer_append env 0 m docs = (r, m', seq)"
  defines "bl1 \<equiv> apply_write (Put (ar_blob_key r) (SplitBlob (ar_split r))) bl"
    and "bl2 \<equiv> apply_write (persist_manifest m') (apply_write (Put (ar_blob_key r) (SplitBlob (ar_split r))) bl)"
  shows "index_ok ix bl1 m t" "live_docs ix bl1 m t = live_docs ix bl m t"
    and "index_ok ix bl2 m' t" "mset (live_docs ix bl2 m' t) = mset (live_docs ix bl m t) + mset docs"
    and "deletes_up_to (max_generation m) u \<Longrightarrow>
      mset (live_docs ix bl2 m' u) = mset (live_docs ix bl m u) + mset docs"
proof -
  note new = writer_append_new [OF assms(1,2,5)]
  have ids: "\<forall>d \<in> set (ar_split r). has_id ix d"
    using assms(3,4) new(3) by (metis builds_def mset_eq_setD)
  have bl1: "bl1 = AList.update (split_blob_key (ix_index_id ix) (ar_split_meta r)) (SplitBlob (ar_split r)) bl"
    by (simp add: bl1_def new(2))
  show ok1: "index_ok ix bl1 m t" and live1: "live_docs ix bl1 m t = live_docs ix bl m t"
    unfolding bl1 by (rule put_split [OF assms(1) new(4)])+
  have here: "map_of bl1 (split_blob_key (ix_index_id ix) (ar_split_meta r)) = Some (SplitBlob (ar_split r))"
    by (simp add: bl1)
  note push = push_split [OF ok1 new(4-6) here ids]
  have bl2: "bl2 = apply_write (persist_manifest m') bl1" by (simp add: bl2_def bl1_def)
  show "index_ok ix bl2 m' t"
    unfolding bl2 new(1) by (rule put_manifest [OF ok1 push(1-3)])
  have "live_docs ix bl2 m' t = live_docs ix bl m t @ ar_split r"
    unfolding bl2 new(1) using put_manifest(2) [OF ok1 push(1-3)] push(4) live1 by simp
  then show "mset (live_docs ix bl2 m' t) = mset (live_docs ix bl m t) + mset docs"
    using assms(3) new(3) by (simp add: builds_def)
  have other: "split_docs ix bl2 sm = split_docs ix bl sm" if "sm \<in> set (mf_splits m)" for sm
  proof -
    have "sm_split_id sm \<noteq> sm_split_id (ar_split_meta r)" using that new(4) by (metis imageI)
    then show ?thesis
      using push(1) new(1) by (simp add: bl2 bl1 split_docs_def persist_manifest_def manifest_ok_def)
  qed
  have "split_docs ix bl2 (ar_split_meta r) = ar_split r"
    using push(1) new(1) by (simp add: bl2 bl1 split_docs_def persist_manifest_def manifest_ok_def)
  moreover have "filter (doc_live ix u (sm_generation (ar_split_meta r))) (ar_split r) = ar_split r"
    if "deletes_up_to (max_generation m) u"
    using that ids new(6) by (fastforce simp: filter_id_conv doc_live_def has_id_def deletes_up_to_def)
  moreover have "live_docs ix bl2 m u = live_docs ix bl m u" by (rule live_docs_cong) (simp_all add: other)
  ultimately show "mset (live_docs ix bl2 m' u) = mset (live_docs ix bl m u) + mset docs"
    if "deletes_up_to (max_generation m) u"
    using that assms(3) new(3) by (simp add: new(1) live_docs_push builds_def)
qed

lemma index_append_steps:
  assumes "index_inv ix bl" and "room ix bl" and "builds env" and "\<forall>d \<in> set docs. has_id ix d"
  obtains sid ws where "index_append env ix bl docs = Inr (sid, ws)" "length ws = 2"
    "\<And>k. index_inv ix (apply_writes (take k ws) bl)"
    "\<And>k. index_contents ix (apply_writes (take k ws) bl) =
       index_contents ix bl + (if k < 2 then {#} else new_contents ix docs)"
proof -
  obtain m t where ok: "index_ok ix bl m t" using assms(1) by (auto simp: index_inv_def)
  obtain r m' seq where w: "writer_append env 0 m docs = (r, m', seq)" by (metis prod_cases3)
  have g: "max_generation m \<noteq> - 1" using room_of_ok [OF ok] assms(2) by simp
  note st = append_writes [OF ok g assms(3,4) w]
  define ws where "ws = [Put (ar_blob_key r) (SplitBlob (ar_split r)), persist_manifest m']"
  have 1: "index_append env ix bl docs = Inr (sm_split_id (ar_split_meta r), ws)"
    using ok w by (simp add: index_append_def index_ok_def ws_def)
  have steps: "apply_writes (take k ws) bl = (if k = 0 then bl else if k = 1 then apply_writes (take 1 ws) bl else apply_writes ws bl)" for k
    by (cases k; cases "k - 1") (auto simp: ws_def)
  have c1: "index_ok ix (apply_writes (take 1 ws) bl) m t" "index_contents ix (apply_writes (take 1 ws) bl) = index_contents ix bl"
    using st(1,2) contents_of_ok [OF ok] contents_of_ok [OF st(1)] by (simp_all add: ws_def)
  have c2: "index_ok ix (apply_writes ws bl) m' t" "index_contents ix (apply_writes ws bl) = index_contents ix bl + new_contents ix docs"
    using st(3,4) contents_of_ok [OF ok] contents_of_ok [OF st(3)] by (simp_all add: ws_def new_contents_def)
  have inv: "index_inv ix (apply_writes (take k ws) bl)" for k
    unfolding steps [of k] using index_invI [OF ok] index_invI [OF c1(1)] index_invI [OF c2(1)] by auto
  have con: "index_contents ix (apply_writes (take k ws) bl) =
      index_contents ix bl + (if k < 2 then {#} else new_contents ix docs)" for k
    unfolding steps [of k] using c1(2) c2(2) by auto
  show ?thesis using that [OF 1 _ inv con] by (simp add: ws_def)
qed

lemma index_delete_steps:
  assumes "index_inv ix bl" and "schema_ok ix"
  obtains w where "index_delete ix bl ids = Inr [w]" "index_inv ix (apply_write w bl)"
    "index_contents ix (apply_write w bl) = without_ids ix ids (index_contents ix bl)"
    "load_manifest ix (apply_write w bl) = load_manifest ix bl"
proof -
  obtain m t where ok: "index_ok ix bl m t" using assms(1) by (auto simp: index_inv_def)
  define t' where "t' = fold (\<lambda>i t. snd (delete_doc_at t i (max_generation m))) ids t"
  have t': "tb_index_id t' = ix_index_id ix" "deletes_up_to (max_generation m) t'"
    using ok deletes_up_to_deletes by (auto simp: t'_def index_ok_def)
  note st = put_tombstones [OF ok t']
  show ?thesis
  proof (rule that [of "persist_tombstones t'"])
    show "index_delete ix bl ids = Inr [persist_tombstones t']"
      using ok by (simp add: index_delete_def index_ok_def t'_def)
    show "index_inv ix (apply_write (persist_tombstones t') bl)" by (rule index_invI [OF st(1)])
    show "index_contents ix (apply_write (persist_tombstones t') bl) = without_ids ix ids (index_contents ix bl)"
      unfolding contents_of_ok [OF st(1)] contents_of_ok [OF ok] st(2) unfolding t'_def
      by (rule live_docs_deletes [OF assms(2)])
    show "load_manifest ix (apply_write (persist_tombstones t') bl) = load_manifest ix bl"
      using ok st(1) by (simp add: index_ok_def)
  qed
qed

lemma index_update_steps:
  assumes "index_inv ix bl" and "room ix bl" and "builds env" and "schema_ok ix" and "\<forall>d \<in> set docs. has_id ix d"
  obtains sid ws where "index_update env ix bl ids docs = Inr (sid, ws)" "length ws = 3"
    "\<And>k. index_inv ix (apply_writes (take k ws) bl)"
    "\<And>k. index_contents ix (apply_writes (take k ws) bl) =
       (if k < 2 then index_contents ix bl
        else if k = 2 then index_contents ix bl + new_contents ix docs
        else without_ids ix ids (index_contents ix bl) + new_contents ix docs)"
proof -
  obtain m t where ok: "index_ok ix bl m t" using assms(1) by (auto simp: index_inv_def)
  obtain r m' seq where w: "writer_append env 0 m docs = (r, m', seq)" by (metis prod_cases3)
  have g: "max_generation m \<noteq> - 1" using room_of_ok [OF ok] assms(2) by simp
  define t' where "t' = fold (\<lambda>i t. snd (delete_doc_at t i (max_generation m))) ids t"
  define ws where "ws = [Put (ar_blob_key r) (SplitBlob (ar_split r)), persist_manifest m', persist_tombstones t']"
  have up: "deletes_up_to (max_generation m) t'"
    using ok deletes_up_to_deletes by (auto simp: t'_def index_ok_def)
  note st = append_writes [OF ok g assms(3,5) w]
  have le: "max_generation m \<le> max_generation m'"
    using writer_append_new(1) [OF ok g w] by (simp add: max_generation_push)
  have t': "tb_index_id t' = ix_index_id ix" "deletes_up_to (max_generation m') t'"
    using ok deletes_up_to_mono [OF up le] by (auto simp: t'_def index_ok_def)
  note st3 = put_tombstones [OF st(3) t']
  have 1: "index_update env ix bl ids docs = Inr (sm_split_id (ar_split_meta r), ws)"
    using ok w by (simp add: index_update_def index_ok_def writer_update_def t'_def ws_def)
  have steps: "apply_writes (take k ws) bl =
      (if k = 0 then bl else if k = 1 then apply_writes (take 1 ws) bl
       else if k = 2 then apply_writes (take 2 ws) bl else apply_writes ws bl)" for k
    by (cases k; cases "k - 1"; cases "k - 2") (auto simp: ws_def numeral_2_eq_2)
  have c1: "index_ok ix (apply_writes (take 1 ws) bl) m t" "index_contents ix (apply_writes (take 1 ws) bl) = index_contents ix bl"
    using st(1,2) contents_of_ok [OF ok] contents_of_ok [OF st(1)] by (simp_all add: ws_def)
  have c2: "index_ok ix (apply_writes (take 2 ws) bl) m' t"
    "index_contents ix (apply_writes (take 2 ws) bl) = index_contents ix bl + new_contents ix docs"
    using st(3,4) contents_of_ok [OF ok] contents_of_ok [OF st(3)]
    by (simp_all add: ws_def new_contents_def numeral_2_eq_2)
  have c3: "index_ok ix (apply_writes ws bl) m' t'" using st3(1) by (simp add: ws_def)
  have "index_contents ix (apply_writes ws bl) = without_ids ix ids (index_contents ix bl) + new_contents ix docs"
    unfolding contents_of_ok [OF c3] contents_of_ok [OF ok]
    using st3(2) st(5) [OF up] live_docs_deletes [OF assms(4), of bl m ids t]
    by (simp add: ws_def new_contents_def t'_def)
  note c3 = c3 this
  have inv: "index_inv ix (apply_writes (take k ws) bl)" for k
    unfolding steps [of k] using index_invI [OF ok] index_invI [OF c1(1)] index_invI [OF c2(1)] index_invI [OF c3(1)] by auto
  have con: "index_contents ix (apply_writes (take k ws) bl) =
      (if k < 2 then index_contents ix bl
       else if k = 2 then index_contents ix bl + new_contents ix docs
       else without_ids ix ids (index_contents ix bl) + new_contents ix docs)" for k
    unfolding steps [of k] using c1(2) c2(2) c3(2) by auto
  show ?thesis using that [OF 1 _ inv con] by (simp add: ws_def)
qed

section \<open>Compaction\<close>

lemma open_splits_ok:
  assumes "\<forall>sm \<in> set sms. split_present ix bl sm"
  shows "open_splits ix bl sms = Inr (map (\<lambda>sm. (sm_split_id sm, sm_generation sm, split_docs ix bl sm)) sms)"
  using assms by (induction sms) (auto simp: split_present_def split_docs_def Let_def)

lemma reindex_ok:
  assumes "\<forall>d \<in> set ds. has_id ix d"
  shows "\<exists>kept dropped. reindex t (ix_schema ix) (ix_id_field ix) sid g ds =
    Inr (map (reproject (ix_schema ix)) (filter (doc_live ix t g) ds), kept, dropped)"
  using assms by (induction ds) (auto simp: has_id_def doc_live_def split: prod.splits)

lemma reindex_all_ok:
  assumes "\<forall>sm \<in> set sms. split_present ix bl sm"
  shows "\<exists>kept dropped. reindex_all t (ix_schema ix) (ix_id_field ix)
      (map (\<lambda>sm. (sm_split_id sm, sm_generation sm, split_docs ix bl sm)) sms) =
    Inr (map (reproject (ix_schema ix))
      (concat (map (\<lambda>sm. filter (doc_live ix t (sm_generation sm)) (split_docs ix bl sm)) sms)), kept, dropped)"
  using assms
proof (induction sms)
  case (Cons sm sms)
  then have "\<forall>d \<in> set (split_docs ix bl sm). has_id ix d" by (auto simp: split_present_def split_docs_def)
  from reindex_ok [OF this, of t "sm_split_id sm" "sm_generation sm"] Cons show ?case by auto
qed simp

text \<open>What a compaction of all splits yields: a manifest with the one new split, which holds the live
  documents, and the names of the superseded splits.\<close>

definition folds_into :: "fts_env \<Rightarrow> fts_index \<Rightarrow> blobs \<Rightarrow> manifest \<Rightarrow> tombstones \<Rightarrow> compaction_result \<Rightarrow> bool" where
  "folds_into env ix bl m t r \<longleftrightarrow>
     cr_split r = e_build env (map (reproject (ix_schema ix)) (live_docs ix bl m t)) \<and>
     sm_split_id (cr_split_meta r) = compacted_id (max_generation m + 1) \<and>
     sm_generation (cr_split_meta r) = max_generation m + 1 \<and>
     cr_blob_key r = split_blob_key (ix_index_id ix) (cr_split_meta r) \<and>
     cr_manifest r = manifest_push (cr_split_meta r) (manifest_new (ix_index_id ix)) \<and>
     deletes_up_to (max_generation m) (cr_tombstones r) \<and> tb_index_id (cr_tombstones r) = ix_index_id ix \<and>
     cr_superseded_keys r = map (split_blob_key (ix_index_id ix)) (mf_splits m)"

lemma compact_all:
  assumes "index_ok ix bl m t"
  obtains r where
    "compact env m t (map (\<lambda>sm. (sm_split_id sm, sm_generation sm, split_docs ix bl sm)) (mf_splits m))
       (ix_schema ix) (ix_id_field ix) = Inr r"
    "folds_into env ix bl m t r"
proof -
  have pres: "\<forall>sm \<in> set (mf_splits m). split_present ix bl sm" and i: "mf_index_id m = ix_index_id ix"
    and up: "deletes_up_to (max_generation m) t" and ti: "tb_index_id t = ix_index_id ix"
    using assms by (auto simp: index_ok_def manifest_ok_def)
  define ins where "ins = map (\<lambda>sm. (sm_split_id sm, sm_generation sm, split_docs ix bl sm)) (mf_splits m)"
  obtain kept dropped where re: "reindex_all t (ix_schema ix) (ix_id_field ix) ins =
      Inr (map (reproject (ix_schema ix)) (live_docs ix bl m t), kept, dropped)"
    using reindex_all_ok [OF pres] unfolding ins_def live_docs_def by blast
  have fst_ins: "map fst ins = map sm_split_id (mf_splits m)" by (simp add: ins_def o_def)
  have none: "filter (\<lambda>s. sm_split_id s \<notin> set (map fst ins)) (mf_splits m) = []"
    and all: "filter (\<lambda>s. sm_split_id s \<in> set (map fst ins)) (mf_splits m) = mf_splits m"
    by (auto simp: fst_ins filter_empty_conv filter_id_conv)
  show ?thesis
  proof (rule that)
    show "compact env m t (map (\<lambda>sm. (sm_split_id sm, sm_generation sm, split_docs ix bl sm)) (mf_splits m))
       (ix_schema ix) (ix_id_field ix) = Inr (projr (compact env m t ins (ix_schema ix) (ix_id_field ix)))"
      by (simp add: ins_def [symmetric] compact_def re Let_def)
    show "folds_into env ix bl m t (projr (compact env m t ins (ix_schema ix) (ix_id_field ix)))"
      using re none all i ti up
      by (simp add: folds_into_def compact_def Let_def max_generation_def [symmetric] manifest_new_def
          split_meta_new_def deletes_up_to_clears)
  qed
qed

lemma compacted_fresh:
  assumes "\<forall>sm \<in> set (mf_splits m). split_id_ok sm" and "max_generation m \<noteq> - 1"
  shows "compacted_id (max_generation m + 1) \<notin> sm_split_id ` set (mf_splits m)"
proof
  assume "compacted_id (max_generation m + 1) \<in> sm_split_id ` set (mf_splits m)"
  then obtain sm where sm: "sm \<in> set (mf_splits m)" "sm_split_id sm = compacted_id (max_generation m + 1)" by auto
  then have "sm_generation sm = max_generation m + 1" using assms(1) by (auto simp: split_id_ok_def)
  then show False using generation_le_max [OF sm(1)] word_less_succ [OF assms(2)] by simp
qed

lemma live_docs_single:
  assumes "map_of bl (split_blob_key (ix_index_id ix) sm) = Some (SplitBlob ds)" and "\<forall>d \<in> set ds. has_id ix d"
    and "deletes_up_to g t" and "g < sm_generation sm"
  shows "live_docs ix bl (manifest_push sm (manifest_new i)) t = ds"
proof -
  have "filter (doc_live ix t (sm_generation sm)) ds = ds"
    using assms(2-4) by (fastforce simp: filter_id_conv doc_live_def has_id_def deletes_up_to_def)
  then show ?thesis using assms(1) by (simp add: live_docs_def manifest_push_def manifest_new_def split_docs_def)
qed

lemma folded_split:
  assumes "index_ok ix bl m t" and "builds env" and "schema_ok ix" and "folds_into env ix bl m t r"
  shows "\<forall>d \<in> set (cr_split r). has_id ix d"
    and "image_mset (reproject (ix_schema ix)) (mset (cr_split r)) = index_contents ix bl"
proof -
  have ms: "mset (cr_split r) = mset (map (reproject (ix_schema ix)) (live_docs ix bl m t))"
    using assms(2,4) by (simp add: folds_into_def builds_def)
  have "has_id ix (reproject (ix_schema ix) d)" if "d \<in> set (live_docs ix bl m t)" for d
    using that assms(3) by (auto simp: has_id_def live_docs_def doc_live_def split: option.splits)
  then show "\<forall>d \<in> set (cr_split r). has_id ix d" using mset_eq_setD [OF ms] by auto
  show "image_mset (reproject (ix_schema ix)) (mset (cr_split r)) = index_contents ix bl"
    using ms assms(3) by (simp add: contents_of_ok [OF assms(1)] schema_ok_def image_mset.compositionality o_def)
qed

text \<open>The writes of a compaction one by one: the new split, the manifest, the tombstones and the
  deletion of the superseded splits.\<close>

lemma compact_writes:
  assumes ok: "index_ok ix bl m t" and g: "max_generation m \<noteq> - 1" and "builds env" "schema_ok ix"
    and r: "folds_into env ix bl m t r"
  defines "bl1 \<equiv> apply_write (Put (cr_blob_key r) (SplitBlob (cr_split r))) bl"
  defines "bl2 \<equiv> apply_write (persist_manifest (cr_manifest r)) bl1"
  defines "bl3 \<equiv> apply_write (persist_tombstones (cr_tombstones r)) bl2"
  shows "index_ok ix bl1 m t" "live_docs ix bl1 m t = live_docs ix bl m t"
    and "index_ok ix bl2 (cr_manifest r) t" "live_docs ix bl2 (cr_manifest r) t = cr_split r"
    and "index_ok ix bl3 (cr_manifest r) (cr_tombstones r)"
    and "live_docs ix bl3 (cr_manifest r) (cr_tombstones r) = cr_split r"
proof -
  have sm: "sm_split_id (cr_split_meta r) = compacted_id (max_generation m + 1)"
    "sm_generation (cr_split_meta r) = max_generation m + 1"
    and m: "cr_manifest r = manifest_push (cr_split_meta r) (manifest_new (ix_index_id ix))"
    and t: "deletes_up_to (max_generation m) (cr_tombstones r)" "tb_index_id (cr_tombstones r) = ix_index_id ix"
    and bl1: "bl1 = AList.update (split_blob_key (ix_index_id ix) (cr_split_meta r)) (SplitBlob (cr_split r)) bl"
    using r by (simp_all add: folds_into_def bl1_def)
  note has = folded_split(1) [OF ok assms(3,4) r]
  have "sm_split_id (cr_split_meta r) \<notin> sm_split_id ` set (mf_splits m)"
    using compacted_fresh [of m] ok g sm by (simp add: index_ok_def manifest_ok_def)
  note p1 = put_split [OF ok this, of "SplitBlob (cr_split r)", folded bl1]
  show "index_ok ix bl1 m t" "live_docs ix bl1 m t = live_docs ix bl m t" by (fact p1)+
  have less: "max_generation m < sm_generation (cr_split_meta r)" using word_less_succ [OF g] sm by simp
  have here: "map_of bl1 (split_blob_key (ix_index_id ix) (cr_split_meta r)) = Some (SplitBlob (cr_split r))"
    by (simp add: bl1)
  have mok: "manifest_ok ix (cr_manifest r)" "\<forall>s \<in> set (mf_splits (cr_manifest r)). split_present ix bl1 s"
    "max_generation m \<le> max_generation (cr_manifest r)"
    using here has less sm
    by (auto simp: m manifest_ok_def manifest_push_def manifest_new_def split_id_ok_def split_present_def max_generation_def)
  have lv: "live_docs ix bl1 (cr_manifest r) u = cr_split r" if "deletes_up_to (max_generation m) u" for u
    unfolding m by (rule live_docs_single [OF here has that less])
  note p2 = put_manifest [OF p1(1) mok, folded bl2_def]
  show "index_ok ix bl2 (cr_manifest r) t" by (rule p2(1))
  show "live_docs ix bl2 (cr_manifest r) t = cr_split r" using p2(2) lv [of t] ok by (simp add: index_ok_def)
  note p3 = put_tombstones [OF p2(1) t(2) deletes_up_to_mono [OF t(1) mok(3)], folded bl3_def]
  show "index_ok ix bl3 (cr_manifest r) (cr_tombstones r)" by (rule p3(1))
  have "live_docs ix bl2 (cr_manifest r) (cr_tombstones r) = live_docs ix bl1 (cr_manifest r) (cr_tombstones r)"
    using mok(1) by (intro live_docs_cong) (simp_all add: bl2_def split_docs_other persist_manifest_def manifest_ok_def)
  then show "live_docs ix bl3 (cr_manifest r) (cr_tombstones r) = cr_split r" using p3(2) lv [OF t(1)] by simp
qed

lemma compact_prefix:
  assumes ok: "index_ok ix bl m t" and g: "max_generation m \<noteq> - 1" and "builds env" "schema_ok ix"
    and r: "folds_into env ix bl m t r"
  defines "ws \<equiv> [Put (cr_blob_key r) (SplitBlob (cr_split r)), persist_manifest (cr_manifest r),
      persist_tombstones (cr_tombstones r)] @ gc_keys (cr_superseded_keys r)"
  shows "index_inv ix (apply_writes (take k ws) bl) \<and>
    index_contents ix (apply_writes (take k ws) bl) = index_contents ix bl"
proof -
  note w = compact_writes [OF assms(1-5)] and fs = folded_split [OF ok assms(3,4) r]
  have keep: "index_inv ix b \<and> index_contents ix b = index_contents ix bl"
    if "index_ok ix b m' t'" "live_docs ix b m' t' = cr_split r" for b m' t'
    using that fs(2) index_invI contents_of_ok by fastforce
  consider "k = 0" | "k = 1" | "k = 2" | j where "k = 3 + j"
    by (metis add_2_eq_Suc' add_Suc_shift eval_nat_numeral(3) not0_implies_Suc numeral_2_eq_2 plus_1_eq_Suc One_nat_def add.commute)
  then show ?thesis
  proof cases
    case 1
    then show ?thesis using index_invI [OF ok] by simp
  next
    case 2
    then show ?thesis
      using index_invI [OF w(1)] contents_of_ok [OF w(1)] contents_of_ok [OF ok] w(2) by (simp add: ws_def)
  next
    case 3
    then show ?thesis using keep [OF w(3,4)] by (simp add: ws_def numeral_2_eq_2)
  next
    case (4 j)
    have "\<forall>s \<in> set (take j (mf_splits m)). sm_split_id s \<notin> sm_split_id ` set (mf_splits (cr_manifest r))"
      using compacted_fresh [of m] ok g r
      by (auto simp: folds_into_def index_ok_def manifest_ok_def manifest_push_def manifest_new_def dest!: in_set_takeD)
        (metis imageI)
    note d = delete_splits [OF w(5) this]
    have "take k ws = [Put (cr_blob_key r) (SplitBlob (cr_split r)), persist_manifest (cr_manifest r),
        persist_tombstones (cr_tombstones r)] @ gc_keys (map (split_blob_key (ix_index_id ix)) (take j (mf_splits m)))"
      using r by (simp add: ws_def 4 folds_into_def gc_keys_def take_map numeral_3_eq_3)
    then show ?thesis using keep [OF conjunct1 [OF d]] conjunct2 [OF d] w(6) by simp
  qed
qed

text \<open>A compaction changes no document that a search can return, whatever prefix of its writes is
  performed.\<close>

lemma maybe_compact_steps:
  assumes "index_inv ix bl" and "room ix bl" and "builds env" and "schema_ok ix"
  obtains s ws where "maybe_compact env ix bl = Inr (s, ws)"
    "\<And>k. index_inv ix (apply_writes (take k ws) bl)"
    "\<And>k. index_contents ix (apply_writes (take k ws) bl) = index_contents ix bl"
proof -
  obtain m t where ok: "index_ok ix bl m t" using assms(1) by (auto simp: index_inv_def)
  have g: "max_generation m \<noteq> - 1" using room_of_ok [OF ok] assms(2) by simp
  have ld: "load_manifest ix bl = Inr m" "load_tombstones ix bl = Inr t"
    and pres: "\<forall>sm \<in> set (mf_splits m). split_present ix bl sm"
    using ok by (auto simp: index_ok_def)
  show ?thesis
  proof (cases "should_compact (ix_policy ix) m t \<and> mf_splits m \<noteq> []")
    case False
    then have "maybe_compact env ix bl = Inr (None, [])"
      by (auto simp: maybe_compact_def ld plan_compaction_def)
    then show ?thesis using that assms(1) by simp
  next
    case True
    obtain r where r: "compact env m t (map (\<lambda>sm. (sm_split_id sm, sm_generation sm, split_docs ix bl sm)) (mf_splits m))
         (ix_schema ix) (ix_id_field ix) = Inr r" "folds_into env ix bl m t r"
      using compact_all [OF ok] .
    have "filter (\<lambda>sm. sm_split_id sm \<in> sm_split_id ` set (mf_splits m)) (mf_splits m) = mf_splits m"
      by (auto simp: filter_id_conv)
    then have "maybe_compact env ix bl = Inr (Some \<lparr>cs_compacted_split_id = sm_split_id (cr_split_meta r),
        cs_superseded = length (cr_superseded_keys r), cs_deleted_blobs = length (cr_superseded_keys r)\<rparr>,
        [Put (cr_blob_key r) (SplitBlob (cr_split r)), persist_manifest (cr_manifest r),
         persist_tombstones (cr_tombstones r)] @ gc_keys (cr_superseded_keys r))"
      using True r(1) by (simp add: maybe_compact_def ld plan_compaction_def open_splits_ok [OF pres] Let_def)
    then show ?thesis using that compact_prefix [OF ok g assms(3,4) r(2)] by blast
  qed
qed

section \<open>Garbage collection\<close>

lemma delete_keys:
  assumes "index_ok ix bl m t" and "\<forall>k \<in> set ks. k \<noteq> manifest_key (ix_index_id ix) \<and> k \<noteq> tombstones_key (ix_index_id ix) \<and>
      (\<forall>sm \<in> set (mf_splits m). k \<noteq> split_blob_key (ix_index_id ix) sm)"
  shows "index_ok ix (apply_writes (map Del ks) bl) m t \<and> live_docs ix (apply_writes (map Del ks) bl) m t = live_docs ix bl m t"
  using assms
proof (induction ks arbitrary: bl)
  case (Cons k ks)
  have "index_ok ix (AList.delete k bl) m t"
    using Cons.prems by (auto simp: index_ok_def load_manifest_def load_tombstones_def split_present_other)
  moreover have "live_docs ix (AList.delete k bl) m t = live_docs ix bl m t"
    by (rule live_docs_cong) (use Cons.prems in \<open>auto simp: split_docs_other\<close>)
  ultimately show ?case using Cons by simp
qed simp

lemma splits_prefix_keys:
  assumes "starts_with (splits_prefix i) k"
  shows "k \<noteq> manifest_key i" and "k \<noteq> tombstones_key i"
  using assms by (auto simp: starts_with_def splits_prefix_def manifest_key_def tombstones_key_def)

lemma gc_orphaned_keeps:
  assumes "index_inv ix bl" and "load_manifest ix bl = Inr m" and "gc_orphaned_splits m bl = (ks, ws)"
  shows "index_inv ix (apply_writes (take n ws) bl)"
    and "index_contents ix (apply_writes (take n ws) bl) = index_contents ix bl"
proof -
  obtain t where ok: "index_ok ix bl m t" using assms(1,2) by (auto simp: index_inv_def index_ok_def)
  then have i: "mf_index_id m = ix_index_id ix" by (simp add: index_ok_def manifest_ok_def)
  have ws: "ws = map Del ks" and ks: "\<forall>k \<in> set ks. starts_with (splits_prefix (ix_index_id ix)) k \<and>
      k \<notin> split_blob_key (ix_index_id ix) ` set (mf_splits m)"
    using assms(3) i by (auto simp: gc_orphaned_splits_def scan_prefix_def Let_def)
  have "\<forall>k \<in> set (take n ks). k \<noteq> manifest_key (ix_index_id ix) \<and> k \<noteq> tombstones_key (ix_index_id ix) \<and>
      (\<forall>sm \<in> set (mf_splits m). k \<noteq> split_blob_key (ix_index_id ix) sm)"
    using ks splits_prefix_keys by (blast dest: in_set_takeD)
  note d = delete_keys [OF ok this]
  then have ok': "index_ok ix (apply_writes (take n ws) bl) m t" by (simp add: ws take_map)
  then show "index_inv ix (apply_writes (take n ws) bl)" by (rule index_invI)
  show "index_contents ix (apply_writes (take n ws) bl) = index_contents ix bl"
    using d contents_of_ok [OF conjunct1 [OF d]] by (simp add: contents_of_ok [OF ok] ws take_map)
qed

section \<open>The interface of an index\<close>

text \<open>The store after the first \<open>k\<close> writes of a call.\<close>

definition after_append :: "fts_env \<Rightarrow> fts_index \<Rightarrow> nat \<Rightarrow> blobs \<Rightarrow> tdoc list \<Rightarrow> blobs" where
  "after_append env ix k bl docs =
     (case index_append env ix bl docs of Inr (sid, ws) \<Rightarrow> apply_writes (take k ws) bl | Inl e \<Rightarrow> bl)"

definition after_update :: "fts_env \<Rightarrow> fts_index \<Rightarrow> nat \<Rightarrow> blobs \<Rightarrow> string list \<Rightarrow> tdoc list \<Rightarrow> blobs" where
  "after_update env ix k bl ids docs =
     (case index_update env ix bl ids docs of Inr (sid, ws) \<Rightarrow> apply_writes (take k ws) bl | Inl e \<Rightarrow> bl)"

definition after_delete :: "fts_index \<Rightarrow> nat \<Rightarrow> blobs \<Rightarrow> string list \<Rightarrow> blobs" where
  "after_delete ix k bl ids =
     (case index_delete ix bl ids of Inr ws \<Rightarrow> apply_writes (take k ws) bl | Inl e \<Rightarrow> bl)"

definition after_compact :: "fts_env \<Rightarrow> fts_index \<Rightarrow> nat \<Rightarrow> blobs \<Rightarrow> blobs" where
  "after_compact env ix k bl =
     (case maybe_compact env ix bl of Inr (s, ws) \<Rightarrow> apply_writes (take k ws) bl | Inl e \<Rightarrow> bl)"

lemma filter_mset_none: "(\<And>d. d \<in># A \<Longrightarrow> \<not> P d) \<Longrightarrow> filter_mset P A = {#}"
  by (induction A) auto

locale document_index =
  fixes inv :: "'s \<Rightarrow> bool" and room :: "'s \<Rightarrow> bool" and contents :: "'s \<Rightarrow> 'd multiset"
    and ident :: "'d \<Rightarrow> string option" and norm :: "'d \<Rightarrow> 'd"
    and update :: "nat \<Rightarrow> 's \<Rightarrow> string list \<Rightarrow> 'd list \<Rightarrow> 's"
    and delete :: "nat \<Rightarrow> 's \<Rightarrow> string list \<Rightarrow> 's"
    and compact :: "nat \<Rightarrow> 's \<Rightarrow> 's"
  assumes ident_norm: "inv s \<Longrightarrow> ident (norm d) = ident d"
    and update_inv: "inv s \<Longrightarrow> room s \<Longrightarrow> \<forall>d \<in> set ds. ident d \<noteq> None \<Longrightarrow> inv (update k s ids ds)"
    and update_contents: "inv s \<Longrightarrow> room s \<Longrightarrow> \<forall>d \<in> set ds. ident d \<noteq> None \<Longrightarrow>
      contents (update k s ids ds) =
        (if k < 2 then contents s
         else if k = 2 then contents s + image_mset norm (mset ds)
         else filter_mset (\<lambda>d. ident d \<notin> Some ` set ids) (contents s) + image_mset norm (mset ds))"
    and delete_inv: "inv s \<Longrightarrow> inv (delete k s ids)"
    and delete_contents: "inv s \<Longrightarrow> contents (delete k s ids) =
      (if k = 0 then contents s else filter_mset (\<lambda>d. ident d \<notin> Some ` set ids) (contents s))"
    and compact_inv: "inv s \<Longrightarrow> room s \<Longrightarrow> inv (compact k s)"
    and compact_contents: "inv s \<Longrightarrow> room s \<Longrightarrow> contents (compact k s) = contents s"
begin

text \<open>An update, complete or interrupted, touches only documents with its identifiers.\<close>

lemma update_other:
  assumes "inv s" "room s" "\<forall>d \<in> set ds. ident d \<in> Some ` set ids" "i \<notin> set ids"
  shows "filter_mset (\<lambda>d. ident d = Some i) (contents (update k s ids ds)) =
    filter_mset (\<lambda>d. ident d = Some i) (contents s)"
proof -
  have has: "\<forall>d \<in> set ds. ident d \<noteq> None" using assms(3) by auto
  have "filter_mset (\<lambda>d. ident d = Some i) (image_mset norm (mset ds)) = {#}"
    using assms(3,4) by (intro filter_mset_none) (auto simp: ident_norm [OF assms(1)])
  moreover have "filter_mset (\<lambda>d. ident d = Some i) (filter_mset (\<lambda>d. ident d \<notin> Some ` set ids) A) =
      filter_mset (\<lambda>d. ident d = Some i) A" for A
    using assms(4) by (auto simp: filter_filter_mset intro: filter_mset_cong)
  ultimately show ?thesis by (simp add: update_contents [OF assms(1,2) has])
qed

text \<open>A complete update leaves its batch and nothing else under its identifiers.\<close>

lemma update_done:
  assumes "inv s" "room s" "\<forall>d \<in> set ds. ident d \<in> Some ` set ids" "i \<in> set ids" "2 < k"
  shows "filter_mset (\<lambda>d. ident d = Some i) (contents (update k s ids ds)) =
    image_mset norm (filter_mset (\<lambda>d. ident d = Some i) (mset ds))"
proof -
  have has: "\<forall>d \<in> set ds. ident d \<noteq> None" using assms(3) by auto
  have "filter_mset (\<lambda>d. ident d = Some i) (filter_mset (\<lambda>d. ident d \<notin> Some ` set ids) A) = {#}" for A
    using assms(4) by (auto simp: filter_filter_mset intro!: filter_mset_none)
  then show ?thesis
    using assms(5) by (simp add: update_contents [OF assms(1,2) has] filter_mset_image_mset ident_norm [OF assms(1)] o_def)
qed

lemma delete_other:
  assumes "inv s" "i \<notin> set ids"
  shows "filter_mset (\<lambda>d. ident d = Some i) (contents (delete k s ids)) = filter_mset (\<lambda>d. ident d = Some i) (contents s)"
  using assms(2) by (auto simp: delete_contents [OF assms(1)] filter_filter_mset intro: filter_mset_cong)

lemma delete_done:
  assumes "inv s" "i \<in> set ids" "0 < k"
  shows "filter_mset (\<lambda>d. ident d = Some i) (contents (delete k s ids)) = {#}"
  using assms(2,3) by (auto simp: delete_contents [OF assms(1)] filter_filter_mset intro!: filter_mset_none)

end

text \<open>The facade over the blob store provides the interface.\<close>

definition facade_inv :: "fts_env \<Rightarrow> fts_index \<Rightarrow> blobs \<Rightarrow> bool" where
  "facade_inv env ix bl \<longleftrightarrow> builds env \<and> schema_ok ix \<and> index_inv ix bl"

interpretation facade: document_index "facade_inv env ix" "room ix" "index_contents ix"
  "extract_id (ix_id_field ix)" "reproject (ix_schema ix)" "after_update env ix" "after_delete ix" "after_compact env ix"
  for env ix
proof
  fix s d assume "facade_inv env ix s"
  then show "extract_id (ix_id_field ix) (reproject (ix_schema ix) d) = extract_id (ix_id_field ix) d"
    by (simp add: facade_inv_def)
next
  fix s ds k ids
  assume a: "facade_inv env ix s" "room ix s" "\<forall>d \<in> set ds. extract_id (ix_id_field ix) d \<noteq> None"
  then have f: "index_inv ix s" "builds env" "schema_ok ix" "\<forall>d \<in> set ds. has_id ix d"
    by (auto simp: facade_inv_def has_id_def)
  obtain sid ws where ws: "index_update env ix s ids ds = Inr (sid, ws)" "length ws = 3"
    "\<And>k. index_inv ix (apply_writes (take k ws) s)"
    "\<And>k. index_contents ix (apply_writes (take k ws) s) =
       (if k < 2 then index_contents ix s
        else if k = 2 then index_contents ix s + new_contents ix ds
        else without_ids ix ids (index_contents ix s) + new_contents ix ds)"
    using index_update_steps [OF f(1) a(2) f(2-4), where ids = ids] by blast
  then show "facade_inv env ix (after_update env ix k s ids ds)"
    using f by (simp add: facade_inv_def after_update_def)
  show "index_contents ix (after_update env ix k s ids ds) =
      (if k < 2 then index_contents ix s
       else if k = 2 then index_contents ix s + image_mset (reproject (ix_schema ix)) (mset ds)
       else filter_mset (\<lambda>d. extract_id (ix_id_field ix) d \<notin> Some ` set ids) (index_contents ix s) +
         image_mset (reproject (ix_schema ix)) (mset ds))"
    using ws by (simp add: after_update_def new_contents_def without_ids_def)
next
  fix s k ids assume a: "facade_inv env ix s"
  then obtain w where w: "index_delete ix s ids = Inr [w]" "index_inv ix (apply_write w s)"
    "index_contents ix (apply_write w s) = without_ids ix ids (index_contents ix s)"
    using index_delete_steps [of ix s ids] by (auto simp: facade_inv_def)
  show "facade_inv env ix (after_delete ix k s ids)"
    using a w by (cases k) (simp_all add: facade_inv_def after_delete_def)
  show "index_contents ix (after_delete ix k s ids) =
      (if k = 0 then index_contents ix s
       else filter_mset (\<lambda>d. extract_id (ix_id_field ix) d \<notin> Some ` set ids) (index_contents ix s))"
    using w by (cases k) (simp_all add: after_delete_def without_ids_def)
next
  fix s k assume a: "facade_inv env ix s" "room ix s"
  then have f: "index_inv ix s" "builds env" "schema_ok ix" by (auto simp: facade_inv_def)
  obtain r ws where ws: "maybe_compact env ix s = Inr (r, ws)"
    "\<And>k. index_inv ix (apply_writes (take k ws) s)"
    "\<And>k. index_contents ix (apply_writes (take k ws) s) = index_contents ix s"
    using maybe_compact_steps [OF f(1) a(2) f(2,3)] by blast
  show "facade_inv env ix (after_compact env ix k s)" "index_contents ix (after_compact env ix k s) = index_contents ix s"
    using f ws by (simp_all add: facade_inv_def after_compact_def)
qed

end
