(* ===== verification/Fts_Search.thy ===== *)
theory Fts_Search
  imports Fts_Refine
begin

text \<open>
  Search over the splits of an index, \<open>bluedb-fts/src/search.rs\<close>: each split is asked for its best
  documents, deleted copies are dropped, one copy is kept per identifier, and the rest is merged by
  score. The ranking of one split by the search library is a parameter: \<open>rank q ds\<close> lists the scores
  and the positions of the matching documents, best first, and \<open>None\<close> is a query that does not parse.
  A collector with a limit takes the first hits of that list.
\<close>

section \<open>Hits\<close>

type_synonym 'q ranking = "'q \<Rightarrow> tdoc list \<Rightarrow> (rat \<times> nat) list option"

type_synonym split_handle = "string \<times> u64 \<times> tdoc list"

record split_hit =
  h_score :: rat
  h_split_ord :: nat
  h_doc :: nat

record candidate =
  c_hit :: split_hit
  c_id :: string
  c_generation :: u64

text \<open>\<open>cmp_hits\<close> as the key that it compares.\<close>

definition hit_key :: "split_hit \<Rightarrow> rat \<times> nat \<times> nat" where
  "hit_key h = (- h_score h, h_split_ord h, h_doc h)"

definition sort_hits :: "split_hit list \<Rightarrow> split_hit list" where
  "sort_hits = sort_key hit_key"

definition split_hits :: "nat \<Rightarrow> (rat \<times> nat) list \<Rightarrow> split_hit list" where
  "split_hits ord hs = map (\<lambda>(s, a). \<lparr>h_score = s, h_split_ord = ord, h_doc = a\<rparr>) hs"

fun collect_hits :: "'q ranking \<Rightarrow> 'q \<Rightarrow> nat \<Rightarrow> nat \<Rightarrow> split_handle list \<Rightarrow> fts_error + split_hit list" where
  "collect_hits rank q limit ord [] = Inr []"
| "collect_hits rank q limit ord ((sid, g, ds) # splits) =
     (case rank q ds of
        None \<Rightarrow> Inl (QueryError sid)
      | Some hs \<Rightarrow>
          and_then (collect_hits rank q limit (Suc ord) splits) (\<lambda>rest.
            Inr (split_hits ord (take limit hs) @ rest)))"

definition multi_split_search :: "'q ranking \<Rightarrow> split_handle list \<Rightarrow> 'q \<Rightarrow> nat \<Rightarrow> fts_error + split_hit list" where
  "multi_split_search rank splits q limit =
     and_then (collect_hits rank q limit 0 splits) (\<lambda>all. Inr (take limit (sort_hits all)))"

definition multi_split_search_paginated ::
  "'q ranking \<Rightarrow> split_handle list \<Rightarrow> 'q \<Rightarrow> nat \<Rightarrow> nat \<Rightarrow> fts_error + split_hit list" where
  "multi_split_search_paginated rank splits q offset limit =
     (let per_split = offset + limit in
      if per_split = 0 then Inr []
      else and_then (collect_hits rank q per_split 0 splits) (\<lambda>all.
        Inr (take limit (drop offset (sort_hits all)))))"

fun multi_split_count :: "'q ranking \<Rightarrow> split_handle list \<Rightarrow> 'q \<Rightarrow> fts_error + nat" where
  "multi_split_count rank [] q = Inr 0"
| "multi_split_count rank ((sid, g, ds) # splits) q =
     (case rank q ds of
        None \<Rightarrow> Inl (QueryError sid)
      | Some hs \<Rightarrow> and_then (multi_split_count rank splits q) (\<lambda>n. Inr (length hs + n)))"

section \<open>Search without deleted copies\<close>

fun live_candidates ::
  "tombstones \<Rightarrow> nat \<Rightarrow> nat \<Rightarrow> split_handle \<Rightarrow> (rat \<times> nat) list \<Rightarrow> fts_error + candidate list" where
  "live_candidates t idf ord sp [] = Inr []"
| "live_candidates t idf ord (sid, g, ds) ((s, a) # hs) =
     (case extract_id idf (ds ! a) of
        None \<Rightarrow> Inl (MissingId sid)
      | Some i \<Rightarrow>
          and_then (live_candidates t idf ord (sid, g, ds) hs) (\<lambda>cs.
            if is_deleted_at t i g then Inr cs
            else Inr (\<lparr>c_hit = \<lparr>h_score = s, h_split_ord = ord, h_doc = a\<rparr>, c_id = i, c_generation = g\<rparr> # cs)))"

fun collect_candidates ::
  "'q ranking \<Rightarrow> 'q \<Rightarrow> nat \<Rightarrow> tombstones \<Rightarrow> nat \<Rightarrow> nat \<Rightarrow> split_handle list \<Rightarrow> fts_error + candidate list" where
  "collect_candidates rank q limit t idf ord [] = Inr []"
| "collect_candidates rank q limit t idf ord ((sid, g, ds) # splits) =
     (case rank q ds of
        None \<Rightarrow> Inl (QueryError sid)
      | Some hs \<Rightarrow>
          and_then (live_candidates t idf ord (sid, g, ds) (take limit hs)) (\<lambda>cs.
          and_then (collect_candidates rank q limit t idf (Suc ord) splits) (\<lambda>rest. Inr (cs @ rest))))"

definition wins :: "candidate \<Rightarrow> candidate \<Rightarrow> bool" where
  "wins cand cur \<longleftrightarrow>
     c_generation cand > c_generation cur \<or>
     c_generation cand = c_generation cur \<and>
       (h_split_ord (c_hit cand) > h_split_ord (c_hit cur) \<or>
        h_split_ord (c_hit cand) = h_split_ord (c_hit cur) \<and> h_score (c_hit cand) > h_score (c_hit cur))"

text \<open>The loop that finds the best copy of each identifier: \<open>best\<close> maps an identifier to the position
  of its best copy among the candidates before position \<open>i\<close>.\<close>

fun best_by_id :: "candidate list \<Rightarrow> nat \<Rightarrow> candidate list \<Rightarrow> (string \<times> nat) list \<Rightarrow> (string \<times> nat) list" where
  "best_by_id all i [] best = best"
| "best_by_id all i (cand # cs) best =
     best_by_id all (Suc i) cs
       (case map_of best (c_id cand) of
          Some j \<Rightarrow> if wins cand (all ! j) then (c_id cand, i) # best else best
        | None \<Rightarrow> (c_id cand, i) # best)"

definition dedup_candidates :: "candidate list \<Rightarrow> candidate list" where
  "dedup_candidates all =
     (let best = best_by_id all 0 all [] in
      map snd (filter (\<lambda>(i, c). map_of best (c_id c) = Some i) (enumerate 0 all)))"

definition per_split_limit :: "nat \<Rightarrow> tombstones \<Rightarrow> nat" where
  "per_split_limit limit t = max (limit + tombstones_len t) limit"

definition multi_split_search_filtered ::
  "'q ranking \<Rightarrow> split_handle list \<Rightarrow> 'q \<Rightarrow> nat \<Rightarrow> nat \<Rightarrow> tombstones \<Rightarrow> fts_error + split_hit list" where
  "multi_split_search_filtered rank splits q limit idf t =
     and_then (collect_candidates rank q (per_split_limit limit t) t idf 0 splits) (\<lambda>all.
       Inr (take limit (sort_hits (map c_hit (dedup_candidates all)))))"

definition multi_split_search_filtered_ids ::
  "'q ranking \<Rightarrow> split_handle list \<Rightarrow> 'q \<Rightarrow> nat \<Rightarrow> nat \<Rightarrow> tombstones \<Rightarrow> fts_error + (string \<times> rat) list" where
  "multi_split_search_filtered_ids rank splits q limit idf t =
     and_then (collect_candidates rank q (per_split_limit limit t) t idf 0 splits) (\<lambda>all.
       Inr (take limit (map (\<lambda>c. (c_id c, h_score (c_hit c)))
         (sort_key (\<lambda>c. hit_key (c_hit c)) (dedup_candidates all)))))"

text \<open>\<open>FtsIndex::search_ids\<close>.\<close>

definition search_ids ::
  "'q ranking \<Rightarrow> fts_index \<Rightarrow> blobs \<Rightarrow> 'q \<Rightarrow> nat \<Rightarrow> fts_error + (string \<times> rat) list" where
  "search_ids rank ix bl q limit =
     and_then (load_manifest ix bl) (\<lambda>m.
     and_then (load_tombstones ix bl) (\<lambda>t.
     and_then (open_splits ix bl (mf_splits m)) (\<lambda>splits.
       multi_split_search_filtered_ids rank splits q limit (ix_id_field ix) t)))"

section \<open>One copy per identifier\<close>

lemma best_by_id_domain:
  "map_of (best_by_id all i cs best) x = None \<longleftrightarrow> map_of best x = None \<and> x \<notin> c_id ` set cs"
proof (induction cs arbitrary: i best)
  case (Cons c cs)
  show ?case unfolding best_by_id.simps Cons.IH by (auto split: option.splits)
qed simp

text \<open>Invariant of the loop: an entry is a position of a candidate with the identifier, and no
  candidate seen so far with the identifier beats it.\<close>

lemma wins_irrefl: "\<not> wins a a"
  by (simp add: wins_def)

lemma wins_trans: "wins a b \<Longrightarrow> wins b c \<Longrightarrow> wins a c"
  unfolding wins_def by auto

lemma best_by_id_best:
  assumes "all = pre @ cs" and "i = length pre"
    and "\<forall>x j. map_of best x = Some j \<longrightarrow> j < i \<and> c_id (all ! j) = x \<and> (\<forall>k < i. c_id (all ! k) = x \<longrightarrow> \<not> wins (all ! k) (all ! j))"
    and "\<forall>k < i. map_of best (c_id (all ! k)) \<noteq> None"
    and "map_of (best_by_id all i cs best) x = Some j"
  shows "j < length all \<and> c_id (all ! j) = x \<and> (\<forall>k < length all. c_id (all ! k) = x \<longrightarrow> \<not> wins (all ! k) (all ! j))"
  using assms
proof (induction cs arbitrary: pre i best)
  case Nil
  then show ?case by auto
next
  case (Cons c cs)
  have c: "all ! i = c" using Cons.prems(1,2) by simp
  define best' where "best' = (case map_of best (c_id c) of
      Some j \<Rightarrow> if wins c (all ! j) then (c_id c, i) # best else best | None \<Rightarrow> (c_id c, i) # best)"
  have inv: "j < Suc i \<and> c_id (all ! j) = x \<and> (\<forall>k < Suc i. c_id (all ! k) = x \<longrightarrow> \<not> wins (all ! k) (all ! j))"
    if b: "map_of best' x = Some j" for x j
  proof (cases "x = c_id c")
    case True
    show ?thesis
    proof (cases "map_of best x")
      case None
      then have "j = i" using b True by (simp add: best'_def)
      then show ?thesis using None Cons.prems(4) c True wins_irrefl by (metis less_Suc_eq)
    next
      case (Some l)
      have l: "l < i" "c_id (all ! l) = x" "\<forall>k < i. c_id (all ! k) = x \<longrightarrow> \<not> wins (all ! k) (all ! l)"
        using Cons.prems(3) Some by auto
      show ?thesis
      proof (cases "wins c (all ! l)")
        case w: True
        then have "j = i" using b True Some by (simp add: best'_def)
        then show ?thesis using l(3) w c True wins_trans wins_irrefl by (metis less_Suc_eq)
      next
        case w: False
        then have "j = l" using b True Some by (simp add: best'_def)
        then show ?thesis using l w c by (metis less_Suc_eq)
      qed
    qed
  next
    case False
    then have "map_of best x = Some j" using b by (auto simp: best'_def split: option.splits if_splits)
    then show ?thesis using Cons.prems(3) c False by (metis less_Suc_eq)
  qed
  show ?case
  proof (rule Cons.IH)
    show "all = (pre @ [c]) @ cs" "Suc i = length (pre @ [c])" using Cons.prems(1,2) by auto
    show "map_of (best_by_id all (Suc i) cs best') x = Some j" using Cons.prems(5) by (simp add: best'_def)
    show "\<forall>k < Suc i. map_of best' (c_id (all ! k)) \<noteq> None"
      using Cons.prems(4) c by (auto simp: best'_def less_Suc_eq split: option.splits)
  qed (use inv in blast)
qed

lemma best_of_all:
  assumes "map_of (best_by_id all 0 all []) x = Some j"
  shows "j < length all \<and> c_id (all ! j) = x \<and> (\<forall>k < length all. c_id (all ! k) = x \<longrightarrow> \<not> wins (all ! k) (all ! j))"
  by (rule best_by_id_best [where pre = "[]", OF _ _ _ _ assms]) simp_all

lemma dedup_iff:
  "c \<in> set (dedup_candidates all) \<longleftrightarrow>
     (\<exists>i < length all. all ! i = c \<and> map_of (best_by_id all 0 all []) (c_id c) = Some i)"
  by (force simp: dedup_candidates_def in_set_enumerate_eq)

text \<open>Every identifier among the candidates is kept once, by a copy that no other copy beats.\<close>

lemma dedup_ids: "c_id ` set (dedup_candidates all) = c_id ` set all"
proof
  show "c_id ` set (dedup_candidates all) \<subseteq> c_id ` set all" by (auto simp: dedup_iff)
  show "c_id ` set all \<subseteq> c_id ` set (dedup_candidates all)"
  proof (rule image_subsetI)
    fix c assume "c \<in> set all"
    then obtain j where j: "map_of (best_by_id all 0 all []) (c_id c) = Some j"
      using best_by_id_domain [of all 0 all "[]" "c_id c"] by auto
    then show "c_id c \<in> c_id ` set (dedup_candidates all)"
      using best_of_all [OF j] by (intro image_eqI [of _ _ "all ! j"]) (auto simp: dedup_iff)
  qed
qed

lemma dedup_distinct: "distinct (map c_id (dedup_candidates all))"
proof -
  define best where "best = best_by_id all 0 all []"
  have "distinct (map c_id (map snd (filter (\<lambda>(i, c). map_of best (c_id c) = Some i) (enumerate n cs))))" for n cs
  proof (induction cs arbitrary: n)
    case (Cons c cs)
    have "c_id c \<notin> set (map c_id (map snd (filter (\<lambda>(i, c). map_of best (c_id c) = Some i) (enumerate (Suc n) cs))))"
      if "map_of best (c_id c) = Some n"
      using that by (fastforce simp: in_set_enumerate_eq)
    then show ?case using Cons.IH [of "Suc n"] by simp
  qed simp
  then show ?thesis by (simp add: dedup_candidates_def best_def Let_def)
qed

lemma dedup_newest:
  assumes "c \<in> set (dedup_candidates all)" and "d \<in> set all" and "c_id d = c_id c"
  shows "c_generation d \<le> c_generation c"
proof -
  obtain i where i: "i < length all" "all ! i = c" "map_of (best_by_id all 0 all []) (c_id c) = Some i"
    using assms(1) by (auto simp: dedup_iff)
  obtain k where k: "k < length all" "all ! k = d" using assms(2) by (auto simp: in_set_conv_nth)
  have "\<not> wins d c" using best_of_all [OF i(3)] k i(2) assms(3) by auto
  then show ?thesis by (auto simp: wins_def)
qed

lemma dedup_id: "distinct (map c_id all) \<Longrightarrow> dedup_candidates all = all"
proof -
  assume d: "distinct (map c_id all)"
  have "map_of (best_by_id all 0 all []) (c_id (all ! i)) = Some i" if il: "i < length all" for i
  proof -
    obtain j where j: "map_of (best_by_id all 0 all []) (c_id (all ! i)) = Some j"
      using best_by_id_domain [of all 0 all "[]" "c_id (all ! i)"] imageI [OF nth_mem [OF il], of c_id] by auto
    then have "j < length all" "c_id (all ! j) = c_id (all ! i)" using best_of_all by blast+
    then have "j = i" using d il by (metis length_map nth_eq_iff_index_eq nth_map)
    then show ?thesis using j by simp
  qed
  then have "filter (\<lambda>(i, c). map_of (best_by_id all 0 all []) (c_id c) = Some i) (enumerate 0 all) = enumerate 0 all"
    by (auto simp: filter_id_conv in_set_enumerate_eq)
  then show ?thesis by (simp add: dedup_candidates_def)
qed

section \<open>The best hits of the whole index\<close>

text \<open>The best \<open>n\<close> of a list survive when elements are left out that have \<open>n\<close> better ones.\<close>

lemma take_insort:
  assumes "sorted (map f ys)" and "n \<le> length (filter (\<lambda>y. f y < f z) ys)"
  shows "take n (insort_key f z ys) = take n ys"
  using assms
proof (induction ys arbitrary: n)
  case (Cons y ys)
  show ?case
  proof (cases "f y < f z")
    case True
    then show ?thesis using Cons.prems Cons.IH [of "n - 1"] by (cases n) auto
  next
    case False
    then have "filter (\<lambda>y. f y < f z) (y # ys) = []"
      using Cons.prems(1) by (auto simp: filter_empty_conv)
    then show ?thesis using Cons.prems(2) by simp
  qed
qed simp

lemma take_insorts:
  assumes "sorted (map f ys)" and "\<forall>z \<in> set zs. n \<le> length (filter (\<lambda>y. f y < f z) ys)"
  shows "take n (foldr (insort_key f) zs ys) = take n ys \<and> sorted (map f (foldr (insort_key f) zs ys)) \<and>
    set ys \<subseteq> set (foldr (insort_key f) zs ys) \<and>
    (\<forall>w. length (filter (\<lambda>y. f y < w) ys) \<le> length (filter (\<lambda>y. f y < w) (foldr (insort_key f) zs ys)))"
  using assms(2)
proof (induction zs)
  case Nil
  then show ?case using assms(1) by simp
next
  case (Cons z zs)
  let ?ys = "foldr (insort_key f) zs ys"
  have IH: "take n ?ys = take n ys" "sorted (map f ?ys)" "set ys \<subseteq> set ?ys"
    "\<forall>w. length (filter (\<lambda>y. f y < w) ys) \<le> length (filter (\<lambda>y. f y < w) ?ys)"
    using Cons by auto
  have le: "length (filter P xs) \<le> length (filter P (insort_key f z xs))" for P xs
    by (induction xs) auto
  have "n \<le> length (filter (\<lambda>y. f y < f z) ys)" using Cons.prems by simp
  also have "\<dots> \<le> length (filter (\<lambda>y. f y < f z) ?ys)" using IH(4) by simp
  finally have "take n (insort_key f z ?ys) = take n ?ys" using take_insort [OF IH(2)] by blast
  moreover have "length (filter (\<lambda>y. f y < w) ys) \<le> length (filter (\<lambda>y. f y < w) (insort_key f z ?ys))" for w
    using IH(4) le [of "\<lambda>y. f y < w" ?ys] order_trans by blast
  ultimately show ?case using IH(1-3) by (auto simp: sorted_insort_key set_insort_key)
qed

lemma sort_key_same:
  assumes "mset xs = mset ys" and "distinct (map f xs)"
  shows "sort_key f xs = sort_key f ys"
proof (rule properties_for_sort_key)
  show "mset (sort_key f ys) = mset xs" using assms(1) by simp
  have d: "distinct (map f (sort_key f ys))"
    using assms by (metis mset_eq_imp_distinct_iff mset_map mset_sort)
  have one: "filter (\<lambda>x. f k = f x) zs = [k]" if "distinct (map f zs)" "k \<in> set zs" for zs k
    using that by (induction zs) (auto simp: filter_empty_conv, (metis image_eqI)+)
  show "filter (\<lambda>x. f k = f x) (sort_key f ys) = filter (\<lambda>x. f k = f x) xs" if "k \<in> set (sort_key f ys)" for k
  proof -
    have "k \<in> set xs" using that mset_eq_setD [OF assms(1)] by simp
    then show ?thesis using one [OF d that] one [OF assms(2)] by simp
  qed
qed simp

lemma top_merge:
  assumes "distinct (map f (ys @ zs))" and "mset xs = mset (ys @ zs)"
    and "\<forall>z \<in> set zs. n \<le> length (filter (\<lambda>y. f y < f z) ys)"
  shows "take n (sort_key f xs) = take n (sort_key f ys)"
proof -
  have "distinct (map f xs)" using assms(1,2) by (metis mset_eq_imp_distinct_iff mset_map)
  then have "sort_key f xs = sort_key f (zs @ ys)" using assms(2) by (intro sort_key_same) (simp_all add: union_commute)
  also have "\<dots> = foldr (insort_key f) zs (sort_key f ys)" by (simp add: sort_key_def)
  finally have "sort_key f xs = foldr (insort_key f) zs (sort_key f ys)" .
  moreover have "length (filter (\<lambda>y. f y < w) (sort_key f ys)) = length (filter (\<lambda>y. f y < w) ys)" for w
    by (metis mset_filter mset_sort size_mset)
  ultimately show ?thesis using take_insorts [of f "sort_key f ys" zs n] assms(3) by simp
qed

text \<open>With at most \<open>n\<close> dropped elements, \<open>limit + n\<close> elements suffice for the first \<open>limit\<close> that are
  kept.\<close>

lemma overfetch:
  assumes "length (filter (\<lambda>x. \<not> P x) xs) \<le> n"
  shows "filter P (drop (limit + n) xs) = [] \<or> limit \<le> length (filter P (take (limit + n) xs))"
proof (cases "length xs \<le> limit + n")
  case False
  let ?ys = "take (limit + n) xs"
  have "length (filter (\<lambda>x. \<not> P x) ?ys) \<le> length (filter (\<lambda>x. \<not> P x) xs)"
    by (metis append_take_drop_id filter_append le_add1 length_append)
  moreover have "length ?ys = length (filter P ?ys) + length (filter (\<lambda>x. \<not> P x) ?ys)"
    by (rule sum_length_filter_compl [symmetric])
  ultimately show ?thesis using assms False by simp
qed simp

section \<open>Search returns the best live documents\<close>

text \<open>What the search library documents of a ranking: each matching document once, best score first,
  ties in the order of the addresses.\<close>

definition ranking_ok :: "tdoc list \<Rightarrow> (rat \<times> nat) list \<Rightarrow> bool" where
  "ranking_ok ds hs \<longleftrightarrow>
     sorted_wrt (\<lambda>x y. (- fst x, snd x) < (- fst y, snd y)) hs \<and> distinct (map snd hs) \<and>
     (\<forall>x \<in> set hs. snd x < length ds)"

definition ranks :: "'q ranking \<Rightarrow> bool" where
  "ranks rank \<longleftrightarrow> (\<forall>q ds hs. rank q ds = Some hs \<longrightarrow> ranking_ok ds hs)"

definition parses :: "'q ranking \<Rightarrow> 'q \<Rightarrow> bool" where
  "parses rank q \<longleftrightarrow> (\<forall>ds. rank q ds \<noteq> None)"

definition candidate_of :: "nat \<Rightarrow> nat \<Rightarrow> split_handle \<Rightarrow> rat \<times> nat \<Rightarrow> candidate" where
  "candidate_of idf ord sp x =
     (case sp of (sid, g, ds) \<Rightarrow>
        \<lparr>c_hit = \<lparr>h_score = fst x, h_split_ord = ord, h_doc = snd x\<rparr>,
         c_id = the (extract_id idf (ds ! snd x)), c_generation = g\<rparr>)"

definition hit_live :: "tombstones \<Rightarrow> nat \<Rightarrow> split_handle \<Rightarrow> rat \<times> nat \<Rightarrow> bool" where
  "hit_live t idf sp x \<longleftrightarrow>
     (case sp of (sid, g, ds) \<Rightarrow> \<not> is_deleted_at t (the (extract_id idf (ds ! snd x))) g)"

text \<open>All live hits of a query.\<close>

definition all_live :: "'q ranking \<Rightarrow> 'q \<Rightarrow> tombstones \<Rightarrow> nat \<Rightarrow> split_handle list \<Rightarrow> candidate list" where
  "all_live rank q t idf splits =
     concat (map (\<lambda>(ord, sp). map (candidate_of idf ord sp)
       (filter (hit_live t idf sp) (the (rank q (snd (snd sp)))))) (enumerate 0 splits))"

definition docs_have_ids :: "nat \<Rightarrow> split_handle list \<Rightarrow> bool" where
  "docs_have_ids idf splits \<longleftrightarrow> (\<forall>(sid, g, ds) \<in> set splits. \<forall>d \<in> set ds. extract_id idf d \<noteq> None)"

lemma live_candidates_ok:
  assumes "\<forall>x \<in> set hs. extract_id idf (ds ! snd x) \<noteq> None"
  shows "live_candidates t idf ord (sid, g, ds) hs =
    Inr (map (candidate_of idf ord (sid, g, ds)) (filter (hit_live t idf (sid, g, ds)) hs))"
  using assms by (induction hs) (auto simp: candidate_of_def hit_live_def)

lemma collect_candidates_ok:
  assumes "ranks rank" and "docs_have_ids idf splits" and "parses rank q"
  shows "collect_candidates rank q limit t idf ord splits =
    Inr (concat (map (\<lambda>(ord, sp). map (candidate_of idf ord sp)
      (filter (hit_live t idf sp) (take limit (the (rank q (snd (snd sp))))))) (enumerate ord splits)))"
  using assms(2)
proof (induction splits arbitrary: ord)
  case (Cons sp splits)
  obtain sid g ds where sp: "sp = (sid, g, ds)" by (cases sp)
  obtain hs where hs: "rank q ds = Some hs" using assms(3) by (auto simp: parses_def)
  then have pos: "\<forall>x \<in> set hs. snd x < length ds" using assms(1) by (auto simp: ranks_def ranking_ok_def)
  have ids: "\<forall>d \<in> set ds. extract_id idf d \<noteq> None" "docs_have_ids idf splits"
    using Cons.prems by (auto simp: docs_have_ids_def sp)
  have "\<forall>x \<in> set (take limit hs). extract_id idf (ds ! snd x) \<noteq> None"
    using pos ids(1) by (blast dest: in_set_takeD intro: nth_mem)
  from live_candidates_ok [OF this] show ?case
    using Cons.IH [OF ids(2), of "Suc ord"] by (simp add: sp hs)
qed simp

lemma candidate_key: "hit_key (c_hit (candidate_of idf ord sp x)) = (- fst x, ord, snd x)"
  by (simp add: candidate_of_def hit_key_def split: prod.splits)

text \<open>Where a split has its identifiers once, no more hits are dropped than there are tombstones.\<close>

lemma dropped_bound:
  assumes "ranking_ok ds hs" and "distinct (map (extract_id idf) ds)" and "\<forall>d \<in> set ds. extract_id idf d \<noteq> None"
  shows "length (filter (\<lambda>x. \<not> hit_live t idf (sid, g, ds) x) hs) \<le> tombstones_len t"
proof -
  let ?dead = "filter (\<lambda>x. \<not> hit_live t idf (sid, g, ds) x) hs"
  let ?f = "\<lambda>a. the (extract_id idf (ds ! a))"
  have pos: "\<forall>x \<in> set hs. snd x < length ds" and d: "distinct (map snd hs)"
    using assms(1) by (auto simp: ranking_ok_def)
  have "inj_on ?f {..<length ds}"
  proof (rule inj_onI)
    fix a b assume ab: "a \<in> {..<length ds}" "b \<in> {..<length ds}" "?f a = ?f b"
    then have "extract_id idf (ds ! a) = extract_id idf (ds ! b)"
      using assms(3) by (metis lessThan_iff nth_mem option.expand)
    then show "a = b" using assms(2) ab by (simp add: distinct_conv_nth) metis
  qed
  then have inj: "inj_on ?f (snd ` set ?dead)" by (rule inj_on_subset) (use pos in auto)
  have "length ?dead = card (snd ` set ?dead)"
    by (metis d distinct_card distinct_map_filter length_map list.set_map)
  also have "\<dots> = card (?f ` snd ` set ?dead)" using inj by (simp add: card_image)
  also have "\<dots> \<le> card (fst ` set (tb_deleted t))"
  proof (rule card_mono)
    show "?f ` snd ` set ?dead \<subseteq> fst ` set (tb_deleted t)"
      by (auto simp: hit_live_def is_deleted_at_def split: option.splits dest!: map_of_SomeD intro: rev_image_eqI)
  qed simp
  also have "\<dots> \<le> tombstones_len t"
    unfolding tombstones_len_def using card_length [of "map fst (tb_deleted t)"] by simp
  finally show ?thesis .
qed

text \<open>The live hits of one split among a list of hits.\<close>

definition live_among :: "tombstones \<Rightarrow> nat \<Rightarrow> nat \<Rightarrow> split_handle \<Rightarrow> (rat \<times> nat) list \<Rightarrow> candidate list" where
  "live_among t idf ord sp hs = map (candidate_of idf ord sp) (filter (hit_live t idf sp) hs)"

lemma live_among_append: "live_among t idf ord sp (xs @ ys) = live_among t idf ord sp xs @ live_among t idf ord sp ys"
  by (simp add: live_among_def)

lemma mset_concat_append:
  "mset (concat (map (\<lambda>x. g x @ h x) xs)) = mset (concat (map g xs) @ concat (map h xs))"
  by (induction xs) auto

lemma live_among_keys:
  assumes "distinct (map snd hs)"
  shows "distinct (map (\<lambda>c. hit_key (c_hit c)) (live_among t idf ord sp hs))"
proof -
  have "distinct (map snd (filter (hit_live t idf sp) hs))" using assms by (rule distinct_map_filter)
  then have "distinct (map (\<lambda>x. (- fst x, ord, snd x)) (filter (hit_live t idf sp) hs))"
    by (auto simp: distinct_map inj_on_def)
  then show ?thesis by (simp add: live_among_def candidate_key o_def)
qed

lemma live_among_ord: "c \<in> set (live_among t idf ord sp hs) \<Longrightarrow> fst (snd (hit_key (c_hit c))) = ord"
  by (auto simp: live_among_def candidate_key)

lemma keys_distinct:
  assumes "\<forall>sp \<in> set splits. distinct (map snd (hs sp))"
  shows "distinct (map (\<lambda>c. hit_key (c_hit c))
      (concat (map (\<lambda>(ord, sp). live_among t idf ord sp (hs sp)) (enumerate n splits)))) \<and>
    (\<forall>c \<in> set (concat (map (\<lambda>(ord, sp). live_among t idf ord sp (hs sp)) (enumerate n splits))).
       n \<le> fst (snd (hit_key (c_hit c))))"
  using assms
proof (induction splits arbitrary: n)
  case (Cons sp splits)
  let ?rest = "concat (map (\<lambda>(ord, sp). live_among t idf ord sp (hs sp)) (enumerate (Suc n) splits))"
  have IH: "distinct (map (\<lambda>c. hit_key (c_hit c)) ?rest)" "\<forall>c \<in> set ?rest. Suc n \<le> fst (snd (hit_key (c_hit c)))"
    using Cons by auto
  have here: "fst (snd (hit_key (c_hit c))) = n" if "c \<in> set (live_among t idf n sp (hs sp))" for c
    using that by (rule live_among_ord)
  have "hit_key (c_hit c) \<noteq> hit_key (c_hit d)" if c: "c \<in> set (live_among t idf n sp (hs sp))" and d: "d \<in> set ?rest" for c d
  proof
    assume "hit_key (c_hit c) = hit_key (c_hit d)"
    then have "fst (snd (hit_key (c_hit d))) = n" using here [OF c] by simp
    then show False using bspec [OF IH(2) d] by simp
  qed
  then have "(\<lambda>c. hit_key (c_hit c)) ` set (live_among t idf n sp (hs sp)) \<inter> (\<lambda>c. hit_key (c_hit c)) ` set ?rest = {}"
    by blast
  then have "distinct (map (\<lambda>c. hit_key (c_hit c)) (live_among t idf n sp (hs sp) @ ?rest))"
    using IH(1) live_among_keys Cons.prems by auto
  moreover have "n \<le> fst (snd (hit_key (c_hit c)))" if "c \<in> set (live_among t idf n sp (hs sp) @ ?rest)" for c
  proof (cases "c \<in> set ?rest")
    case True
    then show ?thesis using bspec [OF IH(2) True] by simp
  next
    case False
    then have "c \<in> set (live_among t idf n sp (hs sp))" using that unfolding set_append by blast
    then show ?thesis using here by simp
  qed
  ultimately show ?case by simp
qed simp

text \<open>A hit beyond the limit of its split has enough better ones in that split.\<close>

lemma beyond_limit:
  assumes "ranking_ok ds hs" and "distinct (map (extract_id idf) ds)" and "\<forall>d \<in> set ds. extract_id idf d \<noteq> None"
    and "z \<in> set (live_among t idf ord (sid, g, ds) (drop (limit + tombstones_len t) hs))"
  shows "limit \<le> length (filter (\<lambda>c. hit_key (c_hit c) < hit_key (c_hit z))
    (live_among t idf ord (sid, g, ds) (take (limit + tombstones_len t) hs)))"
proof -
  let ?l = "limit + tombstones_len t" and ?P = "hit_live t idf (sid, g, ds)"
  obtain x where x: "x \<in> set (drop ?l hs)" "?P x" "z = candidate_of idf ord (sid, g, ds) x"
    using assms(4) by (auto simp: live_among_def)
  have "filter ?P (drop ?l hs) \<noteq> []" using x by (auto simp: filter_empty_conv)
  then have "limit \<le> length (filter ?P (take ?l hs))"
    using overfetch [OF dropped_bound [OF assms(1-3)]] by blast
  moreover have "hit_key (c_hit (candidate_of idf ord (sid, g, ds) y)) < hit_key (c_hit z)" if "y \<in> set (take ?l hs)" for y
  proof -
    have "sorted_wrt (\<lambda>x y. (- fst x, snd x) < (- fst y, snd y)) (take ?l hs @ drop ?l hs)"
      using assms(1) by (simp add: ranking_ok_def)
    then have "(- fst y, snd y) < (- fst x, snd x)" using that x(1) unfolding sorted_wrt_append by blast
    then show ?thesis by (auto simp: x(3) candidate_key)
  qed
  then have "filter (\<lambda>c. hit_key (c_hit c) < hit_key (c_hit z)) (live_among t idf ord (sid, g, ds) (take ?l hs)) =
      live_among t idf ord (sid, g, ds) (take ?l hs)"
    by (auto simp: filter_id_conv live_among_def)
  ultimately show ?thesis by (simp add: live_among_def)
qed

lemma filter_concat_ge: "xs \<in> set xss \<Longrightarrow> length (filter P xs) \<le> length (filter P (concat xss))"
  by (induction xss) auto

lemma search_returns_top:
  assumes "ranks rank" and "parses rank q" and "docs_have_ids idf splits"
    and "\<forall>(sid, g, ds) \<in> set splits. distinct (map (extract_id idf) ds)"
    and "distinct (map c_id (all_live rank q t idf splits))"
  shows "multi_split_search_filtered_ids rank splits q limit idf t =
    Inr (take limit (map (\<lambda>c. (c_id c, h_score (c_hit c)))
      (sort_key (\<lambda>c. hit_key (c_hit c)) (all_live rank q t idf splits))))"
proof -
  let ?hs = "\<lambda>sp :: split_handle. the (rank q (snd (snd sp)))" and ?l = "limit + tombstones_len t"
  let ?key = "\<lambda>c. hit_key (c_hit c)" and ?en = "enumerate 0 splits"
  define ys where "ys = concat (map (\<lambda>(ord, sp). live_among t idf ord sp (take ?l (?hs sp))) ?en)"
  define zs where "zs = concat (map (\<lambda>(ord, sp). live_among t idf ord sp (drop ?l (?hs sp))) ?en)"
  have hs: "ranking_ok (snd (snd sp)) (?hs sp)" for sp
    using assms(1,2) unfolding ranks_def parses_def by (metis option.exhaust_sel)
  have all: "all_live rank q t idf splits = concat (map (\<lambda>(ord, sp). live_among t idf ord sp (?hs sp)) ?en)"
    by (simp add: all_live_def live_among_def)
  have "(\<lambda>(ord, sp). live_among t idf ord sp (?hs sp)) =
      (\<lambda>x. (\<lambda>(ord, sp). live_among t idf ord sp (take ?l (?hs sp))) x @ (\<lambda>(ord, sp). live_among t idf ord sp (drop ?l (?hs sp))) x)"
    by (auto simp: fun_eq_iff live_among_append [symmetric])
  then have ms: "mset (all_live rank q t idf splits) = mset (ys @ zs)"
    unfolding all ys_def zs_def by (simp only: mset_concat_append)
  have dk: "distinct (map ?key (ys @ zs))"
  proof -
    have "\<forall>sp \<in> set splits. distinct (map snd (?hs sp))" using hs by (simp add: ranking_ok_def)
    from conjunct1 [OF keys_distinct [OF this, of t idf 0]]
    have "distinct (map ?key (all_live rank q t idf splits))" unfolding all .
    moreover have "mset (map ?key (all_live rank q t idf splits)) = mset (map ?key (ys @ zs))" using ms by simp
    ultimately show ?thesis using mset_eq_imp_distinct_iff by blast
  qed
  have "mset (map c_id (all_live rank q t idf splits)) = mset (map c_id (ys @ zs))" using ms by simp
  then have "distinct (map c_id (ys @ zs))" using assms(5) mset_eq_imp_distinct_iff by blast
  then have dd: "dedup_candidates ys = ys" by (intro dedup_id) simp
  have "limit \<le> length (filter (\<lambda>c. ?key c < ?key z) ys)" if z: "z \<in> set zs" for z
  proof -
    obtain ord sid g ds where e: "(ord, (sid, g, ds)) \<in> set ?en"
      "z \<in> set (live_among t idf ord (sid, g, ds) (drop ?l (?hs (sid, g, ds))))"
      using z by (auto simp: zs_def)
    have sp: "(sid, g, ds) \<in> set splits" using e(1) nth_mem [of ord splits] by (auto simp: in_set_enumerate_eq)
    have "limit \<le> length (filter (\<lambda>c. ?key c < ?key z) (live_among t idf ord (sid, g, ds) (take ?l (?hs (sid, g, ds)))))"
      by (rule beyond_limit [OF _ _ _ e(2)]) (use sp assms(3,4) hs [of "(sid, g, ds)"] in \<open>auto simp: docs_have_ids_def\<close>)
    also have "\<dots> \<le> length (filter (\<lambda>c. ?key c < ?key z) ys)"
      unfolding ys_def by (rule filter_concat_ge) (use e(1) in force)
    finally show ?thesis .
  qed
  then have "take limit (sort_key ?key (all_live rank q t idf splits)) = take limit (sort_key ?key ys)"
    using top_merge [OF dk ms, of limit] by blast
  moreover have "collect_candidates rank q (per_split_limit limit t) t idf 0 splits = Inr ys"
    using collect_candidates_ok [OF assms(1,3,2)] by (simp add: per_split_limit_def ys_def live_among_def)
  ultimately show ?thesis by (simp add: multi_split_search_filtered_ids_def dd take_map)
qed

end
