(* ===== verification/Fts_Live.thy ===== *)
theory Fts_Live
  imports Fts_Search
begin

text \<open>
  The live tier of full-text search, \<open>bluedb-engine/src/live_segment.rs\<close>, and the engine that keeps it
  in step with commits and folds it into the durable index, \<open>bluedb-engine/src/fts_engine.rs\<close>.

  A live segment has the documents of its writer, the documents that its reader sees, the set of
  deleted keys and the set of all keys it has seen. The loop that waits for a seal to finish is the
  value \<open>None\<close>: the caller makes no step while the seal is open. The lower-case mapping of Unicode is
  the parameter \<open>lower\<close>; the ranking of texts by the search library is a parameter as in
  \<open>Fts_Search\<close>.
\<close>

section \<open>Text\<close>

definition show_i64 :: "int \<Rightarrow> string" where
  "show_i64 i = (if i < 0 then CHR ''-'' # show_nat (nat (- i)) else show_nat (nat i))"

lemma show_nat_head_digit: "\<exists>c cs. show_nat n = c # cs \<and> c \<noteq> CHR ''+'' \<and> c \<noteq> CHR ''-''"
proof -
  obtain c cs where c: "show_nat n = c # cs" "c \<noteq> CHR ''+''" using show_nat_head by blast
  have "parse_digits 0 (c # cs) \<noteq> None" using parse_show_nat [of n] c(1) by simp
  then have "c \<noteq> CHR ''-''" by (auto simp: Let_def)
  then show ?thesis using c by blast
qed

lemma parse_show_i64 [simp]:
  assumes "- (2 ^ 63) \<le> i" and "i < 2 ^ 63"
  shows "parse_i64 (show_i64 i) = Some i"
proof (cases "i < 0")
  case True
  obtain c cs where c: "show_nat (nat (- i)) = c # cs" using show_nat_head by blast
  then have "parse_digits 0 (c # cs) = Some (nat (- i))" using parse_show_nat by metis
  then show ?thesis using True assms c by (simp add: parse_i64_def show_i64_def)
next
  case False
  obtain c cs where c: "show_nat (nat i) = c # cs" "c \<noteq> CHR ''+''" "c \<noteq> CHR ''-''"
    using show_nat_head_digit by blast
  then have "parse_digits 0 (c # cs) = Some (nat i)" using parse_show_nat by metis
  then show ?thesis using False assms c by (simp add: parse_i64_def show_i64_def)
qed

lemma show_i64_inj:
  assumes "- (2 ^ 63) \<le> i" "i < 2 ^ 63" "- (2 ^ 63) \<le> j" "j < 2 ^ 63"
  shows "show_i64 i = show_i64 j \<longleftrightarrow> i = j"
  using parse_show_i64 [OF assms(1,2)] parse_show_i64 [OF assms(3,4)] by (metis option.inject)

text \<open>The characters of a string, as the groups of their UTF-8 bytes.\<close>

fun utf8_chars :: "string \<Rightarrow> string list" where
  "utf8_chars [] = []"
| "utf8_chars (c # cs) =
     (case utf8_chars cs of
        [] \<Rightarrow> [[c]]
      | g # gs \<Rightarrow>
          (case g of
             [] \<Rightarrow> [c] # gs
           | d # ds \<Rightarrow> if 128 \<le> (of_char d :: nat) \<and> of_char d < (192 :: nat) then (c # g) # gs else [c] # g # gs))"

fun windows3 :: "'a list \<Rightarrow> 'a list list" where
  "windows3 (a # b # c # cs) = [a, b, c] # windows3 (b # c # cs)"
| "windows3 _ = []"

definition trigramize :: "(string \<Rightarrow> string) \<Rightarrow> string \<Rightarrow> string" where
  "trigramize lower s =
     (let chars = utf8_chars (lower s) in
      if length chars < 3 then '''' else join_str '' '' (map concat (windows3 chars)))"

text \<open>\<open>str::split_whitespace\<close>: the words between white space, without empty ones. The first argument
  is the word read so far, reversed.\<close>

function split_ws :: "string \<Rightarrow> string \<Rightarrow> string list" where
  "split_ws w s =
     (case s of
        [] \<Rightarrow> if w = [] then [] else [rev w]
      | c # cs \<Rightarrow>
          (case strip_ws ws_chars s of
             Some r \<Rightarrow> if w = [] then split_ws [] r else rev w # split_ws [] r
           | None \<Rightarrow> split_ws (c # w) cs))"
  by pat_completeness auto
termination
  by (relation "measure (\<lambda>(w, s). length s)") (auto dest!: strip_ws_length [rotated] simp: ws_chars_def)

declare split_ws.simps [simp del]

definition split_whitespace :: "string \<Rightarrow> string list" where
  "split_whitespace s = split_ws [] s"

section \<open>Query strings\<close>

datatype ts_query_kind = ToTsQuery | Plain | Websearch

definition meta_chars :: string where
  "meta_chars = ''&|!():*'' @ [CHR 0x22] @ ''+-^~''"

definition strip_weight :: "string \<Rightarrow> string" where
  "strip_weight token = (case split_once '':'' token of Some (lexeme, marker) \<Rightarrow> lexeme | None \<Rightarrow> token)"

definition ts_token :: "string \<Rightarrow> string option" where
  "ts_token tok =
     (if tok = ''&'' then Some ''AND''
      else if tok = ''|'' then Some ''OR''
      else
        let trimmed = dropWhile (\<lambda>c. c = CHR ''!'') tok;
          negated = (length trimmed \<noteq> length tok);
          lexeme = strip_weight trimmed in
        if lexeme = [] then None
        else if negated then Some (CHR ''-'' # lexeme)
        else Some lexeme)"

definition translate_query :: "(string \<Rightarrow> string) \<Rightarrow> string \<Rightarrow> ts_query_kind \<Rightarrow> string" where
  "translate_query lower query kind =
     (case kind of
        Plain \<Rightarrow>
          join_str '' AND '' (map lower
            (split_whitespace (map (\<lambda>c. if c \<in> set meta_chars then CHR '' '' else c) query)))
      | ToTsQuery \<Rightarrow>
          join_str '' '' (List.map_filter ts_token
            (split_whitespace (replace_char (CHR ''|'') '' | '' (replace_char (CHR ''&'') '' & '' query))))
      | Websearch \<Rightarrow>
          join_str '' '' (map (\<lambda>t. if to_ascii_lowercase t = ''or'' then ''OR'' else t) (split_whitespace query)))"

section \<open>Live segments\<close>

record live_segment =
  ls_docs :: "(int \<times> string) list"
  ls_reader :: "(int \<times> string) list"
  ls_tombstones :: "int set"
  ls_covered :: "int set"
  ls_dirty :: bool
  ls_sealing :: bool

definition live_new :: live_segment where
  "live_new = \<lparr>ls_docs = [], ls_reader = [], ls_tombstones = {}, ls_covered = {}, ls_dirty = False,
     ls_sealing = False\<rparr>"

definition live_index :: "live_segment \<Rightarrow> int \<Rightarrow> string \<Rightarrow> live_segment option" where
  "live_index ls pk txt =
     (if ls_sealing ls then None
      else Some (ls\<lparr>ls_docs := filter (\<lambda>d. fst d \<noteq> pk) (ls_docs ls) @ [(pk, txt)],
                    ls_covered := insert pk (ls_covered ls), ls_dirty := True\<rparr>))"

definition live_tombstone :: "live_segment \<Rightarrow> int \<Rightarrow> live_segment option" where
  "live_tombstone ls pk =
     (if ls_sealing ls then None
      else Some (ls\<lparr>ls_docs := filter (\<lambda>d. fst d \<noteq> pk) (ls_docs ls),
                    ls_tombstones := insert pk (ls_tombstones ls),
                    ls_covered := insert pk (ls_covered ls), ls_dirty := True\<rparr>))"

definition ensure_fresh :: "live_segment \<Rightarrow> live_segment" where
  "ensure_fresh ls = (if ls_dirty ls then ls\<lparr>ls_reader := ls_docs ls, ls_dirty := False\<rparr> else ls)"

record fts_hit =
  fh_pk :: int
  fh_score :: rat

type_synonym text_ranking = "string \<Rightarrow> string list \<Rightarrow> (rat \<times> nat) list option"

definition live_search ::
  "(string \<Rightarrow> string) \<Rightarrow> text_ranking \<Rightarrow> live_segment \<Rightarrow> string \<Rightarrow> ts_query_kind \<Rightarrow> nat \<Rightarrow> fts_error + fts_hit list" where
  "live_search lower rank ls query kind limit =
     (let fresh = ensure_fresh ls; tombs = ls_tombstones fresh; docs = ls_reader fresh;
        q = translate_query lower query kind; fetch = limit + card tombs in
      case rank q (map snd docs) of
        None \<Rightarrow> Inl (QueryError q)
      | Some hs \<Rightarrow>
          Inr (take limit (filter (\<lambda>h. fh_pk h \<notin> tombs)
            (map (\<lambda>(s, a). \<lparr>fh_pk = fst (docs ! a), fh_score = s\<rparr>) (take fetch hs)))))"

record seal_snapshot =
  sn_docs :: "(int \<times> string) list"
  sn_tombs :: "int set"

definition snapshot_for_seal :: "live_segment \<Rightarrow> (seal_snapshot \<times> live_segment) option" where
  "snapshot_for_seal ls =
     (if ls_sealing ls then None
      else
        let fresh = ensure_fresh (ls\<lparr>ls_sealing := True\<rparr>) in
        Some (\<lparr>sn_docs = filter (\<lambda>d. fst d \<notin> ls_tombstones fresh) (ls_reader fresh),
               sn_tombs = ls_tombstones fresh\<rparr>, fresh))"

definition finish_seal :: "live_segment \<Rightarrow> live_segment" where
  "finish_seal ls = \<lparr>ls_docs = [], ls_reader = [], ls_tombstones = {}, ls_covered = {}, ls_dirty = False,
     ls_sealing = False\<rparr>"

definition abort_seal :: "live_segment \<Rightarrow> live_segment" where
  "abort_seal ls = ls\<lparr>ls_sealing := False\<rparr>"

definition drain_for_seal :: "live_segment \<Rightarrow> (((int \<times> string) list \<times> int set) \<times> live_segment) option" where
  "drain_for_seal ls =
     map_option (\<lambda>(s, l). ((sn_docs s, sn_tombs s), finish_seal l)) (snapshot_for_seal ls)"

section \<open>Commits\<close>

datatype index_kind = Fulltext | Trigram

datatype gvalue = GStr string | GOther

datatype data_row = VecRow "gvalue list" | MapRow

datatype gkey = KI64 int | KOther

record row_change =
  rc_table :: string
  rc_key :: gkey
  rc_row :: "data_row option"

record index_def =
  d_column :: string
  d_pk_column :: string
  d_column_ordinal :: nat
  d_kind :: index_kind
  d_analyzer :: string
  d_segment :: live_segment
  d_durable :: "fts_index option"

definition indexed_text :: "(string \<Rightarrow> string) \<Rightarrow> index_kind \<Rightarrow> string \<Rightarrow> string" where
  "indexed_text lower kind txt = (case kind of Fulltext \<Rightarrow> txt | Trigram \<Rightarrow> trigramize lower txt)"

definition commit_def :: "(string \<Rightarrow> string) \<Rightarrow> row_change \<Rightarrow> int \<Rightarrow> index_def \<Rightarrow> index_def option" where
  "commit_def lower ch pk def =
     (case rc_row ch of
        Some (VecRow values) \<Rightarrow>
          if d_column_ordinal def < length values
          then (case values ! d_column_ordinal def of
                  GStr txt \<Rightarrow>
                    map_option (\<lambda>ls. def\<lparr>d_segment := ls\<rparr>)
                      (live_index (d_segment def) pk (indexed_text lower (d_kind def) txt))
                | GOther \<Rightarrow> Some def)
          else Some def
      | Some MapRow \<Rightarrow> Some def
      | None \<Rightarrow> map_option (\<lambda>ls. def\<lparr>d_segment := ls\<rparr>) (live_tombstone (d_segment def) pk))"

text \<open>The engine's map from a table to its indexes.\<close>

type_synonym index_map = "(string \<times> index_def list) list"

fun on_commit :: "(string \<Rightarrow> string) \<Rightarrow> row_change list \<Rightarrow> index_map \<Rightarrow> index_map option" where
  "on_commit lower [] idx = Some idx"
| "on_commit lower (ch # chs) idx =
     (case map_of idx (rc_table ch) of
        None \<Rightarrow> on_commit lower chs idx
      | Some defs \<Rightarrow>
          (case rc_key ch of
             KOther \<Rightarrow> on_commit lower chs idx
           | KI64 pk \<Rightarrow>
               Option.bind (those (map (commit_def lower ch pk) defs)) (\<lambda>defs'.
                 on_commit lower chs (AList.update (rc_table ch) defs' idx))))"

section \<open>Index definitions\<close>

definition durable_index_id :: "index_kind \<Rightarrow> string \<Rightarrow> string \<Rightarrow> string" where
  "durable_index_id kind tbl column =
     (case kind of Fulltext \<Rightarrow> ''fts'' | Trigram \<Rightarrow> ''trgm'') @ ''/'' @ tbl @ ''/'' @ column"

text \<open>The fields of the durable schema: the key as text, and the text.\<close>

definition id_field :: nat where "id_field = 0"

definition body_field :: nat where "body_field = 1"

definition durable_index :: "index_kind \<Rightarrow> string \<Rightarrow> string \<Rightarrow> fts_index" where
  "durable_index kind tbl column =
     \<lparr>ix_index_id = durable_index_id kind tbl column, ix_schema = [id_field, body_field],
      ix_id_field = id_field, ix_policy = default_policy\<rparr>"

definition build_index_def ::
  "bool \<Rightarrow> string \<Rightarrow> string \<Rightarrow> string \<Rightarrow> nat \<Rightarrow> string \<Rightarrow> index_kind \<Rightarrow> index_def" where
  "build_index_def durable tbl text_column pk_column ordinal analyzer kind =
     \<lparr>d_column = text_column, d_pk_column = pk_column, d_column_ordinal = ordinal, d_kind = kind,
      d_analyzer = analyzer, d_segment = live_new,
      d_durable = (if durable then Some (durable_index kind tbl text_column) else None)\<rparr>"

definition install_def :: "string \<Rightarrow> index_def \<Rightarrow> index_map \<Rightarrow> index_map" where
  "install_def tbl def idx =
     (let defs = (case map_of idx tbl of Some ds \<Rightarrow> ds | None \<Rightarrow> []) in
      AList.update tbl
        (filter (\<lambda>d. \<not> (d_column d = d_column def \<and> d_kind d = d_kind def)) defs @ [def]) idx)"

section \<open>Folding the live segment into the durable index\<close>

definition durable_doc :: "int \<Rightarrow> string \<Rightarrow> tdoc" where
  "durable_doc pk body = [(id_field, SStr (show_i64 pk)), (body_field, SStr body)]"

text \<open>The two calls of \<open>seal\<close> on the durable index, as the writes that they perform; \<open>dead\<close> lists the
  deleted keys in the order of the set's iterator.\<close>

definition seal_update ::
  "fts_env \<Rightarrow> fts_index \<Rightarrow> blobs \<Rightarrow> (int \<times> string) list \<Rightarrow> fts_error + blob_write list" where
  "seal_update env ix bl docs =
     (if docs = [] then Inr []
      else and_then (index_update env ix bl (map (\<lambda>d. show_i64 (fst d)) docs)
             (map (\<lambda>d. durable_doc (fst d) (snd d)) docs)) (\<lambda>(sid, ws). Inr ws))"

definition seal_delete :: "fts_index \<Rightarrow> blobs \<Rightarrow> int list \<Rightarrow> fts_error + blob_write list" where
  "seal_delete ix bl dead = (if dead = [] then Inr [] else index_delete ix bl (map show_i64 dead))"

definition seal_target ::
  "fts_env \<Rightarrow> (int set \<Rightarrow> int list) \<Rightarrow> live_segment \<Rightarrow> fts_index \<Rightarrow> blobs \<Rightarrow>
     ((fts_error + unit) \<times> live_segment \<times> blobs) option" where
  "seal_target env iter ls ix bl =
     map_option (\<lambda>(snap, ls).
       case seal_update env ix bl (sn_docs snap) of
         Inl e \<Rightarrow> (Inl e, abort_seal ls, bl)
       | Inr ws \<Rightarrow>
           let bl1 = apply_writes ws bl in
           (case seal_delete ix bl1 (iter (sn_tombs snap)) of
              Inl e \<Rightarrow> (Inl e, abort_seal ls, bl1)
            | Inr ws' \<Rightarrow> (Inr (), finish_seal ls, apply_writes ws' bl1)))
       (snapshot_for_seal ls)"

fun seal ::
  "fts_env \<Rightarrow> (int set \<Rightarrow> int list) \<Rightarrow> (live_segment \<times> fts_index) list \<Rightarrow> blobs \<Rightarrow>
     ((fts_error + unit) \<times> live_segment list \<times> blobs) option" where
  "seal env iter [] bl = Some (Inr (), [], bl)"
| "seal env iter ((ls, ix) # targets) bl =
     Option.bind (seal_target env iter ls ix bl) (\<lambda>(r, ls', bl').
       case r of
         Inl e \<Rightarrow> Some (Inl e, ls' # map fst targets, bl')
       | Inr _ \<Rightarrow> map_option (\<lambda>(r, lss, b). (r, ls' # lss, b)) (seal env iter targets bl'))"

definition compact_all :: "fts_env \<Rightarrow> fts_index list \<Rightarrow> blobs \<Rightarrow> blobs" where
  "compact_all env ixs bl =
     fold (\<lambda>ix bl. case maybe_compact env ix bl of Inr (s, ws) \<Rightarrow> apply_writes ws bl | Inl e \<Rightarrow> bl) ixs bl"

section \<open>Registry\<close>

record persisted_def =
  pd_table :: string
  pd_column :: string
  pd_column_ordinal :: nat
  pd_pk_column :: string
  pd_analyzer :: string
  pd_kind :: index_kind

definition persist_registry :: "index_map \<Rightarrow> persisted_def list" where
  "persist_registry idx =
     concat (map (\<lambda>(tbl, defs). map (\<lambda>d. \<lparr>pd_table = tbl, pd_column = d_column d,
       pd_column_ordinal = d_column_ordinal d, pd_pk_column = d_pk_column d, pd_analyzer = d_analyzer d,
       pd_kind = d_kind d\<rparr>) defs) idx)"

definition reopen :: "persisted_def list \<Rightarrow> index_map" where
  "reopen pds =
     fold (\<lambda>pd idx. install_def (pd_table pd)
       (build_index_def True (pd_table pd) (pd_column pd) (pd_pk_column pd) (pd_column_ordinal pd)
         (pd_analyzer pd) (pd_kind pd)) idx) pds []"

section \<open>Union of both tiers\<close>

definition doc_text :: "nat \<Rightarrow> tdoc \<Rightarrow> string" where
  "doc_text f d = (case map_of d f of Some (SStr s) \<Rightarrow> s | _ \<Rightarrow> '''')"

definition split_ranking :: "text_ranking \<Rightarrow> string ranking" where
  "split_ranking rank q ds = rank q (map (doc_text body_field) ds)"

definition UNION_LIMIT :: nat where
  "UNION_LIMIT = 100"

definition union_hits ::
  "(string \<Rightarrow> string) \<Rightarrow> text_ranking \<Rightarrow> live_segment \<Rightarrow> fts_index option \<Rightarrow> blobs \<Rightarrow> string \<Rightarrow> ts_query_kind \<Rightarrow>
     fts_error + fts_hit list" where
  "union_hits lower rank ls durable bl query kind =
     and_then (live_search lower rank ls query kind UNION_LIMIT) (\<lambda>hits.
     and_then
       (case durable of
          None \<Rightarrow> Inr []
        | Some ix \<Rightarrow>
            and_then (search_ids (split_ranking rank) ix bl (translate_query lower query kind) UNION_LIMIT) (\<lambda>ds.
              Inr (List.map_filter (\<lambda>(i, s).
                case parse_i64 i of
                  None \<Rightarrow> None
                | Some pk \<Rightarrow> if pk \<in> ls_covered ls then None else Some \<lparr>fh_pk = pk, fh_score = s\<rparr>) ds)))
       (\<lambda>dhits. Inr (take UNION_LIMIT (sort_key (\<lambda>h. - fh_score h) (hits @ dhits)))))"

end
