(* ===== verification/Fts_Engine.thy ===== *)
theory Fts_Engine
  imports Fts_Live
begin

text \<open>
  What a search sees. One full-text index of a table runs with commits, seals and compactions in any
  order; a seal is split at its awaits, and a seal or a compaction may stop after any of its writes.
  The rows of the table are kept beside it as the map from keys to the indexed texts. As long as no
  row is inserted again after its deletion while the deletion is still in the live segment, and no
  row loses its text, the two tiers together always hold exactly the rows of the table.
\<close>

section \<open>Steps\<close>

definition i64_range :: "int \<Rightarrow> bool" where
  "i64_range pk \<longleftrightarrow> - (2 ^ 63) \<le> pk \<and> pk < 2 ^ 63"

text \<open>The indexed text of a changed row.\<close>

definition row_text :: "(string \<Rightarrow> string) \<Rightarrow> index_def \<Rightarrow> data_row option \<Rightarrow> string option" where
  "row_text lower def row =
     (case row of
        Some (VecRow values) \<Rightarrow>
          if d_column_ordinal def < length values
          then (case values ! d_column_ordinal def of GStr txt \<Rightarrow> Some (indexed_text lower (d_kind def) txt) | GOther \<Rightarrow> None)
          else None
      | _ \<Rightarrow> None)"

lemma commit_def_eq:
  "commit_def lower ch pk def =
     (if rc_row ch = None then map_option (\<lambda>ls. def\<lparr>d_segment := ls\<rparr>) (live_tombstone (d_segment def) pk)
      else case row_text lower def (rc_row ch) of
        Some txt \<Rightarrow> map_option (\<lambda>ls. def\<lparr>d_segment := ls\<rparr>) (live_index (d_segment def) pk txt)
      | None \<Rightarrow> Some def)"
  by (auto simp: commit_def_def row_text_def split: option.splits data_row.splits gvalue.splits)

record eng_state =
  es_def :: index_def
  es_blobs :: blobs
  es_phase :: "(seal_snapshot \<times> nat) option"
  es_rows :: "int \<Rightarrow> string option"

definition clean_commit :: "(string \<Rightarrow> string) \<Rightarrow> eng_state \<Rightarrow> row_change \<Rightarrow> int \<Rightarrow> bool" where
  "clean_commit lower st ch pk \<longleftrightarrow>
     rc_row ch = None \<or>
     (case row_text lower (es_def st) (rc_row ch) of
        Some txt \<Rightarrow> pk \<notin> ls_tombstones (d_segment (es_def st))
      | None \<Rightarrow> es_rows st pk = None)"

inductive eng_step ::
  "fts_env \<Rightarrow> (int set \<Rightarrow> int list) \<Rightarrow> (string \<Rightarrow> string) \<Rightarrow> fts_index \<Rightarrow> eng_state \<Rightarrow> eng_state \<Rightarrow> bool"
  for env iter lower ix where
  commit: "commit_def lower ch pk (es_def st) = Some def' \<Longrightarrow> clean_commit lower st ch pk \<Longrightarrow> i64_range pk \<Longrightarrow>
    eng_step env iter lower ix st
      (st\<lparr>es_def := def', es_rows := (es_rows st)(pk := row_text lower (es_def st) (rc_row ch))\<rparr>)"
| snapshot: "es_phase st = None \<Longrightarrow> snapshot_for_seal (d_segment (es_def st)) = Some (snap, ls) \<Longrightarrow>
    eng_step env iter lower ix st (st\<lparr>es_def := (es_def st)\<lparr>d_segment := ls\<rparr>, es_phase := Some (snap, 0)\<rparr>)"
| update: "es_phase st = Some (snap, 0) \<Longrightarrow> room ix (es_blobs st) \<Longrightarrow>
    seal_update env ix (es_blobs st) (sn_docs snap) = Inr ws \<Longrightarrow>
    eng_step env iter lower ix st (st\<lparr>es_blobs := apply_writes ws (es_blobs st), es_phase := Some (snap, 1)\<rparr>)"
| update_fails: "es_phase st = Some (snap, 0) \<Longrightarrow> room ix (es_blobs st) \<Longrightarrow>
    seal_update env ix (es_blobs st) (sn_docs snap) = Inr ws \<Longrightarrow>
    eng_step env iter lower ix st (st\<lparr>es_blobs := apply_writes (take k ws) (es_blobs st),
      es_def := (es_def st)\<lparr>d_segment := abort_seal (d_segment (es_def st))\<rparr>, es_phase := None\<rparr>)"
| delete: "es_phase st = Some (snap, 1) \<Longrightarrow> seal_delete ix (es_blobs st) (iter (sn_tombs snap)) = Inr ws \<Longrightarrow>
    eng_step env iter lower ix st (st\<lparr>es_blobs := apply_writes ws (es_blobs st), es_phase := Some (snap, 2)\<rparr>)"
| delete_fails: "es_phase st = Some (snap, 1) \<Longrightarrow>
    eng_step env iter lower ix st
      (st\<lparr>es_def := (es_def st)\<lparr>d_segment := abort_seal (d_segment (es_def st))\<rparr>, es_phase := None\<rparr>)"
| finish: "es_phase st = Some (snap, 2) \<Longrightarrow>
    eng_step env iter lower ix st
      (st\<lparr>es_def := (es_def st)\<lparr>d_segment := finish_seal (d_segment (es_def st))\<rparr>, es_phase := None\<rparr>)"
| compact: "maybe_compact env ix (es_blobs st) = Inr (s, ws) \<Longrightarrow> room ix (es_blobs st) \<Longrightarrow>
    eng_step env iter lower ix st (st\<lparr>es_blobs := apply_writes (take k ws) (es_blobs st)\<rparr>)"

inductive eng_reach ::
  "fts_env \<Rightarrow> (int set \<Rightarrow> int list) \<Rightarrow> (string \<Rightarrow> string) \<Rightarrow> fts_index \<Rightarrow> eng_state \<Rightarrow> eng_state \<Rightarrow> bool"
  for env iter lower ix where
  eng_start: "eng_reach env iter lower ix st st"
| eng_more: "eng_reach env iter lower ix st st' \<Longrightarrow> eng_step env iter lower ix st' st'' \<Longrightarrow> eng_reach env iter lower ix st st''"

section \<open>The documents of a key in the durable index\<close>

definition durable_of :: "fts_index \<Rightarrow> blobs \<Rightarrow> int \<Rightarrow> tdoc multiset" where
  "durable_of ix bl pk = filter_mset (\<lambda>d. extract_id (ix_id_field ix) d = Some (show_i64 pk)) (index_contents ix bl)"

definition engine_index :: "fts_index \<Rightarrow> bool" where
  "engine_index ix \<longleftrightarrow> ix_id_field ix = id_field \<and> ix_schema ix = [id_field, body_field]"

lemma durable_index_ok [simp]: "engine_index (durable_index kind tbl column)"
  by (simp add: engine_index_def durable_index_def)

lemma engine_index_schema: "engine_index ix \<Longrightarrow> schema_ok ix"
  by (simp add: engine_index_def schema_ok_def id_field_def body_field_def)

lemma extract_durable [simp]: "engine_index ix \<Longrightarrow> extract_id (ix_id_field ix) (durable_doc pk b) = Some (show_i64 pk)"
  by (simp add: engine_index_def extract_id_def durable_doc_def doc_id_string_def id_field_def)

lemma reproject_durable [simp]: "engine_index ix \<Longrightarrow> reproject (ix_schema ix) (durable_doc pk b) = durable_doc pk b"
  by (simp add: engine_index_def reproject_def durable_doc_def id_field_def body_field_def)

lemma show_pk_inj: "i64_range p \<Longrightarrow> i64_range q \<Longrightarrow> show_i64 p = show_i64 q \<longleftrightarrow> p = q"
  by (simp add: i64_range_def show_i64_inj)

lemma seal_update_after:
  assumes "seal_update env ix bl docs = Inr ws"
  shows "apply_writes (take k ws) bl =
      (if docs = [] then bl
       else after_update env ix k bl (map (\<lambda>d. show_i64 (fst d)) docs) (map (\<lambda>d. durable_doc (fst d) (snd d)) docs))"
    and "length ws \<le> 3"
proof -
  show "apply_writes (take k ws) bl =
      (if docs = [] then bl
       else after_update env ix k bl (map (\<lambda>d. show_i64 (fst d)) docs) (map (\<lambda>d. durable_doc (fst d) (snd d)) docs))"
    using assms by (auto simp: seal_update_def after_update_def and_then_Inr_iff split: if_splits)
  show "length ws \<le> 3"
    using assms by (auto simp: seal_update_def index_update_def and_then_Inr_iff Let_def case_prod_beta split: if_splits)
qed

lemma filter_key: "distinct (map fst docs) \<Longrightarrow> (pk, b) \<in> set docs \<Longrightarrow> filter (\<lambda>d. fst d = pk) docs = [(pk, b)]"
  by (induction docs) (auto simp: filter_empty_conv rev_image_eqI)

lemma filter_durable:
  assumes "distinct (map fst docs)" and "(pk, b) \<in> set docs" and "\<forall>d \<in> set docs. i64_range (fst d)" and "engine_index ix"
  shows "filter_mset (\<lambda>d. extract_id (ix_id_field ix) d = Some (show_i64 pk))
    (mset (map (\<lambda>d. durable_doc (fst d) (snd d)) docs)) = {#durable_doc pk b#}"
proof -
  have pk: "i64_range pk" using assms(2,3) by auto
  have "filter (\<lambda>d. extract_id (ix_id_field ix) d = Some (show_i64 pk)) (map (\<lambda>d. durable_doc (fst d) (snd d)) docs) =
      map (\<lambda>d. durable_doc (fst d) (snd d)) (filter (\<lambda>d. fst d = pk) docs)"
    using assms(3,4) by (auto simp: filter_map o_def show_pk_inj [OF _ pk] intro!: arg_cong [where f = "map _"] filter_cong)
  then have "mset (filter (\<lambda>d. extract_id (ix_id_field ix) d = Some (show_i64 pk)) (map (\<lambda>d. durable_doc (fst d) (snd d)) docs)) =
      {#durable_doc pk b#}" using filter_key [OF assms(1,2)] by simp
  then show ?thesis by (simp only: mset_filter)
qed

lemma sealed_update:
  assumes "facade_inv env ix bl" "room ix bl" "engine_index ix" and "\<forall>d \<in> set docs. i64_range (fst d)"
    and "seal_update env ix bl docs = Inr ws"
  shows "facade_inv env ix (apply_writes (take k ws) bl)"
    and "i64_range pk \<Longrightarrow> pk \<notin> fst ` set docs \<Longrightarrow> durable_of ix (apply_writes (take k ws) bl) pk = durable_of ix bl pk"
    and "distinct (map fst docs) \<Longrightarrow> (pk, b) \<in> set docs \<Longrightarrow> durable_of ix (apply_writes ws bl) pk = {#durable_doc pk b#}"
    and "index_contents ix (apply_writes (take k ws) bl) \<subseteq>#
      index_contents ix bl + mset (map (\<lambda>d. durable_doc (fst d) (snd d)) docs)"
proof -
  let ?ids = "map (\<lambda>d. show_i64 (fst d)) docs" and ?ds = "map (\<lambda>d. durable_doc (fst d) (snd d)) docs"
  have in_ids: "\<forall>d \<in> set ?ds. extract_id (ix_id_field ix) d \<in> Some ` set ?ids" using assms(3) by auto
  have ids: "\<forall>d \<in> set ?ds. extract_id (ix_id_field ix) d \<noteq> None" using assms(3) by auto
  show "facade_inv env ix (apply_writes (take k ws) bl)"
    unfolding seal_update_after(1) [OF assms(5)] using assms(1) facade.update_inv [OF assms(1,2) ids] by simp
  have "image_mset (reproject (ix_schema ix)) (mset ?ds) = mset ?ds"
    using assms(3) by (simp add: image_mset.compositionality o_def)
  then show "index_contents ix (apply_writes (take k ws) bl) \<subseteq># index_contents ix bl + mset ?ds"
    unfolding seal_update_after(1) [OF assms(5)]
    using facade.update_contents [OF assms(1,2) ids, of k ?ids] multiset_filter_subset
    by (simp add: subset_mset.add_mono subset_mset.add_increasing2)
  have "show_i64 pk \<notin> set ?ids" if "i64_range pk" "pk \<notin> fst ` set docs"
    using that assms(4) show_pk_inj by auto
  then show "durable_of ix (apply_writes (take k ws) bl) pk = durable_of ix bl pk"
    if "i64_range pk" "pk \<notin> fst ` set docs"
    unfolding seal_update_after(1) [OF assms(5)] durable_of_def
    using that facade.update_other [OF assms(1,2) in_ids, of "show_i64 pk" k] by simp
  show "durable_of ix (apply_writes ws bl) pk = {#durable_doc pk b#}"
    if d: "distinct (map fst docs)" and b: "(pk, b) \<in> set docs"
  proof -
    have ne: "docs \<noteq> []" and i: "show_i64 pk \<in> set ?ids" using b by force+
    have pk: "i64_range pk" using assms(4) b by auto
    have "filter_mset (\<lambda>d. extract_id (ix_id_field ix) d = Some (show_i64 pk)) (mset ?ds) = {#durable_doc pk b#}"
      by (rule filter_durable [OF d b assms(4,3)])
    moreover have "apply_writes ws bl = after_update env ix 3 bl ?ids ?ds"
      using seal_update_after(1) [OF assms(5), of 3] seal_update_after(2) [OF assms(5)] ne by simp
    ultimately show ?thesis
      unfolding durable_of_def using facade.update_done [OF assms(1,2) in_ids i, of 3] assms(3) by simp
  qed
qed

lemma sealed_delete:
  assumes "facade_inv env ix bl" "engine_index ix" and "\<forall>p \<in> set dead. i64_range p"
    and "seal_delete ix bl dead = Inr ws"
  shows "facade_inv env ix (apply_writes ws bl)"
    and "i64_range pk \<Longrightarrow> pk \<notin> set dead \<Longrightarrow> durable_of ix (apply_writes ws bl) pk = durable_of ix bl pk"
    and "pk \<in> set dead \<Longrightarrow> durable_of ix (apply_writes ws bl) pk = {#}"
    and "index_contents ix (apply_writes ws bl) \<subseteq># index_contents ix bl"
proof -
  have after: "apply_writes ws bl = (if dead = [] then bl else after_delete ix 1 bl (map show_i64 dead))"
  proof (cases "dead = []")
    case False
    then have i: "index_delete ix bl (map show_i64 dead) = Inr ws" using assms(4) by (simp add: seal_delete_def)
    then have "take 1 ws = ws" by (auto simp: index_delete_def and_then_Inr_iff Let_def)
    then show ?thesis using False i by (simp add: after_delete_def)
  qed (use assms(4) in \<open>simp add: seal_delete_def\<close>)
  show "facade_inv env ix (apply_writes ws bl)"
    unfolding after using assms(1) facade.delete_inv by simp
  show "index_contents ix (apply_writes ws bl) \<subseteq># index_contents ix bl"
    unfolding after using facade.delete_contents [OF assms(1)] multiset_filter_subset by simp
  have "show_i64 pk \<notin> set (map show_i64 dead)" if "i64_range pk" "pk \<notin> set dead"
    using that assms(3) show_pk_inj by auto
  then show "durable_of ix (apply_writes ws bl) pk = durable_of ix bl pk" if "i64_range pk" "pk \<notin> set dead"
    unfolding after durable_of_def using that facade.delete_other [OF assms(1), of "show_i64 pk"] by simp
  show "durable_of ix (apply_writes ws bl) pk = {#}" if pk: "pk \<in> set dead"
  proof -
    have "show_i64 pk \<in> set (map show_i64 dead)" "dead \<noteq> []" using pk by auto
    then show ?thesis
      unfolding after durable_of_def using facade.delete_done [OF assms(1), of "show_i64 pk" "map show_i64 dead" 1] by simp
  qed
qed

lemma compacted_index:
  assumes "facade_inv env ix bl" "room ix bl" and "maybe_compact env ix bl = Inr (s, ws)"
  shows "facade_inv env ix (apply_writes (take k ws) bl)"
    and "index_contents ix (apply_writes (take k ws) bl) = index_contents ix bl"
proof -
  have "apply_writes (take k ws) bl = after_compact env ix k bl" using assms(3) by (simp add: after_compact_def)
  then show "facade_inv env ix (apply_writes (take k ws) bl)" "index_contents ix (apply_writes (take k ws) bl) = index_contents ix bl"
    using facade.compact_inv [OF assms(1,2)] facade.compact_contents [OF assms(1,2)] by simp_all
qed

section \<open>The invariant\<close>

definition segment_ok :: "live_segment \<Rightarrow> bool" where
  "segment_ok ls \<longleftrightarrow>
     distinct (map fst (ls_docs ls)) \<and> finite (ls_tombstones ls) \<and>
     ls_covered ls = fst ` set (ls_docs ls) \<union> ls_tombstones ls \<and>
     fst ` set (ls_docs ls) \<inter> ls_tombstones ls = {} \<and>
     (\<forall>pk \<in> ls_covered ls. i64_range pk) \<and>
     (\<not> ls_dirty ls \<longrightarrow> ls_reader ls = ls_docs ls)"

text \<open>The live segment holds the rows it covers, the durable index holds the others.\<close>

definition rows_held :: "fts_index \<Rightarrow> live_segment \<Rightarrow> blobs \<Rightarrow> (int \<Rightarrow> string option) \<Rightarrow> bool" where
  "rows_held ix ls bl rows \<longleftrightarrow>
     (\<forall>pk \<in> ls_covered ls. rows pk = map_of (ls_docs ls) pk) \<and>
     (\<forall>pk. i64_range pk \<longrightarrow> pk \<notin> ls_covered ls \<longrightarrow>
        durable_of ix bl pk = (case rows pk of None \<Rightarrow> {#} | Some b \<Rightarrow> {#durable_doc pk b#})) \<and>
     (\<forall>pk. rows pk \<noteq> None \<longrightarrow> i64_range pk)"

text \<open>What a seal in progress has already moved.\<close>

definition phase_ok :: "fts_index \<Rightarrow> live_segment \<Rightarrow> blobs \<Rightarrow> (seal_snapshot \<times> nat) option \<Rightarrow> bool" where
  "phase_ok ix ls bl ph \<longleftrightarrow>
     (case ph of
        None \<Rightarrow> \<not> ls_sealing ls
      | Some (snap, n) \<Rightarrow>
          ls_sealing ls \<and> sn_docs snap = ls_docs ls \<and> sn_tombs snap = ls_tombstones ls \<and>
          (1 \<le> n \<longrightarrow> (\<forall>(pk, b) \<in> set (ls_docs ls). durable_of ix bl pk = {#durable_doc pk b#})) \<and>
          (2 \<le> n \<longrightarrow> (\<forall>pk \<in> ls_tombstones ls. durable_of ix bl pk = {#})))"

text \<open>The durable index has documents of keys only.\<close>

definition keys_only :: "fts_index \<Rightarrow> blobs \<Rightarrow> bool" where
  "keys_only ix bl \<longleftrightarrow>
     (\<forall>d. d \<in># index_contents ix bl \<longrightarrow> (\<exists>pk. i64_range pk \<and> extract_id (ix_id_field ix) d = Some (show_i64 pk)))"

definition eng_inv :: "fts_env \<Rightarrow> fts_index \<Rightarrow> eng_state \<Rightarrow> bool" where
  "eng_inv env ix st \<longleftrightarrow>
     engine_index ix \<and> facade_inv env ix (es_blobs st) \<and> keys_only ix (es_blobs st) \<and>
     segment_ok (d_segment (es_def st)) \<and>
     rows_held ix (d_segment (es_def st)) (es_blobs st) (es_rows st) \<and>
     phase_ok ix (d_segment (es_def st)) (es_blobs st) (es_phase st)"

lemma map_of_filter_key: "map_of (filter (\<lambda>d. fst d \<noteq> k) xs) j = (if j = k then None else map_of xs j)"
  by (induction xs) auto

lemma live_index_ok:
  assumes "segment_ok ls" "pk \<notin> ls_tombstones ls" "i64_range pk" "live_index ls pk b = Some ls'"
  shows "segment_ok ls'" and "\<not> ls_sealing ls" and "ls_sealing ls' = ls_sealing ls"
    and "rows_held ix ls bl rows \<Longrightarrow> rows_held ix ls' bl (rows(pk \<mapsto> b))"
proof -
  have l: "\<not> ls_sealing ls" "ls' = ls\<lparr>ls_docs := filter (\<lambda>d. fst d \<noteq> pk) (ls_docs ls) @ [(pk, b)],
      ls_covered := insert pk (ls_covered ls), ls_dirty := True\<rparr>"
    using assms(4) by (auto simp: live_index_def split: if_splits)
  then show "\<not> ls_sealing ls" "ls_sealing ls' = ls_sealing ls" by auto
  have m: "map_of (ls_docs ls') j = (if j = pk then Some b else map_of (ls_docs ls) j)" for j
    by (simp add: l(2) map_of_filter_key map_add_def split: option.split)
  have f: "fst ` set (ls_docs ls') = insert pk (fst ` set (ls_docs ls))" by (auto simp: l(2))
  show "segment_ok ls'"
    using assms(1-3) f by (auto simp: segment_ok_def l(2) distinct_map_filter)
  show "rows_held ix ls' bl (rows(pk \<mapsto> b))" if "rows_held ix ls bl rows"
    using that assms(3) m by (simp add: rows_held_def l(2))
qed

lemma live_tombstone_ok:
  assumes "segment_ok ls" "i64_range pk" "live_tombstone ls pk = Some ls'"
  shows "segment_ok ls'" and "\<not> ls_sealing ls" and "ls_sealing ls' = ls_sealing ls"
    and "rows_held ix ls bl rows \<Longrightarrow> rows_held ix ls' bl (rows(pk := None))"
proof -
  have l: "\<not> ls_sealing ls" "ls' = ls\<lparr>ls_docs := filter (\<lambda>d. fst d \<noteq> pk) (ls_docs ls),
      ls_tombstones := insert pk (ls_tombstones ls), ls_covered := insert pk (ls_covered ls), ls_dirty := True\<rparr>"
    using assms(3) by (auto simp: live_tombstone_def split: if_splits)
  then show "\<not> ls_sealing ls" "ls_sealing ls' = ls_sealing ls" by auto
  have m: "map_of (ls_docs ls') j = (if j = pk then None else map_of (ls_docs ls) j)" for j
    by (simp add: l(2) map_of_filter_key)
  have f: "fst ` set (ls_docs ls') = fst ` set (ls_docs ls) - {pk}" by (auto simp: l(2))
  show "segment_ok ls'"
    using assms(1,2) f by (auto simp: segment_ok_def l(2) distinct_map_filter)
  show "rows_held ix ls' bl (rows(pk := None))" if "rows_held ix ls bl rows"
    using that assms(2) m by (simp add: rows_held_def l(2))
qed

lemma eng_inv_commit:
  assumes "eng_inv env ix st" and "commit_def lower ch pk (es_def st) = Some def'" and "clean_commit lower st ch pk"
    and "i64_range pk"
  shows "eng_inv env ix (st\<lparr>es_def := def', es_rows := (es_rows st)(pk := row_text lower (es_def st) (rc_row ch))\<rparr>)"
proof -
  let ?ls = "d_segment (es_def st)" and ?t = "row_text lower (es_def st) (rc_row ch)"
  have inv: "engine_index ix" "facade_inv env ix (es_blobs st)" "segment_ok ?ls"
    "rows_held ix ?ls (es_blobs st) (es_rows st)" "phase_ok ix ?ls (es_blobs st) (es_phase st)"
    "keys_only ix (es_blobs st)"
    using assms(1) by (auto simp: eng_inv_def)
  have idle: "phase_ok ix ls (es_blobs st) (es_phase st)" if "\<not> ls_sealing ?ls" "ls_sealing ls = ls_sealing ?ls" for ls
    using that inv(5) by (auto simp: phase_ok_def split: option.splits)
  consider (gone) ls where "?t = None" "live_tombstone ?ls pk = Some ls" "def' = (es_def st)\<lparr>d_segment := ls\<rparr>"
    | (fresh) ls s where "?t = Some s" "pk \<notin> ls_tombstones ?ls" "live_index ?ls pk s = Some ls" "def' = (es_def st)\<lparr>d_segment := ls\<rparr>"
    | (other) "?t = None" "es_rows st pk = None" "def' = es_def st"
  proof (cases "rc_row ch = None")
    case True
    then have "?t = None" by (simp add: row_text_def)
    then show ?thesis using that(1) assms(2) True by (auto simp: commit_def_eq)
  next
    case False
    then show ?thesis
      using that(2,3) assms(2,3) by (cases ?t) (auto simp: commit_def_eq clean_commit_def)
  qed
  then show ?thesis
  proof cases
    case gone
    then show ?thesis
      using inv idle live_tombstone_ok [OF inv(3) assms(4) gone(2)] by (simp add: eng_inv_def)
  next
    case fresh
    then show ?thesis
      using inv idle live_index_ok [OF inv(3) fresh(2) assms(4) fresh(3)] by (simp add: eng_inv_def)
  next
    case other
    then have "(es_rows st)(pk := ?t) = es_rows st" by auto
    then show ?thesis using other inv by (simp add: eng_inv_def)
  qed
qed

lemma eng_inv_snapshot:
  assumes "eng_inv env ix st" and "snapshot_for_seal (d_segment (es_def st)) = Some (snap, ls)"
  shows "eng_inv env ix (st\<lparr>es_def := (es_def st)\<lparr>d_segment := ls\<rparr>, es_phase := Some (snap, 0)\<rparr>)"
proof -
  let ?ls = "d_segment (es_def st)"
  have inv: "segment_ok ?ls" "rows_held ix ?ls (es_blobs st) (es_rows st)" using assms(1) by (auto simp: eng_inv_def)
  have l: "ls = ensure_fresh (?ls\<lparr>ls_sealing := True\<rparr>)" "sn_tombs snap = ls_tombstones ls"
    "sn_docs snap = filter (\<lambda>d. fst d \<notin> ls_tombstones ls) (ls_reader ls)"
    using assms(2) by (auto simp: snapshot_for_seal_def Let_def split: if_splits)
  then have same: "ls_docs ls = ls_docs ?ls" "ls_reader ls = ls_docs ?ls" "ls_tombstones ls = ls_tombstones ?ls"
    "ls_covered ls = ls_covered ?ls" "ls_sealing ls"
    using inv(1) by (auto simp: ensure_fresh_def segment_ok_def)
  have "filter (\<lambda>d. fst d \<notin> ls_tombstones ?ls) (ls_docs ?ls) = ls_docs ?ls"
    using inv(1) by (auto simp: segment_ok_def filter_id_conv)
  then have "sn_docs snap = ls_docs ls" using l(3) same by simp
  then show ?thesis
    using assms(1) l(2) same by (simp add: eng_inv_def segment_ok_def rows_held_def phase_ok_def)
qed

text \<open>A change of the durable index that leaves the documents of uncovered keys alone.\<close>

lemma rows_held_durable:
  assumes "rows_held ix ls bl rows"
    and "\<And>pk. i64_range pk \<Longrightarrow> pk \<notin> ls_covered ls \<Longrightarrow> durable_of ix bl' pk = durable_of ix bl pk"
  shows "rows_held ix ls bl' rows"
  using assms by (simp add: rows_held_def)

lemma keys_only_new:
  assumes "keys_only ix bl" and "engine_index ix" and "\<forall>d \<in> set docs. i64_range (fst d)"
    and "index_contents ix bl' \<subseteq># index_contents ix bl + mset (map (\<lambda>d. durable_doc (fst d) (snd d)) docs)"
  shows "keys_only ix bl'"
  unfolding keys_only_def
proof (intro allI impI)
  fix d assume "d \<in># index_contents ix bl'"
  then have "d \<in># index_contents ix bl + mset (map (\<lambda>d. durable_doc (fst d) (snd d)) docs)"
    using assms(4) by (rule mset_subset_eqD [rotated])
  then show "\<exists>pk. i64_range pk \<and> extract_id (ix_id_field ix) d = Some (show_i64 pk)"
    using assms(1-3) by (auto simp: keys_only_def)
qed

lemma keys_only_subset: "keys_only ix bl \<Longrightarrow> index_contents ix bl' \<subseteq># index_contents ix bl \<Longrightarrow> keys_only ix bl'"
  unfolding keys_only_def by (meson mset_subset_eqD)

lemma eng_inv_update:
  assumes "eng_inv env ix st" and "es_phase st = Some (snap, 0)" and "room ix (es_blobs st)"
    and "seal_update env ix (es_blobs st) (sn_docs snap) = Inr ws"
  shows "eng_inv env ix (st\<lparr>es_blobs := apply_writes ws (es_blobs st), es_phase := Some (snap, 1)\<rparr>)"
    and "eng_inv env ix (st\<lparr>es_blobs := apply_writes (take k ws) (es_blobs st),
      es_def := (es_def st)\<lparr>d_segment := abort_seal (d_segment (es_def st))\<rparr>, es_phase := None\<rparr>)"
proof -
  let ?ls = "d_segment (es_def st)"
  have inv: "engine_index ix" "facade_inv env ix (es_blobs st)" "segment_ok ?ls"
    "rows_held ix ?ls (es_blobs st) (es_rows st)" and keys: "keys_only ix (es_blobs st)" and ph: "ls_sealing ?ls" "sn_docs snap = ls_docs ?ls" "sn_tombs snap = ls_tombstones ?ls"
    using assms(1,2) by (auto simp: eng_inv_def phase_ok_def)
  have cov: "fst ` set (sn_docs snap) \<subseteq> ls_covered ?ls" and dist: "distinct (map fst (sn_docs snap))"
    and rng: "\<forall>d \<in> set (sn_docs snap). i64_range (fst d)"
    using inv(3) ph(2) by (auto simp: segment_ok_def)
  note u = sealed_update [OF inv(2) assms(3) inv(1) rng assms(4)]
  have held: "rows_held ix ?ls (apply_writes (take k ws) (es_blobs st)) (es_rows st)" for k
    using inv(4) by (rule rows_held_durable) (use u(2) cov in blast)
  have "\<forall>(pk, b) \<in> set (ls_docs ?ls). durable_of ix (apply_writes ws (es_blobs st)) pk = {#durable_doc pk b#}"
    using u(3) [OF dist] ph(2) by auto
  then show "eng_inv env ix (st\<lparr>es_blobs := apply_writes ws (es_blobs st), es_phase := Some (snap, 1)\<rparr>)"
    using inv(1,3) ph u(1) [of "length ws"] held [of "length ws"] keys_only_new [OF keys inv(1) rng u(4), of "length ws"]
    by (simp add: eng_inv_def phase_ok_def)
  show "eng_inv env ix (st\<lparr>es_blobs := apply_writes (take k ws) (es_blobs st),
      es_def := (es_def st)\<lparr>d_segment := abort_seal (d_segment (es_def st))\<rparr>, es_phase := None\<rparr>)"
    using inv(1,3) u(1) [of k] held [of k] keys_only_new [OF keys inv(1) rng u(4), of k]
    by (simp add: eng_inv_def phase_ok_def abort_seal_def segment_ok_def rows_held_def)
qed

lemma eng_inv_delete:
  assumes "eng_inv env ix st" and "es_phase st = Some (snap, 1)" and "\<forall>A. finite A \<longrightarrow> set (iter A) = A"
    and "seal_delete ix (es_blobs st) (iter (sn_tombs snap)) = Inr ws"
  shows "eng_inv env ix (st\<lparr>es_blobs := apply_writes ws (es_blobs st), es_phase := Some (snap, 2)\<rparr>)"
proof -
  let ?ls = "d_segment (es_def st)"
  have inv: "engine_index ix" "facade_inv env ix (es_blobs st)" "segment_ok ?ls"
    "rows_held ix ?ls (es_blobs st) (es_rows st)" and keys: "keys_only ix (es_blobs st)" and ph: "ls_sealing ?ls" "sn_docs snap = ls_docs ?ls" "sn_tombs snap = ls_tombstones ?ls"
    "\<forall>(pk, b) \<in> set (ls_docs ?ls). durable_of ix (es_blobs st) pk = {#durable_doc pk b#}"
    using assms(1,2) by (auto simp: eng_inv_def phase_ok_def)
  have dead: "set (iter (sn_tombs snap)) = ls_tombstones ?ls" using assms(3) inv(3) ph(3) by (simp add: segment_ok_def)
  have cov: "ls_tombstones ?ls \<subseteq> ls_covered ?ls" and rng: "\<forall>p \<in> set (iter (sn_tombs snap)). i64_range p"
    and dis: "fst ` set (ls_docs ?ls) \<inter> ls_tombstones ?ls = {}" "\<forall>d \<in> set (ls_docs ?ls). i64_range (fst d)"
    using inv(3) dead by (auto simp: segment_ok_def)
  note u = sealed_delete [OF inv(2,1) rng assms(4)]
  have "rows_held ix ?ls (apply_writes ws (es_blobs st)) (es_rows st)"
    using inv(4) by (rule rows_held_durable) (use u(2) cov dead in blast)
  moreover have "durable_of ix (apply_writes ws (es_blobs st)) pk = {#durable_doc pk b#}" if "(pk, b) \<in> set (ls_docs ?ls)" for pk b
  proof -
    have "pk \<notin> set (iter (sn_tombs snap))" "i64_range pk" using that dis dead by force+
    then show ?thesis using u(2) ph(4) that by auto
  qed
  ultimately show ?thesis
    using inv(1,3) ph(1-3) u(1,3) dead keys_only_subset [OF keys u(4)] by (auto simp: eng_inv_def phase_ok_def)
qed

lemma eng_inv_finish:
  assumes "eng_inv env ix st" and "es_phase st = Some (snap, 2)"
  shows "eng_inv env ix (st\<lparr>es_def := (es_def st)\<lparr>d_segment := finish_seal (d_segment (es_def st))\<rparr>, es_phase := None\<rparr>)"
proof -
  let ?ls = "d_segment (es_def st)"
  have inv: "engine_index ix" "facade_inv env ix (es_blobs st)" "segment_ok ?ls"
    "rows_held ix ?ls (es_blobs st) (es_rows st)" "keys_only ix (es_blobs st)"
    and ph: "\<forall>(pk, b) \<in> set (ls_docs ?ls). durable_of ix (es_blobs st) pk = {#durable_doc pk b#}"
      "\<forall>pk \<in> ls_tombstones ?ls. durable_of ix (es_blobs st) pk = {#}"
    using assms by (auto simp: eng_inv_def phase_ok_def)
  have "durable_of ix (es_blobs st) pk = (case es_rows st pk of None \<Rightarrow> {#} | Some b \<Rightarrow> {#durable_doc pk b#})"
    if r: "i64_range pk" for pk
  proof (cases "pk \<in> ls_covered ?ls")
    case True
    then have rows: "es_rows st pk = map_of (ls_docs ?ls) pk" using inv(4) by (simp add: rows_held_def)
    show ?thesis
    proof (cases "pk \<in> ls_tombstones ?ls")
      case True
      then have "map_of (ls_docs ?ls) pk = None" using inv(3) by (auto simp: segment_ok_def map_of_eq_None_iff)
      then show ?thesis using rows ph(2) True by simp
    next
      case False
      then have "pk \<in> fst ` set (ls_docs ?ls)" using True inv(3) by (auto simp: segment_ok_def)
      then obtain b where b: "map_of (ls_docs ?ls) pk = Some b" by (metis domIff dom_map_of_conv_image_fst option.exhaust)
      then show ?thesis using rows ph(1) map_of_SomeD [OF b] by auto
    qed
  next
    case False
    then show ?thesis using r inv(4) by (simp add: rows_held_def)
  qed
  then show ?thesis
    using inv by (simp add: eng_inv_def phase_ok_def finish_seal_def segment_ok_def rows_held_def)
qed

lemma durable_of_compacted:
  assumes "index_contents ix bl' = index_contents ix bl"
  shows "durable_of ix bl' pk = durable_of ix bl pk"
  using assms by (simp add: durable_of_def)

lemma eng_step_inv:
  assumes "eng_step env iter lower ix st st'" and "eng_inv env ix st" and "\<forall>A. finite A \<longrightarrow> set (iter A) = A"
  shows "eng_inv env ix st'"
  using assms
proof (induction rule: eng_step.induct)
  case (commit ch pk st def')
  then show ?case by (blast intro: eng_inv_commit)
next
  case (snapshot st snap ls)
  then show ?case by (blast intro: eng_inv_snapshot)
next
  case (update st snap ws)
  then show ?case by (blast intro: eng_inv_update(1))
next
  case (update_fails st snap ws k)
  then show ?case by (blast intro: eng_inv_update(2))
next
  case (delete st snap ws)
  then show ?case by (blast intro: eng_inv_delete)
next
  case (delete_fails st snap)
  then show ?case by (simp add: eng_inv_def phase_ok_def abort_seal_def segment_ok_def rows_held_def)
next
  case (finish st snap)
  then show ?case by (blast intro: eng_inv_finish)
next
  case (compact st s ws k)
  then have "facade_inv env ix (es_blobs st)" by (simp add: eng_inv_def)
  note c = compacted_index [OF this compact(2,1), of k]
  then show ?case
    using compact(3) durable_of_compacted [OF c(2)]
    by (simp add: eng_inv_def rows_held_def phase_ok_def keys_only_def split: option.splits prod.splits)
qed

lemma eng_reach_inv:
  assumes "eng_reach env iter lower ix st st'" and "eng_inv env ix st" and "\<forall>A. finite A \<longrightarrow> set (iter A) = A"
  shows "eng_inv env ix st'"
  using assms by (induction rule: eng_reach.induct) (auto intro: eng_step_inv)

end
