(* ===== verification/Fts_Union.thy ===== *)
theory Fts_Union
  imports Fts_Engine
begin

text \<open>
  Queries over both tiers: which keys \<open>union_hits\<close> returns when the number of stored copies is within
  the limit of a search.
\<close>

section \<open>Rankings of texts\<close>

text \<open>What the search library documents: the matching documents, each once, best first.\<close>

definition text_ranks :: "text_ranking \<Rightarrow> (string \<Rightarrow> string \<Rightarrow> bool) \<Rightarrow> bool" where
  "text_ranks rank hit \<longleftrightarrow>
     (\<forall>q txts hs. rank q txts = Some hs \<longrightarrow>
        sorted_wrt (\<lambda>x y. (- fst x, snd x) < (- fst y, snd y)) hs \<and> distinct (map snd hs) \<and>
        snd ` set hs = {i. i < length txts \<and> hit q (txts ! i)})"

lemma text_ranksD:
  assumes "text_ranks rank hit" and "rank q txts = Some hs"
  shows "sorted_wrt (\<lambda>x y. (- fst x, snd x) < (- fst y, snd y)) hs" and "distinct (map snd hs)"
    and "snd ` set hs = {i. i < length txts \<and> hit q (txts ! i)}"
  using assms by (auto simp: text_ranks_def)

lemma text_ranks_map:
  assumes "text_ranks rank hit" and "rank q (map f ds) = Some hs"
  shows "snd ` set hs = {i. i < length ds \<and> hit q (f (ds ! i))}"
  unfolding text_ranksD(3) [OF assms] by (rule Collect_cong) auto

lemma text_ranks_ranks:
  assumes "text_ranks rank hit"
  shows "ranks (split_ranking rank)"
  unfolding ranks_def ranking_ok_def
proof (intro allI impI conjI)
  fix q ds hs assume "split_ranking rank q ds = Some hs"
  then have r: "rank q (map (doc_text body_field) ds) = Some hs" by (simp add: split_ranking_def)
  show "sorted_wrt (\<lambda>x y. (- fst x, snd x) < (- fst y, snd y)) hs" "distinct (map snd hs)"
    by (rule text_ranksD [OF assms r])+
  show "\<forall>x \<in> set hs. snd x < length ds" using text_ranks_map [OF assms r] by auto
qed

lemma text_ranks_length:
  assumes "text_ranks rank hit" and "rank q txts = Some hs"
  shows "length hs \<le> length txts"
proof -
  have "distinct (map snd hs)" "set (map snd hs) \<subseteq> {..<length txts}"
    using text_ranksD(2,3) [OF assms] by auto
  then have "length (map snd hs) \<le> card {..<length txts}" by (metis card_mono distinct_card finite_lessThan)
  then show ?thesis by simp
qed

section \<open>The live tier\<close>

lemma live_search_exact:
  assumes "segment_ok ls" and "text_ranks rank hit" and "rank (translate_query lower query kind) (map snd (ls_docs ls)) \<noteq> None"
    and "length (ls_docs ls) \<le> limit"
  obtains hits where "live_search lower rank ls query kind limit = Inr hits" "length hits \<le> length (ls_docs ls)"
    "fh_pk ` set hits = {pk. \<exists>txt. map_of (ls_docs ls) pk = Some txt \<and> hit (translate_query lower query kind) txt}"
proof -
  let ?q = "translate_query lower query kind" and ?docs = "ls_docs ls"
  obtain hs where hs: "rank ?q (map snd ?docs) = Some hs" using assms(3) by blast
  have len: "length hs \<le> length ?docs" using text_ranks_length [OF assms(2) hs] by simp
  have pos: "snd ` set hs = {i. i < length ?docs \<and> hit ?q (snd (?docs ! i))}"
    by (rule text_ranks_map [OF assms(2) hs])
  have fresh: "ls_reader (ensure_fresh ls) = ?docs" "ls_tombstones (ensure_fresh ls) = ls_tombstones ls"
    using assms(1) by (auto simp: ensure_fresh_def segment_ok_def)
  define hits where "hits = filter (\<lambda>h. fh_pk h \<notin> ls_tombstones ls) (map (\<lambda>(s, a). \<lparr>fh_pk = fst (?docs ! a), fh_score = s\<rparr>) hs)"
  have hl: "length hits \<le> length ?docs" using len by (simp add: hits_def) (meson le_trans length_filter_le length_map)
  have "live_search lower rank ls query kind limit = Inr hits"
    using hs len assms(4) hl by (simp add: live_search_def Let_def fresh hits_def)
  moreover have "fh_pk ` set hits = {pk. \<exists>txt. map_of ?docs pk = Some txt \<and> hit ?q txt}"
  proof -
    have nt: "fst (?docs ! a) \<notin> ls_tombstones ls" if "a < length ?docs" for a
      using assms(1) nth_mem [OF that] unfolding segment_ok_def by blast
    have "fh_pk ` set hits = {pk. \<exists>a \<in> snd ` set hs. pk = fst (?docs ! a) \<and> pk \<notin> ls_tombstones ls}"
      by (force simp: hits_def)
    also have "\<dots> = {pk. \<exists>a < length ?docs. hit ?q (snd (?docs ! a)) \<and> pk = fst (?docs ! a)}"
      using nt by (auto simp: pos)
    also have "\<dots> = {pk. \<exists>txt. (pk, txt) \<in> set ?docs \<and> hit ?q txt}"
      by (auto simp: in_set_conv_nth) (metis prod.collapse)
    also have "\<dots> = {pk. \<exists>txt. map_of ?docs pk = Some txt \<and> hit ?q txt}"
      using assms(1) by (auto simp: segment_ok_def)
    finally show ?thesis .
  qed
  ultimately show ?thesis using that hl by blast
qed

section \<open>The durable tier\<close>

definition copies :: "fts_index \<Rightarrow> blobs \<Rightarrow> nat" where
  "copies ix bl =
     (case load_manifest ix bl of Inr m \<Rightarrow> sum_list (map (\<lambda>sm. length (split_docs ix bl sm)) (mf_splits m)) | Inl e \<Rightarrow> 0)"

definition handles :: "fts_index \<Rightarrow> blobs \<Rightarrow> manifest \<Rightarrow> split_handle list" where
  "handles ix bl m = map (\<lambda>sm. (sm_split_id sm, sm_generation sm, split_docs ix bl sm)) (mf_splits m)"

lemma split_live_ids:
  assumes "\<forall>d \<in> set ds. has_id ix d" and "snd ` set hs = {a. a < length ds \<and> P (ds ! a)}"
  shows "c_id ` set (map (candidate_of (ix_id_field ix) ord (sid, g, ds))
      (filter (hit_live t (ix_id_field ix) (sid, g, ds)) hs)) =
    {i. \<exists>d \<in> set ds. doc_live ix t g d \<and> extract_id (ix_id_field ix) d = Some i \<and> P d}"
    (is "?ids = ?spec")
proof (rule set_eqI, rule iffI)
  fix i assume "i \<in> ?ids"
  then obtain x where x: "x \<in> set hs" "hit_live t (ix_id_field ix) (sid, g, ds) x"
    "i = the (extract_id (ix_id_field ix) (ds ! snd x))"
    by (auto simp: candidate_of_def)
  have a: "snd x < length ds" "P (ds ! snd x)" using x(1) assms(2) by blast+
  then have "extract_id (ix_id_field ix) (ds ! snd x) = Some i" using assms(1) x(3) by (auto simp: has_id_def)
  moreover from this have "doc_live ix t g (ds ! snd x)" using x(2) by (simp add: hit_live_def doc_live_def)
  ultimately show "i \<in> ?spec" using a(2) nth_mem [OF a(1)] by blast
next
  fix i assume "i \<in> ?spec"
  then obtain a where a: "a < length ds" "doc_live ix t g (ds ! a)" "extract_id (ix_id_field ix) (ds ! a) = Some i" "P (ds ! a)"
    by (auto simp: in_set_conv_nth)
  have "a \<in> snd ` set hs" using a(1,4) assms(2) by simp
  then obtain x where x: "x \<in> set hs" "snd x = a" by (rule imageE) blast
  then have "hit_live t (ix_id_field ix) (sid, g, ds) x" using a(2,3) by (simp add: hit_live_def doc_live_def)
  then have "candidate_of (ix_id_field ix) ord (sid, g, ds) x \<in> set (map (candidate_of (ix_id_field ix) ord (sid, g, ds))
      (filter (hit_live t (ix_id_field ix) (sid, g, ds)) hs))" using x(1) by simp
  moreover have "i = c_id (candidate_of (ix_id_field ix) ord (sid, g, ds) x)" using x(2) a(3) by (simp add: candidate_of_def)
  ultimately show "i \<in> ?ids" by (rule rev_image_eqI)
qed

lemma all_live_ids:
  assumes "text_ranks rank hit" and "parses (split_ranking rank) q" and "\<forall>sm \<in> set (mf_splits m). split_present ix bl sm"
  shows "c_id ` set (all_live (split_ranking rank) q t (ix_id_field ix) (handles ix bl m)) =
    {i. \<exists>d \<in> set (live_docs ix bl m t). extract_id (ix_id_field ix) d = Some i \<and> hit q (doc_text body_field d)}"
proof -
  have hits: "snd ` set (the (split_ranking rank q ds)) = {a. a < length ds \<and> hit q (doc_text body_field (ds ! a))}" for ds
  proof -
    obtain hs where "split_ranking rank q ds = Some hs" using assms(2) by (auto simp: parses_def)
    then show ?thesis using text_ranks_map [OF assms(1)] by (simp add: split_ranking_def)
  qed
  have "c_id ` set (concat (map (\<lambda>(ord, sp). map (candidate_of (ix_id_field ix) ord sp)
      (filter (hit_live t (ix_id_field ix) sp) (the (split_ranking rank q (snd (snd sp))))))
      (enumerate n (map (\<lambda>sm. (sm_split_id sm, sm_generation sm, split_docs ix bl sm)) sms)))) =
    {i. \<exists>d \<in> set (concat (map (\<lambda>sm. filter (doc_live ix t (sm_generation sm)) (split_docs ix bl sm)) sms)).
       extract_id (ix_id_field ix) d = Some i \<and> hit q (doc_text body_field d)}"
    if "\<forall>sm \<in> set sms. split_present ix bl sm" for n sms
    using that
  proof (induction sms arbitrary: n)
    case (Cons sm sms)
    have "\<forall>d \<in> set (split_docs ix bl sm). has_id ix d" using Cons.prems by (auto simp: split_present_def split_docs_def)
    note here = split_live_ids [OF this hits, of n "sm_split_id sm" "sm_generation sm" t]
    show ?case
      unfolding list.map enumerate_simps concat.simps set_append image_Un split snd_conv here
      using Cons.IH [of "Suc n"] Cons.prems by auto
  qed simp
  then show ?thesis using assms(3) by (simp only: all_live_def handles_def live_docs_def)
qed

lemma ranking_length:
  assumes "text_ranks rank hit" and "parses (split_ranking rank) q"
  shows "length (the (split_ranking rank q ds)) \<le> length ds"
proof -
  obtain hs where hs: "split_ranking rank q ds = Some hs" using assms(2) by (auto simp: parses_def)
  then show ?thesis using text_ranks_length [OF assms(1)] by (fastforce simp: split_ranking_def)
qed

lemma all_live_length:
  assumes "text_ranks rank hit" and "parses (split_ranking rank) q"
  shows "length (all_live (split_ranking rank) q t idf splits) \<le> sum_list (map (\<lambda>sp. length (snd (snd sp))) splits)"
proof -
  have "length (concat (map (\<lambda>(ord, sp). map (candidate_of idf ord sp)
      (filter (hit_live t idf sp) (the (split_ranking rank q (snd (snd sp)))))) (enumerate n splits))) \<le>
      sum_list (map (\<lambda>sp. length (snd (snd sp))) splits)" for n
  proof (induction splits arbitrary: n)
    case (Cons sp splits)
    have "length (filter (hit_live t idf sp) (the (split_ranking rank q (snd (snd sp))))) \<le> length (snd (snd sp))"
      using ranking_length [OF assms, of "snd (snd sp)"] length_filter_le le_trans by blast
    then show ?case using Cons.IH [of "Suc n"] by simp
  qed simp
  then show ?thesis by (simp add: all_live_def)
qed

lemma dedup_length: "length (dedup_candidates all) \<le> length all"
  unfolding dedup_candidates_def Let_def by (metis length_enumerate length_filter_le length_map)

lemma doc_text_reproject:
  "engine_index ix \<Longrightarrow> doc_text body_field (reproject (ix_schema ix) d) = doc_text body_field d"
  using map_of_field [of d "ix_schema ix" body_field] by (simp only: doc_text_def reproject_def engine_index_def) simp

lemma collect_candidates_all:
  assumes "text_ranks rank hit" and "parses (split_ranking rank) q" and "docs_have_ids idf splits"
    and "\<forall>sp \<in> set splits. length (snd (snd sp)) \<le> limit"
  shows "collect_candidates (split_ranking rank) q limit t idf 0 splits = Inr (all_live (split_ranking rank) q t idf splits)"
proof -
  have cut: "take limit (the (split_ranking rank q (snd (snd sp)))) = the (split_ranking rank q (snd (snd sp)))"
    if "sp \<in> set splits" for sp
    using ranking_length [OF assms(1,2), of "snd (snd sp)"] assms(4) that by (intro take_all) (meson le_trans)
  have "map (\<lambda>(ord, sp). map (candidate_of idf ord sp)
      (filter (hit_live t idf sp) (take limit (the (split_ranking rank q (snd (snd sp))))))) (enumerate 0 splits) =
    map (\<lambda>(ord, sp). map (candidate_of idf ord sp)
      (filter (hit_live t idf sp) (the (split_ranking rank q (snd (snd sp)))))) (enumerate 0 splits)"
  proof (rule map_cong [OF refl])
    fix x assume "x \<in> set (enumerate 0 splits)"
    then have "fst x < length splits" "splits ! fst x = snd x" by (simp_all add: in_set_enumerate_eq)
    then have "snd x \<in> set splits" by (metis nth_mem)
    from cut [OF this] show "(\<lambda>(ord, sp). map (candidate_of idf ord sp)
        (filter (hit_live t idf sp) (take limit (the (split_ranking rank q (snd (snd sp))))))) x =
      (\<lambda>(ord, sp). map (candidate_of idf ord sp)
        (filter (hit_live t idf sp) (the (split_ranking rank q (snd (snd sp)))))) x"
      by (simp add: case_prod_beta)
  qed
  then show ?thesis
    using collect_candidates_ok [OF text_ranks_ranks [OF assms(1)] assms(3,2), of limit t 0]
    by (simp only: all_live_def)
qed

lemma search_ids_exact:
  assumes "facade_inv env ix bl" and "engine_index ix" and "text_ranks rank hit" and "parses (split_ranking rank) q"
    and "copies ix bl \<le> limit"
  obtains rs where "search_ids (split_ranking rank) ix bl q limit = Inr rs" "length rs \<le> copies ix bl"
    "fst ` set rs = {i. \<exists>d. d \<in># index_contents ix bl \<and> extract_id (ix_id_field ix) d = Some i \<and> hit q (doc_text body_field d)}"
proof -
  obtain m t where ok: "index_ok ix bl m t" using assms(1) by (auto simp: facade_inv_def index_inv_def)
  then have ld: "load_manifest ix bl = Inr m" "load_tombstones ix bl = Inr t"
    and pres: "\<forall>sm \<in> set (mf_splits m). split_present ix bl sm" by (auto simp: index_ok_def)
  let ?idf = "ix_id_field ix" and ?sp = "handles ix bl m"
  let ?all = "all_live (split_ranking rank) q t ?idf ?sp"
  have sum: "sum_list (map (\<lambda>sp. length (snd (snd sp))) ?sp) = copies ix bl"
    by (simp add: copies_def ld handles_def o_def)
  have has: "docs_have_ids ?idf ?sp"
    using pres by (auto simp: docs_have_ids_def handles_def split_present_def split_docs_def has_id_def)
  have each: "\<forall>sp \<in> set ?sp. length (snd (snd sp)) \<le> per_split_limit limit t"
  proof
    fix sp assume "sp \<in> set ?sp"
    then have "length (snd (snd sp)) \<le> copies ix bl"
      unfolding sum [symmetric] by (intro member_le_sum_list) auto
    then show "length (snd (snd sp)) \<le> per_split_limit limit t" using assms(5) by (simp add: per_split_limit_def)
  qed
  define rs where "rs = map (\<lambda>c. (c_id c, h_score (c_hit c))) (sort_key (\<lambda>c. hit_key (c_hit c)) (dedup_candidates ?all))"
  have len: "length rs \<le> copies ix bl"
    using dedup_length [of ?all] all_live_length [OF assms(3,4), of t ?idf ?sp] sum by (simp add: rs_def)
  have "search_ids (split_ranking rank) ix bl q limit = Inr rs"
    using len assms(5) collect_candidates_all [OF assms(3,4) has each, of t] open_splits_ok [OF pres]
    by (simp add: search_ids_def ld multi_split_search_filtered_ids_def handles_def rs_def)
  moreover have "fst ` set rs = {i. \<exists>d. d \<in># index_contents ix bl \<and> extract_id ?idf d = Some i \<and> hit q (doc_text body_field d)}"
  proof -
    have "fst ` set rs = c_id ` set ?all" by (simp add: rs_def image_image dedup_ids)
    also have "\<dots> = {i. \<exists>d \<in> set (live_docs ix bl m t). extract_id ?idf d = Some i \<and> hit q (doc_text body_field d)}"
      by (rule all_live_ids [OF assms(3,4) pres])
    also have "\<dots> = {i. \<exists>d. d \<in># index_contents ix bl \<and> extract_id ?idf d = Some i \<and> hit q (doc_text body_field d)}"
      using doc_text_reproject [OF assms(2)] engine_index_schema [OF assms(2)] by (auto simp: contents_of_ok [OF ok])
    finally show ?thesis .
  qed
  ultimately show ?thesis using that len by blast
qed

section \<open>Both tiers\<close>

lemma doc_text_durable [simp]: "doc_text body_field (durable_doc pk b) = b"
  by (simp add: doc_text_def durable_doc_def id_field_def body_field_def)

text \<open>The uncovered keys among the identifiers of the durable tier are the uncovered rows.\<close>

lemma uncovered_rows:
  assumes "eng_inv env ix st" and "pk \<notin> ls_covered (d_segment (es_def st))"
  shows "(\<exists>d. d \<in># index_contents ix (es_blobs st) \<and> extract_id (ix_id_field ix) d = Some i \<and> parse_i64 i = Some pk \<and> P (doc_text body_field d)) \<longleftrightarrow>
    i64_range pk \<and> i = show_i64 pk \<and> (\<exists>b. es_rows st pk = Some b \<and> P b)"
    (is "?l \<longleftrightarrow> ?r")
proof -
  let ?c = "index_contents ix (es_blobs st)" and ?id = "extract_id (ix_id_field ix)"
  have keys: "\<exists>pk. i64_range pk \<and> ?id d = Some (show_i64 pk)" if "d \<in># ?c" for d
    using that assms(1) by (auto simp: eng_inv_def keys_only_def)
  have held: "durable_of ix (es_blobs st) pk = (case es_rows st pk of None \<Rightarrow> {#} | Some b \<Rightarrow> {#durable_doc pk b#})"
    if "i64_range pk" using that assms by (simp add: eng_inv_def rows_held_def)
  have of_key: "d \<in># durable_of ix (es_blobs st) pk \<longleftrightarrow> d \<in># ?c \<and> ?id d = Some (show_i64 pk)" for d
    by (simp add: durable_of_def)
  show ?thesis
  proof
    assume ?l
    then obtain d where d: "d \<in># ?c" "?id d = Some i" "parse_i64 i = Some pk" "P (doc_text body_field d)" by blast
    obtain p where p: "i64_range p" "i = show_i64 p" using keys [OF d(1)] d(2) by auto
    then have "p = pk" using d(3) by (simp add: i64_range_def)
    then have "d \<in># durable_of ix (es_blobs st) pk" using d p of_key by simp
    then show ?r using held p \<open>p = pk\<close> d(4) by (auto split: option.splits)
  next
    assume r: ?r
    then obtain b where b: "es_rows st pk = Some b" "P b" by blast
    then have "durable_doc pk b \<in># durable_of ix (es_blobs st) pk" using held r by simp
    then show ?l using of_key b r by (intro exI [of _ "durable_doc pk b"]) (simp add: i64_range_def)
  qed
qed

lemma masked_keys:
  "fh_pk ` set (List.map_filter (\<lambda>(i, s). case parse_i64 i of None \<Rightarrow> None
     | Some pk \<Rightarrow> if pk \<in> C then None else Some \<lparr>fh_pk = pk, fh_score = s\<rparr>) rs) =
   {pk. pk \<notin> C \<and> (\<exists>i \<in> fst ` set rs. parse_i64 i = Some pk)}"
  by (induction rs) (auto simp: map_filter_simps split: option.splits if_splits)

lemma union_exact:
  assumes inv: "eng_inv env ix st" and "text_ranks rank hit" and "\<forall>txts. rank (translate_query lower query kind) txts \<noteq> None"
    and "length (ls_docs (d_segment (es_def st))) + copies ix (es_blobs st) \<le> UNION_LIMIT"
  shows "\<exists>hits. union_hits lower rank (d_segment (es_def st)) (Some ix) (es_blobs st) query kind = Inr hits \<and>
    fh_pk ` set hits = {pk. \<exists>txt. es_rows st pk = Some txt \<and> hit (translate_query lower query kind) txt}"
proof -
  let ?ls = "d_segment (es_def st)" and ?q = "translate_query lower query kind" and ?bl = "es_blobs st"
  have f: "facade_inv env ix ?bl" "engine_index ix" "segment_ok ?ls" "rows_held ix ?ls ?bl (es_rows st)"
    using inv by (auto simp: eng_inv_def)
  have parses: "parses (split_ranking rank) ?q" using assms(3) by (simp add: parses_def split_ranking_def)
  have lim: "length (ls_docs ?ls) \<le> UNION_LIMIT" "copies ix ?bl \<le> UNION_LIMIT" using assms(4) by linarith+
  obtain lh where lh: "live_search lower rank ?ls query kind UNION_LIMIT = Inr lh" "length lh \<le> length (ls_docs ?ls)"
    "fh_pk ` set lh = {pk. \<exists>txt. map_of (ls_docs ?ls) pk = Some txt \<and> hit ?q txt}"
    using live_search_exact [OF f(3) assms(2) _ lim(1)] assms(3) by blast
  obtain rs where rs: "search_ids (split_ranking rank) ix ?bl ?q UNION_LIMIT = Inr rs" "length rs \<le> copies ix ?bl"
    "fst ` set rs = {i. \<exists>d. d \<in># index_contents ix ?bl \<and> extract_id (ix_id_field ix) d = Some i \<and> hit ?q (doc_text body_field d)}"
    using search_ids_exact [OF f(1,2) assms(2) parses lim(2)] by blast
  define dh where "dh = List.map_filter (\<lambda>(i, s). case parse_i64 i of None \<Rightarrow> None
    | Some pk \<Rightarrow> if pk \<in> ls_covered ?ls then None else Some \<lparr>fh_pk = pk, fh_score = s\<rparr>) rs"
  have "length dh \<le> length rs" unfolding dh_def map_filter_def by (simp add: length_filter_le)
  then have len: "length (lh @ dh) \<le> UNION_LIMIT" using lh(2) rs(2) assms(4) by simp
  have dur: "fh_pk ` set dh = {pk. pk \<notin> ls_covered ?ls \<and> (\<exists>b. es_rows st pk = Some b \<and> hit ?q b)}"
  proof -
    have "(\<exists>i \<in> fst ` set rs. parse_i64 i = Some pk) \<longleftrightarrow> (\<exists>b. es_rows st pk = Some b \<and> hit ?q b)"
      if pk: "pk \<notin> ls_covered ?ls" for pk
    proof
      assume "\<exists>i \<in> fst ` set rs. parse_i64 i = Some pk"
      then obtain i where "i \<in> fst ` set rs" "parse_i64 i = Some pk" ..
      then show "\<exists>b. es_rows st pk = Some b \<and> hit ?q b"
        using uncovered_rows [OF inv pk, of i "hit ?q"] unfolding rs(3) by blast
    next
      assume b: "\<exists>b. es_rows st pk = Some b \<and> hit ?q b"
      then have "i64_range pk" using f(4) by (auto simp: rows_held_def)
      then show "\<exists>i \<in> fst ` set rs. parse_i64 i = Some pk"
        using b uncovered_rows [OF inv pk, of "show_i64 pk" "hit ?q"] unfolding rs(3) by blast
    qed
    then show ?thesis unfolding dh_def masked_keys by blast
  qed
  have liv: "fh_pk ` set lh = {pk. pk \<in> ls_covered ?ls \<and> (\<exists>b. es_rows st pk = Some b \<and> hit ?q b)}"
  proof -
    have "fst ` set (ls_docs ?ls) \<subseteq> ls_covered ?ls" using f(3) by (simp add: segment_ok_def)
    then have cov: "pk \<in> ls_covered ?ls" if "map_of (ls_docs ?ls) pk = Some b" for pk b
      using imageI [OF map_of_SomeD [OF that], of fst] by auto
    moreover have "es_rows st pk = map_of (ls_docs ?ls) pk" if "pk \<in> ls_covered ?ls" for pk
      using that f(4) by (simp add: rows_held_def)
    ultimately show ?thesis unfolding lh(3) by (intro Collect_cong) metis
  qed
  have "fh_pk ` set (lh @ dh) = {pk. \<exists>txt. es_rows st pk = Some txt \<and> hit ?q txt}"
    unfolding set_append image_Un liv dur by blast
  moreover have "union_hits lower rank ?ls (Some ix) ?bl query kind = Inr (take UNION_LIMIT (sort_key (\<lambda>h. - fh_score h) (lh @ dh)))"
    by (simp add: union_hits_def lh(1) rs(1) dh_def)
  ultimately show ?thesis using len by simp
qed

end
