(* ===== verification/Fts_Sql.thy ===== *)
theory Fts_Sql
  imports Fts_Live
begin

text \<open>
  The rewriting of full-text predicates in SQL, \<open>bluedb-engine/src/fts_sql.rs\<close>, on the parts of the
  syntax tree that the code inspects: the first \<open>@@\<close> becomes a membership test of the primary key in
  the hits, the first accelerable \<open>LIKE\<close> gets such a test as an additional conjunct. Parsing and
  printing SQL belong to the parser package; a statement is its tree. The parameters of a request are
  their JSON strings, \<open>None\<close> for any other value.
\<close>

section \<open>Trees\<close>

datatype binary_op = AtAt | AndOp | OrOp | OtherOp nat

datatype sql_expr =
    EIdent string
  | ECompound "string list"
  | EString string
  | EPlaceholder string
  | ENumber int
  | ENull
  | EFunction "string list" "sql_expr option list"
  | ELike bool bool sql_expr sql_expr
  | EBinary sql_expr binary_op sql_expr
  | ENested sql_expr
  | EInList sql_expr "sql_expr list" bool
  | ECase sql_expr "sql_expr list" "sql_expr list" sql_expr
  | EOther nat

datatype table_factor = TTable "string list" | TOther

record sql_select =
  sel_from :: "(table_factor \<times> nat) list"
  sel_where :: "sql_expr option"

record sql_query =
  q_select :: "sql_select option"
  q_order_by :: "(sql_expr \<times> bool option) list option"

datatype sql_statement = SQuery sql_query | SOther

datatype sql_rejection = StatementCount nat | FromCount nat | JoinsUnsupported | FromNotTable | BadTsvector | BadTsquery

section \<open>Extraction\<close>

definition fn_last_name :: "(string \<Rightarrow> string) \<Rightarrow> string list \<Rightarrow> string" where
  "fn_last_name lower name = (if name = [] then '''' else lower (last name))"

fun as_string_literal :: "sql_expr \<Rightarrow> string option" where
  "as_string_literal (EString s) = Some s"
| "as_string_literal _ = None"

fun as_query_text :: "sql_expr \<Rightarrow> string option list \<Rightarrow> string option" where
  "as_query_text (EString s) params = Some s"
| "as_query_text (EPlaceholder p) params =
     Option.bind (strip_prefix ''$'' p) (\<lambda>r.
     Option.bind (parse_u64 r) (\<lambda>n.
       if n = 0 then None
       else if unat n - 1 < length params then params ! (unat n - 1) else None))"
| "as_query_text _ params = None"

fun as_identifier :: "sql_expr \<Rightarrow> string option" where
  "as_identifier (EIdent v) = Some v"
| "as_identifier (ECompound parts) = (if parts = [] then None else Some (last parts))"
| "as_identifier _ = None"

definition fn_args :: "sql_expr option list \<Rightarrow> sql_expr list" where
  "fn_args args = List.map_filter (\<lambda>a. a) args"

fun parse_tsvector :: "(string \<Rightarrow> string) \<Rightarrow> sql_expr \<Rightarrow> (string \<times> string) option" where
  "parse_tsvector lower (EFunction name args) =
     (if fn_last_name lower name = ''to_tsvector'' then
        (case fn_args args of
           [c, col] \<Rightarrow>
             Option.bind (as_string_literal c) (\<lambda>config.
             Option.bind (as_identifier col) (\<lambda>column. Some (config, column)))
         | _ \<Rightarrow> None)
      else None)"
| "parse_tsvector lower _ = None"

definition tsquery_kind :: "string \<Rightarrow> ts_query_kind option" where
  "tsquery_kind name =
     (if name = ''to_tsquery'' then Some ToTsQuery
      else if name = ''plainto_tsquery'' then Some Plain
      else if name = ''websearch_to_tsquery'' then Some Websearch
      else None)"

fun parse_tsquery :: "(string \<Rightarrow> string) \<Rightarrow> sql_expr \<Rightarrow> string option list \<Rightarrow> (ts_query_kind \<times> string) option" where
  "parse_tsquery lower (EFunction name args) params =
     Option.bind (tsquery_kind (fn_last_name lower name)) (\<lambda>kind.
       case fn_args args of
         [a] \<Rightarrow> Option.bind (as_query_text a params) (\<lambda>q. Some (kind, q))
       | _ \<Rightarrow> None)"
| "parse_tsquery lower _ params = None"

definition or_else :: "'a option \<Rightarrow> 'a option \<Rightarrow> 'a option" where
  "or_else a b = (case a of Some x \<Rightarrow> Some x | None \<Rightarrow> b)"

fun find_at_at :: "sql_expr \<Rightarrow> (sql_expr \<times> sql_expr) option" where
  "find_at_at (EBinary l op r) = (if op = AtAt then Some (l, r) else or_else (find_at_at l) (find_at_at r))"
| "find_at_at (ENested e) = find_at_at e"
| "find_at_at _ = None"

record fts_predicate =
  fp_table :: string
  fp_column :: string
  fp_config :: string
  fp_query :: string
  fp_kind :: ts_query_kind

definition last_part :: "string list \<Rightarrow> string" where
  "last_part name = (if name = [] then '''' else last name)"

definition extract_fts_predicate ::
  "(string \<Rightarrow> string) \<Rightarrow> sql_statement list \<Rightarrow> string option list \<Rightarrow> sql_rejection + fts_predicate option" where
  "extract_fts_predicate lower stmts params =
     (case stmts of
        [SQuery q] \<Rightarrow>
          (case q_select q of
             None \<Rightarrow> Inr None
           | Some s \<Rightarrow>
               (case Option.bind (sel_where s) find_at_at of
                  None \<Rightarrow> Inr None
                | Some (lhs, rhs) \<Rightarrow>
                    (case sel_from s of
                       [(t, joins)] \<Rightarrow>
                         if joins \<noteq> 0 then Inl JoinsUnsupported
                         else
                           (case t of
                              TOther \<Rightarrow> Inl FromNotTable
                            | TTable name \<Rightarrow>
                                and_then (ok_or BadTsvector (parse_tsvector lower lhs)) (\<lambda>(config, column).
                                and_then (ok_or BadTsquery (parse_tsquery lower rhs params)) (\<lambda>(kind, query).
                                  Inr (Some \<lparr>fp_table = last_part name, fp_column = column, fp_config = config,
                                             fp_query = query, fp_kind = kind\<rparr>))))
                     | from \<Rightarrow> Inl (FromCount (length from)))))
      | [SOther] \<Rightarrow> Inr None
      | _ \<Rightarrow> Inl (StatementCount (length stmts)))"

section \<open>Accelerated LIKE\<close>

record like_predicate =
  lp_table :: string
  lp_column :: string
  lp_literal :: string

fun find_like :: "sql_expr \<Rightarrow> (string \<times> string) option" where
  "find_like (ELike negated any col pattern) =
     (if negated \<or> any then None
      else Option.bind (as_identifier col) (\<lambda>column.
           Option.bind (as_string_literal pattern) (\<lambda>pat. Some (column, pat))))"
| "find_like (EBinary l op r) = or_else (find_like l) (find_like r)"
| "find_like (ENested e) = find_like e"
| "find_like _ = None"

definition clean_infix_core :: "string \<Rightarrow> string option" where
  "clean_infix_core pattern =
     (let after_prefix = (case strip_prefix ''%'' pattern of Some r \<Rightarrow> r | None \<Rightarrow> pattern);
        core = (case strip_suffix ''%'' after_prefix of Some r \<Rightarrow> r | None \<Rightarrow> after_prefix) in
      if length (utf8_chars core) < 3 then None
      else if CHR ''%'' \<in> set core \<or> CHR ''_'' \<in> set core then None
      else Some core)"

definition extract_like_predicate :: "sql_statement list \<Rightarrow> like_predicate option" where
  "extract_like_predicate stmts =
     (case stmts of
        [SQuery q] \<Rightarrow>
          Option.bind (q_select q) (\<lambda>s.
          Option.bind (sel_where s) (\<lambda>w.
            case sel_from s of
              [(TTable name, joins)] \<Rightarrow>
                if joins \<noteq> 0 then None
                else
                  Option.bind (find_like w) (\<lambda>(column, pattern).
                  Option.bind (clean_infix_core pattern) (\<lambda>literal.
                    Some \<lparr>lp_table = last_part name, lp_column = column, lp_literal = literal\<rparr>))
            | _ \<Rightarrow> None))
      | _ \<Rightarrow> None)"

definition never_match :: "string \<Rightarrow> sql_expr" where
  "never_match pk_column = EInList (EIdent pk_column) [ENull] False"

definition pk_in :: "string \<Rightarrow> int list \<Rightarrow> sql_expr" where
  "pk_in pk_column pks =
     (if pks = [] then never_match pk_column else EInList (EIdent pk_column) (map ENumber pks) False)"

definition like_where :: "string \<Rightarrow> int list \<Rightarrow> sql_expr \<Rightarrow> sql_expr" where
  "like_where pk_column candidates w = EBinary (pk_in pk_column candidates) AndOp (ENested w)"

definition rewrite_like_query :: "sql_statement list \<Rightarrow> string \<Rightarrow> int list \<Rightarrow> sql_statement option" where
  "rewrite_like_query stmts pk_column candidates =
     (case stmts of
        SQuery q # _ \<Rightarrow>
          Option.bind (q_select q) (\<lambda>s.
          Option.bind (sel_where s) (\<lambda>w.
            Some (SQuery (q\<lparr>q_select := Some (s\<lparr>sel_where := Some (like_where pk_column candidates w)\<rparr>)\<rparr>))))
      | _ \<Rightarrow> None)"

section \<open>Replacement of the full-text operator\<close>

fun replace_at_at :: "sql_expr \<Rightarrow> sql_expr \<Rightarrow> bool \<times> sql_expr" where
  "replace_at_at (EBinary l op r) new =
     (if op = AtAt then (True, new)
      else
        (case replace_at_at l new of
           (True, l') \<Rightarrow> (True, EBinary l' op r)
         | (False, l') \<Rightarrow> (case replace_at_at r new of (b, r') \<Rightarrow> (b, EBinary l' op r'))))"
| "replace_at_at (ENested e) new = (case replace_at_at e new of (b, e') \<Rightarrow> (b, ENested e'))"
| "replace_at_at e new = (False, e)"

fun is_ts_rank :: "(string \<Rightarrow> string) \<Rightarrow> sql_expr \<Rightarrow> bool" where
  "is_ts_rank lower (EFunction name args) = (fn_last_name lower name = ''ts_rank'')"
| "is_ts_rank lower _ = False"

definition rank_case :: "string \<Rightarrow> int list \<Rightarrow> sql_expr" where
  "rank_case pk_column pks =
     ECase (EIdent pk_column) (map ENumber pks) (map (\<lambda>i. ENumber (int i)) [0..<length pks]) (ENumber (int (length pks)))"

definition rewrite_order :: "(string \<Rightarrow> string) \<Rightarrow> string \<Rightarrow> int list \<Rightarrow> sql_expr \<times> bool option \<Rightarrow> sql_expr \<times> bool option" where
  "rewrite_order lower pk_column pks ob =
     (if is_ts_rank lower (fst ob) then (rank_case pk_column pks, Some True) else ob)"

definition rewrite_fts_query ::
  "(string \<Rightarrow> string) \<Rightarrow> sql_statement list \<Rightarrow> string \<Rightarrow> (fts_predicate \<Rightarrow> sql_rejection + int list) \<Rightarrow> string option list \<Rightarrow>
     sql_rejection + sql_statement option" where
  "rewrite_fts_query lower stmts pk_column searcher params =
     and_then (extract_fts_predicate lower stmts params) (\<lambda>pred.
       case pred of
         None \<Rightarrow> Inr None
       | Some p \<Rightarrow>
           and_then (searcher p) (\<lambda>pks.
             case stmts of
               SQuery q # _ \<Rightarrow>
                 (case q_select q of
                    None \<Rightarrow> Inr None
                  | Some s \<Rightarrow>
                      let s' = s\<lparr>sel_where := map_option (\<lambda>w. snd (replace_at_at w (pk_in pk_column pks))) (sel_where s)\<rparr>;
                        ob' = map_option (map (rewrite_order lower pk_column pks)) (q_order_by q) in
                      Inr (Some (SQuery (q\<lparr>q_select := Some s', q_order_by := ob'\<rparr>))))
             | _ \<Rightarrow> Inr None))"

section \<open>The engine's rewriting\<close>

datatype engine_error = Rejected sql_rejection | NoFulltextIndex string string | IndexFailed fts_error

fun index_result :: "fts_error + 'a \<Rightarrow> engine_error + 'a" where
  "index_result (Inl e) = Inl (IndexFailed e)"
| "index_result (Inr x) = Inr x"

fun sql_result :: "sql_rejection + 'a \<Rightarrow> engine_error + 'a" where
  "sql_result (Inl e) = Inl (Rejected e)"
| "sql_result (Inr x) = Inr x"

definition resolve_def :: "index_map \<Rightarrow> string \<Rightarrow> string \<Rightarrow> index_kind \<Rightarrow> index_def option" where
  "resolve_def idx tbl column kind =
     Option.bind (map_of idx tbl) (find (\<lambda>d. d_column d = column \<and> d_kind d = kind))"

definition rewrite_at_at ::
  "(string \<Rightarrow> string) \<Rightarrow> text_ranking \<Rightarrow> index_map \<Rightarrow> blobs \<Rightarrow> sql_statement list \<Rightarrow> string option list \<Rightarrow>
     engine_error + sql_statement option" where
  "rewrite_at_at lower rank idx bl stmts params =
     and_then (sql_result (extract_fts_predicate lower stmts params)) (\<lambda>pred.
       case pred of
         None \<Rightarrow> Inr None
       | Some p \<Rightarrow>
           (case resolve_def idx (fp_table p) (fp_column p) Fulltext of
              None \<Rightarrow> Inl (NoFulltextIndex (fp_table p) (fp_column p))
            | Some def \<Rightarrow>
                and_then (index_result (union_hits lower rank (d_segment def) (d_durable def) bl (fp_query p) (fp_kind p))) (\<lambda>hits.
                  sql_result (rewrite_fts_query lower stmts (d_pk_column def) (\<lambda>_. Inr (map fh_pk hits)) params))))"

definition rewrite_like ::
  "(string \<Rightarrow> string) \<Rightarrow> text_ranking \<Rightarrow> index_map \<Rightarrow> blobs \<Rightarrow> sql_statement list \<Rightarrow> engine_error + sql_statement option" where
  "rewrite_like lower rank idx bl stmts =
     (case extract_like_predicate stmts of
        None \<Rightarrow> Inr None
      | Some p \<Rightarrow>
          (case resolve_def idx (lp_table p) (lp_column p) Trigram of
             None \<Rightarrow> Inr None
           | Some def \<Rightarrow>
               and_then (index_result (union_hits lower rank (d_segment def) (d_durable def) bl
                 (trigramize lower (lp_literal p)) Plain)) (\<lambda>hits.
                 Inr (rewrite_like_query stmts (d_pk_column def) (map fh_pk hits)))))"

definition rewrite_for ::
  "(string \<Rightarrow> string) \<Rightarrow> text_ranking \<Rightarrow> index_map \<Rightarrow> blobs \<Rightarrow> sql_statement list \<Rightarrow> string option list \<Rightarrow>
     engine_error + sql_statement option" where
  "rewrite_for lower rank idx bl stmts params =
     and_then (rewrite_at_at lower rank idx bl stmts params) (\<lambda>r.
       case r of Some s \<Rightarrow> Inr (Some s) | None \<Rightarrow> rewrite_like lower rank idx bl stmts)"

section \<open>Meaning\<close>

text \<open>The value of a condition on a row with the given primary key, in three-valued logic; \<open>None\<close> is
  unknown. The parts that the rewriting does not create have the values \<open>val\<close>.\<close>

fun and3 :: "bool option \<Rightarrow> bool option \<Rightarrow> bool option" where
  "and3 (Some False) _ = Some False"
| "and3 _ (Some False) = Some False"
| "and3 (Some True) (Some True) = Some True"
| "and3 _ _ = None"

fun or3 :: "bool option \<Rightarrow> bool option \<Rightarrow> bool option" where
  "or3 (Some True) _ = Some True"
| "or3 _ (Some True) = Some True"
| "or3 (Some False) (Some False) = Some False"
| "or3 _ _ = None"

fun cond :: "string \<Rightarrow> int \<Rightarrow> (sql_expr \<Rightarrow> bool option) \<Rightarrow> sql_expr \<Rightarrow> bool option" where
  "cond pkc pk val (EBinary l op r) =
     (if op = AndOp then and3 (cond pkc pk val l) (cond pkc pk val r)
      else if op = OrOp then or3 (cond pkc pk val l) (cond pkc pk val r)
      else val (EBinary l op r))"
| "cond pkc pk val (ENested e) = cond pkc pk val e"
| "cond pkc pk val (EInList e es neg) =
     (if e = EIdent pkc \<and> \<not> neg
      then if ENumber pk \<in> set es then Some True else if ENull \<in> set es then None else Some False
      else val (EInList e es neg))"
| "cond pkc pk val e = val e"

text \<open>A row is selected when the condition is true.\<close>

definition selected :: "string \<Rightarrow> int \<Rightarrow> (sql_expr \<Rightarrow> bool option) \<Rightarrow> sql_expr \<Rightarrow> bool" where
  "selected pkc pk val e \<longleftrightarrow> cond pkc pk val e = Some True"

lemma and3_true [simp]: "and3 a b = Some True \<longleftrightarrow> a = Some True \<and> b = Some True"
  by (cases "(a, b)" rule: and3.cases) auto

lemma or3_true [simp]: "or3 a b = Some True \<longleftrightarrow> a = Some True \<or> b = Some True"
  by (cases "(a, b)" rule: or3.cases) auto

lemma pk_in_selected [simp]: "selected pkc pk val (pk_in pkc pks) \<longleftrightarrow> pk \<in> set pks"
  by (auto simp: selected_def pk_in_def never_match_def)

text \<open>The additional conjunct selects, of the rows selected before, those among the candidates.\<close>

lemma like_where_selected:
  "selected pkc pk val (like_where pkc candidates w) \<longleftrightarrow> pk \<in> set candidates \<and> selected pkc pk val w"
  using pk_in_selected [of pkc pk val candidates] by (simp add: like_where_def selected_def)

text \<open>The found predicate is a conjunct of the condition.\<close>

fun like_conjunct :: "sql_expr \<Rightarrow> bool" where
  "like_conjunct (ELike negated any col pattern) = (find_like (ELike negated any col pattern) \<noteq> None)"
| "like_conjunct (EBinary l op r) =
     (op = AndOp \<and> (if find_like l \<noteq> None then like_conjunct l else like_conjunct r))"
| "like_conjunct (ENested e) = like_conjunct e"
| "like_conjunct _ = False"

fun found_like :: "sql_expr \<Rightarrow> sql_expr option" where
  "found_like (ELike negated any col pattern) =
     (if find_like (ELike negated any col pattern) \<noteq> None then Some (ELike negated any col pattern) else None)"
| "found_like (EBinary l op r) = or_else (found_like l) (found_like r)"
| "found_like (ENested e) = found_like e"
| "found_like _ = None"

lemma found_like_iff: "found_like e = None \<longleftrightarrow> find_like e = None"
proof (induction e)
  case (ELike negated any col pattern)
  show ?case by (cases "find_like (ELike negated any col pattern)") (simp_all del: find_like.simps)
qed (auto simp: or_else_def split: option.splits)

lemma conjunct_holds:
  assumes "like_conjunct w" and "found_like w = Some l" and "selected pkc pk val w"
  shows "val l = Some True"
  using assms
proof (induction w)
  case (EBinary a op b)
  then show ?case using found_like_iff [of a] by (auto simp: selected_def or_else_def split: option.splits if_splits)
qed (auto simp: selected_def split: if_splits)

text \<open>With a superset of the matching keys the rewriting of a conjunct keeps the result.\<close>

lemma like_conjunct_exact:
  assumes "like_conjunct w" and "found_like w = Some l" and "val l = Some True \<longrightarrow> pk \<in> set candidates"
  shows "selected pkc pk val (like_where pkc candidates w) \<longleftrightarrow> selected pkc pk val w"
  using conjunct_holds [OF assms(1,2)] assms(3) by (auto simp: like_where_selected)

text \<open>With the value of the operator equal to membership in the hits, its replacement keeps the
  result.\<close>

lemma replace_at_at_none: "find_at_at e = None \<Longrightarrow> replace_at_at e new = (False, e)"
  by (induction e) (auto simp: or_else_def split: option.splits if_splits)

lemma replace_at_at_found: "find_at_at e \<noteq> None \<Longrightarrow> fst (replace_at_at e new)"
  by (induction e) (auto simp: or_else_def replace_at_at_none split: option.splits if_splits prod.splits bool.splits)

text \<open>Where the operator is reached through \<open>AND\<close>, \<open>OR\<close> and parentheses.\<close>

fun at_at_reached :: "sql_expr \<Rightarrow> bool" where
  "at_at_reached (EBinary l op r) =
     (op = AtAt \<or> (op = AndOp \<or> op = OrOp) \<and> (if find_at_at l \<noteq> None then at_at_reached l else at_at_reached r))"
| "at_at_reached (ENested e) = at_at_reached e"
| "at_at_reached _ = False"

lemma replace_at_at_exact:
  assumes "at_at_reached w" and "find_at_at w = Some (l, r)" and "cond pkc pk val new = val (EBinary l AtAt r)"
  shows "cond pkc pk val (snd (replace_at_at w new)) = cond pkc pk val w"
  using assms
proof (induction w)
  case (EBinary a op b)
  show ?case
  proof (cases "op = AtAt")
    case True
    then show ?thesis using EBinary.prems by simp
  next
    case False
    show ?thesis
    proof (cases "find_at_at a")
      case None
      then show ?thesis
        using EBinary False replace_at_at_none [OF None]
        by (auto simp: or_else_def split: prod.splits)
    next
      case (Some x)
      then have "fst (replace_at_at a new)" by (intro replace_at_at_found) simp
      then show ?thesis
        using EBinary False Some by (auto simp: or_else_def split: prod.splits bool.splits)
    qed
  qed
qed (auto split: prod.splits)

section \<open>The candidates of an accelerated LIKE\<close>

lemma union_hits_length: "union_hits lower rank ls durable bl query kind = Inr hits \<Longrightarrow> length hits \<le> UNION_LIMIT"
  by (auto simp: union_hits_def and_then_Inr_iff)

lemma rewrite_like_where:
  assumes "rewrite_like lower rank idx bl [SQuery q] = Inr (Some st')" and "q_select q = Some s" and "sel_where s = Some w"
  obtains def candidates where "length candidates \<le> UNION_LIMIT"
    "st' = SQuery (q\<lparr>q_select := Some (s\<lparr>sel_where := Some (like_where (d_pk_column def) candidates w)\<rparr>)\<rparr>)"
    "\<exists>p. extract_like_predicate [SQuery q] = Some p \<and> resolve_def idx (lp_table p) (lp_column p) Trigram = Some def"
proof -
  obtain p def hits where p: "extract_like_predicate [SQuery q] = Some p" "resolve_def idx (lp_table p) (lp_column p) Trigram = Some def"
    and u: "index_result (union_hits lower rank (d_segment def) (d_durable def) bl (trigramize lower (lp_literal p)) Plain) = Inr hits"
    and r: "rewrite_like_query [SQuery q] (d_pk_column def) (map fh_pk hits) = Some st'"
    using assms(1) by (auto simp: rewrite_like_def and_then_Inr_iff split: option.splits)
  have "union_hits lower rank (d_segment def) (d_durable def) bl (trigramize lower (lp_literal p)) Plain = Inr hits"
    using u by (cases "union_hits lower rank (d_segment def) (d_durable def) bl (trigramize lower (lp_literal p)) Plain") auto
  then have "length (map fh_pk hits) \<le> UNION_LIMIT" using union_hits_length by simp
  moreover have "st' = SQuery (q\<lparr>q_select := Some (s\<lparr>sel_where := Some (like_where (d_pk_column def) (map fh_pk hits) w)\<rparr>)\<rparr>)"
    using r assms(2,3) by (simp add: rewrite_like_query_def)
  ultimately show ?thesis using that p by blast
qed

end
