(* ===== verification/Fts_Properties.thy ===== *)
theory Fts_Properties
  imports Fts_Union Fts_Sql
begin

text \<open>
  The properties of full-text search, with instances on a store of two documents and a table of two
  rows, and the cases in which rows disappear from its results.
\<close>

section \<open>Runs of an index\<close>


lemma index_inv_empty: "index_inv ix []"
proof -
  have "index_ok ix [] (manifest_new (ix_index_id ix)) (tombstones_new (ix_index_id ix))"
    by (simp add: index_ok_def load_manifest_def load_tombstones_def manifest_ok_def manifest_new_def
        tombstones_new_def deletes_up_to_def is_deleted_at_def)
  then show ?thesis by (rule index_invI)
qed




section \<open>The index\<close>


definition sample_env :: fts_env where
  "sample_env = \<lparr>e_build = rev, e_size = (\<lambda>ds. of_nat (length ds))\<rparr>"

definition sample_index :: fts_index where
  "sample_index = \<lparr>ix_index_id = ''i'', ix_schema = [0, 1], ix_id_field = 0,
     ix_policy = \<lparr>max_splits = 0, max_tombstone_ratio = 1, min_splits_to_merge = 1\<rparr>\<rparr>"


lemma sample_ok: "builds sample_env" "schema_ok sample_index"
  by (simp_all add: builds_def sample_env_def schema_ok_def sample_index_def)


lemma room_empty: "room ix []"
  by (simp add: room_def load_manifest_def manifest_new_def max_generation_def)






section \<open>Search\<close>







section \<open>The engine\<close>









section \<open>Rows that searches miss\<close>

text \<open>C39. A row that is deleted and inserted again with the same key before the next seal is lost to
  search: the live segment does not forget the deletion when the key is indexed again, so no query
  of the live tier returns it, and the seal that follows leaves no document of it in the durable
  index and clears the live segment.\<close>

theorem reinserted_row_lost:
  assumes "segment_ok ls" and "i64_range pk" and "live_tombstone ls pk = Some l1" and "live_index l1 pk b = Some l2"
    and "facade_inv env ix bl" and "room ix bl" and "engine_index ix" and "\<forall>A. finite A \<longrightarrow> set (iter A) = A"
    and "seal_target env iter l2 ix bl = Some (Inr (), l3, bl')"
  shows "(\<forall>query kind limit hits. live_search lower rank l2 query kind limit = Inr hits \<longrightarrow> pk \<notin> fh_pk ` set hits) \<and>
    ls_docs l3 = [] \<and> ls_covered l3 = {} \<and> durable_of ix bl' pk = {#}"
proof -
  have l2: "ls_tombstones l2 = insert pk (ls_tombstones ls)" "ls_docs l2 = filter (\<lambda>d. fst d \<noteq> pk) (ls_docs ls) @ [(pk, b)]"
    "\<not> ls_sealing l2" "ls_dirty l2"
    using assms(3,4) by (auto simp: live_tombstone_def live_index_def split: if_splits)
  have "pk \<notin> fh_pk ` set hits" if "live_search lower rank l2 query kind limit = Inr hits" for query kind limit hits
    using that l2(1) by (auto simp: live_search_def ensure_fresh_def Let_def dest!: in_set_takeD split: option.splits if_splits)
  moreover define snap l where "snap = \<lparr>sn_docs = filter (\<lambda>d. fst d \<notin> ls_tombstones l2) (ls_docs l2), sn_tombs = ls_tombstones l2\<rparr>"
    and "l = l2\<lparr>ls_sealing := True, ls_reader := ls_docs l2, ls_dirty := False\<rparr>"
  then have sl: "snapshot_for_seal l2 = Some (snap, l)"
    using l2(3,4) by (simp add: snapshot_for_seal_def ensure_fresh_def Let_def)
  have snap: "sn_tombs snap = insert pk (ls_tombstones ls)" "sn_docs snap = filter (\<lambda>d. fst d \<notin> ls_tombstones l2) (ls_docs l2)"
    by (simp_all add: snap_def l2(1))
  obtain ws ws' where ws: "seal_update env ix bl (sn_docs snap) = Inr ws"
    "seal_delete ix (apply_writes ws bl) (iter (sn_tombs snap)) = Inr ws'" "l3 = finish_seal l" "bl' = apply_writes ws' (apply_writes ws bl)"
    using assms(9) sl by (auto simp: seal_target_def Let_def split: sum.splits)
  have dead: "set (iter (sn_tombs snap)) = insert pk (ls_tombstones ls)"
    using assms(1,8) snap(1) by (simp add: segment_ok_def)
  have rng: "\<forall>d \<in> set (sn_docs snap). i64_range (fst d)" "\<forall>p \<in> set (iter (sn_tombs snap)). i64_range p"
    using assms(1,2) l2(2) snap(2) dead by (auto simp: segment_ok_def)
  have "facade_inv env ix (apply_writes ws bl)"
    using sealed_update(1) [OF assms(5-7) rng(1) ws(1), of "length ws"] by simp
  then have "durable_of ix bl' pk = {#}"
    unfolding ws(4) by (rule sealed_delete(3) [OF _ assms(7) rng(2) ws(2)]) (simp add: dead)
  ultimately show ?thesis by (simp add: ws(3) finish_seal_def)
qed

theorem reinserted_row_lost_witness:
  "\<exists>l1 l2 l3 bl'. live_tombstone live_new 7 = Some l1 \<and> live_index l1 7 ''x'' = Some l2 \<and>
     seal_target sample_env sorted_list_of_set l2 (durable_index Fulltext ''t'' ''c'') [] = Some (Inr (), l3, bl') \<and>
     ls_docs l3 = [] \<and> durable_of (durable_index Fulltext ''t'' ''c'') bl' 7 = {#}"
proof -
  let ?ix = "durable_index Fulltext ''t'' ''c''"
  define l1 where "l1 = \<lparr>ls_docs = [], ls_reader = [], ls_tombstones = {7}, ls_covered = {7}, ls_dirty = True, ls_sealing = False\<rparr>"
  define l2 where "l2 = \<lparr>ls_docs = [(7, ''x'')], ls_reader = [], ls_tombstones = {7}, ls_covered = {7}, ls_dirty = True, ls_sealing = False\<rparr>"
  have l: "live_tombstone live_new 7 = Some l1" "live_index l1 7 ''x'' = Some l2"
    by (simp_all add: l1_def l2_def live_tombstone_def live_index_def live_new_def)
  have ok: "segment_ok live_new" "i64_range 7" "facade_inv sample_env ?ix []" "\<forall>A :: int set. finite A \<longrightarrow> set (sorted_list_of_set A) = A"
    using sample_ok(1) engine_index_schema [OF durable_index_ok, of Fulltext "''t''" "''c''"]
    by (simp_all add: segment_ok_def live_new_def i64_range_def facade_inv_def index_inv_empty)
  obtain w where w: "index_delete ?ix [] [show_i64 7] = Inr [w]"
    using index_delete_steps [OF index_inv_empty engine_index_schema [OF durable_index_ok]] by blast
  have s: "seal_target sample_env sorted_list_of_set l2 ?ix [] = Some (Inr (), finish_seal (ensure_fresh (l2\<lparr>ls_sealing := True\<rparr>)), apply_write w [])"
    using w by (simp add: seal_target_def snapshot_for_seal_def ensure_fresh_def l2_def seal_update_def seal_delete_def Let_def)
  from reinserted_row_lost [OF ok(1,2) l ok(3) room_empty durable_index_ok ok(4) s] l s show ?thesis by blast
qed

text \<open>C40. An accelerated LIKE can lose rows: the rewritten condition requires the key to be among the
  candidates of the trigram search, of which there are at most a hundred. Whenever more rows than that
  satisfy the condition, the rewritten query misses one of them, although the condition itself is kept
  to verify candidates.\<close>

theorem like_rewrite_misses_rows:
  assumes "rewrite_like lower rank idx bl [SQuery q] = Inr (Some (SQuery q'))"
    and "q_select q = Some s" and "sel_where s = Some w"
    and "finite R" and "UNION_LIMIT < card R" and "\<forall>pk \<in> R. \<forall>pkc. selected pkc pk (val pk) w"
  shows "\<exists>p def s' w' pk. extract_like_predicate [SQuery q] = Some p \<and>
    resolve_def idx (lp_table p) (lp_column p) Trigram = Some def \<and>
    q_select q' = Some s' \<and> sel_where s' = Some w' \<and> pk \<in> R \<and>
    selected (d_pk_column def) pk (val pk) w \<and> \<not> selected (d_pk_column def) pk (val pk) w'"
proof -
  obtain def candidates where c: "length candidates \<le> UNION_LIMIT"
    "SQuery q' = SQuery (q\<lparr>q_select := Some (s\<lparr>sel_where := Some (like_where (d_pk_column def) candidates w)\<rparr>)\<rparr>)"
    "\<exists>p. extract_like_predicate [SQuery q] = Some p \<and> resolve_def idx (lp_table p) (lp_column p) Trigram = Some def"
    by (rule rewrite_like_where [OF assms(1-3)])
  have "card (set candidates) < card R" using c(1) assms(5) card_length [of candidates] by linarith
  then have "\<not> R \<subseteq> set candidates" using card_mono [of "set candidates" R] by auto
  then obtain pk where pk: "pk \<in> R" "pk \<notin> set candidates" by blast
  then have "\<not> selected (d_pk_column def) pk (val pk) (like_where (d_pk_column def) candidates w)"
    by (simp add: like_where_selected)
  moreover have "q_select q' = Some (s\<lparr>sel_where := Some (like_where (d_pk_column def) candidates w)\<rparr>)" using c(2) by simp
  ultimately show ?thesis using pk(1) c(3) assms(6) by fastforce
qed

definition like_query :: sql_query where
  "like_query = \<lparr>q_select = Some \<lparr>sel_from = [(TTable [''t''], 0)],
     sel_where = Some (ELike False False (EIdent ''c'') (EString ''%abc%''))\<rparr>, q_order_by = None\<rparr>"

definition trigram_map :: index_map where
  "trigram_map = [(''t'', [build_index_def False ''t'' ''c'' ''id'' 1 ''whitespace'' Trigram])]"

lemma core_abc: "clean_infix_core ''%abc%'' = Some ''abc''"
  by code_simp

lemma like_query_predicate:
  "extract_like_predicate [SQuery like_query] = Some \<lparr>lp_table = ''t'', lp_column = ''c'', lp_literal = ''abc''\<rparr>"
  by (simp add: extract_like_predicate_def like_query_def core_abc last_part_def)

theorem like_rewrite_misses_rows_witness:
  "\<exists>q' p def s' w' pk. rewrite_like id (\<lambda>q ts. Some []) trigram_map [] [SQuery like_query] = Inr (Some (SQuery q')) \<and>
     extract_like_predicate [SQuery like_query] = Some p \<and>
     resolve_def trigram_map (lp_table p) (lp_column p) Trigram = Some def \<and>
     q_select q' = Some s' \<and> sel_where s' = Some w' \<and> pk \<in> {0..100} \<and>
     \<not> selected (d_pk_column def) pk (\<lambda>e. Some True) w'"
proof -
  let ?q' = "like_query\<lparr>q_select := Some \<lparr>sel_from = [(TTable [''t''], 0)],
     sel_where = Some (like_where ''id'' [] (ELike False False (EIdent ''c'') (EString ''%abc%'')))\<rparr>\<rparr>"
  have r: "rewrite_like id (\<lambda>q ts. Some []) trigram_map [] [SQuery like_query] = Inr (Some (SQuery ?q'))"
    by (simp add: rewrite_like_def like_query_predicate resolve_def_def trigram_map_def build_index_def_def union_hits_def
        live_search_def live_new_def ensure_fresh_def Let_def rewrite_like_query_def) (simp add: like_query_def)
  let ?w = "ELike False False (EIdent ''c'') (EString ''%abc%'')"
  let ?s = "\<lparr>sel_from = [(TTable [''t''], 0)], sel_where = Some ?w\<rparr>"
  have q: "q_select like_query = Some ?s" "sel_where ?s = Some ?w" by (simp_all add: like_query_def)
  have f: "finite {0..100 :: int}" "UNION_LIMIT < card {0..100 :: int}" by (simp_all add: UNION_LIMIT_def)
  have m: "\<forall>pk \<in> {0..100}. \<forall>pkc. selected pkc pk (\<lambda>e. Some True) ?w" by (simp add: selected_def)
  from like_rewrite_misses_rows [where val = "\<lambda>pk e. Some True", OF r q f m]
  obtain p def s' w' pk where "extract_like_predicate [SQuery like_query] = Some p"
    "resolve_def trigram_map (lp_table p) (lp_column p) Trigram = Some def"
    "q_select ?q' = Some s'" "sel_where s' = Some w'" "pk \<in> {0..100}"
    "\<not> selected (d_pk_column def) pk (\<lambda>e. Some True) w'"
    by (elim exE conjE) (rule that)
  with r show ?thesis by (intro exI conjI)
qed

end
