(* ===== verification/Spec2Isabelle.thy ===== *)
theory Spec2Isabelle
  imports Ledger_Properties Ledger_Keyspace Evidence_Properties Ha_Properties Rest_Properties
    Coll_Properties Coll_Types Coll_Analytic Fts_Properties
begin

text \<open>
  A verification library for bluedb, an object-storage-native database.
\<close>

end
